(* ===== verification/Prelude.thy ===== *)
theory Prelude
  imports Main "HOL-Library.Word"
begin

text \<open>
  Shared vocabulary of the development: the fixed-width integers of the C++ code, the
  ways in which it can stop (an \<open>assert\<close>, \<open>SC_REPORT_FATAL\<close>, \<open>abort()\<close>, an access
  outside an array, a read of an uninitialised variable), the sequencing of steps that
  can stop, and the bytes of an integer as \<open>memcpy\<close> sees them on the little-endian hosts
  the simulator runs on.
\<close>

unbundle bit_operations_syntax

type_synonym u8 = "8 word"
type_synonym u32 = "32 word"
type_synonym u64 = "64 word"

named_theorems bytes_simps \<open>facts that compute with the bytes of machine integers\<close>

section \<open>Results of steps that can stop the simulation\<close>

datatype fault =
    Assertion_failed    \<comment> \<open>a failed \<open>assert\<close>\<close>
  | Sc_fatal            \<comment> \<open>\<open>SC_REPORT_FATAL\<close> or a SystemC elaboration error\<close>
  | Aborted             \<comment> \<open>\<open>abort()\<close> or \<open>exit\<close>\<close>
  | Out_of_range        \<comment> \<open>an access outside an array or a container\<close>
  | Thrown              \<comment> \<open>a C++ exception nobody catches\<close>
  | Indeterminate       \<comment> \<open>the value of an uninitialised variable is used\<close>

type_synonym 'a res = "fault + 'a"

definition res_bind :: "'a res \<Rightarrow> ('a \<Rightarrow> 'b res) \<Rightarrow> 'b res" where
  "res_bind m f = (case m of Inl e \<Rightarrow> Inl e | Inr x \<Rightarrow> f x)"

lemma res_bind_simps [simp]:
  "res_bind (Inl e) f = Inl e"
  "res_bind (Inr x) f = f x"
  by (simp_all add: res_bind_def)

lemma res_bind_eq_Inr:
  "res_bind m f = Inr y \<longleftrightarrow> (\<exists>x. m = Inr x \<and> f x = Inr y)"
  by (cases m) auto

lemma res_bind_eq_Inl:
  "res_bind m f = Inl e \<longleftrightarrow> m = Inl e \<or> (\<exists>x. m = Inr x \<and> f x = Inl e)"
  by (cases m) auto

lemma res_bind_split:
  "P (res_bind m f) \<longleftrightarrow> (\<forall>e. m = Inl e \<longrightarrow> P (Inl e)) \<and> (\<forall>x. m = Inr x \<longrightarrow> P (f x))"
  by (cases m) auto

lemma res_bind_assoc: "res_bind (res_bind m f) g = res_bind m (\<lambda>x. res_bind (f x) g)"
  by (cases m) simp_all

section \<open>Bytes of a machine integer\<close>

text \<open>\<open>le_bytes n w\<close>: the first \<open>n\<close> bytes of the object that holds \<open>w\<close>.\<close>

primrec le_bytes :: "nat \<Rightarrow> 'a::len word \<Rightarrow> u8 list" where
  "le_bytes 0 w = []"
| "le_bytes (Suc n) w = ucast w # le_bytes n (drop_bit 8 w)"

primrec le_word :: "u8 list \<Rightarrow> 'a::len word" where
  "le_word [] = 0"
| "le_word (b # bs) = ucast b OR push_bit 8 (le_word bs)"

text \<open>\<open>poke n src dst\<close>: the buffer \<open>dst\<close> after \<open>memcpy(dst, src, n)\<close>.\<close>

definition poke :: "nat \<Rightarrow> 'a list \<Rightarrow> 'a list \<Rightarrow> 'a list" where
  "poke n src dst = take n src @ drop n dst"

lemma length_le_bytes [simp]: "length (le_bytes n w) = n"
  by (induction n arbitrary: w) simp_all

lemma le_bytes_numeral [bytes_simps]:
  "le_bytes (numeral n) w = ucast w # le_bytes (pred_numeral n) (drop_bit 8 w)"
  by (simp add: numeral_eq_Suc)

lemma le_bytes_zero [simp]: "le_bytes n 0 = replicate n 0"
  by (induction n) simp_all

lemma length_poke [simp]:
  "n \<le> length src \<Longrightarrow> n \<le> length dst \<Longrightarrow> length (poke n src dst) = length dst"
  by (simp add: poke_def)

lemma take_poke [simp]: "n \<le> length src \<Longrightarrow> take n (poke n src dst) = take n src"
  by (simp add: poke_def)

lemma drop_poke [simp]: "n \<le> length src \<Longrightarrow> drop n (poke n src dst) = drop n dst"
  by (simp add: poke_def)

lemma poke_zero [simp]: "poke 0 src dst = dst"
  by (simp add: poke_def)

lemma poke_all: "length src = n \<Longrightarrow> length dst = n \<Longrightarrow> poke n src dst = src"
  by (simp add: poke_def)

lemma poke_poke:
  "n \<le> length src \<Longrightarrow> n \<le> length src' \<Longrightarrow> poke n src (poke n src' dst) = poke n src dst"
  by (simp add: poke_def)

lemma bit_le_word:
  "bit (le_word bs :: 'a::len word) k \<longleftrightarrow>
     k < LENGTH('a) \<and> k div 8 < length bs \<and> bit (bs ! (k div 8)) (k mod 8)"
proof (induction bs arbitrary: k)
  case Nil
  then show ?case by simp
next
  case (Cons b bs)
  show ?case
  proof (cases "k < 8")
    case True
    then show ?thesis by (auto simp: bit_simps)
  next
    case False
    then obtain j where j: "k = j + 8" by (metis add.commute le_Suc_ex not_less)
    have "bit b (j + 8) = False" by (auto dest: bit_imp_le_length)
    moreover have "(j + 8) div 8 = Suc (j div 8)" "(j + 8) mod 8 = j mod 8" by simp_all
    ultimately show ?thesis using j Cons.IH [of j] by (auto simp: bit_simps)
  qed
qed

lemma nth_le_bytes:
  "i < n \<Longrightarrow> le_bytes n w ! i = ucast (drop_bit (8 * i) w)"
proof (induction n arbitrary: i w)
  case 0
  then show ?case by simp
next
  case (Suc n)
  then show ?case by (cases i) (simp_all add: drop_bit_drop_bit add.commute)
qed

lemma le_word_le_bytes:
  assumes "LENGTH('a::len) \<le> 8 * n"
  shows "le_word (le_bytes n (w :: 'a word)) = w"
proof (rule bit_word_eqI)
  fix k assume k: "k < LENGTH('a)"
  with assms have "k div 8 < n" by simp
  then have "bit (le_bytes n w ! (k div 8)) (k mod 8) = bit w (8 * (k div 8) + k mod 8)"
    by (simp add: nth_le_bytes bit_simps)
  with k \<open>k div 8 < n\<close> show "bit (le_word (le_bytes n w) :: 'a word) k = bit w k"
    by (simp add: bit_le_word)
qed

lemma le_bytes_le_word:
  assumes "8 * length bs \<le> LENGTH('a::len)"
  shows "le_bytes (length bs) (le_word bs :: 'a word) = bs"
proof (rule nth_equalityI)
  fix i assume "i < length (le_bytes (length bs) (le_word bs :: 'a word))"
  then have i: "i < length bs" by simp
  show "le_bytes (length bs) (le_word bs :: 'a word) ! i = bs ! i"
  proof (rule bit_word_eqI)
    fix k assume k: "k < LENGTH(8)"
    have "(8 * i + k) div 8 = i" "(8 * i + k) mod 8 = k" using k by auto
    moreover have "8 * i + k < LENGTH('a)" using i k assms by simp
    ultimately show "bit (le_bytes (length bs) (le_word bs :: 'a word) ! i) k = bit (bs ! i) k"
      using i k by (simp add: nth_le_bytes bit_simps bit_le_word)
  qed
qed simp

lemma le_word32_bytes [bytes_simps, simp]: "le_word (le_bytes 4 (w :: u32)) = w"
  by (rule le_word_le_bytes) simp

lemma le_word64_bytes [bytes_simps, simp]: "le_word (le_bytes 8 (w :: u64)) = w"
  by (rule le_word_le_bytes) simp

lemma le_bytes32_word [bytes_simps]: "length bs = 4 \<Longrightarrow> le_bytes 4 (le_word bs :: u32) = bs"
  using le_bytes_le_word [of bs, where ?'a = 32] by simp

lemma le_bytes64_word [bytes_simps]: "length bs = 8 \<Longrightarrow> le_bytes 8 (le_word bs :: u64) = bs"
  using le_bytes_le_word [of bs, where ?'a = 64] by simp

lemma take_le_bytes [bytes_simps]: "take m (le_bytes n w) = le_bytes (min m n) w"
proof (induction n arbitrary: m w)
  case 0
  then show ?case by simp
next
  case (Suc n)
  then show ?case by (cases m) simp_all
qed

lemma unat_ucast32: "unat (ucast (w :: u32) :: u64) = unat w"
proof -
  have "unat w < 2 ^ 64" using unsigned_less [of w, where ?'a = nat] by simp
  then show ?thesis by (simp add: unsigned_ucast_eq take_bit_nat_eq_self_iff)
qed

section \<open>Positions of a two-level numbering\<close>

lemma scaled_offset_inj:
  assumes "n * s + c = n * s' + c'" "c < n" "c' < (n :: nat)"
  shows "s = s' \<and> c = c'"
proof -
  have "(n * s + c) div n = s" "(n * s' + c') div n = s'" using assms(2,3) by simp_all
  with assms(1) show ?thesis by simp
qed

end
