(* ===== verification/Tlm.thy ===== *)
theory Tlm
  imports Prelude
begin

text \<open>
  The TLM-2.0 generic payload as far as the repository uses it, and the contract of a
  blocking target.  A payload is the record of the attributes the code reads and writes;
  \<open>gp_data\<close> is the buffer the data pointer refers to.  The two extensions are those of
  \<open>libsystemctlm-soc\<close> whose fields the code sets: \<open>genattr_extension\<close> (master id, end of
  packet) and \<open>atsattr_extension\<close> (address translation services).
  Times are counted in picoseconds, the resolution every \<open>sc_main\<close> sets.
\<close>

datatype tlm_command = TLM_READ_COMMAND | TLM_WRITE_COMMAND | TLM_IGNORE_COMMAND

datatype tlm_response =
    TLM_OK_RESPONSE
  | TLM_INCOMPLETE_RESPONSE
  | TLM_GENERIC_ERROR_RESPONSE
  | TLM_ADDRESS_ERROR_RESPONSE
  | TLM_COMMAND_ERROR_RESPONSE
  | TLM_BURST_ERROR_RESPONSE
  | TLM_BYTE_ENABLE_ERROR_RESPONSE

record genattr =
  ga_master_id :: u32
  ga_eop :: bool

record atsattr =
  ats_attributes :: u64
  ats_length :: u64
  ats_result_ok :: bool

record gp =
  gp_cmd :: tlm_command
  gp_addr :: u64
  gp_data :: "u8 list"
  gp_len :: nat
  gp_byte_en :: "u8 list option"
  gp_width :: nat
  gp_resp :: tlm_response
  gp_genattr :: "genattr option"
  gp_atsattr :: "atsattr option"

type_synonym sc_time = nat

definition SC_US :: sc_time where "SC_US = 1000000"

type_synonym 's target = "gp \<Rightarrow> sc_time \<Rightarrow> 's \<Rightarrow> (gp \<times> sc_time \<times> 's) res"

text \<open>
  The payload a master fills in before a transfer: \<open>set_command\<close>, \<open>set_address\<close>,
  \<open>set_data_ptr\<close>, \<open>set_data_length\<close>, \<open>set_streaming_width\<close>, with the response
  \<open>TLM_INCOMPLETE_RESPONSE\<close> and no byte enables.
\<close>

definition mk_gp :: "tlm_command \<Rightarrow> u64 \<Rightarrow> u8 list \<Rightarrow> nat \<Rightarrow> gp" where
  "mk_gp cmd addr buf len =
     \<lparr>gp_cmd = cmd, gp_addr = addr, gp_data = buf, gp_len = len, gp_byte_en = None,
      gp_width = len, gp_resp = TLM_INCOMPLETE_RESPONSE, gp_genattr = None, gp_atsattr = None\<rparr>"

lemma mk_gp_simps [simp]:
  "gp_cmd (mk_gp c a b n) = c" "gp_addr (mk_gp c a b n) = a" "gp_data (mk_gp c a b n) = b"
  "gp_len (mk_gp c a b n) = n" "gp_byte_en (mk_gp c a b n) = None"
  "gp_width (mk_gp c a b n) = n" "gp_resp (mk_gp c a b n) = TLM_INCOMPLETE_RESPONSE"
  "gp_genattr (mk_gp c a b n) = None" "gp_atsattr (mk_gp c a b n) = None"
  by (simp_all add: mk_gp_def)

text \<open>
  The two checks that every 32-bit register block of the repository makes before it looks
  at the address: no byte enables, at most four bytes, no streaming.
\<close>

definition reg_access_error :: "gp \<Rightarrow> tlm_response option" where
  "reg_access_error tr =
     (if gp_byte_en tr \<noteq> None then Some TLM_BYTE_ENABLE_ERROR_RESPONSE
      else if 4 < gp_len tr \<or> gp_width tr < gp_len tr then Some TLM_BURST_ERROR_RESPONSE
      else None)"

lemma reg_access_error_None:
  "reg_access_error tr = None \<Longrightarrow>
     gp_byte_en tr = None \<and> gp_len tr \<le> 4 \<and> gp_len tr \<le> gp_width tr"
  by (auto simp: reg_access_error_def split: if_splits)

text \<open>A payload is well formed when its buffer holds at least the length it announces.\<close>

definition gp_ok :: "gp \<Rightarrow> bool" where
  "gp_ok tr \<longleftrightarrow> gp_len tr \<le> length (gp_data tr)"

text \<open>What a target may change in a payload: the data bytes, the response, extensions.\<close>

definition gp_frame :: "gp \<Rightarrow> gp \<Rightarrow> bool" where
  "gp_frame tr tr' \<longleftrightarrow>
     gp_cmd tr' = gp_cmd tr \<and> gp_addr tr' = gp_addr tr \<and> gp_len tr' = gp_len tr \<and>
     gp_byte_en tr' = gp_byte_en tr \<and> gp_width tr' = gp_width tr \<and>
     length (gp_data tr') = length (gp_data tr)"

lemma gp_frame_refl [simp]: "gp_frame tr tr"
  by (simp add: gp_frame_def)

lemma gp_frame_updates [simp]:
  "gp_frame tr (tr\<lparr>gp_resp := r\<rparr>)"
  "gp_frame tr (tr\<lparr>gp_data := b\<rparr>) \<longleftrightarrow> length b = length (gp_data tr)"
  "gp_frame tr (tr\<lparr>gp_data := b, gp_resp := r\<rparr>) \<longleftrightarrow> length b = length (gp_data tr)"
  by (auto simp: gp_frame_def)

lemma gp_frame_trans: "gp_frame a b \<Longrightarrow> gp_frame b c \<Longrightarrow> gp_frame a c"
  by (simp add: gp_frame_def)

lemma gp_frame_ok: "gp_frame a b \<Longrightarrow> gp_ok b = gp_ok a"
  by (simp add: gp_frame_def gp_ok_def)

text \<open>
  The contract of a blocking register target: when its \<open>b_transport\<close> returns, the payload
  has the command, address, length and buffer size it was sent with, and a write has not
  altered the data bytes.
\<close>

locale tlm_target =
  fixes bt :: "'s target"
  assumes bt_frame: "gp_ok tr \<Longrightarrow> bt tr d s = Inr (tr', d', s') \<Longrightarrow> gp_frame tr tr'"
    and bt_write_data: "gp_ok tr \<Longrightarrow> bt tr d s = Inr (tr', d', s') \<Longrightarrow>
      gp_cmd tr = TLM_WRITE_COMMAND \<Longrightarrow> gp_data tr' = gp_data tr"
begin

text \<open>A sequence of transactions on one target, as a driver issues them.\<close>

primrec bt_all :: "gp list \<Rightarrow> sc_time \<Rightarrow> 's \<Rightarrow> (gp list \<times> sc_time \<times> 's) res" where
  "bt_all [] d s = Inr ([], d, s)"
| "bt_all (tr # trs) d s =
     res_bind (bt tr d s) (\<lambda>(tr', d', s').
     res_bind (bt_all trs d' s') (\<lambda>(trs', d'', s''). Inr (tr' # trs', d'', s'')))"

lemma bt_all_frame:
  "\<forall>tr \<in> set trs. gp_ok tr \<Longrightarrow> bt_all trs d s = Inr (trs', d', s') \<Longrightarrow> list_all2 gp_frame trs trs'"
proof (induction trs arbitrary: d s trs')
  case Nil
  then show ?case by simp
next
  case (Cons tr trs)
  then show ?case by (auto simp: res_bind_eq_Inr intro: bt_frame)
qed

end

end
