(* ===== verification/Iconnect.thy ===== *)
theory Iconnect
  imports Tlm
begin

text \<open>
  The interconnect of \<open>iconnect.h\<close>: an address map of \<open>4 * N_TARGETS\<close> entries, one offset
  per initiator, one initiator socket per target.  Memory that the constructor does not
  write (the other entries and offsets) keeps its raw content, which is an argument.
\<close>

section \<open>State\<close>

datatype addrmode = ADDRMODE_RELATIVE | ADDRMODE_ABSOLUTE

record memmap_entry =
  me_addr :: u64
  me_size :: u64
  me_mode :: addrmode
  me_sk :: int

record 't iconnect =
  ic_map :: "memmap_entry list"
  ic_offset :: "u64 list"
  ic_isk :: "'t option list"

definition set_target_offset :: "nat \<Rightarrow> u64 \<Rightarrow> 't iconnect \<Rightarrow> 't iconnect res" where
  "set_target_offset ini off ic =
     (if ini < length (ic_offset ic)
      then Inr (ic\<lparr>ic_offset := (ic_offset ic)[ini := off]\<rparr>)
      else Inl Assertion_failed)"

definition iconnect_new :: "nat \<Rightarrow> memmap_entry list \<Rightarrow> u64 list \<Rightarrow> 't iconnect res" where
  "iconnect_new n_targets raw_map raw_offset =
     res_bind
       (set_target_offset 0 0
          \<lparr>ic_map = raw_map, ic_offset = raw_offset, ic_isk = replicate n_targets None\<rparr>)
       (\<lambda>ic. Inr (ic\<lparr>ic_map := map (\<lambda>e. e\<lparr>me_size := 0\<rparr>) (take n_targets (ic_map ic))
                                @ drop n_targets (ic_map ic)\<rparr>))"

section \<open>Building the address map\<close>

text \<open>The loop of \<open>memmap\<close>: the first entry whose size is 0.\<close>

fun find_free :: "memmap_entry list \<Rightarrow> nat option" where
  "find_free [] = None"
| "find_free (e # es) = (if me_size e = 0 then Some 0 else map_option Suc (find_free es))"

definition memmap ::
  "u64 \<Rightarrow> u64 \<Rightarrow> addrmode \<Rightarrow> int \<Rightarrow> 't \<Rightarrow> 't iconnect \<Rightarrow> (nat \<times> 't iconnect) res" where
  "memmap addr sz mode idx s ic =
     (case find_free (ic_map ic) of
        None \<Rightarrow> Inl Aborted
      | Some i \<Rightarrow>
          let ic' = ic\<lparr>ic_map := (ic_map ic)[i :=
                \<lparr>me_addr = addr, me_size = sz, me_mode = mode,
                 me_sk = (if idx = -1 then int i else idx)\<rparr>]\<rparr>
          in if idx \<noteq> -1 then Inr (i, ic')
             else if length (ic_isk ic) \<le> i then Inl Out_of_range
             else if ic_isk ic ! i \<noteq> None then Inl Sc_fatal
             else Inr (i, ic'\<lparr>ic_isk := (ic_isk ic)[i := Some s]\<rparr>))"

section \<open>Decoding an address\<close>

fun map_address_loop :: "memmap_entry list \<Rightarrow> u64 \<Rightarrow> (int \<times> u64) option" where
  "map_address_loop [] addr = None"
| "map_address_loop (e # es) addr =
     (if me_size e \<noteq> 0 \<and> me_addr e \<le> addr \<and> addr \<le> me_addr e + me_size e
      then Some (me_sk e,
                 case me_mode e of ADDRMODE_RELATIVE \<Rightarrow> addr - me_addr e
                                 | ADDRMODE_ABSOLUTE \<Rightarrow> addr)
      else map_address_loop es addr)"

text \<open>
  The result is the socket index and the offset; a decode error returns socket 0 and does
  not write the offset, which stays \<open>None\<close>: uninitialised.
\<close>

definition map_address :: "'t iconnect \<Rightarrow> u64 \<Rightarrow> int \<times> u64 option" where
  "map_address ic addr =
     (case map_address_loop (ic_map ic) addr of
        Some (sk, off) \<Rightarrow> (sk, Some off)
      | None \<Rightarrow> (0, None))"

definition unmap_offset :: "'t iconnect \<Rightarrow> nat \<Rightarrow> u64 \<Rightarrow> u64 res" where
  "unmap_offset ic target_nr off =
     (if length (ic_isk ic) \<le> target_nr then Inl Sc_fatal
      else if length (ic_map ic) \<le> target_nr then Inl Out_of_range
      else let e = ic_map ic ! target_nr in
        (case me_mode e of
           ADDRMODE_RELATIVE \<Rightarrow>
             if me_size e \<le> off then Inl Sc_fatal else Inr (me_addr e + off)
         | ADDRMODE_ABSOLUTE \<Rightarrow> Inr off))"

section \<open>Transactions\<close>

text \<open>\<open>int sk_idx\<close> returned as \<open>unsigned int\<close>.\<close>

definition target_nr_of :: "int \<Rightarrow> nat" where
  "target_nr_of sk = unat (word_of_int sk :: u32)"

text \<open>The common start of the three forward paths: the target socket and the offset.\<close>

definition route :: "'t iconnect \<Rightarrow> nat \<Rightarrow> u64 \<Rightarrow> (nat \<times> 't \<times> u64 \<times> u64) res" where
  "route ic ini a =
     (if length (ic_offset ic) \<le> ini then Inl Sc_fatal
      else let addr = a + ic_offset ic ! ini;
               (sk, off) = map_address ic addr;
               nr = target_nr_of sk
        in (case off of
              None \<Rightarrow> Inl Indeterminate
            | Some off' \<Rightarrow>
                if length (ic_isk ic) \<le> nr then Inl Out_of_range
                else (case ic_isk ic ! nr of
                        None \<Rightarrow> Inl Sc_fatal
                      | Some t \<Rightarrow> Inr (nr, t, off', addr))))"

definition ic_b_transport ::
  "('t \<Rightarrow> 's target) \<Rightarrow> 't iconnect \<Rightarrow> nat \<Rightarrow> 's target" where
  "ic_b_transport deliver ic ini tr d s =
     res_bind (route ic ini (gp_addr tr)) (\<lambda>(nr, t, off, addr).
     res_bind (deliver t (tr\<lparr>gp_addr := off\<rparr>) d s) (\<lambda>(tr', d', s').
     Inr (tr'\<lparr>gp_addr := addr\<rparr>, d', s')))"

definition ic_transport_dbg ::
  "('t \<Rightarrow> gp \<Rightarrow> 's \<Rightarrow> (nat \<times> gp \<times> 's) res) \<Rightarrow> 't iconnect \<Rightarrow> nat \<Rightarrow> gp \<Rightarrow> 's
     \<Rightarrow> (nat \<times> gp \<times> 's) res" where
  "ic_transport_dbg deliver ic ini tr s =
     res_bind (route ic ini (gp_addr tr)) (\<lambda>(nr, t, off, addr).
     res_bind (deliver t (tr\<lparr>gp_addr := off\<rparr>) s) (\<lambda>(n, tr', s').
     Inr (0, tr'\<lparr>gp_addr := addr\<rparr>, s')))"

record tlm_dmi =
  dmi_start :: u64
  dmi_end :: u64

definition ic_get_direct_mem_ptr ::
  "('t \<Rightarrow> gp \<Rightarrow> tlm_dmi \<Rightarrow> 's \<Rightarrow> (bool \<times> gp \<times> tlm_dmi \<times> 's) res) \<Rightarrow> 't iconnect \<Rightarrow> nat
     \<Rightarrow> gp \<Rightarrow> tlm_dmi \<Rightarrow> 's \<Rightarrow> (bool \<times> gp \<times> tlm_dmi \<times> 's) res" where
  "ic_get_direct_mem_ptr deliver ic ini tr dmi s =
     res_bind (route ic ini (gp_addr tr)) (\<lambda>(nr, t, off, addr).
     res_bind (deliver t (tr\<lparr>gp_addr := off\<rparr>) dmi s) (\<lambda>(r, tr', dmi', s').
     res_bind (unmap_offset ic nr (dmi_start dmi')) (\<lambda>start.
     res_bind (unmap_offset ic nr (dmi_end dmi')) (\<lambda>stop.
     Inr (r, tr', dmi'\<lparr>dmi_start := start, dmi_end := stop\<rparr>, s')))))"

text \<open>
  The ranges that \<open>invalidate_direct_mem_ptr\<close> passes on, one per initiator.  \<open>id\<close> (\<open>ini\<close> here) is the
  index of the target socket the call came from; the code uses it as an index into the
  offsets of the initiators as well.
\<close>

definition ic_invalidate_direct_mem_ptr ::
  "'t iconnect \<Rightarrow> nat \<Rightarrow> u64 \<Rightarrow> u64 \<Rightarrow> (nat \<times> u64 \<times> u64) list res" where
  "ic_invalidate_direct_mem_ptr ic ini start_range end_range =
     res_bind (unmap_offset ic ini start_range) (\<lambda>start.
     res_bind (unmap_offset ic ini end_range) (\<lambda>stop.
     if length (ic_offset ic) \<le> ini then Inl Out_of_range
     else Inr (map (\<lambda>i. (i, start - ic_offset ic ! ini, stop - ic_offset ic ! ini))
                   [0..<length (ic_offset ic)])))"

section \<open>The address map as an abstract decoder\<close>

text \<open>
  Abstractly an entry claims the addresses from its base to base plus size, both included
  (the callers pass the size less one), and a bus decodes an address to the first entry
  that claims it.
\<close>

definition claims_addr :: "memmap_entry \<Rightarrow> u64 \<Rightarrow> bool" where
  "claims_addr e a \<longleftrightarrow>
     me_size e \<noteq> 0 \<and> unat (me_addr e) \<le> unat a \<and> unat a \<le> unat (me_addr e) + unat (me_size e)"

definition entry_offset :: "memmap_entry \<Rightarrow> u64 \<Rightarrow> u64" where
  "entry_offset e a =
     (case me_mode e of ADDRMODE_RELATIVE \<Rightarrow> a - me_addr e | ADDRMODE_ABSOLUTE \<Rightarrow> a)"

definition no_wrap :: "memmap_entry \<Rightarrow> bool" where
  "no_wrap e \<longleftrightarrow> unat (me_addr e) + unat (me_size e) < 2 ^ 64"

text \<open>The used entries come before the free ones.\<close>

definition packed :: "memmap_entry list \<Rightarrow> bool" where
  "packed es \<longleftrightarrow> (\<forall>i j. i < j \<and> j < length es \<and> me_size (es ! i) = 0 \<longrightarrow> me_size (es ! j) = 0)"

text \<open>Every used entry names the socket of its own index: it was added with \<open>idx = -1\<close>.\<close>

definition own_sockets :: "'t iconnect \<Rightarrow> bool" where
  "own_sockets ic \<longleftrightarrow>
     length (ic_isk ic) \<le> length (ic_map ic) \<and> length (ic_isk ic) < 2 ^ 31 \<and>
     (\<forall>i < length (ic_map ic). me_size (ic_map ic ! i) \<noteq> 0 \<longrightarrow>
        me_sk (ic_map ic ! i) = int i \<and> i < length (ic_isk ic))"

lemma unat_add_no_wrap:
  "unat (a :: u64) + unat b < 2 ^ 64 \<Longrightarrow> unat (a + b) = unat a + unat b"
  by (simp add: unat_word_ariths)

lemma claims_addr_word:
  "no_wrap e \<Longrightarrow>
     claims_addr e a \<longleftrightarrow> me_size e \<noteq> 0 \<and> me_addr e \<le> a \<and> a \<le> me_addr e + me_size e"
  by (simp add: claims_addr_def no_wrap_def word_le_nat_alt unat_add_no_wrap)

lemma map_address_loop_find:
  "\<forall>e \<in> set es. no_wrap e \<Longrightarrow>
     map_address_loop es a =
       map_option (\<lambda>e. (me_sk e, entry_offset e a)) (find (\<lambda>e. claims_addr e a) es)"
  by (induction es) (auto simp: claims_addr_word entry_offset_def)

lemma map_address_loop_append:
  "map_address_loop (es @ fs) a =
     (case map_address_loop es a of Some r \<Rightarrow> Some r | None \<Rightarrow> map_address_loop fs a)"
  by (induction es) auto

lemma map_address_loop_free:
  "\<forall>e \<in> set es. me_size e = 0 \<Longrightarrow> map_address_loop es a = None"
  by (induction es) auto

lemma map_address_loop_Some:
  "map_address_loop es a = Some (sk, off) \<Longrightarrow>
     \<exists>i < length es. me_size (es ! i) \<noteq> 0 \<and> me_addr (es ! i) \<le> a \<and>
        a \<le> me_addr (es ! i) + me_size (es ! i) \<and>
        sk = me_sk (es ! i) \<and> off = entry_offset (es ! i) a"
proof (induction es)
  case Nil
  then show ?case by simp
next
  case (Cons e es)
  show ?case
  proof (cases "me_size e \<noteq> 0 \<and> me_addr e \<le> a \<and> a \<le> me_addr e + me_size e")
    case True
    with Cons.prems show ?thesis by (intro exI [of _ 0]) (simp add: entry_offset_def)
  next
    case False
    then have "map_address_loop es a = Some (sk, off)"
      using Cons.prems by (metis map_address_loop.simps(2))
    from Cons.IH [OF this] show ?thesis by (metis length_Cons not_less_eq nth_Cons_Suc)
  qed
qed

lemma find_free_Some:
  "find_free es = Some i \<Longrightarrow>
     i < length es \<and> me_size (es ! i) = 0 \<and> (\<forall>j < i. me_size (es ! j) \<noteq> 0)"
proof (induction es arbitrary: i)
  case Nil
  then show ?case by simp
next
  case (Cons e es)
  show ?case
  proof (cases "me_size e = 0")
    case True
    with Cons.prems show ?thesis by simp
  next
    case False
    with Cons.prems obtain k where "find_free es = Some k" "i = Suc k" by auto
    with Cons.IH [of k] False show ?thesis by (auto simp: less_Suc_eq_0_disj)
  qed
qed

lemma find_free_None: "find_free es = None \<longleftrightarrow> (\<forall>e \<in> set es. me_size e \<noteq> 0)"
  by (induction es) auto

lemma packed_free_tail:
  assumes "packed es" "find_free es = Some i"
  shows "\<forall>e \<in> set (drop i es). me_size e = 0"
proof
  fix e assume "e \<in> set (drop i es)"
  then obtain k where k: "k < length es - i" "e = es ! (i + k)"
    by (auto simp: in_set_conv_nth)
  show "me_size e = 0"
  proof (cases k)
    case 0
    with k find_free_Some [OF assms(2)] show ?thesis by simp
  next
    case (Suc m)
    with k assms(1) find_free_Some [OF assms(2)] show ?thesis
      unfolding packed_def by (metis less_add_same_cancel1 less_diff_conv add.commute zero_less_Suc)
  qed
qed

lemma packed_update:
  assumes "packed es" "find_free es = Some i"
  shows "packed (es[i := e])"
  using assms find_free_Some [OF assms(2)]
  unfolding packed_def by (auto simp: nth_list_update)

lemma region_offset_le: "(b :: u64) \<le> a \<Longrightarrow> a \<le> b + n \<Longrightarrow> a - b \<le> n"
  by uint_arith

section \<open>Properties of the decoder\<close>

text \<open>
  Property C13: on a map whose entries do not run past the end of the address space,
  \<open>map_address\<close> is the abstract decoder: the first entry that claims the address gives
  the socket and the offset, and an address nobody claims is a decode error, which selects
  socket 0 and leaves the offset unwritten.
\<close>

theorem map_address_refines_claims:
  assumes "\<forall>e \<in> set (ic_map ic). no_wrap e"
  shows "map_address ic a =
    (case find (\<lambda>e. claims_addr e a) (ic_map ic) of
       Some e \<Rightarrow> (me_sk e, Some (entry_offset e a))
     | None \<Rightarrow> (0, None))"
  using map_address_loop_find [OF assms, of a]
  by (simp add: map_address_def split: option.splits)

theorem map_address_refines_claims_witness:
  "map_address (\<lparr>ic_map = [\<lparr>me_addr = 0x1000, me_size = 0xff, me_mode = ADDRMODE_RELATIVE,
      me_sk = 0\<rparr>], ic_offset = [0], ic_isk = [Some ()]\<rparr>) 0x1010 = (0, Some 0x10)"
proof -
  let ?e = "\<lparr>me_addr = 0x1000, me_size = 0xff, me_mode = ADDRMODE_RELATIVE, me_sk = 0\<rparr>"
  let ?ic = "\<lparr>ic_map = [?e], ic_offset = [0], ic_isk = [Some ()]\<rparr>"
  have "\<forall>e \<in> set (ic_map ?ic). no_wrap e" by (simp add: no_wrap_def)
  from map_address_refines_claims [OF this, of "0x1010"] show ?thesis
    by (simp add: claims_addr_def entry_offset_def)
qed

text \<open>
  Adding a region to a map whose used entries come first keeps them first,
  and afterwards every address decodes as before, except that an address nobody claimed
  decodes to the new region when it lies in it: earlier regions have priority.
\<close>

theorem memmap_extends_decode:
  assumes "packed (ic_map ic)" "sz \<noteq> 0" "memmap addr sz mode idx s ic = Inr (i, ic')"
  shows "packed (ic_map ic') \<and>
    map_address_loop (ic_map ic') a =
      (case map_address_loop (ic_map ic) a of
         Some r \<Rightarrow> Some r
       | None \<Rightarrow> if addr \<le> a \<and> a \<le> addr + sz
                 then Some (if idx = -1 then int i else idx,
                            if mode = ADDRMODE_RELATIVE then a - addr else a)
                 else None)"
proof -
  let ?es = "ic_map ic"
  let ?e = "\<lparr>me_addr = addr, me_size = sz, me_mode = mode, me_sk = (if idx = -1 then int i else idx)\<rparr>"
  from assms(3) have ff: "find_free ?es = Some i" and es': "ic_map ic' = ?es[i := ?e]"
    by (auto simp: memmap_def Let_def split: option.splits if_splits)
  from find_free_Some [OF ff] have i: "i < length ?es" by simp
  from packed_free_tail [OF assms(1) ff] have free: "\<forall>e \<in> set (drop i ?es). me_size e = 0" .
  then have free': "\<forall>e \<in> set (drop (Suc i) ?es). me_size e = 0"
    by (meson in_mono le_SucI order_refl set_drop_subset_set_drop)
  have "map_address_loop ?es a = map_address_loop (take i ?es) a"
    using map_address_loop_append [of "take i ?es" "drop i ?es" a]
    by (simp add: map_address_loop_free [OF free] split: option.splits)
  moreover have "map_address_loop (?es[i := ?e]) a =
      (case map_address_loop (take i ?es) a of Some r \<Rightarrow> Some r
       | None \<Rightarrow> map_address_loop (?e # drop (Suc i) ?es) a)"
    using i by (simp only: upd_conv_take_nth_drop map_address_loop_append)
  ultimately show ?thesis
    using packed_update [OF assms(1) ff] es' assms(2)
    by (auto simp: map_address_loop_free [OF free'] split: option.splits addrmode.splits)
qed

theorem memmap_extends_decode_witness:
  "\<exists>i ic'. memmap 0x1000 0xff ADDRMODE_RELATIVE (-1) ()
       \<lparr>ic_map = [\<lparr>me_addr = 0, me_size = 0, me_mode = ADDRMODE_RELATIVE, me_sk = 0\<rparr>],
        ic_offset = [0], ic_isk = [None]\<rparr> = Inr (i, ic') \<and>
     map_address_loop (ic_map ic') 0x1010 = Some (0, 0x10)"
proof -
  let ?e = "\<lparr>me_addr = 0, me_size = 0, me_mode = ADDRMODE_RELATIVE, me_sk = 0\<rparr>"
  let ?ic = "\<lparr>ic_map = [?e], ic_offset = [0], ic_isk = [None]\<rparr>"
  let ?ic' = "\<lparr>ic_map = [\<lparr>me_addr = 0x1000, me_size = 0xff, me_mode = ADDRMODE_RELATIVE, me_sk = 0\<rparr>],
               ic_offset = [0], ic_isk = [Some ()]\<rparr>"
  have p: "packed (ic_map ?ic)" by (simp add: packed_def)
  have m: "memmap 0x1000 0xff ADDRMODE_RELATIVE (-1) () ?ic = Inr (0, ?ic')"
    by (simp add: memmap_def)
  have "map_address_loop (ic_map ?ic') 0x1010 = Some (0, 0x10)"
    using memmap_extends_decode [OF p _ m, of "0x1010"] by simp
  with m show ?thesis by blast
qed

text \<open>
  On a bus whose regions were all added with \<open>idx = -1\<close>, \<open>unmap_offset\<close>
  inverts \<open>map_address\<close> at every address of a region but one: the last address of a
  relative region, which \<open>map_address\<close> accepts (its comparison includes base plus size), is
  the one for which \<open>unmap_offset\<close> stops the simulation with a fatal report.
\<close>

theorem unmap_offset_map_address:
  assumes "own_sockets ic" "map_address ic a = (sk, Some off)"
  shows "\<exists>e \<in> set (ic_map ic). me_addr e \<le> a \<and> a \<le> me_addr e + me_size e \<and>
     unmap_offset ic (target_nr_of sk) off =
       (if me_mode e = ADDRMODE_RELATIVE \<and> off = me_size e then Inl Sc_fatal else Inr a)"
proof -
  from assms(2) have "map_address_loop (ic_map ic) a = Some (sk, off)"
    by (auto simp: map_address_def split: option.splits)
  from map_address_loop_Some [OF this] obtain i where
    i: "i < length (ic_map ic)" "me_size (ic_map ic ! i) \<noteq> 0" "me_addr (ic_map ic ! i) \<le> a"
       "a \<le> me_addr (ic_map ic ! i) + me_size (ic_map ic ! i)" "sk = me_sk (ic_map ic ! i)"
       "off = entry_offset (ic_map ic ! i) a" by blast
  with assms(1) have sk: "sk = int i" "i < length (ic_isk ic)" and l: "length (ic_isk ic) < 2 ^ 31"
    by (auto simp: own_sockets_def)
  have nr: "target_nr_of sk = i"
    using sk l by (simp add: target_nr_of_def unat_of_nat)
  have "me_mode (ic_map ic ! i) = ADDRMODE_RELATIVE \<Longrightarrow>
      me_size (ic_map ic ! i) \<le> off \<longleftrightarrow> off = me_size (ic_map ic ! i)"
    using i(3,4,6) region_offset_le by (auto simp: entry_offset_def dest: antisym)
  with i sk nr show ?thesis
    by (intro bexI [of _ "ic_map ic ! i"])
       (auto simp: unmap_offset_def Let_def entry_offset_def split: addrmode.splits)
qed

theorem unmap_offset_map_address_witness:
  "unmap_offset \<lparr>ic_map = [\<lparr>me_addr = 0x1000, me_size = 0xff, me_mode = ADDRMODE_RELATIVE,
      me_sk = 0\<rparr>], ic_offset = [0], ic_isk = [Some ()]\<rparr> 0 0xff = Inl Sc_fatal"
proof -
  let ?ic = "\<lparr>ic_map = [\<lparr>me_addr = 0x1000, me_size = 0xff, me_mode = ADDRMODE_RELATIVE,
      me_sk = 0\<rparr>], ic_offset = [0], ic_isk = [Some ()]\<rparr>"
  have o: "own_sockets ?ic" by (simp add: own_sockets_def)
  have m: "map_address ?ic 0x10ff = (0, Some 0xff)" by (simp add: map_address_def)
  from unmap_offset_map_address [OF o m] show ?thesis by (simp add: target_nr_of_def)
qed

text \<open>
  The constructor clears the offset of initiator 0 and the sizes of the first
  \<open>N_TARGETS\<close> entries only.  What an address decodes to is decided by the raw memory in
  the other three quarters of the map, and every other initiator keeps the raw offset it
  found; with cleared memory nothing decodes and no offset is applied.
\<close>

theorem iconnect_new_raw_memory:
  assumes "iconnect_new n raw_map raw_offset = Inr ic"
  shows "map_address_loop (ic_map ic) a = map_address_loop (drop n raw_map) a \<and>
    (\<forall>k < length raw_offset. ic_offset ic ! k = (if k = 0 then 0 else raw_offset ! k)) \<and>
    ((\<forall>e \<in> set raw_map. me_size e = 0) \<longrightarrow> map_address ic a = (0, None))"
  using assms
  by (auto simp: iconnect_new_def set_target_offset_def map_address_def
      map_address_loop_append map_address_loop_free in_set_dropD split: if_splits)

theorem iconnect_new_raw_memory_witness:
  "\<exists>ic :: unit iconnect. iconnect_new 0
      [\<lparr>me_addr = 0x1000, me_size = 0xff, me_mode = ADDRMODE_RELATIVE, me_sk = 7\<rparr>] [5, 6] = Inr ic \<and>
      map_address_loop (ic_map ic) 0x1001 = Some (7, 1) \<and> ic_offset ic ! 1 = 6"
proof -
  let ?m = "[\<lparr>me_addr = 0x1000, me_size = 0xff, me_mode = ADDRMODE_RELATIVE, me_sk = 7\<rparr>]"
  let ?ic = "\<lparr>ic_map = ?m, ic_offset = [0, 6], ic_isk = []\<rparr> :: unit iconnect"
  have n: "iconnect_new 0 ?m [5, 6] = Inr ?ic"
    by (simp add: iconnect_new_def set_target_offset_def)
  have "map_address_loop (ic_map ?ic) 0x1001 = Some (7, 1)"
    using iconnect_new_raw_memory [OF n, of "0x1001"] by simp
  moreover have "ic_offset ?ic ! 1 = 6"
    using iconnect_new_raw_memory [OF n] by auto
  ultimately show ?thesis using n by blast
qed

section \<open>Forwarded transactions\<close>

text \<open>
  What the forward path relies on: every target bound to the bus keeps the contract of a
  blocking target.
\<close>

locale bus_targets =
  fixes deliver :: "'t \<Rightarrow> 's target"
  assumes targets: "tlm_target (deliver t)"
begin

lemma b_transport_forwards:
  assumes "gp_ok tr" "ic_b_transport deliver ic ini tr d s = Inr (tr', d', s')"
  shows "\<exists>nr t off tr1. route ic ini (gp_addr tr) = Inr (nr, t, off, gp_addr tr') \<and>
     deliver t (tr\<lparr>gp_addr := off\<rparr>) d s = Inr (tr1, d', s') \<and> tr' = tr1\<lparr>gp_addr := gp_addr tr'\<rparr> \<and>
     gp_addr tr' = gp_addr tr + ic_offset ic ! ini \<and>
     gp_frame tr (tr'\<lparr>gp_addr := gp_addr tr\<rparr>) \<and>
     (gp_cmd tr = TLM_WRITE_COMMAND \<longrightarrow> gp_data tr' = gp_data tr)"
proof -
  from assms(2) obtain nr t off addr tr1 where
    r: "route ic ini (gp_addr tr) = Inr (nr, t, off, addr)" and
    dl: "deliver t (tr\<lparr>gp_addr := off\<rparr>) d s = Inr (tr1, d', s')" and tr': "tr' = tr1\<lparr>gp_addr := addr\<rparr>"
    by (auto simp: ic_b_transport_def res_bind_eq_Inr)
  have ok: "gp_ok (tr\<lparr>gp_addr := off\<rparr>)" using assms(1) by (simp add: gp_ok_def)
  have "addr = gp_addr tr + ic_offset ic ! ini"
    using r by (auto simp: route_def Let_def split: if_splits prod.splits option.splits)
  with r dl tr' tlm_target.bt_frame [OF targets ok dl] tlm_target.bt_write_data [OF targets ok dl]
  show ?thesis by (auto simp: gp_frame_def)
qed

text \<open>
  An initiator without an offset sees the bus itself as such a target: the address of its
  payload is what it was.
\<close>

lemma bus_is_target:
  assumes "ini < length (ic_offset ic)" "ic_offset ic ! ini = 0"
  shows "tlm_target (ic_b_transport deliver ic ini)"
proof
  fix tr d s tr' d' s'
  assume "gp_ok tr" "ic_b_transport deliver ic ini tr d s = Inr (tr', d', s')"
  from b_transport_forwards [OF this] assms(2)
  have "gp_frame tr (tr'\<lparr>gp_addr := gp_addr tr\<rparr>)" "gp_addr tr' = gp_addr tr"
    "gp_cmd tr = TLM_WRITE_COMMAND \<longrightarrow> gp_data tr' = gp_data tr" by auto
  then show "gp_frame tr tr'" and "gp_cmd tr = TLM_WRITE_COMMAND \<Longrightarrow> gp_data tr' = gp_data tr"
    by (auto simp: gp_frame_def)
qed

end

end
