(* ===== verification/Register_Map.thy ===== *)
theory Register_Map
  imports Tlm "HOL-Library.AList"
begin

text \<open>
  The register bank of \<open>catapult/register_map.hpp\<close>: a map from addresses to registers,
  each with a stored value, an initial value, a protection flag and optional callbacks.
  A callback may use and update the stored value of its own register and the state \<open>'e\<close> it
  has captured.  Register names only serve the printed tables and are not part of the model.
\<close>

section \<open>A register\<close>

type_synonym ('r, 'e) read_fn = "u64 \<Rightarrow> 'r \<Rightarrow> 'r \<Rightarrow> 'e \<Rightarrow> bool \<times> 'r \<times> 'r \<times> 'e"
type_synonym ('r, 'e) write_fn = "u64 \<Rightarrow> 'r \<Rightarrow> 'r \<Rightarrow> 'e \<Rightarrow> bool \<times> 'r \<times> 'e"

record ('r, 'e) register =
  r_readonly :: bool
  r_initial :: 'r
  r_value :: 'r
  r_readfn :: "('r, 'e) read_fn option"
  r_writefn :: "('r, 'e) write_fn option"

text \<open>The constructors: \<open>Register(n, iv, rfn, wfn)\<close> and its read-only variant.\<close>

definition mk_register ::
  "'r \<Rightarrow> ('r, 'e) read_fn option \<Rightarrow> ('r, 'e) write_fn option \<Rightarrow> bool \<Rightarrow> ('r, 'e) register" where
  "mk_register iv rfn wfn ro =
     \<lparr>r_readonly = ro, r_initial = iv, r_value = iv, r_readfn = rfn, r_writefn = wfn\<rparr>"

text \<open>\<open>Register::read\<close>: success, the output value, the register and the captured state.\<close>

definition reg_read ::
  "('r, 'e) register \<Rightarrow> u64 \<Rightarrow> 'r \<Rightarrow> 'e \<Rightarrow> bool \<times> 'r \<times> ('r, 'e) register \<times> 'e" where
  "reg_read r addr out env =
     (case r_readfn r of
        Some f \<Rightarrow> (case f addr out (r_value r) env of
                     (ok, out', v, env') \<Rightarrow> (ok, out', r\<lparr>r_value := v\<rparr>, env'))
      | None \<Rightarrow> (True, r_value r, r, env))"

definition reg_write ::
  "('r, 'e) register \<Rightarrow> u64 \<Rightarrow> 'r \<Rightarrow> 'e \<Rightarrow> bool \<times> ('r, 'e) register \<times> 'e" where
  "reg_write r addr new_value env =
     (case r_writefn r of
        Some f \<Rightarrow> (case f addr new_value (r_value r) env of
                     (ok, v, env') \<Rightarrow> (ok, r\<lparr>r_value := v\<rparr>, env'))
      | None \<Rightarrow> (True, if r_readonly r then r else r\<lparr>r_value := new_value\<rparr>, env))"

definition reg_reset :: "('r, 'e) register \<Rightarrow> ('r, 'e) register" where
  "reg_reset r = r\<lparr>r_value := r_initial r\<rparr>"

section \<open>The bank\<close>

type_synonym ('r, 'e) register_map = "(u64 \<times> ('r, 'e) register) list"

definition find_register :: "('r, 'e) register_map \<Rightarrow> u64 \<Rightarrow> ('r, 'e) register option" where
  "find_register m addr = map_of m addr"

text \<open>The register a pointer from \<open>find_register\<close> refers to, replaced by \<open>r\<close>.\<close>

definition put_register ::
  "u64 \<Rightarrow> ('r, 'e) register \<Rightarrow> ('r, 'e) register_map \<Rightarrow> ('r, 'e) register_map" where
  "put_register addr r m = AList.map_entry addr (\<lambda>_. r) m"

text \<open>\<open>operator[]\<close> goes through \<open>std::map::at\<close>, which throws for a missing key.\<close>

definition reg_at :: "('r, 'e) register_map \<Rightarrow> u64 \<Rightarrow> 'r res" where
  "reg_at m addr = (case find_register m addr of None \<Rightarrow> Inl Thrown | Some r \<Rightarrow> Inr (r_value r))"

definition reg_at_put :: "u64 \<Rightarrow> 'r \<Rightarrow> ('r, 'e) register_map \<Rightarrow> ('r, 'e) register_map res" where
  "reg_at_put addr v m =
     (case find_register m addr of
        None \<Rightarrow> Inl Thrown
      | Some r \<Rightarrow> Inr (put_register addr (r\<lparr>r_value := v\<rparr>) m))"

definition try_get :: "('r, 'e) register_map \<Rightarrow> u64 \<Rightarrow> 'r \<Rightarrow> bool \<times> 'r" where
  "try_get m addr v =
     (case find_register m addr of None \<Rightarrow> (False, v) | Some r \<Rightarrow> (True, r_value r))"

definition add_register ::
  "u64 \<Rightarrow> ('r, 'e) register \<Rightarrow> ('r, 'e) register_map \<Rightarrow> ('r, 'e) register_map res" where
  "add_register addr r m =
     (if find_register m addr \<noteq> None then Inl Assertion_failed else Inr (m @ [(addr, r)]))"

text \<open>A series of \<open>add\<close> calls.\<close>

fun add_registers ::
  "(u64 \<times> ('r, 'e) register) list \<Rightarrow> ('r, 'e) register_map \<Rightarrow> ('r, 'e) register_map res" where
  "add_registers [] m = Inr m"
| "add_registers ((a, r) # rs) m = res_bind (add_register a r m) (add_registers rs)"

definition map_reset :: "('r, 'e) register_map \<Rightarrow> ('r, 'e) register_map" where
  "map_reset m = map (\<lambda>(a, r). (a, reg_reset r)) m"

definition read_register ::
  "('r, 'e) register_map \<Rightarrow> u64 \<Rightarrow> 'r \<Rightarrow> 'e \<Rightarrow> bool \<times> 'r \<times> ('r, 'e) register_map \<times> 'e" where
  "read_register m addr out env =
     (case find_register m addr of
        None \<Rightarrow> (False, out, m, env)
      | Some r \<Rightarrow> (case reg_read r addr out env of
                    (ok, out', r', env') \<Rightarrow> (ok, out', put_register addr r' m, env')))"

definition write_register ::
  "('r, 'e) register_map \<Rightarrow> u64 \<Rightarrow> 'r \<Rightarrow> 'e \<Rightarrow> bool \<times> ('r, 'e) register_map \<times> 'e" where
  "write_register m addr v env =
     (case find_register m addr of
        None \<Rightarrow> (False, m, env)
      | Some r \<Rightarrow> (case reg_write r addr v env of
                    (ok, r', env') \<Rightarrow> (ok, put_register addr r' m, env')))"

lemmas register_defs = mk_register_def reg_read_def reg_write_def reg_reset_def

section \<open>Lookup after an update\<close>

named_theorems reg_simps \<open>how the bank's operations act on \<open>find_register\<close>\<close>

lemma find_put_register [reg_simps]:
  "find_register (put_register a r m) b =
     (if a = b \<and> find_register m a \<noteq> None then Some r else find_register m b)"
  by (auto simp: find_register_def put_register_def map_of_map_entry split: option.splits)

lemma keys_put_register [reg_simps]: "map fst (put_register a r m) = map fst m"
  by (induction m) (auto simp: put_register_def)

lemma find_reset [reg_simps]:
  "find_register (map_reset m) a = map_option reg_reset (find_register m a)"
  unfolding find_register_def map_reset_def by (induction m) auto

lemma find_append [reg_simps]:
  "find_register (m @ n) a =
     (case find_register m a of Some r \<Rightarrow> Some r | None \<Rightarrow> find_register n a)"
  by (auto simp: find_register_def map_add_def split: option.splits)

lemma find_register_None: "find_register m a = None \<longleftrightarrow> a \<notin> fst ` set m"
  by (simp add: find_register_def map_of_eq_None_iff)

lemma find_register_Some:
  "distinct (map fst m) \<Longrightarrow> find_register m a = Some r \<longleftrightarrow> (a, r) \<in> set m"
  by (simp add: find_register_def)

lemma put_register_same: "find_register m b = Some r \<Longrightarrow> distinct (map fst m) \<Longrightarrow> put_register b r m = m"
  unfolding find_register_def put_register_def
  by (induction m) (auto simp: map_of_eq_None_iff split: if_splits)

text \<open>
  What an access cannot change in a bank: its addresses and everything of its registers but
  the stored value.
\<close>

definition shape :: "('r::zero, 'e) register_map \<Rightarrow> ('r, 'e) register_map" where
  "shape m = map (\<lambda>(a, r). (a, r\<lparr>r_value := 0\<rparr>)) m"

lemma find_shape:
  "find_register (shape m) a = map_option (\<lambda>r. r\<lparr>r_value := 0\<rparr>) (find_register m a)"
  unfolding find_register_def shape_def by (induction m) auto


lemma map_entry_fresh: "a \<notin> fst ` set m \<Longrightarrow> AList.map_entry a f m = m"
  by (induction m) force+

lemma shape_put_value:
  "distinct (map fst m) \<Longrightarrow> find_register m a = Some r \<Longrightarrow>
     shape (put_register a (r\<lparr>r_value := v\<rparr>) m) = shape m"
proof (induction m)
  case Nil
  then show ?case by (simp add: find_register_def)
next
  case (Cons br m)
  obtain b q where "br = (b, q)" by force
  with Cons show ?case
    by (auto simp: put_register_def shape_def find_register_def map_entry_fresh split: if_splits)
qed

lemma keys_shape: "map fst (shape m) = map fst m"
  by (auto simp: shape_def)

lemma shape_reset: "shape (map_reset m) = shape m"
  by (auto simp: shape_def map_reset_def reg_reset_def)

text \<open>Adding registers at new, distinct addresses never meets the assertion.\<close>

lemma add_registers_distinct:
  "distinct (map fst (m @ rs)) \<Longrightarrow> add_registers rs m = Inr (m @ rs)"
proof (induction rs arbitrary: m)
  case Nil
  then show ?case by simp
next
  case (Cons ar rs)
  obtain a r where ar: "ar = (a, r)" by force
  with Cons.prems have "find_register m a = None" by (auto simp: find_register_None)
  with ar Cons.prems show ?case by (simp add: add_register_def Cons.IH [of "m @ [(a, r)]"])
qed

lemma add_registers_eq:
  "distinct (map fst m) \<Longrightarrow>
     add_registers rs m = (if distinct (map fst (m @ rs)) then Inr (m @ rs) else Inl Assertion_failed)"
proof (induction rs arbitrary: m)
  case Nil
  then show ?case by simp
next
  case (Cons ar rs)
  obtain a r where ar: "ar = (a, r)" by force
  show ?case
  proof (cases "a \<in> fst ` set m")
    case True
    then have "find_register m a \<noteq> None" by (simp add: find_register_None)
    with ar True show ?thesis by (auto simp: add_register_def)
  next
    case False
    then have "find_register m a = None" by (simp add: find_register_None)
    with ar False Cons.prems Cons.IH [of "m @ [(a, r)]"] show ?thesis by (auto simp: add_register_def)
  qed
qed

text \<open>
  Reading a register of a bank right after a write returns the written value
  when the register has no callbacks and is not read-only, and the old value when it is
  read-only; the write reports success in both cases, no other register changes, and an
  address without a register is reported as a failure that changes nothing.
\<close>

theorem read_after_write:
  assumes "find_register m a = None \<or> (\<exists>r. find_register m a = Some r \<and>
             r_readfn r = None \<and> r_writefn r = None)"
  shows "case write_register m a v env of (ok, m', env') \<Rightarrow>
     (ok \<longleftrightarrow> find_register m a \<noteq> None) \<and> env' = env \<and>
     read_register m' a out env =
       (case find_register m a of
          None \<Rightarrow> (False, out, m, env)
        | Some r \<Rightarrow> (True, if r_readonly r then r_value r else v, m', env)) \<and>
     (\<forall>b. b \<noteq> a \<longrightarrow> find_register m' b = find_register m b)"
proof -
  have put_same: "find_register m' b = Some r \<Longrightarrow> put_register b r m' = m'"
    for b r and m' :: "('a, 'b) register_map"
    unfolding find_register_def put_register_def
    by (induction m') (auto simp: map_of_eq_None_iff split: if_splits)
  show ?thesis
    using assms
    by (auto simp: write_register_def read_register_def reg_write_def reg_read_def reg_simps
        put_same split: option.splits)
qed

theorem read_after_write_witness:
  "read_register (fst (snd (write_register
      [(0x34, mk_register (5::u32) None None False)] 0x34 7 ()))) 0x34 0 ()
     = (True, 7, [(0x34, \<lparr>r_readonly = False, r_initial = 5, r_value = 7, r_readfn = None,
                          r_writefn = None\<rparr>)], ())"
proof -
  let ?m = "[(0x34 :: u64, mk_register (5::u32) None None False :: (u32, unit) register)]"
  have "find_register ?m 0x34 = None \<or> (\<exists>r. find_register ?m 0x34 = Some r \<and>
      r_readfn r = None \<and> r_writefn r = None)"
    by (simp add: find_register_def mk_register_def)
  from read_after_write [OF this, where v = 7 and env = "()" and out = 0] show ?thesis
    by (simp add: write_register_def find_register_def put_register_def reg_write_def mk_register_def)
qed

text \<open>
  A \<open>reset\<close> brings every register of a bank back to its initial value, whatever
  was written before, and a second reset changes nothing.
\<close>

theorem reset_restores_initial:
  "(\<forall>a. map_option r_value (find_register (map_reset m) a) =
        map_option r_initial (find_register m a)) \<and>
   map_reset (map_reset m) = map_reset m \<and>
   map_reset (put_register b (r\<lparr>r_value := v\<rparr>) m) = map_reset (put_register b r m)"
proof (intro conjI allI)
  show "map_option r_value (find_register (map_reset m) a) = map_option r_initial (find_register m a)" for a
    by (simp add: reg_simps reg_reset_def option.map_comp comp_def)
  show "map_reset (map_reset m) = map_reset m"
    by (auto simp: map_reset_def reg_reset_def)
  show "map_reset (put_register b (r\<lparr>r_value := v\<rparr>) m) = map_reset (put_register b r m)"
    unfolding put_register_def map_reset_def by (induction m) (auto simp: reg_reset_def)
qed

end
