(* ===== verification/Catapult_Address.thy ===== *)
theory Catapult_Address
  imports Prelude
begin

text \<open>
  The address space of the Catapult device: the register types of
  \<open>CatapultDevice::get_address_type\<close> (\<open>catapult/catapult_device.cc\<close>) and the register
  index that \<open>HelloWorldRole\<close> cuts out of an address (\<open>catapult/hello_world.cc\<close>).
\<close>

datatype catapult_register_type = invalid_reg | external_reg | shell_reg | soft_reg | dma_reg

fun register_type_code :: "catapult_register_type \<Rightarrow> 16 word" where
  "register_type_code invalid_reg = 0"
| "register_type_code external_reg = 0x1008"
| "register_type_code shell_reg = 0x0004"
| "register_type_code soft_reg = 0x0808"
| "register_type_code dma_reg = 0x0908"

definition get_register_size :: "catapult_register_type \<Rightarrow> nat" where
  "get_register_size ty = unat (register_type_code ty AND 0x00ff)"

definition core_address_valid_mask :: u64 where "core_address_valid_mask = 0x0000000000ffffff"
definition core_address_zero_mask :: u64 where "core_address_zero_mask = NOT core_address_valid_mask"
definition core_address_type_mask :: u64 where
  "core_address_type_mask = 0x0000000000f00000 OR core_address_zero_mask"
definition shell_reg_addr_test :: u64 where "shell_reg_addr_test = 0x0000000000000000"
definition dma_alias_addr_test :: u64 where "dma_alias_addr_test = 0x0000000000700000"
definition soft_reg_addr_test :: u64 where "soft_reg_addr_test = 0x0000000000800000"
definition dma_reg_addr_test :: u64 where "dma_reg_addr_test = 0x0000000000900000"
definition soft_reg_addr_num_mask :: u64 where "soft_reg_addr_num_mask = 0x00000000001ffff8"
definition soft_reg_addr_num_shift :: nat where "soft_reg_addr_num_shift = 3"
definition mmio_size :: u64 where "mmio_size = core_address_valid_mask + 1"

lemmas address_defs = core_address_valid_mask_def core_address_zero_mask_def
  core_address_type_mask_def shell_reg_addr_test_def dma_alias_addr_test_def
  soft_reg_addr_test_def dma_reg_addr_test_def soft_reg_addr_num_mask_def
  soft_reg_addr_num_shift_def mmio_size_def

definition get_address_type :: "u64 \<Rightarrow> catapult_register_type" where
  "get_address_type address =
     (if address AND NOT core_address_valid_mask \<noteq> 0 then external_reg
      else let a = address AND core_address_type_mask in
        if a = shell_reg_addr_test then shell_reg
        else if a = soft_reg_addr_test then soft_reg
        else if a = dma_reg_addr_test \<or> a = dma_alias_addr_test then dma_reg
        else invalid_reg)"

definition role_reg_index :: "u64 \<Rightarrow> u32" where
  "role_reg_index address =
     ucast (drop_bit soft_reg_addr_num_shift (address AND soft_reg_addr_num_mask))"

section \<open>Masks as arithmetic\<close>

lemma drop_bit_eq_iff: "drop_bit n (a :: u64) = b \<longleftrightarrow> unat a div 2 ^ n = unat b"
  by (simp only: word_unat_eq_iff unat_drop_bit_eq drop_bit_eq_div [where ?'a = nat])

lemma and_not_mask_eq: 
  assumes "n < 64" "unat (c::u64) < 2 ^ (64 - n)"
  shows "a AND NOT (mask n) = push_bit n c \<longleftrightarrow> unat a div 2 ^ n = unat c"
proof -
  have d: "drop_bit n (push_bit n c) = c"
  proof (rule bit_word_eqI)
    fix k assume k: "k < LENGTH(64)"
    show "bit (drop_bit n (push_bit n c)) k = bit c k"
    proof (cases "k + n < 64")
      case True then show ?thesis by (simp add: bit_simps add.commute)
    next
      case False
      have "take_bit (64 - n) c = c" using assms by (simp add: word_unat_eq_iff unsigned_take_bit_eq take_bit_nat_eq_self_iff)
      then have "\<not> bit c k" using False by (metis bit_take_bit_iff diff_le_mono not_less add.commute le_diff_conv less_diff_conv)
      then show ?thesis using False by (simp add: bit_simps)
    qed
  qed
  have e: "a AND NOT (mask n) = push_bit n (drop_bit n a)"
    by (rule bit_word_eqI) (auto simp: bit_simps)
  have "push_bit n (drop_bit n a) = push_bit n c \<longleftrightarrow> drop_bit n a = c"
  proof
    assume "push_bit n (drop_bit n a) = push_bit n c"
    then have "drop_bit n (push_bit n (drop_bit n a)) = c" using d by simp
    moreover have "drop_bit n (push_bit n (drop_bit n a)) = drop_bit n a"
      by (rule bit_word_eqI) (auto simp: bit_simps dest: bit_imp_le_length)
    ultimately show "drop_bit n a = c" by simp
  qed simp
  with e drop_bit_eq_iff show ?thesis by simp
qed

lemma masks_eq:
  "NOT core_address_valid_mask = NOT (mask 24 :: u64)"
  "core_address_type_mask = NOT (mask 20 :: u64)"
  by (simp_all add: address_defs mask_eq_exp_minus_1)

lemma external_iff: "a AND NOT core_address_valid_mask = 0 \<longleftrightarrow> unat a < 2 ^ 24"
  using and_not_mask_eq [of 24 0 a] by (simp add: masks_eq div_eq_0_iff)

lemma address_window_iff:
  "unat (c :: u64) < 2 ^ 44 \<Longrightarrow> a AND core_address_type_mask = push_bit 20 c \<longleftrightarrow> unat a div 2 ^ 20 = unat c"
  unfolding masks_eq by (rule and_not_mask_eq) simp_all

lemma address_test_iff:
  "a AND core_address_type_mask = shell_reg_addr_test \<longleftrightarrow> unat a div 2 ^ 20 = 0"
  "a AND core_address_type_mask = dma_alias_addr_test \<longleftrightarrow> unat a div 2 ^ 20 = 7"
  "a AND core_address_type_mask = soft_reg_addr_test \<longleftrightarrow> unat a div 2 ^ 20 = 8"
  "a AND core_address_type_mask = dma_reg_addr_test \<longleftrightarrow> unat a div 2 ^ 20 = 9"
proof -
  have "shell_reg_addr_test = push_bit 20 0" "dma_alias_addr_test = push_bit 20 7"
    "soft_reg_addr_test = push_bit 20 8" "dma_reg_addr_test = push_bit 20 9"
    by (simp_all add: address_defs push_bit_eq_mult)
  then show
    "a AND core_address_type_mask = shell_reg_addr_test \<longleftrightarrow> unat a div 2 ^ 20 = 0"
    "a AND core_address_type_mask = dma_alias_addr_test \<longleftrightarrow> unat a div 2 ^ 20 = 7"
    "a AND core_address_type_mask = soft_reg_addr_test \<longleftrightarrow> unat a div 2 ^ 20 = 8"
    "a AND core_address_type_mask = dma_reg_addr_test \<longleftrightarrow> unat a div 2 ^ 20 = 9"
    using address_window_iff [of 0 a] address_window_iff [of 7 a] address_window_iff [of 8 a]
      address_window_iff [of 9 a] by simp_all
qed

lemma unat_role_reg_index: "unat (role_reg_index a) = unat a div 8 mod 2 ^ 18"
proof -
  have m: "soft_reg_addr_num_mask = mask 21 AND NOT (mask 3)"
    by (simp add: address_defs mask_eq_exp_minus_1)
  have "role_reg_index a = ucast (take_bit 18 (drop_bit 3 a))"
    unfolding role_reg_index_def m soft_reg_addr_num_shift_def
    by (rule bit_word_eqI) (auto simp: bit_simps)
  moreover have "unat (take_bit 18 (drop_bit 3 a)) = unat a div 8 mod 2 ^ 18"
    unfolding unsigned_take_bit_eq unat_drop_bit_eq take_bit_eq_mod [where ?'a = nat]
      drop_bit_eq_div [where ?'a = nat] by simp
  ultimately show ?thesis by (simp add: unsigned_ucast_eq take_bit_eq_mod)
qed

lemma index_of_window:
  "n div 8 mod 2 ^ 18 = 0x20000 * (n div 2 ^ 20 mod 2) + n mod 0x100000 div (8 :: nat)"
proof -
  have "n div 8 mod (0x20000 * 2) = 0x20000 * (n div 8 div 0x20000 mod 2) + n div 8 mod 0x20000"
    by (rule mod_mult2_eq)
  moreover have "n div 8 div 0x20000 = n div 2 ^ 20" by (simp add: div_mult2_eq [symmetric])
  moreover have "n mod (8 * 0x20000) = 8 * (n div 8 mod 0x20000) + n mod 8" by (rule mod_mult2_eq)
  then have "n mod 0x100000 div 8 = n div 8 mod 0x20000" by simp
  ultimately show ?thesis by simp
qed

lemma get_address_type_eq:
  "get_address_type a =
     (if 2 ^ 24 \<le> unat a then external_reg
      else if unat a div 2 ^ 20 = 0 then shell_reg
      else if unat a div 2 ^ 20 = 8 then soft_reg
      else if unat a div 2 ^ 20 \<in> {7, 9} then dma_reg
      else invalid_reg)"
  using external_iff [of a]
  by (simp only: get_address_type_def Let_def address_test_iff) auto

section \<open>Properties of the address decoder\<close>

text \<open>
  The masks of \<open>get_address_type\<close> cut the 16 MB of the device into 1 MB windows:
  the first is the shell, the eighth and the tenth (an alias) are the DMA registers, the
  ninth the soft registers, every other window is invalid, and everything past 16 MB is
  external.
\<close>

theorem get_address_type_windows:
  "get_address_type a =
     (let n = unat a in
      if 0x1000000 \<le> n then external_reg
      else if n < 0x100000 then shell_reg
      else if 0x800000 \<le> n \<and> n < 0x900000 then soft_reg
      else if (0x700000 \<le> n \<and> n < 0x800000) \<or> (0x900000 \<le> n \<and> n < 0xa00000) then dma_reg
      else invalid_reg)"
proof -
  have "n div 2 ^ 20 = k \<longleftrightarrow> k * 0x100000 \<le> n \<and> n < k * 0x100000 + 0x100000" for n k :: nat
    by auto
  then show ?thesis unfolding get_address_type_eq Let_def by simp
qed

text \<open>
  The register index a role cuts out of an address is the offset in 8-byte steps,
  with one bit that tells the windows apart: the soft registers have the indices below
  \<open>0x20000\<close>, the DMA registers those from there on, the same ones through both of their
  windows, and the two 32-bit halves of a register share an index.  No address of a DMA window
  reaches the register number \<open>0x1c7f0\<close> of the first magic register.
\<close>

theorem role_reg_index_windows:
  assumes "unat a mod 8 = 0"
  shows "(get_address_type a = dma_reg \<longrightarrow>
       unat (role_reg_index a) = 0x20000 + unat a mod 0x100000 div 8 \<and> role_reg_index a \<noteq> 0x1c7f0) \<and>
    (get_address_type a = soft_reg \<longrightarrow> unat (role_reg_index a) = unat a mod 0x100000 div 8) \<and>
    role_reg_index (a + 4) = role_reg_index a"
proof -
  let ?n = "unat a"
  have dma: "get_address_type a = dma_reg \<Longrightarrow> ?n div 2 ^ 20 mod 2 = 1"
    and soft: "get_address_type a = soft_reg \<Longrightarrow> ?n div 2 ^ 20 mod 2 = 0"
    by (auto simp: get_address_type_eq split: if_splits)
  have d: "get_address_type a = dma_reg \<Longrightarrow> unat (role_reg_index a) = 0x20000 + ?n mod 0x100000 div 8"
    unfolding unat_role_reg_index index_of_window by (simp only: dma)
  moreover have "get_address_type a = dma_reg \<Longrightarrow> role_reg_index a \<noteq> 0x1c7f0"
    by (drule d) (auto simp: word_unat_eq_iff)
  moreover have "get_address_type a = soft_reg \<Longrightarrow> unat (role_reg_index a) = ?n mod 0x100000 div 8"
    unfolding unat_role_reg_index index_of_window by (simp only: soft)
  moreover have "role_reg_index (a + 4) = role_reg_index a"
  proof -
    obtain k where k: "?n = 8 * k" using assms by auto
    then have "?n + 4 < 2 ^ 64" using unsigned_less [of a, where ?'a = nat] by simp
    then have "unat (a + 4) = 8 * k + 4" using k by (simp add: unat_word_ariths)
    then show ?thesis
      using k by (simp add: word_unat_eq_iff unat_role_reg_index)
  qed
  ultimately show ?thesis by auto
qed

theorem role_reg_index_windows_witness:
  "get_address_type 0x780000 = dma_reg \<and> unat (role_reg_index 0x780000) = 0x30000 \<and>
   role_reg_index 0x980000 = role_reg_index 0x780000 \<and> role_reg_index 0x780004 = role_reg_index 0x780000"
proof -
  have t: "get_address_type 0x780000 = dma_reg" "get_address_type 0x980000 = dma_reg"
    by (simp_all add: get_address_type_eq)
  then have "unat (role_reg_index 0x780000) = 0x30000" "unat (role_reg_index 0x980000) = 0x30000"
    "role_reg_index 0x780004 = role_reg_index 0x780000"
    using role_reg_index_windows [of "0x780000"] role_reg_index_windows [of "0x980000"] by simp_all
  with t show ?thesis by (simp add: word_unat_eq_iff)
qed

end
