(* ===== verification/Shell_Registers.thy ===== *)
theory Shell_Registers
  imports Register_Map Catapult_Address
begin

text \<open>
  The shell registers of the Catapult device: the table that
  \<open>CatapultDevice::init_shell_registers\<close> (\<open>catapult/catapult_device.cc\<close>) adds to its bank.
  Constants and bit layouts that come from \<open>CatapultShellInterface.h\<close>, which is not in the
  repository, are the fields of the record \<open>shell_consts\<close>; what the read callbacks ask of
  their surroundings (the simulation time in microseconds, the build information made from
  the calendar) is the record \<open>shell_env\<close>.
\<close>

section \<open>The table\<close>

record shell_consts =
  sk_status :: u32            \<comment> \<open>\<open>SHELL_STATUS_REGISTER\<close> with the three healthy bits set\<close>
  sk_capabilities :: u32      \<comment> \<open>\<open>SHELL_CAPABILITIES_REGISTER\<close>: 64-bit registers, extended ASMI\<close>
  sk_engine_id :: u32         \<comment> \<open>\<open>STREAM_DMA_ENGINE_ID_REGISTER\<close> with the slots engine in both HIPs\<close>
  sk_min_buffer_size :: u32   \<comment> \<open>\<open>MIN_FPGA_BUFFER_SIZE\<close>\<close>
  sk_min_num_slots :: u32     \<comment> \<open>\<open>MIN_FPGA_NUM_SLOTS\<close>\<close>
  sk_max_shell_reg :: u32     \<comment> \<open>\<open>MAX_FPGA_NUM_SHELL_REG\<close>\<close>
  sk_soft_reg_cap :: u64      \<comment> \<open>\<open>INTER_ADDR_SOFT_REG_CAPABILITY\<close>\<close>

record shell_env =
  env_usec :: u64             \<comment> \<open>the result of \<open>get_cycle_counter\<close>\<close>
  env_build_info :: u32       \<comment> \<open>\<open>SHELL_BUILD_INFO_REGISTER\<close> of today\<close>

type_synonym shell_register = "(u32, shell_env) register"

definition soft_reg_64b_support_magic_number :: u32 where
  "soft_reg_64b_support_magic_number = 0x50F750F7"

definition build_info_fn :: "(u32, shell_env) read_fn" where
  "build_info_fn addr out v env = (True, env_build_info env, v, env)"

definition cycle_counter0_fn :: "(u32, shell_env) read_fn" where
  "cycle_counter0_fn addr out v env = (True, ucast (env_usec env AND 0x00000000ffffffff), v, env)"

definition cycle_counter1_fn :: "(u32, shell_env) read_fn" where
  "cycle_counter1_fn addr out v env =
     (True, ucast (drop_bit 32 (env_usec env AND 0xffffffff00000000)), v, env)"

text \<open>The three forms of \<open>add\<close>: a read-only value, a writable value, a read callback.\<close>

definition ro :: "u32 \<Rightarrow> shell_register" where "ro v = mk_register v None None True"
definition rw :: "u32 \<Rightarrow> shell_register" where "rw v = mk_register v None None False"
definition rd :: "(u32, shell_env) read_fn \<Rightarrow> shell_register" where "rd f = mk_register 0 (Some f) None True"

definition shell_rows_low :: "(u64 \<times> shell_register) list" where
  "shell_rows_low =
     [
      (0x0034, ro 0), (0x0134, ro 0), (0x0234, ro 0), (0x0334, ro 0),
      (0x0434, ro 0), (0x0534, ro 0), (0x0634, ro 0xff00), (0x0734, ro 0),
      (0x0834, ro 0), (0x0934, ro 0), (0x0a34, ro 0), (0x0b34, ro 0),
      (0x0c34, ro 0), (0x0d34, ro 0xaaaaaaaa), (0x0e34, ro 0xaaaaaaaa), (0x0f34, ro 0),
      (0x1034, ro 0xaaaaaaaa), (0x1134, ro 0xaaaaaaaa), (0x1234, ro 0), (0x1334, ro 0),
      (0x1434, ro 0), (0x1534, ro 0), (0x1634, ro 0), (0x1734, ro 0),
      (0x1834, ro 0), (0x1934, ro 0), (0x1a34, ro 0), (0x1b34, ro 0),
      (0x1c34, ro 0), (0x1d34, ro 0xe01400), (0x1e34, ro 0), (0x1f34, ro 0),
      (0x2034, ro 0), (0x2134, ro 0), (0x2234, ro 0), (0x2334, ro 0),
      (0x2434, ro 0), (0x2534, ro 0), (0x2634, ro 0), (0x2734, ro 0),
      (0x2834, ro 0xaaaaaaaa), (0x2934, ro 0xaaaaaaaa), (0x2a34, ro 0xc0000), (0x2b34, ro 0x100c5002),
      (0x2c34, ro 0), (0x2d34, ro 0), (0x2e34, ro 0), (0x2f34, ro 0),
      (0x3034, ro 0), (0x3134, ro 0), (0x3234, ro 0), (0x3334, ro 0),
      (0x3434, ro 0), (0x3534, ro 0), (0x3634, ro 0), (0x3734, ro 0),
      (0x3834, ro 0), (0x3934, ro 0xd00d0), (0x3a34, ro 0x40004), (0x3b34, rd build_info_fn),
      (0x3c34, ro 0xa311adcf), (0x3d34, ro 0x20000), (0x3e34, ro 0x89abcdef), (0x3f34, ro 0x1234567)]"

definition shell_rows_high :: "shell_consts \<Rightarrow> bool \<Rightarrow> (u64 \<times> shell_register) list" where
  "shell_rows_high c slots_dma =
     [
      (0x4034, ro 0xbed70c), (0x4134, ro 0xfacecafe), (0x4234, rd cycle_counter0_fn), (0x4334, rd cycle_counter1_fn),
      (0x4434, ro (sk_status c)), (0x4534, ro 0), (0x4634, ro 0x1233210), (0x4734, ro 0x1c1a1b00),
      (0x4834, ro (sk_capabilities c)), (0x4934, ro 0x1), (0x4a34, ro 0), (0x4b34, ro (if slots_dma then sk_engine_id c else 0)),
      (0x4c34, ro 0x10001), (0x4d34, ro 0x10001), (0x4e34, ro 0x1), (0x4f34, ro 0),
      (0x5034, ro 0), (0x5134, ro 0), (0x5234, ro 0), (0x5334, ro 0),
      (0x5434, ro 0), (0x5534, ro 0), (0x5634, ro 0), (0x5734, ro 0),
      (0x5834, ro 0), (0x5934, ro 0), (0x5a34, ro 0), (0x5b34, ro 0),
      (0x5c34, ro 0), (0x5d34, ro 0), (0x5e34, ro 0), (0x5f34, ro 0),
      (0x6034, ro 0), (0x6134, ro 0), (0x6234, ro 0), (0x6334, ro 0x9a55),
      (0x6434, ro 0x1), (0x6534, ro 0xd0fac), (0x6634, ro 0), (0x6734, ro 0),
      (0x6834, ro 0), (0x6934, ro 0), (0x6a34, ro 0xdecaf), (0x6b34, ro 0),
      (0x6c34, ro 0), (0x6d34, ro 0), (0x6e34, ro 0), (0x6f34, ro 0),
      (0x7034, ro 0xddecabc7), (0x7134, ro 0xc), (0x7234, ro 0), (0x7334, ro 0),
      (0x7434, ro 0), (0x7534, ro 0), (0x7634, ro 0), (0x7734, ro 0),
      (0x7834, ro 0), (0x7934, ro 0), (0x7a34, ro 0), (0x7b34, ro 0),
      (0x7c34, ro 0), (0x7d34, ro 0), (0x7e34, ro 0), (0x7f34, ro 0)]"

definition shell_rows :: "shell_consts \<Rightarrow> bool \<Rightarrow> (u64 \<times> shell_register) list" where
  "shell_rows c slots_dma = shell_rows_low @ shell_rows_high c slots_dma"

lemmas shell_rows_defs = shell_rows_def shell_rows_low_def shell_rows_high_def

definition asmi_rows :: "(u64 \<times> shell_register) list" where
  "asmi_rows =
     [
      (0x00a4, rw 0xffffffff), (0x01a4, rw 0xffffffff), (0x02a4, rw 0xffffffff), (0x03a4, rw 0xffffffff),
      (0x04a4, rw 0xffffffff), (0x05a4, rw 0xffffffff), (0x06a4, rw 0xffffffff), (0x07a4, rw 0xffffffff),
      (0x08a4, rw 0xffffffff), (0x09a4, rw 0xffffffff), (0x0aa4, rw 0xffffffff), (0x0ba4, rw 0xffffffff),
      (0x0ca4, rw 0xffffffff), (0x0da4, rw 0xffffffff), (0x0ea4, rw 0xffffffff), (0x0fa4, rw 0x80000000),
      (0x10a4, rw 0xffffffff), (0x11a4, rw 0xffffffff), (0x12a4, rw 0xffffffff), (0x13a4, rw 0xffffffff),
      (0x14a4, rw 0xffffffff), (0x15a4, rw 0xffffffff), (0x16a4, rw 0xffffffff), (0x17a4, rw 0xffffffff),
      (0x18a4, rw 0xffffffff), (0x19a4, rw 0xffffffff), (0x1aa4, rw 0xffffffff), (0x1ba4, rw 0xffffffff),
      (0x1ca4, rw 0xffffffff), (0x1da4, rw 0xffffffff), (0x1ea4, rw 0x80000000), (0x1fa4, rw 0x80000000)]"

definition legacy_rows :: "shell_consts \<Rightarrow> (u64 \<times> shell_register) list" where
  "legacy_rows c =
     [(0x04f4, ro (sk_min_buffer_size c)), (0x05f4, ro (sk_min_num_slots c)), (0x06f4, ro (sk_max_shell_reg c))]"

definition soft_cap_address :: "u64 \<Rightarrow> nat \<Rightarrow> u64" where
  "soft_cap_address k i = push_bit 8 (of_nat i) OR push_bit 4 k OR 4"

definition soft_cap_rows :: "shell_consts \<Rightarrow> (u64 \<times> shell_register) list" where
  "soft_cap_rows c =
     map (\<lambda>i. (soft_cap_address (sk_soft_reg_cap c) i, ro soft_reg_64b_support_magic_number)) [0..<32]"

definition shell_table :: "shell_consts \<Rightarrow> bool \<Rightarrow> (u64 \<times> shell_register) list" where
  "shell_table c slots_dma = shell_rows c slots_dma @ asmi_rows @ legacy_rows c @ soft_cap_rows c"

definition init_shell_registers :: "shell_consts \<Rightarrow> bool \<Rightarrow> (u32, shell_env) register_map res" where
  "init_shell_registers c slots_dma = add_registers (shell_table c slots_dma) []"

section \<open>The addresses of the table\<close>

text \<open>Every address of the table is a row number and a low byte.\<close>

definition shell_key :: "u64 \<Rightarrow> nat \<Rightarrow> u64" where "shell_key lo i = lo + 0x100 * of_nat i"

lemma shell_rows_keys: "map fst (shell_rows c s) = map (shell_key 0x34) [0..<128]"
  by (simp add: shell_rows_defs shell_key_def upt_conv_Cons)

lemma asmi_rows_keys: "map fst asmi_rows = map (shell_key 0xa4) [0..<32]"
  by (simp add: asmi_rows_def shell_key_def upt_conv_Cons)

lemma legacy_rows_keys: "map fst (legacy_rows c) = map (shell_key 0xf4) [4, 5, 6]"
  by (simp add: legacy_rows_def shell_key_def)

lemma soft_cap_key:
  assumes "unat k < 16"
  shows "soft_cap_address k i = shell_key (push_bit 4 k + 4) i"
proof -
  have "take_bit 4 k = k" using assms by (simp add: word_unat_eq_iff unsigned_take_bit_eq take_bit_nat_eq_self_iff)
  then have hi: "bit k j \<Longrightarrow> j < 4" for j by (metis bit_take_bit_iff)
  have four: "(4 :: int) = push_bit 2 1" by simp
  have bit4: "bit (4 :: int) j \<longleftrightarrow> j = 2" for j
    by (simp only: four bit_push_bit_iff bit_1_iff) auto
  have "push_bit 4 k + 4 = push_bit 4 k OR 4"
    by (rule disjunctive_add_eq_or, rule bit_word_eqI) (auto simp: bit_simps dest!: bit4 [THEN iffD1])
  moreover have "push_bit 8 (of_nat i) + (push_bit 4 k OR 4) = push_bit 8 (of_nat i) OR (push_bit 4 k OR 4)"
    by (rule disjunctive_add_eq_or, rule bit_word_eqI) (auto simp: bit_simps dest!: hi bit4 [THEN iffD1])
  ultimately show ?thesis
    by (simp add: soft_cap_address_def shell_key_def push_bit_eq_mult mult.commute add.commute or.assoc)
qed

lemma unat_shell_key:
  assumes "unat lo < 256" "i < 128"
  shows "unat (shell_key lo i) = 256 * i + unat lo"
proof -
  have "unat (0x100 * of_nat i :: u64) = 256 * i" using assms(2) by (simp add: unat_word_ariths unat_of_nat)
  then show ?thesis using assms by (simp add: shell_key_def unat_word_ariths)
qed

lemma shell_key_inj:
  assumes "unat lo < 256" "i < 128" "unat lo' < 256" "j < 128" "shell_key lo i = shell_key lo' j"
  shows "lo = lo' \<and> i = j"
proof -
  have "256 * i + unat lo = 256 * j + unat lo'"
    using arg_cong [OF assms(5), of unat] assms(1-4) by (simp add: unat_shell_key)
  then have "i = j \<and> unat lo = unat lo'" by (rule scaled_offset_inj) (use assms in auto)
  then show ?thesis by (simp add: word_unat_eq_iff)
qed

lemma soft_cap_low_byte: "unat k < 16 \<Longrightarrow> unat (push_bit 4 k + 4 :: u64) = 16 * unat k + 4"
  by (simp add: unat_word_ariths push_bit_eq_mult)

lemma shell_table_keys:
  assumes "unat (sk_soft_reg_cap c) < 16"
  shows "map fst (shell_table c s) =
    map (shell_key 0x34) [0..<128] @ map (shell_key 0xa4) [0..<32] @ map (shell_key 0xf4) [4, 5, 6] @
    map (shell_key (push_bit 4 (sk_soft_reg_cap c) + 4)) [0..<32]"
  unfolding shell_table_def map_append shell_rows_keys asmi_rows_keys legacy_rows_keys
  by (simp add: soft_cap_rows_def soft_cap_key [OF assms])

text \<open>Blocks of rows with different low bytes do not collide.\<close>

definition key_blocks :: "(u64 \<times> nat list) list \<Rightarrow> u64 list" where
  "key_blocks bs = concat (map (\<lambda>(lo, rows). map (shell_key lo) rows) bs)"

lemma key_blocks_distinct:
  "\<forall>(lo, rows) \<in> set bs. unat lo < 256 \<and> distinct rows \<and> set rows \<subseteq> {..<128} \<Longrightarrow>
     distinct (map fst bs) \<Longrightarrow> distinct (key_blocks bs)"
proof (induction bs)
  case Nil
  then show ?case by (simp add: key_blocks_def)
next
  case (Cons b bs)
  obtain lo rows where b: "b = (lo, rows)" by force
  have "distinct (map (shell_key lo) rows)"
    using Cons.prems(1) b by (auto simp: distinct_map inj_on_def subset_eq dest: shell_key_inj [of lo _ lo])
  moreover have "shell_key lo i \<noteq> shell_key lo' j"
    if "i \<in> set rows" "(lo', rows') \<in> set bs" "j \<in> set rows'" for i lo' rows' j
  proof -
    have "lo \<noteq> lo'" using Cons.prems(2) b that(2) by force
    moreover have "unat lo' < 256" "j < 128" "unat lo < 256" "i < 128"
      using Cons.prems(1) b that by fastforce+
    ultimately show ?thesis using shell_key_inj by blast
  qed
  moreover have "distinct (key_blocks bs)" using Cons by simp
  ultimately show ?case by (auto simp: key_blocks_def b)
qed

lemma shell_table_blocks:
  "unat (sk_soft_reg_cap c) < 16 \<Longrightarrow> map fst (shell_table c s) =
     key_blocks [(0x34, [0..<128]), (0xa4, [0..<32]), (0xf4, [4, 5, 6]),
                 (push_bit 4 (sk_soft_reg_cap c) + 4, [0..<32])]"
  by (simp add: shell_table_keys key_blocks_def)

lemma shell_table_distinct_iff:
  assumes "unat (sk_soft_reg_cap c) < 16"
  shows "distinct (map fst (shell_table c s)) \<longleftrightarrow> unat (sk_soft_reg_cap c) \<notin> {3, 10, 15}"
proof -
  let ?k = "sk_soft_reg_cap c" and ?lo = "push_bit 4 (sk_soft_reg_cap c) + 4"
  have lo: "unat ?lo = 16 * unat ?k + 4" using assms by (rule soft_cap_low_byte)
  then have b: "unat ?lo < 256" using assms by simp
  have ne: "?lo \<noteq> 0x34" "?lo \<noteq> 0xa4" "?lo \<noteq> 0xf4" if "unat ?k \<notin> {3, 10, 15}"
    using that lo by (auto simp: word_unat_eq_iff)
  have "distinct (map fst (shell_table c s))" if n: "unat ?k \<notin> {3, 10, 15}"
    unfolding shell_table_blocks [OF assms]
    by (rule key_blocks_distinct) (use b ne [OF n] ne [OF n, symmetric] in auto)
  moreover have "\<not> distinct (map fst (shell_table c s))" if n: "unat ?k \<in> {3, 10, 15}"
  proof -
    have "?lo = 0x34 \<or> ?lo = 0xa4 \<or> ?lo = 0xf4" using n lo by (auto simp: word_unat_eq_iff)
    moreover have "shell_key x 4 \<in> shell_key x ` set [0..<128]" "shell_key x 4 \<in> shell_key x ` set [0..<32]"
      "shell_key x 4 \<in> shell_key x ` set [4, 5, 6]" for x by auto
    ultimately show ?thesis
      unfolding shell_table_keys [OF assms] distinct_append set_append set_map disjoint_iff
      by (metis UnI1 UnI2)
  qed
  ultimately show ?thesis by blast
qed

text \<open>
  The 195 shell registers are added without meeting the assertion that an
  address is new exactly when the number of the soft register capability block (a constant
  of the shell interface, below 16) is none of the blocks the table already uses: 3 for the
  shell registers, 10 for ASMI, 15 for the legacy registers; otherwise the constructor stops.
\<close>

theorem init_shell_registers_total:
  assumes "unat (sk_soft_reg_cap c) < 16"
  shows "init_shell_registers c slots_dma =
      (if unat (sk_soft_reg_cap c) \<in> {3, 10, 15} then Inl Assertion_failed else Inr (shell_table c slots_dma)) \<and>
    length (shell_table c slots_dma) = 195"
proof -
  have "length (map fst (shell_table c slots_dma)) = 195" unfolding shell_table_keys [OF assms] by simp
  then show ?thesis
    unfolding init_shell_registers_def using shell_table_distinct_iff [OF assms, of slots_dma]
    by (simp add: add_registers_eq)
qed

theorem init_shell_registers_total_witness:
  "\<exists>c. sk_soft_reg_cap c = 12 \<and> init_shell_registers c True = Inr (shell_table c True) \<and>
     length (shell_table c True) = 195"
proof -
  let ?c = "\<lparr>sk_status = 7, sk_capabilities = 0x120, sk_engine_id = 2, sk_min_buffer_size = 0x10000,
    sk_min_num_slots = 64, sk_max_shell_reg = 128, sk_soft_reg_cap = 12\<rparr>"
  have "unat (sk_soft_reg_cap ?c) < 16" by simp
  from init_shell_registers_total [OF this, of True]
  have "init_shell_registers ?c True = Inr (shell_table ?c True) \<and> length (shell_table ?c True) = 195"
    by simp
  then show ?thesis by (intro exI [of _ ?c]) simp
qed

end
