(* ===== verification/Width_Adapter.thy ===== *)
theory Width_Adapter
  imports Tlm
begin

text \<open>
  \<open>RegisterWidthAdapter\<close> of \<open>catapult/register_adapter.hpp\<close>: it lets a host with 32-bit
  accesses reach 64-bit registers by holding back the low half of a write until the high
  half arrives.  The two template callbacks are arguments; \<open>'b\<close> is the state behind them.
\<close>

section \<open>State and operations\<close>

record width_adapter =
  wa_addr :: u64
  wa_data :: u32

type_synonym 'b wa_read_fn = "u64 \<Rightarrow> u64 \<Rightarrow> 'b \<Rightarrow> (bool \<times> u64 \<times> 'b) res"
type_synonym 'b wa_write_fn = "u64 \<Rightarrow> u64 \<Rightarrow> 'b \<Rightarrow> (bool \<times> 'b) res"

definition wa_reset :: "width_adapter \<Rightarrow> width_adapter" where
  "wa_reset wa = \<lparr>wa_addr = -1, wa_data = 0\<rparr>"

definition is_low_word :: "u64 \<Rightarrow> bool" where "is_low_word a \<longleftrightarrow> a mod 8 = 0"
definition is_high_word :: "u64 \<Rightarrow> bool" where "is_high_word a \<longleftrightarrow> a mod 8 = 4"

definition is_write_in_progress :: "width_adapter \<Rightarrow> bool" where
  "is_write_in_progress wa \<longleftrightarrow> wa_addr wa \<noteq> -1"

definition is_next_write :: "width_adapter \<Rightarrow> u64 \<Rightarrow> bool" where
  "is_next_write wa a \<longleftrightarrow> a = wa_addr wa + 4"

text \<open>The assertion at the head of \<open>read\<close> and \<open>write\<close>.\<close>

definition wa_access_ok :: "u64 \<Rightarrow> nat \<Rightarrow> bool" where
  "wa_access_ok a len \<longleftrightarrow> (len = 4 \<and> a mod 4 = 0) \<or> (len = 8 \<and> a mod 8 = 0)"

definition wa_write ::
  "'b wa_write_fn \<Rightarrow> u64 \<Rightarrow> nat \<Rightarrow> u64 \<Rightarrow> width_adapter \<times> 'b \<Rightarrow> (nat \<times> width_adapter \<times> 'b) res" where
  "wa_write wr address len v = (\<lambda>(wa, b).
     if \<not> wa_access_ok address len then Inl Assertion_failed
     else if \<not> is_write_in_progress wa \<and> len = 4 \<and> is_low_word address then
       Inr (4, wa\<lparr>wa_addr := address, wa_data := ucast v\<rparr>, b)
     else if \<not> is_write_in_progress wa \<and> len = 4 \<and> is_high_word address then
       Inr (0, wa, b)
     else if is_write_in_progress wa \<and> len = 4 \<and> is_low_word address then
       Inr (0, wa, b)
     else if is_write_in_progress wa \<and> len = 4 \<and> is_high_word address
             \<and> \<not> is_next_write wa address then
       Inr (0, wa, b)
     else if is_write_in_progress wa \<and> len = 8 then
       res_bind (wr address v b) (\<lambda>(_, b'). Inr (len, wa_reset wa, b'))
     else if is_write_in_progress wa \<and> is_next_write wa address then
       (if len \<noteq> 4 then Inl Assertion_failed
        else res_bind (wr (wa_addr wa) (push_bit 32 v OR ucast (wa_data wa)) b)
               (\<lambda>(_, b'). Inr (len, wa_reset wa, b')))
     else res_bind (wr address v b) (\<lambda>(_, b'). Inr (len, wa, b')))"

text \<open>The number of bytes read, the value, the state behind the callback.\<close>

definition wa_read ::
  "'b wa_read_fn \<Rightarrow> u64 \<Rightarrow> nat \<Rightarrow> u64 \<Rightarrow> width_adapter \<times> 'b
     \<Rightarrow> (nat \<times> u64 \<times> width_adapter \<times> 'b) res" where
  "wa_read rd address len v = (\<lambda>(wa, b).
     if \<not> wa_access_ok address len then Inl Assertion_failed
     else res_bind (rd address v b) (\<lambda>(ok, v', b').
       if ok then
         (if len = 8 then Inr (8, v', wa, b')
          else Inr (4, (if address mod 8 = 4 then drop_bit 32 v' else v') AND 0xffffffff, wa, b'))
       else Inr (0, v', wa, b')))"

lemmas wa_defs = wa_write_def wa_read_def wa_access_ok_def is_low_word_def is_high_word_def
  is_write_in_progress_def is_next_write_def wa_reset_def

section \<open>Words and halves\<close>

lemma low_word_facts:
  assumes "(a :: u64) mod 8 = 0"
  shows "a mod 4 = 0" "a \<noteq> -1" "(a + 4) mod 8 = 4" "(a + 4) mod 4 = 0" "a + 4 \<noteq> -1"
proof -
  have m: "unat a mod 8 = 0" using assms by (simp add: word_unat_eq_iff unat_mod_distrib)
  show "a mod 4 = 0" using m by (simp add: word_unat_eq_iff unat_mod_distrib) presburger
  have ones: "(-1 :: u64) = 0xffffffffffffffff" by simp
  have not_ones: "unat b mod 4 = 0 \<Longrightarrow> b \<noteq> -1" for b :: u64
    unfolding ones by (rule notI) simp
  show "a \<noteq> -1" by (rule not_ones) (use m in presburger)
  have "unat a + 4 < 2 ^ 64" using m unsigned_less [of a, where ?'a = nat] by simp presburger
  then have p: "unat (a + 4) = unat a + 4" by (simp add: unat_word_ariths)
  show "(a + 4) mod 8 = 4" using m p by (simp add: word_unat_eq_iff unat_mod_distrib) presburger
  show "(a + 4) mod 4 = 0" using m p by (simp add: word_unat_eq_iff unat_mod_distrib) presburger
  show "a + 4 \<noteq> -1" by (rule not_ones) (use m p in presburger)
qed

lemma combine_halves: "push_bit 32 (drop_bit 32 v) OR ucast (ucast v :: u32) = (v :: u64)"
  by (rule bit_word_eqI) (auto simp: bit_simps)

lemma mask32: "(0xffffffff :: u64) = mask 32"
  by (simp add: mask_eq_exp_minus_1)

lemma low_half: "v AND 0xffffffff = ucast (ucast (v :: u64) :: u32)"
  unfolding mask32 by (rule bit_word_eqI) (auto simp: bit_simps)

lemma high_half: "ucast (ucast (drop_bit 32 v) :: u32) = drop_bit 32 (v :: u64)"
  by (rule bit_word_eqI) (auto simp: bit_simps dest: bit_imp_le_length)

lemma ucast_u32_u64 [simp]: "ucast (ucast (w :: u32) :: u64) = w"
  by (rule bit_word_eqI) (auto simp: bit_simps)

lemma wa_update [simp]: "wa\<lparr>wa_addr := a, wa_data := d\<rparr> = \<lparr>wa_addr = a, wa_data = d\<rparr>"
  by (cases wa) simp

section \<open>Sequences of writes\<close>

text \<open>The results of a sequence of \<open>(address, length, value)\<close> writes.\<close>

fun wa_writes ::
  "'b wa_write_fn \<Rightarrow> (u64 \<times> nat \<times> u64) list \<Rightarrow> width_adapter \<times> 'b
     \<Rightarrow> (nat list \<times> width_adapter \<times> 'b) res" where
  "wa_writes wr [] s = Inr ([], s)"
| "wa_writes wr ((a, len, v) # ws) s =
     res_bind (wa_write wr a len v s) (\<lambda>(n, s').
     res_bind (wa_writes wr ws s') (\<lambda>(ns, s''). Inr (n # ns, s'')))"

text \<open>Idle, or holding back the low half of an aligned register.\<close>

definition wa_inv :: "width_adapter \<Rightarrow> bool" where
  "wa_inv wa \<longleftrightarrow> (is_write_in_progress wa \<longrightarrow> is_low_word (wa_addr wa))"

lemma wa_write_inv:
  assumes inv: "wa_inv wa"
  shows "case wa_write wr a len v (wa, b) of
         Inr (n, wa', b') \<Rightarrow> wa_inv wa' \<and> n \<in> {0, len}
       | Inl e \<Rightarrow> \<not> wa_access_ok a len \<or> (\<exists>a' v'. wr a' v' b = Inl e)"
proof -
  have reset: "wa_inv (wa_reset wa)" for wa by (simp add: wa_inv_def wa_defs)
  have next4: "wa_access_ok a len \<Longrightarrow> is_write_in_progress wa \<Longrightarrow> is_next_write wa a \<Longrightarrow> len = 4"
    using low_word_facts(3) [of "wa_addr wa"] inv
    by (auto simp: wa_inv_def wa_access_ok_def is_next_write_def is_low_word_def)
  have stash: "is_low_word a \<Longrightarrow> wa_inv \<lparr>wa_addr = a, wa_data = d\<rparr>" for d
    by (simp add: wa_inv_def)
  define P where "P r \<longleftrightarrow> (case r of
       Inr (n, wa', b') \<Rightarrow> wa_inv wa' \<and> n \<in> {0, len}
     | Inl e \<Rightarrow> \<not> wa_access_ok a len \<or> (\<exists>a' v'. wr a' v' b = Inl e))"
    for r :: "(nat \<times> width_adapter \<times> 'a) res"
  have P: "P (res_bind (wr x y b) (\<lambda>(_, b'). Inr (len, wa1, b')))" if "wa_inv wa1" for x y wa1
    using that by (cases "wr x y b") (auto simp: P_def)
  have "P (wa_write wr a len v (wa, b))"
  proof (cases "wa_access_ok a len")
    case False
    then show ?thesis by (simp add: wa_write_def P_def)
  next
    case True
    have "wa_inv wa1 \<Longrightarrow> n \<in> {0, len} \<Longrightarrow> P (Inr (n, wa1, b))" for n wa1 by (simp add: P_def)
    with True inv next4 stash P [OF reset] P [OF inv] show ?thesis
      unfolding wa_write_def by (auto split del: if_split split: if_split)
  qed
  then show ?thesis by (simp add: P_def)
qed

text \<open>What is behind the adapter changes only through the callback.\<close>

lemma wa_write_behind:
  "wa_write wr a len v (wa, b) = Inr (n, wa', b') \<Longrightarrow> b' = b \<or> (\<exists>a' v' ok. wr a' v' b = Inr (ok, b'))"
  by (auto simp: wa_write_def res_bind_eq_Inr split: if_splits)



text \<open>
  Property C19: two 32-bit writes, the low half of a register first and its high half next,
  reach the register behind the adapter as one 64-bit write of the whole value, and leave
  the adapter idle; nothing reaches the register in between.
\<close>

theorem split_write_is_one_write:
  assumes "\<not> is_write_in_progress wa" "a mod 8 = 0"
  shows "wa_writes wr [(a, 4, ucast (ucast v :: u32)), (a + 4, 4, drop_bit 32 v)] (wa, b) =
     res_bind (wr a v b) (\<lambda>(_, b'). Inr ([4, 4], wa_reset wa, b')) \<and>
     wa_write wr a 4 (ucast (ucast v :: u32)) (wa, b) =
       Inr (4, \<lparr>wa_addr = a, wa_data = ucast v\<rparr>, b)"
proof -
  note lo = low_word_facts [OF assms(2)]
  have first: "wa_write wr a 4 (ucast (ucast v :: u32)) (wa, b) =
      Inr (4, \<lparr>wa_addr = a, wa_data = ucast v\<rparr>, b)"
    using assms lo by (simp add: wa_defs)
  moreover have "wa_write wr (a + 4) 4 (drop_bit 32 v) (\<lparr>wa_addr = a, wa_data = ucast v\<rparr>, b) =
      res_bind (wr a v b) (\<lambda>(_, b'). Inr (4, wa_reset wa, b'))"
    using lo by (simp add: wa_defs combine_halves)
  ultimately show ?thesis by (auto simp: res_bind_def split: sum.splits)
qed

theorem split_write_is_one_write_witness:
  "wa_writes (\<lambda>a v b. Inr (True, (a, v) # b))
     [(0x800008, 4, ucast (ucast (0x1122334455667788 :: u64) :: u32)),
      (0x800008 + 4, 4, drop_bit 32 0x1122334455667788)] (\<lparr>wa_addr = -1, wa_data = 0\<rparr>, []) =
   Inr ([4, 4], \<lparr>wa_addr = -1, wa_data = 0\<rparr>, [(0x800008, 0x1122334455667788)])"
proof -
  have "\<not> is_write_in_progress \<lparr>wa_addr = -1, wa_data = 0\<rparr>" "(0x800008 :: u64) mod 8 = 0"
    by (simp_all add: is_write_in_progress_def)
  from split_write_is_one_write [OF this, where wr = "\<lambda>a v b. Inr (True, (a, v) # b)"
      and b = "[]" and v = "0x1122334455667788", THEN conjunct1] show ?thesis
    by (simp add: wa_reset_def del: wa_writes.simps)
qed

text \<open>
  Once a low half is held back, no sequence of 32-bit writes other than one to
  the matching high half has any effect: each of them reports 0 bytes, the held half stays,
  and no register is written.  The messages printed on these branches say that the held
  write is dropped or replaced; the state is not changed on any of them.
\<close>

theorem held_write_blocks_others:
  assumes "wa_inv wa" "is_write_in_progress wa"
    and "\<forall>(a, len, v) \<in> set ws. len = 4 \<and> a mod 4 = 0 \<and> a \<noteq> wa_addr wa + 4"
  shows "wa_writes wr ws (wa, b) = Inr (replicate (length ws) 0, wa, b)"
  using assms(3)
proof (induction ws)
  case Nil
  then show ?case by simp
next
  case (Cons w ws)
  obtain a len v where w: "w = (a, len, v)" by (cases w)
  with Cons.prems have a: "len = 4" "a mod 4 = 0" "a \<noteq> wa_addr wa + 4" by auto
  have "unat a mod 4 = 0" using a(2) by (simp add: word_unat_eq_iff unat_mod_distrib)
  then have "unat a mod 8 = 0 \<or> unat a mod 8 = 4" by presburger
  then have "is_low_word a \<or> is_high_word a"
    by (simp add: is_low_word_def is_high_word_def word_unat_eq_iff unat_mod_distrib)
  then have "wa_write wr a len v (wa, b) = Inr (0, wa, b)"
    using a assms(2) by (auto simp: wa_write_def wa_access_ok_def is_next_write_def)
  with w Cons show ?case by simp
qed

theorem held_write_blocks_others_witness:
  "wa_writes (\<lambda>a v b. Inr (True, (a, v) # b)) [(0x10, 4, 1), (0x14, 4, 2)]
     (\<lparr>wa_addr = 0x20, wa_data = 7\<rparr>, []) = Inr ([0, 0], \<lparr>wa_addr = 0x20, wa_data = 7\<rparr>, [])"
proof -
  let ?wa = "\<lparr>wa_addr = 0x20, wa_data = 7\<rparr>"
  have "wa_inv ?wa" "is_write_in_progress ?wa"
    "\<forall>(a, len, v) \<in> set [(0x10, 4, 1), (0x14, 4, 2)]. len = 4 \<and> a mod 4 = 0 \<and> a \<noteq> wa_addr ?wa + 4"
    by (simp_all add: wa_inv_def wa_defs)
  from held_write_blocks_others [OF this, where b = "[]" and wr = "\<lambda>a v b. Inr (True, (a, v) # b)"]
  show ?thesis by (simp add: numeral_2_eq_2)
qed

section \<open>A register store behind the adapter\<close>

text \<open>
  What the adapter expects of the callbacks it is given: \<open>store b a\<close> is the 64-bit value of
  the register at the aligned address \<open>a\<close>; a read of either half returns the whole of it.
\<close>

locale reg64_store =
  fixes rd :: "'b wa_read_fn" and wr :: "'b wa_write_fn"
    and inv :: "'b \<Rightarrow> bool" and valid :: "u64 \<Rightarrow> bool" and stored :: "'b \<Rightarrow> u64 \<Rightarrow> u64"
  assumes valid_aligned: "valid a \<Longrightarrow> a mod 8 = 0"
    and wr_stores: "inv b \<Longrightarrow> valid a \<Longrightarrow>
      \<exists>ok b'. wr a v b = Inr (ok, b') \<and> inv b' \<and> stored b' a = v \<and>
        (\<forall>a'. valid a' \<longrightarrow> a' \<noteq> a \<longrightarrow> stored b' a' = stored b a')"
    and rd_fetches: "inv b \<Longrightarrow> valid a \<Longrightarrow> a' \<in> {a, a + 4} \<Longrightarrow>
      rd a' out b = Inr (True, stored b a, b)"
begin

lemma reads_back:
  assumes "inv b" "valid a"
  shows "wa_read rd a 8 out (wa, b) = Inr (8, stored b a, wa, b)"
    and "wa_read rd a 4 out (wa, b) = Inr (4, ucast (ucast (stored b a) :: u32), wa, b)"
    and "wa_read rd (a + 4) 4 out (wa, b) = Inr (4, drop_bit 32 (stored b a), wa, b)"
  using rd_fetches [OF assms, of a] rd_fetches [OF assms, of "a + 4"]
    low_word_facts [OF valid_aligned [OF assms(2)]] valid_aligned [OF assms(2)]
  by (simp_all add: wa_read_def wa_access_ok_def low_half high_half)

lemma split_write_stores:
  assumes "inv b" "valid a" "\<not> is_write_in_progress wa"
  shows "\<exists>b'. wa_writes wr [(a, 4, ucast (ucast v :: u32)), (a + 4, 4, drop_bit 32 v)] (wa, b) =
      Inr ([4, 4], wa_reset wa, b') \<and> inv b' \<and> stored b' a = v \<and>
      (\<forall>a'. valid a' \<longrightarrow> a' \<noteq> a \<longrightarrow> stored b' a' = stored b a')"
proof -
  from wr_stores [OF assms(1,2), of v] obtain ok b' where
    b': "wr a v b = Inr (ok, b')" "inv b'" "stored b' a = v"
    "\<forall>a'. valid a' \<longrightarrow> a' \<noteq> a \<longrightarrow> stored b' a' = stored b a'" by blast
  note lo = low_word_facts [OF valid_aligned [OF assms(2)]]
  have "wa_write wr a 4 (ucast (ucast v :: u32)) (wa, b) =
      Inr (4, \<lparr>wa_addr = a, wa_data = ucast v\<rparr>, b)"
    using assms(3) valid_aligned [OF assms(2)] lo by (simp add: wa_defs)
  moreover have "wa_write wr (a + 4) 4 (drop_bit 32 v) (\<lparr>wa_addr = a, wa_data = ucast v\<rparr>, b) =
      Inr (4, wa_reset wa, b')"
    using lo b'(1) by (simp add: wa_defs combine_halves)
  ultimately show ?thesis using b' by simp
qed

end

end
