(* ===== verification/Slots_Engine.thy ===== *)
theory Slots_Engine
  imports Register_Map
begin

text \<open>
  The slots DMA engine of \<open>catapult/slots_dma.h\<close> and \<open>catapult/slots_dma.cc\<close>: its register
  numbers, its register bank with the doorbell callbacks, the host's reads and writes, the
  round-robin scan for a full doorbell, and the DMA thread as a state machine that the
  host's writes interleave with.
  Three values come from \<open>CatapultShellInterface.h\<close>, which is not in the repository, and
  are arguments: the magic number, and the offset of \<open>full_status\<close> in the control buffer.
\<close>

section \<open>Register numbers\<close>

definition maximum_slot_count :: nat where "maximum_slot_count = 64"
definition dma_block_size :: u64 where "dma_block_size = 128 div 8"

datatype address_type = input_addr | output_addr | control_addr
datatype doorbell_type = full_db | done_db

fun address_code :: "address_type \<Rightarrow> u64" where
  "address_code input_addr = 0"
| "address_code output_addr = 1"
| "address_code control_addr = 2"

fun doorbell_code :: "doorbell_type \<Rightarrow> u64" where
  "doorbell_code full_db = 0"
| "doorbell_code done_db = 1"

definition get_doorbell_regnum :: "nat \<Rightarrow> doorbell_type \<Rightarrow> u64" where
  "get_doorbell_regnum slot ty = 0x30000 OR push_bit 9 (of_nat slot) OR doorbell_code ty"

definition get_address_regnum :: "nat \<Rightarrow> address_type \<Rightarrow> u64" where
  "get_address_regnum slot ty = 0x20200 OR push_bit 2 (of_nat slot) OR address_code ty"

definition add_wrap :: "nat \<Rightarrow> nat \<Rightarrow> nat \<Rightarrow> nat" where
  "add_wrap a b m = (a + b) mod m"

section \<open>State\<close>

text \<open>
  \<open>SlotInputConfig\<close>: a null buffer or signal pointer is \<open>None\<close>; for the signal, the Boolean
  says whether it has been notified.
\<close>

record slot_input_config =
  ic_buffer :: "u8 list option"
  ic_valid_length :: u64
  ic_signal :: "bool option"

definition sic_set_data :: "u64 \<Rightarrow> slot_input_config \<Rightarrow> slot_input_config" where
  "sic_set_data len c = c\<lparr>ic_valid_length := len, ic_signal := map_option (\<lambda>_. True) (ic_signal c)\<rparr>"

definition sic_clear :: "slot_input_config \<Rightarrow> slot_input_config" where
  "sic_clear c = c\<lparr>ic_buffer := map_option (\<lambda>_. []) (ic_buffer c), ic_valid_length := 0\<rparr>"

text \<open>\<open>se_event\<close>: a notification of \<open>_dma_doorbell_write\<close> is scheduled.\<close>

record slots_engine =
  se_count :: nat
  se_config :: "slot_input_config option list"
  se_regs :: "(u64, bool) register_map"
  se_event :: bool

text \<open>The callback of a doorbell register; the captured state is the scheduled event.\<close>

definition write_doorbell_register :: "nat \<Rightarrow> nat \<Rightarrow> doorbell_type \<Rightarrow> (u64, bool) write_fn" where
  "write_doorbell_register count slot ty = (\<lambda>addr new_value old ev.
     if count \<le> slot then (False, old, ev)
     else (True, new_value, ev \<or> new_value \<noteq> 0))"

definition doorbell_register :: "nat \<Rightarrow> nat \<Rightarrow> doorbell_type \<Rightarrow> (u64, bool) register" where
  "doorbell_register count slot ty =
     mk_register 0 None (Some (write_doorbell_register count slot ty)) False"

definition plain_register :: "u64 \<Rightarrow> (u64, bool) register" where
  "plain_register v = mk_register v None None False"

definition dma_fixed_registers :: "u64 \<Rightarrow> nat \<Rightarrow> (u64 \<times> (u64, bool) register) list" where
  "dma_fixed_registers magic count = map (\<lambda>(a, v). (a, plain_register v))
     [(0x1c7f0, magic), (0x20000, magic), (0x20001, 0), (0x20002, of_nat count),
      (0x20003, 128), (0x20004, 0), (0x20005, 0), (0x20006, 0), (0x20007, 0),
      (0x20008, 0), (0x20009, 0), (0x20010, 0), (0x20011, 0), (0x20012, 0), (0x20013, 0),
      (0x20016, 0), (0x20017, 0), (0x20018, 0), (0x20019, 0), (0x20020, 0), (0x20021, 0),
      (0x20022, 0), (0x20023, 0), (0x20024, 0)]"

definition dma_address_registers :: "nat \<Rightarrow> (u64 \<times> (u64, bool) register) list" where
  "dma_address_registers count =
     concat (map (\<lambda>slot. map (\<lambda>ty. (get_address_regnum slot ty, plain_register 0))
                             [input_addr, output_addr, control_addr]) [0..<count])"

definition dma_doorbell_registers :: "nat \<Rightarrow> (u64 \<times> (u64, bool) register) list" where
  "dma_doorbell_registers count =
     concat (map (\<lambda>slot. map (\<lambda>ty. (get_doorbell_regnum slot ty, doorbell_register count slot ty))
                             [full_db, done_db]) [0..<count])"

definition dma_registers :: "u64 \<Rightarrow> nat \<Rightarrow> (u64 \<times> (u64, bool) register) list" where
  "dma_registers magic count =
     dma_fixed_registers magic count @ dma_address_registers count @ dma_doorbell_registers count"

definition init_dma_registers :: "u64 \<Rightarrow> nat \<Rightarrow> (u64, bool) register_map res" where
  "init_dma_registers magic count = add_registers (dma_registers magic count) []"

definition slots_engine_new :: "u64 \<Rightarrow> nat \<Rightarrow> slots_engine res" where
  "slots_engine_new magic count =
     (if maximum_slot_count < count then Inl Thrown
      else res_bind (init_dma_registers magic count)
             (\<lambda>m. Inr \<lparr>se_count = count, se_config = [], se_regs = m, se_event = False\<rparr>))"

definition se_reset :: "slots_engine \<Rightarrow> slots_engine" where
  "se_reset e = e\<lparr>se_regs := map_reset (se_regs e)\<rparr>"

section \<open>Host reads and writes\<close>

datatype dma_message = NOT_IMPLEMENTED | READ_FAILED | WRITE_DROPPED | MESSAGE_OK

definition read_dma_register :: "slots_engine \<Rightarrow> u32 \<Rightarrow> u64 \<times> dma_message \<times> slots_engine" where
  "read_dma_register e index =
     (case find_register (se_regs e) (ucast index) of
        None \<Rightarrow> (0, NOT_IMPLEMENTED, e)
      | Some r \<Rightarrow>
          (case reg_read r (ucast index) 0 (se_event e) of
             (ok, v, r', ev) \<Rightarrow>
               let e' = e\<lparr>se_regs := put_register (ucast index) r' (se_regs e), se_event := ev\<rparr>
               in if ok then (v, MESSAGE_OK, e') else (0, READ_FAILED, e')))"

definition write_dma_register :: "slots_engine \<Rightarrow> u32 \<Rightarrow> u64 \<Rightarrow> (dma_message \<times> slots_engine) res" where
  "write_dma_register e index v =
     (case find_register (se_regs e) (ucast index) of
        None \<Rightarrow> Inr (NOT_IMPLEMENTED, e)
      | Some r \<Rightarrow>
          (case reg_write r (ucast index) v (se_event e) of
             (ok, r', ev) \<Rightarrow>
               let e' = e\<lparr>se_regs := put_register (ucast index) r' (se_regs e), se_event := ev\<rparr>
               in if \<not> ok then Inr (WRITE_DROPPED, e')
                  else if r_readonly r' then Inr (MESSAGE_OK, e')
                  else (case read_dma_register e' index of
                          (v2, _, e'') \<Rightarrow> if v2 = v then Inr (MESSAGE_OK, e'')
                                         else Inl Assertion_failed)))"

section \<open>The scan for a full doorbell\<close>

text \<open>The number of slots the scan still has to pass to get to \<open>db_num\<close>.\<close>

definition slot_dist :: "nat \<Rightarrow> nat \<Rightarrow> nat \<Rightarrow> nat" where
  "slot_dist count i j = (if i \<le> j then j - i else count + j - i)"

lemma slot_dist_step:
  "i < count \<Longrightarrow> j < count \<Longrightarrow> i \<noteq> j \<Longrightarrow>
     slot_dist count i j = Suc (slot_dist count (add_wrap i 1 count) j)"
  by (cases "Suc i = count") (auto simp: slot_dist_def add_wrap_def)

text \<open>
  The \<open>do\<close> loop of \<open>find_next_full_doorbell\<close>: the slot and value found, if any.  A slot
  number outside the engine has no register, and \<open>_dma_regs[dbn]\<close> throws.
\<close>

function find_next_loop :: "nat \<Rightarrow> (nat \<Rightarrow> u64) \<Rightarrow> nat \<Rightarrow> nat \<Rightarrow> (nat \<times> u64) option res" where
  "find_next_loop count db db_num i =
     (if count \<le> i \<or> count \<le> db_num then Inl Thrown
      else if db i \<noteq> 0 then Inr (Some (i, db i))
      else if i = db_num then Inr None
      else find_next_loop count db db_num (add_wrap i 1 count))"
  by pat_completeness auto

termination
  by (relation "measure (\<lambda>(count, db, db_num, i). slot_dist count i db_num)")
     (auto simp: slot_dist_step)

declare find_next_loop.simps [simp del]

text \<open>The doorbell registers of an engine, as the scan reads them.\<close>

definition full_doorbell :: "slots_engine \<Rightarrow> nat \<Rightarrow> u64" where
  "full_doorbell e i =
     (case find_register (se_regs e) (get_doorbell_regnum i full_db) of
        Some r \<Rightarrow> r_value r | None \<Rightarrow> 0)"

definition find_next_full_doorbell :: "slots_engine \<Rightarrow> nat \<Rightarrow> (nat \<times> u64) option res" where
  "find_next_full_doorbell e db_num =
     (if se_count e \<le> db_num then Inl Assertion_failed
      else find_next_loop (se_count e) (full_doorbell e) db_num
             (add_wrap db_num 1 (se_count e)))"

section \<open>The DMA thread\<close>

text \<open>
  The thread between two of its \<open>wait\<close> calls.  \<open>Scanning\<close> is the head of the \<open>while\<close> loop;
  \<open>After_read\<close> and \<open>After_write\<close> are the two \<open>wait(SC_ZERO_TIME)\<close>; \<open>Sleeping\<close> is
  \<open>wait(_dma_doorbell_write)\<close>.
\<close>

datatype dma_pc = Scanning | After_read u64 | After_write | Sleeping

record 'w dma_system =
  ds_engine :: slots_engine
  ds_pc :: dma_pc
  ds_slot :: nat
  ds_world :: 'w

text \<open>
  \<open>CatapultShellInterface\<close>: the read fills a buffer with bytes of the host; the write takes
  its bytes from memory, \<open>None\<close> standing for an object that was never assigned.
\<close>

record 'w shell_ops =
  sh_read :: "u64 \<Rightarrow> u8 list \<Rightarrow> u64 \<Rightarrow> 'w \<Rightarrow> (u8 list \<times> 'w) res"
  sh_write :: "u8 list option \<Rightarrow> u64 \<Rightarrow> nat \<Rightarrow> 'w \<Rightarrow> 'w res"

definition slot_config_of :: "slots_engine \<Rightarrow> nat \<Rightarrow> slot_input_config option" where
  "slot_config_of e slot = (if slot < length (se_config e) then se_config e ! slot else None)"

text \<open>
  The body of the loop from \<open>Scanning\<close> to the next \<open>wait\<close> or to the next turn of the loop.
\<close>

definition dma_scan :: "'w shell_ops \<Rightarrow> 'w dma_system \<Rightarrow> 'w dma_system res" where
  "dma_scan sh s =
     (let e = ds_engine s in
      res_bind (find_next_full_doorbell e (ds_slot s)) (\<lambda>found.
      case found of
        None \<Rightarrow> Inr (s\<lparr>ds_pc := Sleeping\<rparr>)
      | Some (slot, blocks) \<Rightarrow>
          (case slot_config_of e slot of
             Some ic \<Rightarrow>
               res_bind (reg_at (se_regs e) (get_address_regnum slot input_addr)) (\<lambda>input_address.
               if input_address = 0 then Inl Assertion_failed else
               res_bind (reg_at (se_regs e) (get_address_regnum slot control_addr)) (\<lambda>control_address.
               case ic_buffer ic of
                 None \<Rightarrow> Inl Out_of_range
               | Some buf \<Rightarrow>
                   res_bind (sh_read sh input_address buf (blocks * dma_block_size) (ds_world s))
                     (\<lambda>(buf', w). Inr (s\<lparr>ds_engine :=
                          e\<lparr>se_config := (se_config e)[slot := Some (ic\<lparr>ic_buffer := Some buf'\<rparr>)]\<rparr>,
                        ds_slot := slot, ds_world := w, ds_pc := After_read control_address\<rparr>))))
           | None \<Rightarrow>
               res_bind (reg_at_put (get_doorbell_regnum slot full_db) 0 (se_regs e))
                 (\<lambda>m. Inr (s\<lparr>ds_engine := e\<lparr>se_regs := m\<rparr>, ds_slot := slot\<rparr>)))))"

definition dma_finish_read :: "u64 \<Rightarrow> 'w shell_ops \<Rightarrow> u64 \<Rightarrow> 'w dma_system \<Rightarrow> 'w dma_system res" where
  "dma_finish_read full_status_off sh control_address s =
     (let e = ds_engine s in
      res_bind (reg_at_put (get_doorbell_regnum (ds_slot s) full_db) 0 (se_regs e)) (\<lambda>m.
      res_bind (sh_write sh None (control_address + full_status_off) 8 (ds_world s)) (\<lambda>w.
      Inr (s\<lparr>ds_engine := e\<lparr>se_regs := m\<rparr>, ds_world := w, ds_pc := After_write\<rparr>))))"

text \<open>One turn of the thread, where it can move without an event.\<close>

definition dma_thread_turn :: "u64 \<Rightarrow> 'w shell_ops \<Rightarrow> 'w dma_system \<Rightarrow> 'w dma_system res" where
  "dma_thread_turn off sh s =
     (case ds_pc s of
        Scanning \<Rightarrow> dma_scan sh s
      | After_read ca \<Rightarrow> dma_finish_read off sh ca s
      | After_write \<Rightarrow> Inr (s\<lparr>ds_pc := Scanning\<rparr>)
      | Sleeping \<Rightarrow> Inr s)"

text \<open>
  The thread starts with \<open>_slot_count - 1\<close> in an \<open>unsigned int\<close>.
\<close>

definition dma_thread_start :: "slots_engine \<Rightarrow> 'w \<Rightarrow> 'w dma_system" where
  "dma_thread_start e w =
     \<lparr>ds_engine = e, ds_pc = Scanning, ds_slot = unat (of_nat (se_count e) - 1 :: u32), ds_world = w\<rparr>"

text \<open>
  The whole system: the thread runs until it waits; while it waits the host may write a
  register or reset the engine, and buffers may be attached to slots (\<open>set_slot_config\<close> is
  declared and has no body in the repository, so any configuration may appear); a scheduled notification wakes the thread if it sleeps
  and is lost otherwise.
\<close>

inductive dma_step :: "u64 \<Rightarrow> 'w shell_ops \<Rightarrow> 'w dma_system \<Rightarrow> 'w dma_system \<Rightarrow> bool" for off sh where
  thread: "ds_pc s \<noteq> Sleeping \<Longrightarrow> dma_thread_turn off sh s = Inr s' \<Longrightarrow> dma_step off sh s s'"
| host_write: "ds_pc s \<noteq> Scanning \<Longrightarrow> write_dma_register (ds_engine s) index v = Inr (msg, e') \<Longrightarrow>
    dma_step off sh s (s\<lparr>ds_engine := e'\<rparr>)"
| configure: "ds_pc s \<noteq> Scanning \<Longrightarrow> dma_step off sh s (s\<lparr>ds_engine := (ds_engine s)\<lparr>se_config := cfg\<rparr>\<rparr>)"
| host_reset: "ds_pc s \<noteq> Scanning \<Longrightarrow> dma_step off sh s (s\<lparr>ds_engine := se_reset (ds_engine s)\<rparr>)"
| notified: "ds_pc s \<noteq> Scanning \<Longrightarrow> se_event (ds_engine s) \<Longrightarrow>
    dma_step off sh s (s\<lparr>ds_engine := (ds_engine s)\<lparr>se_event := False\<rparr>,
                        ds_pc := (if ds_pc s = Sleeping then Scanning else ds_pc s)\<rparr>)"

inductive dma_reachable :: "u64 \<Rightarrow> u64 \<Rightarrow> nat \<Rightarrow> 'w shell_ops \<Rightarrow> 'w \<Rightarrow> 'w dma_system \<Rightarrow> bool"
  for magic off count sh w0 where
  start: "slots_engine_new magic count = Inr e \<Longrightarrow>
    dma_reachable magic off count sh w0 (dma_thread_start e w0)"
| step: "dma_reachable magic off count sh w0 s \<Longrightarrow> dma_step off sh s s' \<Longrightarrow>
    dma_reachable magic off count sh w0 s'"

section \<open>The register numbers do not collide\<close>

lemma regnum_table:
  "\<forall>slot \<in> set [0..<64]. unat (get_address_regnum slot input_addr) = 0x20200 + 4 * slot \<and>
     unat (get_address_regnum slot output_addr) = 0x20201 + 4 * slot \<and>
     unat (get_address_regnum slot control_addr) = 0x20202 + 4 * slot \<and>
     unat (get_doorbell_regnum slot full_db) = 0x30000 + 512 * slot \<and>
     unat (get_doorbell_regnum slot done_db) = 0x30001 + 512 * slot"
  by (simp add: get_address_regnum_def get_doorbell_regnum_def upt_conv_Cons)

lemma unat_address_regnum:
  "slot < 64 \<Longrightarrow> unat (get_address_regnum slot ty) = 0x20200 + 4 * slot + unat (address_code ty)"
  using regnum_table by (cases ty) auto

lemma unat_doorbell_regnum:
  "slot < 64 \<Longrightarrow> unat (get_doorbell_regnum slot ty) = 0x30000 + 512 * slot + unat (doorbell_code ty)"
  using regnum_table by (cases ty) auto

lemma doorbell_regnum_inj:
  assumes "slot < 64" "slot' < 64" "get_doorbell_regnum slot ty = get_doorbell_regnum slot' ty'"
  shows "slot = slot' \<and> ty = ty'"
proof -
  have "unat (get_doorbell_regnum slot ty) = unat (get_doorbell_regnum slot' ty')" using assms(3) by simp
  then have "512 * slot + unat (doorbell_code ty) = 512 * slot' + unat (doorbell_code ty')"
    using assms(1,2) by (simp add: unat_doorbell_regnum)
  then have "slot = slot' \<and> unat (doorbell_code ty) = unat (doorbell_code ty')"
    by (rule scaled_offset_inj) (cases ty; cases ty'; simp)+
  then show ?thesis by (cases ty; cases ty') simp_all
qed

lemma address_regnum_inj:
  assumes "slot < 64" "slot' < 64" "get_address_regnum slot ty = get_address_regnum slot' ty'"
  shows "slot = slot' \<and> ty = ty'"
proof -
  have "unat (get_address_regnum slot ty) = unat (get_address_regnum slot' ty')" using assms(3) by simp
  then have "4 * slot + unat (address_code ty) = 4 * slot' + unat (address_code ty')"
    using assms(1,2) by (simp add: unat_address_regnum)
  then have "slot = slot' \<and> unat (address_code ty) = unat (address_code ty')"
    by (rule scaled_offset_inj) (cases ty; cases ty'; simp)+
  then show ?thesis by (cases ty; cases ty') simp_all
qed

lemma distinct_concat_map:
  assumes "\<And>x y a b. x \<in> set xs \<Longrightarrow> y \<in> set xs \<Longrightarrow> a \<in> set ys \<Longrightarrow> b \<in> set ys \<Longrightarrow>
      f x a = f y b \<Longrightarrow> x = y \<and> a = b"
    and "distinct xs" "distinct ys"
  shows "distinct (concat (map (\<lambda>x. map (f x) ys) xs))"
  using assms
proof (induction xs)
  case Nil
  then show ?case by simp
next
  case (Cons x xs)
  note inj = Cons.prems(1)
  have "inj_on (f x) (set ys)" by (rule inj_onI) (meson inj list.set_intros(1))
  moreover have "set (map (f x) ys) \<inter> set (concat (map (\<lambda>x. map (f x) ys) xs)) = {}"
  proof (rule equals0I)
    fix z assume "z \<in> set (map (f x) ys) \<inter> set (concat (map (\<lambda>x. map (f x) ys) xs))"
    then obtain a y b where z: "a \<in> set ys" "y \<in> set xs" "b \<in> set ys" "f x a = f y b" by auto
    then have "x = y" using inj [of x y a b] by simp
    with z Cons.prems(2) show False by simp
  qed
  moreover have "distinct (concat (map (\<lambda>x. map (f x) ys) xs))"
  proof (rule Cons.IH)
    show "u \<in> set xs \<Longrightarrow> y \<in> set xs \<Longrightarrow> a \<in> set ys \<Longrightarrow> b \<in> set ys \<Longrightarrow> f u a = f y b \<Longrightarrow>
        u = y \<and> a = b" for u y a b
      by (rule inj) simp_all
  qed (use Cons.prems in simp_all)
  ultimately show ?case using Cons.prems(3) by (simp add: distinct_map)
qed

lemma dma_address_keys: "map fst (dma_address_registers count) =
    concat (map (\<lambda>slot. map (get_address_regnum slot) [input_addr, output_addr, control_addr]) [0..<count])"
  by (simp add: dma_address_registers_def map_concat comp_def)

lemma dma_doorbell_keys: "map fst (dma_doorbell_registers count) =
    concat (map (\<lambda>slot. map (get_doorbell_regnum slot) [full_db, done_db]) [0..<count])"
  by (simp add: dma_doorbell_registers_def map_concat comp_def)

lemma dma_fixed_keys: "map fst (dma_fixed_registers magic count) =
    [0x1c7f0, 0x20000, 0x20001, 0x20002, 0x20003, 0x20004, 0x20005, 0x20006, 0x20007, 0x20008,
     0x20009, 0x20010, 0x20011, 0x20012, 0x20013, 0x20016, 0x20017, 0x20018, 0x20019, 0x20020,
     0x20021, 0x20022, 0x20023, 0x20024]"
  by (simp add: dma_fixed_registers_def)

lemma dma_registers_distinct:
  assumes "count \<le> 64"
  shows "distinct (map fst (dma_registers magic count))"
proof -
  have ad: "distinct (map fst (dma_address_registers count))"
    unfolding dma_address_keys
    by (rule distinct_concat_map, rule address_regnum_inj) (use assms in auto)
  have dd: "distinct (map fst (dma_doorbell_registers count))"
    unfolding dma_doorbell_keys
    by (rule distinct_concat_map, rule doorbell_regnum_inj) (use assms in auto)
  have fd: "distinct (map fst (dma_fixed_registers magic count))"
    unfolding dma_fixed_keys by simp
  have fr: "a \<in> set (map fst (dma_fixed_registers magic count)) \<Longrightarrow> unat a < 0x20200" for a
    unfolding dma_fixed_keys by auto
  have ar: "a \<in> set (map fst (dma_address_registers count)) \<Longrightarrow> 0x20200 \<le> unat a \<and> unat a < 0x30000" for a
    unfolding dma_address_keys using assms by (auto simp: unat_address_regnum)
  have dr: "a \<in> set (map fst (dma_doorbell_registers count)) \<Longrightarrow> 0x30000 \<le> unat a" for a
    unfolding dma_doorbell_keys using assms by (auto simp: unat_doorbell_regnum)
  have "set (map fst (dma_fixed_registers magic count)) \<inter> set (map fst (dma_address_registers count)) = {}"
    by (meson ar disjoint_iff fr leD)
  moreover have "set (map fst (dma_fixed_registers magic count)) \<inter> set (map fst (dma_doorbell_registers count)) = {}"
    by (rule ccontr) (use dr fr in \<open>fastforce simp: disjoint_iff simp del: set_map\<close>)
  moreover have "set (map fst (dma_address_registers count)) \<inter> set (map fst (dma_doorbell_registers count)) = {}"
    by (meson ar disjoint_iff dr leD)
  ultimately show ?thesis
    unfolding dma_registers_def map_append distinct_append set_append
    using ad dd fd by (simp only: Int_Un_distrib) simp
qed

section \<open>The engine's invariant\<close>

text \<open>The bank is the one the constructor built, up to the stored values.\<close>

definition se_inv :: "u64 \<Rightarrow> slots_engine \<Rightarrow> bool" where
  "se_inv magic e \<longleftrightarrow>
     se_count e \<le> 64 \<and> shape (se_regs e) = shape (dma_registers magic (se_count e))"

lemma dma_registers_find:
  assumes "count \<le> 64"
  shows "slot < count \<Longrightarrow> find_register (dma_registers magic count) (get_doorbell_regnum slot db) =
      Some (doorbell_register count slot db)"
    and "slot < count \<Longrightarrow> find_register (dma_registers magic count) (get_address_regnum slot ty) =
      Some (plain_register 0)"
proof -
  note d = find_register_Some [OF dma_registers_distinct [OF assms]]
  show "slot < count \<Longrightarrow> find_register (dma_registers magic count) (get_doorbell_regnum slot db) =
      Some (doorbell_register count slot db)"
    unfolding d by (cases db) (auto simp: dma_registers_def dma_doorbell_registers_def)
  show "slot < count \<Longrightarrow> find_register (dma_registers magic count) (get_address_regnum slot ty) =
      Some (plain_register 0)"
    unfolding d by (cases ty) (auto simp: dma_registers_def dma_address_registers_def)
qed

lemma dma_registers_kinds:
  "(a, r) \<in> set (dma_registers magic count) \<Longrightarrow>
     (\<exists>v. r = plain_register v) \<or>
     (\<exists>slot ty. slot < count \<and> a = get_doorbell_regnum slot ty \<and> r = doorbell_register count slot ty)"
  by (auto simp: dma_registers_def dma_fixed_registers_def dma_address_registers_def
      dma_doorbell_registers_def)

lemma se_inv_distinct: "se_inv magic e \<Longrightarrow> distinct (map fst (se_regs e))"
  by (metis dma_registers_distinct keys_shape se_inv_def)

lemma se_inv_find:
  assumes "se_inv magic e"
  shows "map_option (\<lambda>r. r\<lparr>r_value := 0\<rparr>) (find_register (se_regs e) a) =
         map_option (\<lambda>r. r\<lparr>r_value := 0\<rparr>) (find_register (dma_registers magic (se_count e)) a)"
  using assms by (metis find_shape se_inv_def)

lemma register_value_cong:
  fixes r q :: "('r::zero, 'e) register"
  shows "r\<lparr>r_value := 0\<rparr> = q\<lparr>r_value := 0\<rparr> \<longleftrightarrow>
     r_readonly r = r_readonly q \<and> r_initial r = r_initial q \<and>
     r_readfn r = r_readfn q \<and> r_writefn r = r_writefn q"
  by (cases r; cases q) auto

lemma se_inv_doorbell:
  assumes "se_inv magic e" "slot < se_count e"
  obtains r where "find_register (se_regs e) (get_doorbell_regnum slot ty) = Some r"
    "r_writefn r = Some (write_doorbell_register (se_count e) slot ty)" "r_readfn r = None"
    "r_initial r = 0"
proof -
  have "se_count e \<le> 64" using assms(1) by (simp add: se_inv_def)
  from dma_registers_find(1) [OF this assms(2)] se_inv_find [OF assms(1), of "get_doorbell_regnum slot ty"]
  obtain r where r: "find_register (se_regs e) (get_doorbell_regnum slot ty) = Some r"
    "r\<lparr>r_value := 0\<rparr> = (doorbell_register (se_count e) slot ty)\<lparr>r_value := 0\<rparr>" by auto
  from r(2) [unfolded register_value_cong] that [OF r(1)] show thesis
    by (simp add: doorbell_register_def mk_register_def)
qed

lemma se_inv_address:
  assumes "se_inv magic e" "slot < se_count e"
  obtains r where "find_register (se_regs e) (get_address_regnum slot ty) = Some r"
  using se_inv_find [OF assms(1), of "get_address_regnum slot ty"] assms
  by (auto simp: dma_registers_find se_inv_def)

lemma se_inv_kinds:
  assumes "se_inv magic e" "find_register (se_regs e) a = Some r"
  shows "r_readfn r = None \<and> \<not> r_readonly r \<and>
     (r_writefn r = None \<or> (\<exists>slot ty. slot < se_count e \<and> a = get_doorbell_regnum slot ty \<and>
        r_writefn r = Some (write_doorbell_register (se_count e) slot ty)))"
proof -
  obtain r0 where r0: "find_register (dma_registers magic (se_count e)) a = Some r0"
    "r\<lparr>r_value := 0\<rparr> = r0\<lparr>r_value := 0\<rparr>"
    using se_inv_find [OF assms(1), of a] assms(2)
    by (cases "find_register (dma_registers magic (se_count e)) a") auto
  then have "(a, r0) \<in> set (dma_registers magic (se_count e))"
    by (auto simp: find_register_def dest: map_of_SomeD)
  from dma_registers_kinds [OF this] show ?thesis
  proof
    assume "\<exists>v. r0 = plain_register v"
    with r0(2) [unfolded register_value_cong] show ?thesis
      by (auto simp: plain_register_def mk_register_def)
  next
    assume "\<exists>slot ty. slot < se_count e \<and> a = get_doorbell_regnum slot ty \<and>
      r0 = doorbell_register (se_count e) slot ty"
    then obtain slot ty where st: "slot < se_count e" "a = get_doorbell_regnum slot ty"
      "r0 = doorbell_register (se_count e) slot ty" by blast
    from r0(2) [unfolded register_value_cong] st(3)
    have "r_readfn r = None" "\<not> r_readonly r"
      "r_writefn r = Some (write_doorbell_register (se_count e) slot ty)"
      by (simp_all add: doorbell_register_def mk_register_def)
    with st(1,2) show ?thesis by blast
  qed
qed

lemma se_inv_put:
  assumes "se_inv magic e" "find_register (se_regs e) a = Some r"
  shows "se_inv magic (e\<lparr>se_regs := put_register a (r\<lparr>r_value := v\<rparr>) (se_regs e)\<rparr>)"
    and "se_inv magic (e\<lparr>se_regs := put_register a (r\<lparr>r_value := v\<rparr>) (se_regs e), se_event := ev\<rparr>)"
  using assms(1) shape_put_value [OF se_inv_distinct [OF assms(1)] assms(2)]
  by (simp_all add: se_inv_def)

lemma se_inv_event [simp]: "se_inv magic (e\<lparr>se_event := ev\<rparr>) = se_inv magic e"
  and se_inv_config [simp]: "se_inv magic (e\<lparr>se_config := cfg\<rparr>) = se_inv magic e"
  by (simp_all add: se_inv_def)

lemma se_inv_reset: "se_inv magic e \<Longrightarrow> se_inv magic (se_reset e)"
  by (simp add: se_inv_def se_reset_def shape_reset)

lemma slots_engine_new_eq:
  "slots_engine_new magic count =
     (if 64 < count then Inl Thrown
      else Inr \<lparr>se_count = count, se_config = [], se_regs = dma_registers magic count, se_event = False\<rparr>)"
  using dma_registers_distinct [of count magic] add_registers_distinct [of "[]" "dma_registers magic count"]
  by (simp add: slots_engine_new_def maximum_slot_count_def init_dma_registers_def)

lemma se_inv_new: "slots_engine_new magic count = Inr e \<Longrightarrow> se_inv magic e \<and> se_count e = count"
  by (auto simp: slots_engine_new_eq se_inv_def split: if_splits)

section \<open>Reads and writes of the host\<close>

lemma read_dma_register_eq:
  assumes "se_inv magic e"
  shows "read_dma_register e index =
    (case find_register (se_regs e) (ucast index) of
       None \<Rightarrow> (0, NOT_IMPLEMENTED, e) | Some r \<Rightarrow> (r_value r, MESSAGE_OK, e))"
proof (cases "find_register (se_regs e) (ucast index)")
  case None
  then show ?thesis by (simp add: read_dma_register_def)
next
  case (Some r)
  with se_inv_kinds [OF assms Some] put_register_same [OF Some se_inv_distinct [OF assms]]
  show ?thesis by (simp add: read_dma_register_def reg_read_def Let_def)
qed

text \<open>What a write of the host does to an engine with an intact bank.\<close>

definition host_written :: "slots_engine \<Rightarrow> u64 \<Rightarrow> u64 \<Rightarrow> slots_engine" where
  "host_written e a v =
     (case find_register (se_regs e) a of
        None \<Rightarrow> e
      | Some r \<Rightarrow> e\<lparr>se_regs := put_register a (r\<lparr>r_value := v\<rparr>) (se_regs e),
                    se_event := se_event e \<or> (r_writefn r \<noteq> None \<and> v \<noteq> 0)\<rparr>)"

lemma se_inv_host_written: "se_inv magic e \<Longrightarrow> se_inv magic (host_written e a v)"
  using se_inv_put(2) by (auto simp: host_written_def split: option.splits)

lemma write_dma_register_eq:
  assumes "se_inv magic e"
  shows "write_dma_register e index v =
    Inr (if find_register (se_regs e) (ucast index) = None then NOT_IMPLEMENTED else MESSAGE_OK,
         host_written e (ucast index) v)"
proof (cases "find_register (se_regs e) (ucast index)")
  case None
  then show ?thesis by (simp add: write_dma_register_def host_written_def)
next
  case (Some r)
  note kinds = se_inv_kinds [OF assms Some]
  define ev where "ev = (se_event e \<or> (r_writefn r \<noteq> None \<and> v \<noteq> 0))"
  have w: "reg_write r (ucast index) v (se_event e) = (True, r\<lparr>r_value := v\<rparr>, ev)"
    using kinds by (auto simp: reg_write_def write_doorbell_register_def ev_def)
  have e': "e\<lparr>se_regs := put_register (ucast index) (r\<lparr>r_value := v\<rparr>) (se_regs e), se_event := ev\<rparr> =
      host_written e (ucast index) v"
    using Some by (simp add: host_written_def ev_def)
  have "find_register (se_regs (host_written e (ucast index) v)) (ucast index) = Some (r\<lparr>r_value := v\<rparr>)"
    using Some by (simp add: host_written_def reg_simps)
  with kinds Some w show ?thesis
    by (simp add: write_dma_register_def e' read_dma_register_eq [OF se_inv_host_written [OF assms]]
        Let_def)
qed


end
