(* ===== verification/Slots_Thread.thy ===== *)
theory Slots_Thread
  imports Slots_Engine
begin

text \<open>
  What the slots DMA engine promises: the register bank is built without collisions and
  reads back what the host writes, the scan for a full doorbell is exact and fair, and the
  thread, interleaved with the host, loses no wake-up.  The properties of the thread are
  invariants of \<open>dma_reachable\<close>, by rule induction over \<open>dma_step\<close>.
\<close>

section \<open>Properties of the register bank\<close>

text \<open>
  For up to 64 slots the constructor builds the bank without meeting the
  assertion that an address is new: the bank holds the 24 fixed registers, three address
  registers and two doorbells per slot, at pairwise different numbers; a larger slot count
  is refused with an exception.
\<close>

theorem slots_engine_new_total:
  "slots_engine_new magic count =
     (if count \<le> 64
      then Inr \<lparr>se_count = count, se_config = [], se_regs = dma_registers magic count, se_event = False\<rparr>
      else Inl Thrown) \<and>
   length (dma_registers magic count) = 24 + 5 * count \<and>
   (count \<le> 64 \<longrightarrow> distinct (map fst (dma_registers magic count)))"
proof -
  have "length (concat (map f [0..<count])) = k * count" if "\<And>x. length (f x) = k"
    for f :: "nat \<Rightarrow> (u64 \<times> (u64, bool) register) list" and k
    using that by (induction count) auto
  then have "length (dma_registers magic count) = 24 + (3 * count + 2 * count)"
    by (simp add: dma_registers_def dma_fixed_registers_def dma_address_registers_def
        dma_doorbell_registers_def)
  then show ?thesis by (simp add: slots_engine_new_eq dma_registers_distinct)
qed

theorem slots_engine_new_total_witness:
  "(\<exists>e. slots_engine_new 0x1234 64 = Inr e) \<and> slots_engine_new 0x1234 65 = Inl Thrown \<and>
   distinct (map fst (dma_registers 0x1234 64))"
  using slots_engine_new_total [of "0x1234" 64] slots_engine_new_total [of "0x1234" 65] by simp

text \<open>
  Property C34: a host write to a register of the engine always succeeds, keeps the bank
  intact, is read back exactly (so the assertion that checks it never fails), changes no
  other register, and schedules a wake-up when it rings a doorbell with a value other than
  zero; a number without a register is reported as not implemented and changes nothing.
\<close>

theorem dma_write_read_back:
  assumes "se_inv magic e"
  shows "\<exists>e'. write_dma_register e index v =
      Inr (if find_register (se_regs e) (ucast index) = None then NOT_IMPLEMENTED else MESSAGE_OK, e') \<and>
    se_inv magic e' \<and>
    (if find_register (se_regs e) (ucast index) = None then e' = e
     else read_dma_register e' index = (v, MESSAGE_OK, e')) \<and>
    (\<forall>a. a \<noteq> ucast index \<longrightarrow> find_register (se_regs e') a = find_register (se_regs e) a) \<and>
    (v \<noteq> 0 \<and> (\<exists>slot < se_count e. \<exists>ty. ucast index = get_doorbell_regnum slot ty) \<longrightarrow> se_event e')"
proof -
  let ?e' = "host_written e (ucast index) v"
  have inv': "se_inv magic ?e'" using assms by (rule se_inv_host_written)
  have rback: "read_dma_register ?e' index = (v, MESSAGE_OK, ?e')"
    if "find_register (se_regs e) (ucast index) = Some r" for r
    using that by (simp add: read_dma_register_eq [OF inv']) (simp add: host_written_def reg_simps)
  have none: "find_register (se_regs e) (ucast index) = None \<Longrightarrow> ?e' = e"
    by (simp add: host_written_def)
  have frame: "\<forall>a. a \<noteq> ucast index \<longrightarrow> find_register (se_regs ?e') a = find_register (se_regs e) a"
    by (simp add: host_written_def reg_simps split: option.splits)
  have wake: "v \<noteq> 0 \<and> (\<exists>slot < se_count e. \<exists>ty. ucast index = get_doorbell_regnum slot ty) \<longrightarrow> se_event ?e'"
  proof (intro impI, elim conjE exE)
    fix slot ty assume "v \<noteq> 0" and st: "slot < se_count e" "ucast index = get_doorbell_regnum slot ty"
    then show "se_event ?e'"
      by (rule_tac se_inv_doorbell [OF assms st(1), of ty]) (simp add: host_written_def)
  qed
  show ?thesis
    using inv' write_dma_register_eq [OF assms, of index v] rback none frame wake
    by (intro exI [of _ ?e'] conjI) auto
qed

theorem dma_write_read_back_witness:
  "\<exists>e e'. slots_engine_new 0x1234 1 = Inr e \<and>
     write_dma_register e 0x30000 4 = Inr (MESSAGE_OK, e') \<and> read_dma_register e' 0x30000 = (4, MESSAGE_OK, e')"
proof -
  obtain e where e: "slots_engine_new 0x1234 1 = Inr e" by (simp add: slots_engine_new_eq)
  from se_inv_new [OF e] have inv: "se_inv 0x1234 e" and c: "se_count e = 1" by auto
  have n: "(ucast (0x30000 :: u32) :: u64) = get_doorbell_regnum 0 full_db"
    by (simp add: get_doorbell_regnum_def)
  have "find_register (se_regs e) (ucast (0x30000 :: u32)) \<noteq> None"
    unfolding n by (rule se_inv_doorbell [OF inv, of 0 full_db]) (use c in auto)
  with dma_write_read_back [OF inv, of "0x30000" 4] e show ?thesis by auto
qed

section \<open>Properties of the scan\<close>

lemma find_next_loop_result:
  assumes "i < count" "d < count"
  shows "case find_next_loop count db d i of
     Inl _ \<Rightarrow> False
   | Inr None \<Rightarrow> \<forall>k < count. slot_dist count i k \<le> slot_dist count i d \<longrightarrow> db k = 0
   | Inr (Some (j, v)) \<Rightarrow> j < count \<and> v = db j \<and> v \<noteq> 0 \<and>
       (\<forall>k < count. slot_dist count i k < slot_dist count i j \<longrightarrow> db k = 0)"
  using assms
proof (induction count db d i rule: find_next_loop.induct)
  case (1 count db d i)
  have zero: "k < count \<Longrightarrow> slot_dist count i k = 0 \<longleftrightarrow> k = i" for k
    using "1.prems" by (auto simp: slot_dist_def)
  show ?case
  proof (cases "db i \<noteq> 0 \<or> i = d")
    case True
    then show ?thesis
      using "1.prems" zero by (subst find_next_loop.simps) (auto simp: slot_dist_def)
  next
    case False
    let ?i = "add_wrap i 1 count"
    have i': "?i < count" using "1.prems" by (simp add: add_wrap_def)
    have step: "k < count \<Longrightarrow> k \<noteq> i \<Longrightarrow> slot_dist count i k = Suc (slot_dist count ?i k)" for k
      using slot_dist_step [of i count k] "1.prems"(1) by simp
    have "case find_next_loop count db d ?i of
        Inl _ \<Rightarrow> False
      | Inr None \<Rightarrow> \<forall>k < count. slot_dist count ?i k \<le> slot_dist count ?i d \<longrightarrow> db k = 0
      | Inr (Some (j, v)) \<Rightarrow> j < count \<and> v = db j \<and> v \<noteq> 0 \<and>
          (\<forall>k < count. slot_dist count ?i k < slot_dist count ?i j \<longrightarrow> db k = 0)"
      using "1.IH" False i' "1.prems" by auto
    moreover have "find_next_loop count db d i = find_next_loop count db d ?i"
      using False "1.prems" by (subst find_next_loop.simps) auto
    ultimately show ?thesis
      using False step "1.prems" by (auto split: sum.splits option.splits) (metis Suc_less_eq Suc_le_mono)+
  qed
qed

lemma slot_dist_bound: "i < count \<Longrightarrow> k < count \<Longrightarrow> slot_dist count i k < count"
  by (auto simp: slot_dist_def)

lemma slot_dist_after:
  "d < count \<Longrightarrow> slot_dist count (add_wrap d 1 count) d = count - 1"
  by (cases "Suc d = count") (auto simp: slot_dist_def add_wrap_def)

lemma find_next_full_doorbell_spec:
  assumes "d < se_count e"
  shows "case find_next_full_doorbell e d of
     Inl _ \<Rightarrow> False
   | Inr None \<Rightarrow> \<forall>k < se_count e. full_doorbell e k = 0
   | Inr (Some (j, v)) \<Rightarrow> j < se_count e \<and> v = full_doorbell e j \<and> v \<noteq> 0 \<and>
       (\<forall>k < se_count e. full_doorbell e k \<noteq> 0 \<longrightarrow>
          slot_dist (se_count e) (add_wrap d 1 (se_count e)) j
            \<le> slot_dist (se_count e) (add_wrap d 1 (se_count e)) k)"
proof -
  let ?n = "se_count e" and ?i = "add_wrap d 1 (se_count e)"
  have i: "?i < ?n" using assms by (simp add: add_wrap_def)
  have all: "k < ?n \<Longrightarrow> slot_dist ?n ?i k \<le> slot_dist ?n ?i d" for k
    using slot_dist_bound [OF i, of k] slot_dist_after [OF assms] by linarith
  show ?thesis
    using find_next_loop_result [OF i assms, of "full_doorbell e"] assms all
    by (auto simp: find_next_full_doorbell_def not_le split: sum.splits option.splits)
qed

text \<open>
  A scan from a slot of the engine never meets its assertion; it finds nothing
  exactly when every full doorbell is clear, and otherwise returns the first slot after the
  last one served, in cyclic order, whose doorbell is set, with the value of that doorbell.
\<close>

theorem find_next_full_doorbell_result:
  assumes "d < se_count e"
  shows "case find_next_full_doorbell e d of
     Inl _ \<Rightarrow> False
   | Inr None \<Rightarrow> \<forall>k < se_count e. full_doorbell e k = 0
   | Inr (Some (j, v)) \<Rightarrow> j < se_count e \<and> v = full_doorbell e j \<and> v \<noteq> 0 \<and>
       (\<forall>k < se_count e. full_doorbell e k \<noteq> 0 \<longrightarrow>
          slot_dist (se_count e) (add_wrap d 1 (se_count e)) j
            \<le> slot_dist (se_count e) (add_wrap d 1 (se_count e)) k)"
  using assms by (rule find_next_full_doorbell_spec)

theorem find_next_full_doorbell_result_witness:
  "\<exists>e. slots_engine_new 0x1234 2 = Inr e \<and> find_next_full_doorbell e 1 = Inr None"
proof -
  obtain e where e: "slots_engine_new 0x1234 2 = Inr e" by (simp add: slots_engine_new_eq)
  then have c: "se_count e = 2" and r: "se_regs e = dma_registers 0x1234 2"
    by (auto simp: slots_engine_new_eq)
  have "full_doorbell e k = 0" if "k < 2" for k
    using that r dma_registers_find(1) [of 2 k "0x1234" full_db]
    by (simp add: full_doorbell_def doorbell_register_def mk_register_def)
  then have "find_next_full_doorbell e 1 = Inr None"
    using find_next_full_doorbell_result [of 1 e] c
    by (auto split: sum.splits option.splits)
  with e show ?thesis by blast
qed

text \<open>The last slot served after \<open>n\<close> scans, of the engine as it is at each scan.\<close>

definition scan_slot :: "slots_engine \<Rightarrow> nat \<Rightarrow> nat" where
  "scan_slot e d = (case find_next_full_doorbell e d of Inr (Some (j, _)) \<Rightarrow> j | _ \<Rightarrow> d)"

primrec scan_slots :: "nat \<Rightarrow> (nat \<Rightarrow> slots_engine) \<Rightarrow> nat \<Rightarrow> nat" where
  "scan_slots 0 es d = d"
| "scan_slots (Suc n) es d = scan_slot (es n) (scan_slots n es d)"

lemma scan_slot_progress:
  assumes "d < se_count e" "k < se_count e" "full_doorbell e k \<noteq> 0"
  shows "scan_slot e d < se_count e \<and>
    (scan_slot e d = k \<or>
     slot_dist (se_count e) (add_wrap (scan_slot e d) 1 (se_count e)) k
       < slot_dist (se_count e) (add_wrap d 1 (se_count e)) k)"
proof -
  let ?n = "se_count e" and ?i = "add_wrap d 1 (se_count e)"
  have i: "?i < ?n" using assms(1) by (simp add: add_wrap_def)
  obtain j v where jv: "find_next_full_doorbell e d = Inr (Some (j, v))" and j: "j < ?n"
    and le: "slot_dist ?n ?i j \<le> slot_dist ?n ?i k"
    using find_next_full_doorbell_spec [OF assms(1)] assms(2,3)
    by (auto split: sum.splits option.splits)
  have "scan_slot e d = j" using jv by (simp add: scan_slot_def)
  moreover have "j \<noteq> k \<Longrightarrow> slot_dist ?n (add_wrap j 1 ?n) k < slot_dist ?n ?i k"
    using slot_dist_step [OF j assms(2)] le i j assms(2)
    by (auto simp: slot_dist_def split: if_splits)
  ultimately show ?thesis using j by blast
qed

text \<open>
  Property C29: the scan is fair.  A slot whose full doorbell stays set is the one served
  after at most as many scans as the engine has slots, whatever the host does to the other
  doorbells between the scans.
\<close>

theorem scan_is_fair:
  assumes "\<forall>n. se_count (es n) = count \<and> full_doorbell (es n) k \<noteq> 0" "d < count" "k < count"
  shows "\<exists>n. 0 < n \<and> n \<le> count \<and> scan_slots n es d = k"
proof (rule ccontr)
  assume "\<not> ?thesis"
  then have never: "\<And>n. 0 < n \<Longrightarrow> n \<le> count \<Longrightarrow> scan_slots n es d \<noteq> k" by blast
  have "n \<le> count \<Longrightarrow> scan_slots n es d < count \<and>
      slot_dist count (add_wrap (scan_slots n es d) 1 count) k + n < count" for n
  proof (induction n)
    case 0
    then show ?case using assms(2,3) by (auto intro: slot_dist_bound simp: add_wrap_def)
  next
    case (Suc n)
    then show ?case
      using scan_slot_progress [of "scan_slots n es d" "es n" k] never [of "Suc n"] assms(1,3)
      by auto
  qed
  from this [of count] show False by simp
qed

lemma doorbell_regnum_eq:
  "slot < 64 \<Longrightarrow> slot' < 64 \<Longrightarrow>
     get_doorbell_regnum slot ty = get_doorbell_regnum slot' ty' \<longleftrightarrow> slot = slot' \<and> ty = ty'"
  using doorbell_regnum_inj by auto

lemma full_doorbell_host_written:
  assumes "se_inv magic e" "slot < se_count e" "k < se_count e"
  shows "full_doorbell (host_written e (get_doorbell_regnum slot ty) v) k =
    (if ty = full_db \<and> slot = k then v else full_doorbell e k)"
proof -
  have c: "se_count e \<le> 64" using assms(1) by (simp add: se_inv_def)
  obtain r where r: "find_register (se_regs e) (get_doorbell_regnum slot ty) = Some r"
    using se_inv_doorbell [OF assms(1,2)] by blast
  then show ?thesis
    using assms(2,3) c
    by (auto simp: full_doorbell_def host_written_def reg_simps doorbell_regnum_eq)
qed

theorem scan_is_fair_witness:
  "\<exists>e. slots_engine_new 0x1234 2 = Inr e \<and>
     (\<exists>n. 0 < n \<and> n \<le> 2 \<and> scan_slots n (\<lambda>_. host_written e 0x30200 4) 1 = 1)"
proof -
  obtain e where e: "slots_engine_new 0x1234 2 = Inr e" by (simp add: slots_engine_new_eq)
  from se_inv_new [OF e] have inv: "se_inv 0x1234 e" and c: "se_count e = 2" by auto
  let ?e = "host_written e 0x30200 4"
  have n: "(0x30200 :: u64) = get_doorbell_regnum 1 full_db" by (simp add: get_doorbell_regnum_def)
  have d: "full_doorbell ?e 1 \<noteq> 0"
    unfolding n using full_doorbell_host_written [OF inv, of 1 1 full_db 4] c by simp
  have c': "se_count ?e = 2" using c by (simp add: host_written_def split: option.splits)
  have "\<exists>n. 0 < n \<and> n \<le> 2 \<and> scan_slots n (\<lambda>_. ?e) 1 = 1"
    by (rule scan_is_fair) (use c' d in auto)
  with e show ?thesis by blast
qed

section \<open>Properties of the thread\<close>

text \<open>
  How a sleeping thread can be left: the host's operations, or a notification that wakes it.
\<close>

inductive_cases dma_stepE: "dma_step off sh s s'"

lemma sleeping_left:
  assumes "dma_step off sh s s'" "ds_pc s = Sleeping" "ds_pc s' \<noteq> Sleeping"
  shows "se_event (ds_engine s) \<and> ds_pc s' = Scanning"
  using assms(1) by (rule dma_stepE) (use assms(2,3) in \<open>auto split: if_splits\<close>)

text \<open>
  The thread sleeps only while no doorbell is set, or with a wake-up on its way; its slot
  number stays a slot of the engine.
\<close>

definition ds_inv :: "u64 \<Rightarrow> 'w dma_system \<Rightarrow> bool" where
  "ds_inv magic s \<longleftrightarrow>
     se_inv magic (ds_engine s) \<and> ds_slot s < se_count (ds_engine s) \<and>
     (ds_pc s = Sleeping \<longrightarrow> (\<forall>k < se_count (ds_engine s). full_doorbell (ds_engine s) k = 0)
        \<or> se_event (ds_engine s))"

lemma reg_at_put_doorbell:
  assumes "se_inv magic e" "slot < se_count e"
  shows "\<exists>m. reg_at_put (get_doorbell_regnum slot full_db) 0 (se_regs e) = Inr m \<and>
     se_inv magic (e\<lparr>se_regs := m\<rparr>) \<and>
     (\<forall>k < se_count e. full_doorbell (e\<lparr>se_regs := m\<rparr>) k = (if k = slot then 0 else full_doorbell e k))"
proof -
  have c: "se_count e \<le> 64" using assms(1) by (simp add: se_inv_def)
  obtain r where r: "find_register (se_regs e) (get_doorbell_regnum slot full_db) = Some r"
    using se_inv_doorbell [OF assms] by blast
  have "\<forall>k < se_count e. full_doorbell (e\<lparr>se_regs :=
      put_register (get_doorbell_regnum slot full_db) (r\<lparr>r_value := 0\<rparr>) (se_regs e)\<rparr>) k =
      (if k = slot then 0 else full_doorbell e k)"
    using r assms(2) c by (simp add: full_doorbell_def reg_simps doorbell_regnum_eq)
  with r se_inv_put(1) [OF assms(1) r] show ?thesis by (simp add: reg_at_put_def)
qed

lemma dma_scan_inv:
  assumes "ds_inv magic s" "ds_pc s = Scanning" "dma_scan sh s = Inr s'"
  shows "ds_inv magic s'"
proof -
  let ?e = "ds_engine s"
  have inv: "se_inv magic ?e" and d: "ds_slot s < se_count ?e" using assms(1) by (auto simp: ds_inv_def)
  note found = find_next_full_doorbell_spec [OF d]
  show ?thesis
  proof (cases "find_next_full_doorbell ?e (ds_slot s)")
    case (Inl f)
    with found show ?thesis by simp
  next
    case (Inr res)
    show ?thesis
    proof (cases res)
      case None
      with Inr found assms(3) inv d show ?thesis by (auto simp: dma_scan_def ds_inv_def)
    next
      case (Some jv)
      obtain j v where jv: "jv = (j, v)" by force
      with Inr Some found have j: "j < se_count ?e" by simp
      obtain m where m: "reg_at_put (get_doorbell_regnum j full_db) 0 (se_regs ?e) = Inr m"
        "se_inv magic (?e\<lparr>se_regs := m\<rparr>)"
        using reg_at_put_doorbell [OF inv j] by blast
      show ?thesis
        using Inr Some jv assms inv j m
        by (auto simp: dma_scan_def ds_inv_def res_bind_eq_Inr Let_def split: option.splits if_splits)
    qed
  qed
qed

lemma host_written_wakes:
  assumes "se_inv magic e" "(\<forall>k < se_count e. full_doorbell e k = 0) \<or> se_event e"
  shows "(\<forall>k < se_count e. full_doorbell (host_written e a v) k = 0) \<or> se_event (host_written e a v)"
proof (rule disjCI)
  assume no_event: "\<not> se_event (host_written e a v)"
  then have old: "\<not> se_event e" by (auto simp: host_written_def split: option.splits)
  show "\<forall>k < se_count e. full_doorbell (host_written e a v) k = 0"
  proof (intro allI impI)
    fix k assume k: "k < se_count e"
    obtain r where r: "find_register (se_regs e) (get_doorbell_regnum k full_db) = Some r"
      "r_writefn r = Some (write_doorbell_register (se_count e) k full_db)"
      using se_inv_doorbell [OF assms(1) k] by blast
    show "full_doorbell (host_written e a v) k = 0"
    proof (cases "a = get_doorbell_regnum k full_db")
      case True
      with r no_event have "v = 0" by (auto simp: host_written_def)
      with True r show ?thesis by (simp add: full_doorbell_def host_written_def reg_simps)
    next
      case False
      then have "full_doorbell (host_written e a v) k = full_doorbell e k"
        by (simp add: full_doorbell_def host_written_def reg_simps split: option.splits)
      with assms(2) old k show ?thesis by simp
    qed
  qed
qed

lemma host_written_fields [simp]:
  "se_count (host_written e a v) = se_count e" "se_config (host_written e a v) = se_config e"
  by (simp_all add: host_written_def split: option.splits)

lemma full_doorbell_reset:
  assumes "se_inv magic e" "k < se_count e"
  shows "full_doorbell (se_reset e) k = 0"
  by (rule se_inv_doorbell [OF assms, of full_db])
     (simp add: full_doorbell_def se_reset_def reg_simps reg_reset_def)

lemma dma_thread_turn_inv:
  assumes "ds_inv magic s" "ds_pc s \<noteq> Sleeping" "dma_thread_turn off sh s = Inr s'"
  shows "ds_inv magic s'"
proof (cases "ds_pc s")
  case Scanning
  with assms show ?thesis by (auto simp: dma_thread_turn_def intro: dma_scan_inv)
next
  case (After_read ca)
  have inv: "se_inv magic (ds_engine s)" and d: "ds_slot s < se_count (ds_engine s)"
    using assms(1) by (auto simp: ds_inv_def)
  obtain m where "reg_at_put (get_doorbell_regnum (ds_slot s) full_db) 0 (se_regs (ds_engine s)) = Inr m"
    "se_inv magic ((ds_engine s)\<lparr>se_regs := m\<rparr>)"
    using reg_at_put_doorbell [OF inv d] by blast
  with After_read assms(3) d show ?thesis
    by (auto simp: dma_thread_turn_def dma_finish_read_def ds_inv_def res_bind_eq_Inr Let_def)
next
  case After_write
  with assms show ?thesis by (auto simp: dma_thread_turn_def ds_inv_def)
next
  case Sleeping
  with assms(2) show ?thesis by simp
qed

lemma dma_step_inv: "dma_step off sh s s' \<Longrightarrow> ds_inv magic s \<Longrightarrow> ds_inv magic s'"
proof (induction rule: dma_step.induct)
  case (thread s s')
  then show ?case by (blast intro: dma_thread_turn_inv)
next
  case (host_write s index v msg e')
  then have inv: "se_inv magic (ds_engine s)" by (simp add: ds_inv_def)
  with host_write.hyps have "e' = host_written (ds_engine s) (ucast index) v"
    by (simp add: write_dma_register_eq)
  then show ?case
    using host_write.prems se_inv_host_written [OF inv] host_written_wakes [OF inv]
    by (auto simp: ds_inv_def)
next
  case (configure s cfg)
  then show ?case by (simp add: ds_inv_def full_doorbell_def)
next
  case (host_reset s)
  then show ?case
    using se_inv_reset full_doorbell_reset by (auto simp: ds_inv_def) (simp_all add: se_reset_def)
next
  case (notified s)
  then show ?case by (auto simp: ds_inv_def full_doorbell_def)
qed

lemma dma_start_inv:
  assumes "slots_engine_new magic count = Inr e" "0 < count"
  shows "ds_inv magic (dma_thread_start e w)"
proof -
  from assms(1) have "count \<le> 64" by (simp add: slots_engine_new_eq split: if_splits)
  then have "unat (of_nat count - 1 :: u32) = count - 1"
    using assms(2) by (cases count) (simp_all add: unat_of_nat)
  then show ?thesis
    using se_inv_new [OF assms(1)] assms(2) by (simp add: ds_inv_def dma_thread_start_def)
qed

lemma dma_reachable_inv:
  assumes "0 < count" "dma_reachable magic off count sh w0 s"
  shows "ds_inv magic s"
  using assms(2)
proof (induction rule: dma_reachable.induct)
  case (start e)
  then show ?case using assms(1) by (rule dma_start_inv)
next
  case (step s s')
  then show ?case by (blast intro: dma_step_inv)
qed

text \<open>
  Property C1: no wake-up is lost.  In every state the engine and its host can reach, the
  slot number the thread holds is a slot of the engine, the bank is intact, and a thread
  that sleeps while some full doorbell is set has a notification on its way.
\<close>

theorem no_lost_wakeup:
  assumes "0 < count" "dma_reachable magic off count sh w0 s"
  shows "se_inv magic (ds_engine s) \<and> ds_slot s < se_count (ds_engine s) \<and>
    (ds_pc s = Sleeping \<and> k < se_count (ds_engine s) \<and> full_doorbell (ds_engine s) k \<noteq> 0 \<longrightarrow>
       se_event (ds_engine s))"
  using dma_reachable_inv [OF assms] by (auto simp: ds_inv_def)

theorem no_lost_wakeup_witness:
  "\<forall>sh. \<exists>s. dma_reachable 0x1234 0 2 sh () s \<and> se_inv 0x1234 (ds_engine s) \<and>
     ds_slot s < se_count (ds_engine s)"
proof
  fix sh
  obtain e where "slots_engine_new 0x1234 2 = Inr e" by (simp add: slots_engine_new_eq)
  then have r: "dma_reachable 0x1234 0 2 sh () (dma_thread_start e ())" by (rule dma_reachable.start)
  from no_lost_wakeup [OF _ r] r
  show "\<exists>s. dma_reachable 0x1234 0 2 sh () s \<and> se_inv 0x1234 (ds_engine s) \<and>
     ds_slot s < se_count (ds_engine s)" by auto
qed

text \<open>
  When the thread finishes the transfer of a slot it clears that slot's full
  doorbell whatever it holds by then, and no other: a doorbell the host rings again while
  its slot is being served is discarded without a transfer.
\<close>

theorem finish_read_discards_ring:
  assumes "ds_inv magic s" "ds_pc s = After_read ca"
    and "write_dma_register (ds_engine s) index v = Inr (msg, e')"
    and "dma_thread_turn off sh (s\<lparr>ds_engine := e'\<rparr>) = Inr s'"
  shows "full_doorbell (ds_engine s') (ds_slot s) = 0 \<and> ds_pc s' = After_write \<and>
    (\<forall>k < se_count (ds_engine s). k \<noteq> ds_slot s \<longrightarrow>
       full_doorbell (ds_engine s') k = full_doorbell e' k)"
proof -
  have inv: "se_inv magic (ds_engine s)" and d: "ds_slot s < se_count (ds_engine s)"
    using assms(1) by (auto simp: ds_inv_def)
  from assms(3) have e': "e' = host_written (ds_engine s) (ucast index) v"
    by (simp add: write_dma_register_eq [OF inv])
  have inv': "se_inv magic e'" and d': "ds_slot s < se_count e'"
    using se_inv_host_written [OF inv] d by (simp_all add: e')
  from reg_at_put_doorbell [OF inv' d'] assms(2,4) d' show ?thesis
    by (auto simp: dma_thread_turn_def dma_finish_read_def res_bind_eq_Inr Let_def e')
qed

theorem finish_read_discards_ring_witness:
  "\<exists>e e' s'. slots_engine_new 0x1234 2 = Inr e \<and> write_dma_register e 0x30000 9 = Inr (MESSAGE_OK, e') \<and>
     full_doorbell e' 0 = 9 \<and>
     dma_thread_turn 0 \<lparr>sh_read = (\<lambda>a b n w. Inr (b, w)), sh_write = (\<lambda>b a n w. Inr w)\<rparr>
       \<lparr>ds_engine = e', ds_pc = After_read 0, ds_slot = 0, ds_world = ()\<rparr> = Inr s' \<and>
     full_doorbell (ds_engine s') 0 = 0"
proof -
  let ?sh = "\<lparr>sh_read = (\<lambda>a b n w. Inr (b, w)), sh_write = (\<lambda>b a n w. Inr w)\<rparr> :: unit shell_ops"
  obtain e where e: "slots_engine_new 0x1234 2 = Inr e" by (simp add: slots_engine_new_eq)
  let ?s = "\<lparr>ds_engine = e, ds_pc = After_read 0, ds_slot = 0, ds_world = ()\<rparr>"
  let ?e' = "host_written e 0x30000 9"
  from se_inv_new [OF e] have inv: "se_inv 0x1234 e" and c: "se_count e = 2" by auto
  have ds: "ds_inv 0x1234 ?s" using inv c by (simp add: ds_inv_def)
  have n: "(0x30000 :: u64) = get_doorbell_regnum 0 full_db" by (simp add: get_doorbell_regnum_def)
  have "find_register (se_regs e) 0x30000 \<noteq> None"
    unfolding n by (rule se_inv_doorbell [OF inv, of 0 full_db]) (use c in auto)
  then have w: "write_dma_register e 0x30000 9 = Inr (MESSAGE_OK, ?e')"
    by (simp add: write_dma_register_eq [OF inv])
  have "full_doorbell ?e' 0 = 9"
    unfolding n using full_doorbell_host_written [OF inv, of 0 0 full_db 9] c by simp
  moreover obtain m where "reg_at_put (get_doorbell_regnum 0 full_db) 0 (se_regs ?e') = Inr m"
    using reg_at_put_doorbell [OF se_inv_host_written [OF inv], of 0] c by fastforce
  then obtain s' where s': "dma_thread_turn 0 ?sh (?s\<lparr>ds_engine := ?e'\<rparr>) = Inr s'"
    by (simp add: dma_thread_turn_def dma_finish_read_def Let_def)
  moreover have "full_doorbell (ds_engine s') 0 = 0"
    using finish_read_discards_ring [OF ds _ _ s', of 0 "0x30000" 9 MESSAGE_OK] w by simp
  ultimately show ?thesis using e w by auto
qed

text \<open>The turns of the thread until it sleeps, at most \<open>n\<close> of them.\<close>

primrec dma_turns :: "nat \<Rightarrow> u64 \<Rightarrow> 'w shell_ops \<Rightarrow> 'w dma_system \<Rightarrow> 'w dma_system res" where
  "dma_turns 0 off sh s = Inr s"
| "dma_turns (Suc n) off sh s =
     (if ds_pc s = Sleeping then Inr s else res_bind (dma_thread_turn off sh s) (dma_turns n off sh))"

definition pending_slots :: "slots_engine \<Rightarrow> nat set" where
  "pending_slots e = {k. k < se_count e \<and> full_doorbell e k \<noteq> 0}"

lemma finite_pending [simp]: "finite (pending_slots e)"
  by (simp add: pending_slots_def)

text \<open>
  Property C17: an engine without slot configurations, the only kind the repository can build
  because \<open>set_slot_config\<close> has no body, drains: from the head of its loop the thread goes
  to sleep after one turn per doorbell that is set and one more, with every full doorbell
  cleared, and it has moved no data.
\<close>

theorem unconfigured_engine_drains:
  assumes "ds_inv magic s" "ds_pc s = Scanning" "se_config (ds_engine s) = []"
    and "card (pending_slots (ds_engine s)) < n"
  shows "\<exists>s'. dma_turns n off sh s = Inr s' \<and> ds_pc s' = Sleeping \<and> ds_world s' = ds_world s \<and>
     pending_slots (ds_engine s') = {}"
  using assms
proof (induction n arbitrary: s)
  case 0
  then show ?case by simp
next
  case (Suc n)
  let ?e = "ds_engine s"
  have inv: "se_inv magic ?e" and d: "ds_slot s < se_count ?e" using Suc.prems(1) by (auto simp: ds_inv_def)
  note found = find_next_full_doorbell_spec [OF d]
  show ?case
  proof (cases "\<exists>jv. find_next_full_doorbell ?e (ds_slot s) = Inr (Some jv)")
    case False
    then have none: "find_next_full_doorbell ?e (ds_slot s) = Inr None"
      using found by (cases "find_next_full_doorbell ?e (ds_slot s)") (auto split: option.splits)
    with found have "pending_slots ?e = {}" by (simp add: pending_slots_def)
    with none Suc.prems(2) show ?thesis
      by (cases n) (simp_all add: dma_thread_turn_def dma_scan_def)
  next
    case True
    then obtain j v where jv: "find_next_full_doorbell ?e (ds_slot s) = Inr (Some (j, v))" by auto
    with found have j: "j \<in> pending_slots ?e" "j < se_count ?e" by (auto simp: pending_slots_def)
    obtain m where m: "reg_at_put (get_doorbell_regnum j full_db) 0 (se_regs ?e) = Inr m"
      "\<forall>k < se_count ?e. full_doorbell (?e\<lparr>se_regs := m\<rparr>) k = (if k = j then 0 else full_doorbell ?e k)"
      using reg_at_put_doorbell [OF inv j(2)] by blast
    let ?s = "s\<lparr>ds_engine := ?e\<lparr>se_regs := m\<rparr>, ds_slot := j\<rparr>"
    have turn: "dma_thread_turn off sh s = Inr ?s"
      using Suc.prems(2,3) jv m(1) by (simp add: dma_thread_turn_def dma_scan_def slot_config_of_def Let_def)
    have "pending_slots (?e\<lparr>se_regs := m\<rparr>) = pending_slots ?e - {j}"
      using m(2) by (auto simp: pending_slots_def split: if_splits)
    then have "card (pending_slots (ds_engine ?s)) < n"
      using card_Diff1_less [OF finite_pending j(1)] Suc.prems(4) by simp
    moreover have "ds_inv magic ?s"
      using dma_thread_turn_inv [OF Suc.prems(1) _ turn] Suc.prems(2) by simp
    ultimately show ?thesis
      using Suc.IH [of ?s] Suc.prems(2,3) turn by simp
  qed
qed

theorem unconfigured_engine_drains_witness:
  "\<exists>e s'. slots_engine_new 0x1234 2 = Inr e \<and>
     dma_turns 3 0 \<lparr>sh_read = (\<lambda>a b n w. Inr (b, w)), sh_write = (\<lambda>b a n w. Inr w)\<rparr>
       (dma_thread_start e ()) = Inr s' \<and> ds_pc s' = Sleeping"
proof -
  let ?sh = "\<lparr>sh_read = (\<lambda>a b n w. Inr (b, w)), sh_write = (\<lambda>b a n w. Inr w)\<rparr> :: unit shell_ops"
  obtain e where e: "slots_engine_new 0x1234 2 = Inr e" by (simp add: slots_engine_new_eq)
  then have c: "se_count e = 2" "se_config e = []" by (auto simp: slots_engine_new_eq)
  have "card (pending_slots e) \<le> card {..<2::nat}"
    by (rule card_mono) (auto simp: pending_slots_def c)
  then have "card (pending_slots (ds_engine (dma_thread_start e ()))) < 3"
    by (simp add: dma_thread_start_def)
  from unconfigured_engine_drains [OF dma_start_inv [OF e] _ _ this, of 0 ?sh] c e
  show ?thesis by (auto simp: dma_thread_start_def)
qed

end
