(* ===== verification/Hello_Role.thy ===== *)
theory Hello_Role
  imports Catapult_Address Width_Adapter Slots_Thread
begin

text \<open>
  \<open>HelloWorldRole\<close> (\<open>catapult/hello_world.h\<close>, \<open>catapult/hello_world.cc\<close>): soft registers that
  return their own index, and a slots DMA engine with 64 slots behind the DMA registers.  The
  role is the client the register width adapter is built for: it provides the store of 64-bit
  registers that the locale \<open>reg64_store\<close> asks for.  \<open>reset\<close> is declared in the header and
  has no body in the repository.
\<close>

section \<open>Operations\<close>

definition hello_new :: "u64 \<Rightarrow> slots_engine res" where
  "hello_new magic = slots_engine_new magic 64"

definition hello_read_soft_register :: "slots_engine wa_read_fn" where
  "hello_read_soft_register address v e =
     (let reg_type = get_address_type address; reg_index = role_reg_index address in
      if reg_type = soft_reg then
        Inr (True, push_bit 32 (ucast reg_index) OR ucast reg_index, e)
      else (case read_dma_register e reg_index of (v', _, e') \<Rightarrow> Inr (True, v', e')))"

definition hello_write_soft_register :: "slots_engine wa_write_fn" where
  "hello_write_soft_register address v e =
     (let reg_type = get_address_type address; reg_index = role_reg_index address in
      if reg_type = soft_reg then Inr (True, e)
      else res_bind (write_dma_register e reg_index v) (\<lambda>(_, e'). Inr (True, e')))"

section \<open>The role as a store of 64-bit registers\<close>

definition hello_inv :: "u64 \<Rightarrow> slots_engine \<Rightarrow> bool" where
  "hello_inv magic e \<longleftrightarrow> se_inv magic e \<and> se_count e = 64"

text \<open>The addresses of the DMA registers in the window at \<open>0x900000\<close>.\<close>

definition hello_dma_address :: "u64 \<Rightarrow> u64 \<Rightarrow> bool" where
  "hello_dma_address magic a \<longleftrightarrow>
     unat a mod 8 = 0 \<and> unat a div 2 ^ 20 = 9 \<and>
     find_register (dma_registers magic 64) (ucast (role_reg_index a)) \<noteq> None"

definition hello_stored :: "slots_engine \<Rightarrow> u64 \<Rightarrow> u64" where
  "hello_stored e a =
     (case find_register (se_regs e) (ucast (role_reg_index a)) of Some r \<Rightarrow> r_value r | None \<Rightarrow> 0)"

lemma dma_window_type: "unat a div 2 ^ 20 = 9 \<Longrightarrow> get_address_type a = dma_reg"
  by (simp add: get_address_type_eq)

lemma aligned_plus4:
  assumes "unat (a :: u64) mod 8 = 0"
  shows "unat (a + 4) = unat a + 4"
proof -
  obtain k where k: "unat a = 8 * k" using assms by auto
  then have "unat a + 4 < 2 ^ 64" using unsigned_less [of a, where ?'a = nat] by simp
  then show ?thesis by (simp add: unat_word_ariths)
qed

lemma role_reg_index_plus4: "unat a mod 8 = 0 \<Longrightarrow> role_reg_index (a + 4) = role_reg_index a"
  by (auto simp: word_unat_eq_iff unat_role_reg_index aligned_plus4)

lemma window_plus4:
  assumes "unat (a :: u64) mod 8 = 0"
  shows "unat (a + 4) div 2 ^ 20 = unat a div 2 ^ 20"
proof -
  obtain k where k: "unat a = 8 * k" using assms by auto
  have "(8 * k + 4) div (8 * 0x20000) = 8 * k div (8 * 0x20000)" for k :: nat
    unfolding div_mult2_eq by simp
  then show ?thesis using k by (simp add: aligned_plus4)
qed

lemma role_reg_index_inj:
  assumes "unat a mod 8 = 0" "unat b mod 8 = 0" "unat a div 2 ^ 20 = unat b div 2 ^ 20"
    and "role_reg_index a = role_reg_index b"
  shows "a = b"
proof -
  have "unat a mod 0x100000 div 8 = unat b mod 0x100000 div 8"
    using arg_cong [OF assms(4), of unat] assms(3) by (simp only: unat_role_reg_index index_of_window add_left_cancel)
  moreover have "n mod 0x100000 = 8 * (n mod 0x100000 div 8)" if n8: "n mod 8 = 0" for n :: nat
  proof -
    obtain k where k: "n = 8 * k" using n8 by auto
    have "8 * k mod (8 * 0x20000) = 8 * (k mod 0x20000)" by (rule mod_mult_mult1)
    then show ?thesis unfolding k by simp
  qed
  ultimately have "unat a mod 0x100000 = unat b mod 0x100000" using assms(1,2) by metis
  moreover have "unat a div 0x100000 = unat b div 0x100000" using assms(3) by simp
  ultimately have "unat a = unat b" by (metis div_mult_mod_eq)
  then show ?thesis by (rule word_unat_eq_iff [THEN iffD2])
qed

lemma ucast_index_inj: "(ucast (i :: u32) :: u64) = ucast j \<longleftrightarrow> i = j"
  by (metis ucast_u32_u64)

lemma hello_inv_find:
  "hello_inv magic e \<Longrightarrow>
     find_register (se_regs e) a = None \<longleftrightarrow> find_register (dma_registers magic 64) a = None"
  using se_inv_find [of magic e a] by (auto simp: hello_inv_def)

interpretation role: reg64_store hello_read_soft_register hello_write_soft_register
    "hello_inv magic" "hello_dma_address magic" hello_stored for magic
proof
  show "hello_dma_address magic a \<Longrightarrow> a mod 8 = 0" for a
    by (simp add: hello_dma_address_def word_unat_eq_iff unat_mod_distrib)
next
  fix e a a' out
  assume inv: "hello_inv magic e" and a: "hello_dma_address magic a" and a': "a' \<in> {a, a + 4}"
  then have al: "unat a mod 8 = 0" and w: "unat a div 2 ^ 20 = 9" by (simp_all add: hello_dma_address_def)
  have "unat (a + 4) div 2 ^ 20 = 9" using w window_plus4 [OF al] by simp
  then have "role_reg_index a' = role_reg_index a" "get_address_type a' = dma_reg"
    using a' dma_window_type [OF w] dma_window_type [of "a + 4"]
    by (auto simp: role_reg_index_plus4 [OF al])
  moreover obtain r where "find_register (se_regs e) (ucast (role_reg_index a)) = Some r"
    using a hello_inv_find [OF inv, of "ucast (role_reg_index a)"] by (auto simp: hello_dma_address_def)
  ultimately show "hello_read_soft_register a' out e = Inr (True, hello_stored e a, e)"
    using inv by (simp add: hello_read_soft_register_def read_dma_register_eq [of magic] hello_inv_def hello_stored_def)
next
  fix e a v
  assume inv: "hello_inv magic e" and a: "hello_dma_address magic a"
  let ?e' = "host_written e (ucast (role_reg_index a)) v"
  have w: "unat a div 2 ^ 20 = 9" using a by (simp add: hello_dma_address_def)
  obtain r where r: "find_register (se_regs e) (ucast (role_reg_index a)) = Some r"
    using a hello_inv_find [OF inv, of "ucast (role_reg_index a)"] by (auto simp: hello_dma_address_def)
  have "hello_write_soft_register a v e = Inr (True, ?e')"
    using inv r dma_window_type [OF w]
    by (simp add: hello_write_soft_register_def write_dma_register_eq [of magic] hello_inv_def)
  moreover have "hello_inv magic ?e'"
    using inv by (simp add: hello_inv_def se_inv_host_written)
  moreover have "hello_stored ?e' a = v"
    using r by (simp add: hello_stored_def host_written_def reg_simps)
  moreover have "hello_stored ?e' a' = hello_stored e a'"
    if "hello_dma_address magic a'" "a' \<noteq> a" for a'
  proof -
    have "role_reg_index a' \<noteq> role_reg_index a"
      using role_reg_index_inj [of a' a] that a by (auto simp: hello_dma_address_def)
    then show ?thesis by (simp add: hello_stored_def host_written_def reg_simps ucast_index_inj r)
  qed
  ultimately show "\<exists>ok b'. hello_write_soft_register a v e = Inr (ok, b') \<and> hello_inv magic b' \<and>
      hello_stored b' a = v \<and>
      (\<forall>a'. hello_dma_address magic a' \<longrightarrow> a' \<noteq> a \<longrightarrow> hello_stored b' a' = hello_stored e a')" by blast
qed

section \<open>Properties of the role\<close>

text \<open>
  A host with 32-bit accesses can use the DMA registers of the role: writing the
  low and the high half of a register in order stores the whole value, which then reads back
  as one 64-bit access and as its two halves, and every other DMA register keeps its value.
\<close>

theorem role_split_access:
  assumes "hello_inv magic e" "hello_dma_address magic a" "\<not> is_write_in_progress wa"
  shows "\<exists>e'. wa_writes hello_write_soft_register
        [(a, 4, ucast (ucast v :: u32)), (a + 4, 4, drop_bit 32 v)] (wa, e) = Inr ([4, 4], wa_reset wa, e') \<and>
     wa_read hello_read_soft_register a 8 out (wa_reset wa, e') = Inr (8, v, wa_reset wa, e') \<and>
     wa_read hello_read_soft_register a 4 out (wa_reset wa, e')
       = Inr (4, ucast (ucast v :: u32), wa_reset wa, e') \<and>
     wa_read hello_read_soft_register (a + 4) 4 out (wa_reset wa, e') = Inr (4, drop_bit 32 v, wa_reset wa, e') \<and>
     (\<forall>a'. hello_dma_address magic a' \<and> a' \<noteq> a \<longrightarrow> hello_stored e' a' = hello_stored e a')"
proof -
  obtain e' where e': "wa_writes hello_write_soft_register
        [(a, 4, ucast (ucast v :: u32)), (a + 4, 4, drop_bit 32 v)] (wa, e) = Inr ([4, 4], wa_reset wa, e')"
    "hello_inv magic e'" "hello_stored e' a = v"
    "\<forall>a'. hello_dma_address magic a' \<longrightarrow> a' \<noteq> a \<longrightarrow> hello_stored e' a' = hello_stored e a'"
    using role.split_write_stores [OF assms, of v] by blast
  from role.reads_back [OF e'(2) assms(2), of out "wa_reset wa"] e' show ?thesis by auto
qed

theorem role_split_access_witness:
  "\<exists>e e'. hello_new 0x1234 = Inr e \<and>
     wa_writes hello_write_soft_register
       [(0x980000, 4, ucast (ucast (0x500000003 :: u64) :: u32)), (0x980000 + 4, 4, drop_bit 32 0x500000003)]
       (\<lparr>wa_addr = -1, wa_data = 0\<rparr>, e) = Inr ([4, 4], \<lparr>wa_addr = -1, wa_data = 0\<rparr>, e') \<and>
     wa_read hello_read_soft_register 0x980000 8 0 (\<lparr>wa_addr = -1, wa_data = 0\<rparr>, e') =
       Inr (8, 0x500000003, \<lparr>wa_addr = -1, wa_data = 0\<rparr>, e')"
proof -
  let ?wa = "\<lparr>wa_addr = -1, wa_data = 0\<rparr>"
  obtain e where e: "hello_new 0x1234 = Inr e" by (simp add: hello_new_def slots_engine_new_eq)
  then have inv: "hello_inv 0x1234 e"
    using se_inv_new [of "0x1234" 64 e] by (simp add: hello_new_def hello_inv_def)
  have "role_reg_index 0x980000 = 0x30000"
    by (simp add: word_unat_eq_iff unat_role_reg_index)
  moreover have "get_doorbell_regnum 0 full_db = 0x30000" by (simp add: get_doorbell_regnum_def)
  ultimately have "hello_dma_address 0x1234 0x980000"
    using dma_registers_find(1) [of 64 0 "0x1234" full_db] by (simp add: hello_dma_address_def)
  from role_split_access [OF inv this, of ?wa "0x500000003" 0] e show ?thesis
    by (auto simp: wa_reset_def is_write_in_progress_def simp del: wa_writes.simps)
qed

text \<open>
  A soft register of the role holds its own index, once in each half, so that all
  reads of it, of 4 bytes at either half or of 8 bytes, show the index; a write of any size
  reports success and changes nothing behind the adapter.
\<close>

theorem soft_register_is_index:
  assumes "get_address_type a = soft_reg" "unat a mod 8 = 0"
  shows "let i = ucast (role_reg_index a) :: u64 in
     wa_read hello_read_soft_register a 4 out (wa, e) = Inr (4, i, wa, e) \<and>
     wa_read hello_read_soft_register (a + 4) 4 out (wa, e) = Inr (4, i, wa, e) \<and>
     wa_read hello_read_soft_register a 8 out (wa, e) = Inr (8, push_bit 32 i OR i, wa, e) \<and>
     hello_write_soft_register a v e = Inr (True, e)"
proof -
  let ?i = "ucast (role_reg_index a) :: u64"
  have "unat a < 2 ^ 24" "unat a div 2 ^ 20 = 8"
    using assms(1) by (auto simp: get_address_type_eq split: if_splits)
  moreover obtain k where "unat a = 8 * k" using assms(2) by auto
  ultimately have t4: "get_address_type (a + 4) = soft_reg"
    using window_plus4 [OF assms(2)] by (auto simp: get_address_type_eq aligned_plus4)
  have lo: "(push_bit 32 ?i OR ?i) AND 0xffffffff = ?i"
    unfolding mask32 by (rule bit_word_eqI) (auto simp: bit_simps dest: bit_imp_le_length)
  have hi: "drop_bit 32 (push_bit 32 ?i OR ?i) AND 0xffffffff = ?i"
    unfolding mask32 by (rule bit_word_eqI) (auto simp: bit_simps dest: bit_imp_le_length)
  have al: "a mod 8 = 0" using assms(2) by (simp add: word_unat_eq_iff unat_mod_distrib)
  show ?thesis
    using low_word_facts [OF al] al assms(1) t4 lo hi
    by (simp add: wa_read_def wa_access_ok_def hello_read_soft_register_def hello_write_soft_register_def
        role_reg_index_plus4 [OF assms(2)] Let_def)
qed

theorem soft_register_is_index_witness:
  "wa_read hello_read_soft_register 0x800018 4 0 (\<lparr>wa_addr = -1, wa_data = 0\<rparr>,
       \<lparr>se_count = 0, se_config = [], se_regs = [], se_event = False\<rparr>) =
     Inr (4, 3, \<lparr>wa_addr = -1, wa_data = 0\<rparr>,
       \<lparr>se_count = 0, se_config = [], se_regs = [], se_event = False\<rparr>)"
proof -
  have t: "get_address_type 0x800018 = soft_reg" by (simp add: get_address_type_eq)
  have i: "role_reg_index 0x800018 = 3" by (simp add: word_unat_eq_iff unat_role_reg_index)
  from soft_register_is_index [OF t, where out = 0] i show ?thesis by (simp add: Let_def)
qed

end
