(* ===== verification/Catapult_Device.thy ===== *)
theory Catapult_Device
  imports Shell_Registers Hello_Role
begin

text \<open>
  \<open>CatapultDevice\<close> of \<open>catapult/catapult_device.h\<close> and \<open>catapult/catapult_device.cc\<close>: the
  dispatch of a transaction on the type of its address, the shell register bank, the width
  adapter in front of the role, and the DMA the device offers to the role.  The role is an
  interface in the code and a record of operations here; the pointer to it, which nothing in
  the repository ever sets, is an option.
\<close>

section \<open>State\<close>

record 'r role_ops =
  ro_reset :: "'r \<Rightarrow> 'r"
  ro_read :: "'r wa_read_fn"
  ro_write :: "'r wa_write_fn"

record 'r cat_device =
  cd_shell :: "(u32, shell_env) register_map"
  cd_adapter :: width_adapter
  cd_role :: "'r option"

type_synonym 'r cat_state = "'r cat_device \<times> shell_env"
type_synonym 'r cat_read = "u64 \<Rightarrow> nat \<Rightarrow> u64 \<Rightarrow> 'r cat_state \<Rightarrow> (nat \<times> u64 \<times> 'r cat_state) res"
type_synonym 'r cat_write = "u64 \<Rightarrow> nat \<Rightarrow> u64 \<Rightarrow> 'r cat_state \<Rightarrow> (nat \<times> 'r cat_state) res"

definition mmio_bad_value :: u64 where "mmio_bad_value = 0xdeadbeefdeadbeef"

definition cat_device_new :: "shell_consts \<Rightarrow> bool \<Rightarrow> 'r cat_device res" where
  "cat_device_new c enable_slots_dma =
     res_bind (init_shell_registers c enable_slots_dma)
       (\<lambda>m. Inr \<lparr>cd_shell = m, cd_adapter = wa_reset \<lparr>wa_addr = 0, wa_data = 0\<rparr>, cd_role = None\<rparr>)"

definition cat_reset :: "'r role_ops \<Rightarrow> 'r cat_device \<Rightarrow> 'r cat_device" where
  "cat_reset ops dev =
     dev\<lparr>cd_shell := map_reset (cd_shell dev), cd_role := map_option (ro_reset ops) (cd_role dev)\<rparr>"

section \<open>The register accesses by type\<close>

text \<open>The two callbacks the constructor gives to the width adapter.\<close>

definition adapter_read_cb :: "'r role_ops \<Rightarrow> 'r option wa_read_fn" where
  "adapter_read_cb ops a v role =
     (case role of
        None \<Rightarrow> Inr (True, v, None)
      | Some r \<Rightarrow> res_bind (ro_read ops a v r) (\<lambda>(ok, v', r'). Inr (ok, v', Some r')))"

definition adapter_write_cb :: "'r role_ops \<Rightarrow> 'r option wa_write_fn" where
  "adapter_write_cb ops a v role =
     (case role of
        None \<Rightarrow> Inr (True, None)
      | Some r \<Rightarrow> res_bind (ro_write ops a v r) (\<lambda>(ok, r'). Inr (ok, Some r')))"

definition read_role_register :: "'r role_ops \<Rightarrow> 'r cat_read" where
  "read_role_register ops a len v = (\<lambda>(dev, env).
     res_bind (wa_read (adapter_read_cb ops) a len v (cd_adapter dev, cd_role dev)) (\<lambda>(n, v', wa, r).
     Inr (n, v', dev\<lparr>cd_adapter := wa, cd_role := r\<rparr>, env)))"

definition write_role_register :: "'r role_ops \<Rightarrow> 'r cat_write" where
  "write_role_register ops a len v = (\<lambda>(dev, env).
     res_bind (wa_write (adapter_write_cb ops) a len v (cd_adapter dev, cd_role dev)) (\<lambda>(n, wa, r).
     Inr (n, dev\<lparr>cd_adapter := wa, cd_role := r\<rparr>, env)))"

text \<open>\<open>value32\<close> is uninitialised, and only looked at when the bank has written it.\<close>

definition read_shell_register :: "'r cat_read" where
  "read_shell_register address len v = (\<lambda>(dev, env).
     if address AND 0x7 \<noteq> 0x4 then Inr (len, 0, dev, env)
     else (case read_register (cd_shell dev) address 0 env of
             (ok, value32, m, env') \<Rightarrow>
               if ok then Inr (4, ucast value32, dev\<lparr>cd_shell := m\<rparr>, env')
               else Inr (0, -1, dev\<lparr>cd_shell := m\<rparr>, env')))"

definition write_shell_register :: "'r cat_write" where
  "write_shell_register address len v = (\<lambda>(dev, env).
     case write_register (cd_shell dev) address (ucast v) env of
       (ok, m, env') \<Rightarrow> Inr (if ok then 4 else 0, dev\<lparr>cd_shell := m\<rparr>, env'))"

text \<open>\<open>read_external_register\<close>, \<open>read_unimplemented_register\<close> and their writes only print.\<close>

definition read_no_register :: "'r cat_read" where
  "read_no_register address len v s = Inr (0, v, s)"

definition write_no_register :: "'r cat_write" where
  "write_no_register address len v s = Inr (0, s)"

fun read_fn_of :: "'r role_ops \<Rightarrow> catapult_register_type \<Rightarrow> 'r cat_read" where
  "read_fn_of ops external_reg = read_no_register"
| "read_fn_of ops shell_reg = read_shell_register"
| "read_fn_of ops soft_reg = read_role_register ops"
| "read_fn_of ops dma_reg = read_role_register ops"
| "read_fn_of ops invalid_reg = read_no_register"

fun write_fn_of :: "'r role_ops \<Rightarrow> catapult_register_type \<Rightarrow> 'r cat_write" where
  "write_fn_of ops external_reg = write_no_register"
| "write_fn_of ops shell_reg = write_shell_register"
| "write_fn_of ops soft_reg = write_role_register ops"
| "write_fn_of ops dma_reg = write_role_register ops"
| "write_fn_of ops invalid_reg = write_no_register"

section \<open>Transactions\<close>

text \<open>
  The \<open>memcpy\<close> of a read moves \<open>max(len, bytes_read)\<close> bytes out of an 8-byte variable into
  the buffer; beyond either of them it would be an access out of range.
\<close>

definition cat_b_transport :: "'r role_ops \<Rightarrow> 'r cat_state target" where
  "cat_b_transport ops tr d s =
     (let len = gp_len tr; addr = gp_addr tr; reg_type = get_address_type addr in
      if len \<noteq> 4 \<and> len \<noteq> 8 then Inr (tr\<lparr>gp_resp := TLM_GENERIC_ERROR_RESPONSE\<rparr>, d, s)
      else if gp_byte_en tr \<noteq> None then Inr (tr\<lparr>gp_resp := TLM_GENERIC_ERROR_RESPONSE\<rparr>, d, s)
      else case gp_cmd tr of
        TLM_READ_COMMAND \<Rightarrow>
          res_bind (read_fn_of ops reg_type addr len mmio_bad_value s) (\<lambda>(bytes_read, v, s').
          if bytes_read = 0 then Inr (tr, d, s')
          else let n = max len bytes_read in
            if 8 < n \<or> length (gp_data tr) < n then Inl Out_of_range
            else Inr (tr\<lparr>gp_data := poke n (le_bytes 8 v) (gp_data tr)\<rparr>, d, s'))
      | TLM_WRITE_COMMAND \<Rightarrow>
          (let n = min len 8 in
           if length (gp_data tr) < n then Inl Out_of_range
           else res_bind (write_fn_of ops reg_type addr len (le_word (take n (gp_data tr))) s)
                  (\<lambda>(_, s'). Inr (tr, d, s')))
      | TLM_IGNORE_COMMAND \<Rightarrow> Inr (tr, d, s))"

section \<open>DMA\<close>

text \<open>\<open>set_data_length\<close> and \<open>set_streaming_width\<close> take an \<open>unsigned int\<close>.\<close>

definition dma_read_from_host :: "'h target \<Rightarrow> u64 \<Rightarrow> u8 list \<Rightarrow> u64 \<Rightarrow> 'h \<Rightarrow> (u8 list \<times> 'h) res" where
  "dma_read_from_host host source_address buf transfer_cb h =
     res_bind (host (mk_gp TLM_READ_COMMAND source_address buf (unat (ucast transfer_cb :: u32))) 0 h)
       (\<lambda>(tr, _, h'). Inr (gp_data tr, h'))"

definition dma_write_to_host :: "u8 list option \<Rightarrow> u64 \<Rightarrow> nat \<Rightarrow> 'h \<Rightarrow> 'h res" where
  "dma_write_to_host source destination_address transfer_cb h = Inr h"

definition cat_shell_ops :: "'h target \<Rightarrow> 'h shell_ops" where
  "cat_shell_ops host = \<lparr>sh_read = dma_read_from_host host, sh_write = dma_write_to_host\<rparr>"

section \<open>The contract of a blocking target\<close>

lemma wa_read_count: "wa_read f a len v s = Inr (n, v', s') \<Longrightarrow> n = 0 \<or> n = len"
  by (auto simp: wa_read_def wa_access_ok_def res_bind_eq_Inr split: prod.splits if_splits)

lemma read_fn_count:
  "read_fn_of ops ty a len v s = Inr (n, v', s') \<Longrightarrow> n = 0 \<or> n = len \<or> n = 4"
  by (cases ty) (auto simp: read_no_register_def read_shell_register_def read_role_register_def
      res_bind_eq_Inr split: prod.splits if_splits dest: wa_read_count)

lemma cat_read_never_overruns:
  assumes "gp_ok tr" "gp_len tr = 4 \<or> gp_len tr = 8"
    and "read_fn_of ops ty a (gp_len tr) v s = Inr (n, v', s')"
  shows "max (gp_len tr) n = gp_len tr" "\<not> 8 < max (gp_len tr) n"
    "\<not> length (gp_data tr) < max (gp_len tr) n"
  using assms read_fn_count [OF assms(3)] by (auto simp: gp_ok_def)

lemma cat_b_transport_result:
  assumes "gp_ok tr" "cat_b_transport ops tr d s = Inr (tr', d', s')"
  shows "gp_frame tr tr' \<and> d' = d \<and>
     gp_resp tr' = (if gp_len tr \<in> {4, 8} \<and> gp_byte_en tr = None then gp_resp tr
                    else TLM_GENERIC_ERROR_RESPONSE) \<and>
     (gp_cmd tr \<noteq> TLM_READ_COMMAND \<longrightarrow> gp_data tr' = gp_data tr) \<and>
     (gp_len tr \<notin> {4, 8} \<or> gp_byte_en tr \<noteq> None \<longrightarrow> s' = s)"
proof (cases "(gp_len tr = 4 \<or> gp_len tr = 8) \<and> gp_byte_en tr = None \<and> gp_cmd tr = TLM_READ_COMMAND")
  case True
  with assms(2) obtain n v s1 where
    r: "read_fn_of ops (get_address_type (gp_addr tr)) (gp_addr tr) (gp_len tr) mmio_bad_value s = Inr (n, v, s1)"
    by (auto simp: cat_b_transport_def Let_def res_bind_eq_Inr)
  from True cat_read_never_overruns [OF assms(1) _ r] r assms show ?thesis
    by (auto simp: cat_b_transport_def Let_def gp_frame_def split: if_splits)
next
  case False
  with assms show ?thesis
    by (auto simp: cat_b_transport_def Let_def res_bind_eq_Inr split: if_splits tlm_command.splits)
qed

interpretation catapult: tlm_target "cat_b_transport ops" for ops
proof
  fix tr d s tr' d' s'
  assume "gp_ok tr" "cat_b_transport ops tr d s = Inr (tr', d', s')"
  note r = cat_b_transport_result [OF this]
  show "gp_frame tr tr'" using r by blast
  show "gp_cmd tr = TLM_WRITE_COMMAND \<Longrightarrow> gp_data tr' = gp_data tr" using r by simp
qed

text \<open>
  The device never reports success.  A transaction of a length other than 4 or 8
  or with byte enables is answered with a generic error and changes nothing; any other
  transaction that returns leaves the response the initiator filled in, leaves the delay as
  it was, and never copies more bytes than the payload's length.
\<close>

theorem cat_response_untouched:
  assumes "gp_ok tr" "cat_b_transport ops tr d s = Inr (tr', d', s')"
  shows "gp_frame tr tr' \<and> d' = d \<and> drop (gp_len tr) (gp_data tr') = drop (gp_len tr) (gp_data tr) \<and>
     (if gp_len tr \<in> {4, 8} \<and> gp_byte_en tr = None then gp_resp tr' = gp_resp tr
      else gp_resp tr' = TLM_GENERIC_ERROR_RESPONSE \<and> s' = s \<and> gp_data tr' = gp_data tr)"
proof -
  have "drop (gp_len tr) (gp_data tr') = drop (gp_len tr) (gp_data tr) \<and>
    (gp_len tr \<notin> {4, 8} \<or> gp_byte_en tr \<noteq> None \<longrightarrow> gp_data tr' = gp_data tr)"
  proof (cases "(gp_len tr = 4 \<or> gp_len tr = 8) \<and> gp_byte_en tr = None \<and> gp_cmd tr = TLM_READ_COMMAND")
    case True
    with assms(2) obtain n v s1 where
      r: "read_fn_of ops (get_address_type (gp_addr tr)) (gp_addr tr) (gp_len tr) mmio_bad_value s = Inr (n, v, s1)"
      by (auto simp: cat_b_transport_def Let_def res_bind_eq_Inr)
    from True cat_read_never_overruns [OF assms(1) _ r] r assms show ?thesis
      by (auto simp: cat_b_transport_def Let_def split: if_splits)
  next
    case False
    with assms cat_b_transport_result [OF assms] show ?thesis
      by (auto simp: cat_b_transport_def Let_def split: if_splits tlm_command.splits)
  qed
  with cat_b_transport_result [OF assms] show ?thesis by auto
qed

theorem cat_response_untouched_witness:
  "\<exists>tr'. cat_b_transport \<lparr>ro_reset = (\<lambda>r. r), ro_read = (\<lambda>a v r. Inr (True, v, r)), ro_write = (\<lambda>a v r. Inr (True, r))\<rparr>
       (mk_gp TLM_READ_COMMAND 0x800000 [1, 2, 3, 4, 5] 4) 0
       (\<lparr>cd_shell = [], cd_adapter = \<lparr>wa_addr = -1, wa_data = 0\<rparr>, cd_role = Some ()\<rparr>,
        \<lparr>env_usec = 0, env_build_info = 0\<rparr>) = Inr (tr', 0, \<lparr>cd_shell = [],
          cd_adapter = \<lparr>wa_addr = -1, wa_data = 0\<rparr>, cd_role = Some ()\<rparr>, \<lparr>env_usec = 0, env_build_info = 0\<rparr>) \<and>
     gp_resp tr' = TLM_INCOMPLETE_RESPONSE \<and> drop 4 (gp_data tr') = [5]"
proof -
  let ?tr = "mk_gp TLM_READ_COMMAND 0x800000 [1, 2, 3, 4, 5] 4"
  let ?ops = "\<lparr>ro_reset = (\<lambda>r. r), ro_read = (\<lambda>a v r. Inr (True, v, r)), ro_write = (\<lambda>a v r. Inr (True, r))\<rparr>"
  let ?s = "(\<lparr>cd_shell = [], cd_adapter = \<lparr>wa_addr = -1, wa_data = 0\<rparr>, cd_role = Some ()\<rparr>,
        \<lparr>env_usec = 0, env_build_info = 0\<rparr>)"
  have t: "get_address_type 0x800000 = soft_reg" by (simp add: get_address_type_eq)
  have ok: "gp_ok ?tr" by (simp add: gp_ok_def)
  obtain tr' where "cat_b_transport ?ops ?tr 0 ?s = Inr (tr', 0, ?s)"
    by (simp add: cat_b_transport_def t read_role_register_def wa_read_def wa_access_ok_def adapter_read_cb_def)
  with cat_response_untouched [OF ok this] show ?thesis by auto
qed

section \<open>Shell registers\<close>

text \<open>The bank is the table the constructor built, up to the stored values.\<close>

definition shell_inv :: "shell_consts \<Rightarrow> bool \<Rightarrow> (u32, shell_env) register_map \<Rightarrow> bool" where
  "shell_inv c slots_dma m \<longleftrightarrow>
     distinct (map fst m) \<and> shape m = shape (shell_table c slots_dma)"

text \<open>What a shell register shows: its callback's answer, or its stored value.\<close>

definition shell_value :: "shell_env \<Rightarrow> shell_register \<Rightarrow> u32" where
  "shell_value env r = (case r_readfn r of None \<Rightarrow> r_value r | Some f \<Rightarrow> fst (snd (f 0 0 (r_value r) env)))"

lemmas shell_fn_defs = build_info_fn_def cycle_counter0_fn_def cycle_counter1_fn_def

lemma shell_rows_kinds:
  "(a, r) \<in> set (shell_table c slots_dma) \<Longrightarrow>
     r_writefn r = None \<and>
     (r_readfn r = None \<or> r_readonly r \<and>
        r_readfn r \<in> {Some build_info_fn, Some cycle_counter0_fn, Some cycle_counter1_fn})"
proof -
  have rows: "\<forall>(a, r) \<in> set (shell_rows c slots_dma). r_writefn r = None \<and>
     (r_readfn r = None \<or> r_readonly r \<and>
        r_readfn r \<in> {Some build_info_fn, Some cycle_counter0_fn, Some cycle_counter1_fn})"
    by (simp add: shell_rows_defs ro_def rd_def mk_register_def)
  have asmi: "\<forall>(a, r) \<in> set asmi_rows. r_writefn r = None \<and> r_readfn r = None"
    by (simp add: asmi_rows_def rw_def mk_register_def)
  show "(a, r) \<in> set (shell_table c slots_dma) \<Longrightarrow> ?thesis"
    using rows asmi
    by (fastforce simp: shell_table_def legacy_rows_def soft_cap_rows_def ro_def mk_register_def)
qed

lemma shell_inv_kinds:
  assumes "shell_inv c slots_dma m" "find_register m a = Some r"
  shows "r_writefn r = None \<and>
     (r_readfn r = None \<or> r_readonly r \<and>
        r_readfn r \<in> {Some build_info_fn, Some cycle_counter0_fn, Some cycle_counter1_fn})"
proof -
  obtain r0 where r0: "find_register (shell_table c slots_dma) a = Some r0" "r\<lparr>r_value := 0\<rparr> = r0\<lparr>r_value := 0\<rparr>"
    using assms find_shape [of m a] find_shape [of "shell_table c slots_dma" a]
    by (cases "find_register (shell_table c slots_dma) a") (auto simp: shell_inv_def)
  then have "(a, r0) \<in> set (shell_table c slots_dma)" by (auto simp: find_register_def dest: map_of_SomeD)
  from shell_rows_kinds [OF this] r0(2) [unfolded register_value_cong] show ?thesis by simp
qed

lemma shell_read_eq:
  assumes "shell_inv c slots_dma m"
  shows "read_register m a out env =
    (case find_register m a of None \<Rightarrow> (False, out, m, env) | Some r \<Rightarrow> (True, shell_value env r, m, env))"
proof (cases "find_register m a")
  case None
  then show ?thesis by (simp add: read_register_def)
next
  case (Some r)
  have d: "distinct (map fst m)" using assms by (simp add: shell_inv_def)
  from shell_inv_kinds [OF assms Some] have "reg_read r a out env = (True, shell_value env r, r, env)"
    by (auto simp: reg_read_def shell_value_def shell_fn_defs)
  with Some put_register_same [OF Some d] show ?thesis by (simp add: read_register_def)
qed

text \<open>The writable registers are in the half of a row that a read shows.\<close>

lemma shell_table_writable:
  assumes "(a, r) \<in> set (shell_table c slots_dma)" "\<not> r_readonly r"
  shows "a AND 7 = 4"
proof -
  have ro: "\<forall>(a, r) \<in> set (shell_rows c slots_dma). r_readonly r"
    by (simp add: shell_rows_defs ro_def rd_def mk_register_def)
  have asmi: "\<forall>(a, r) \<in> set asmi_rows. a AND 7 = 4" by (simp add: asmi_rows_def)
  show ?thesis
    using assms ro asmi by (fastforce simp: shell_table_def legacy_rows_def soft_cap_rows_def ro_def mk_register_def)
qed

lemma le_bytes_ucast: "le_bytes 8 (ucast (w :: u32) :: u64) = le_bytes 4 w @ [0, 0, 0, 0]"
proof (rule nth_equalityI)
  fix i assume "i < length (le_bytes 8 (ucast w :: u64))"
  then have i: "i < 8" by simp
  show "le_bytes 8 (ucast w :: u64) ! i = (le_bytes 4 w @ [0, 0, 0, 0]) ! i"
  proof (rule bit_word_eqI)
    fix k assume k: "k < LENGTH(8)"
    show "bit (le_bytes 8 (ucast w :: u64) ! i) k = bit ((le_bytes 4 w @ [0, 0, 0, 0]) ! i) k"
    proof (cases "i < 4")
      case True
      then show ?thesis using i k by (simp add: nth_le_bytes nth_append bit_simps)
    next
      case False
      then have "i \<in> {4, 5, 6, 7}" using i by auto
      then show ?thesis using k by (auto simp: nth_le_bytes nth_append bit_simps) (drule bit_imp_le_length, simp)+
    qed
  qed
qed simp

lemma shell_inv_writable:
  assumes "shell_inv c slots_dma m" "find_register m a = Some r" "\<not> r_readonly r"
  shows "a AND 7 = 4" "r_readfn r = None"
proof -
  obtain r0 where r0: "find_register (shell_table c slots_dma) a = Some r0" "r\<lparr>r_value := 0\<rparr> = r0\<lparr>r_value := 0\<rparr>"
    using assms(1,2) find_shape [of m a] find_shape [of "shell_table c slots_dma" a]
    by (cases "find_register (shell_table c slots_dma) a") (auto simp: shell_inv_def)
  then have "(a, r0) \<in> set (shell_table c slots_dma)" by (auto simp: find_register_def dest: map_of_SomeD)
  then show "a AND 7 = 4" by (rule shell_table_writable) (use r0(2) [unfolded register_value_cong] assms(3) in simp)
  show "r_readfn r = None" using shell_inv_kinds [OF assms(1,2)] assms(3) by simp
qed

definition shell_written :: "(u32, shell_env) register_map \<Rightarrow> u64 \<Rightarrow> u32 \<Rightarrow> (u32, shell_env) register_map" where
  "shell_written m a v =
     (case find_register m a of
        Some r \<Rightarrow> if r_readonly r then m else put_register a (r\<lparr>r_value := v\<rparr>) m
      | None \<Rightarrow> m)"

lemma shell_write_eq:
  assumes "shell_inv c slots_dma m"
  shows "write_register m a v env = (find_register m a \<noteq> None, shell_written m a v, env)"
    and "shell_inv c slots_dma (shell_written m a v)"
proof -
  have d: "distinct (map fst m)" using assms by (simp add: shell_inv_def)
  show "write_register m a v env = (find_register m a \<noteq> None, shell_written m a v, env)"
    using shell_inv_kinds [OF assms, of a] put_register_same [OF _ d, of a]
    by (auto simp: write_register_def shell_written_def reg_write_def split: option.splits)
  show "shell_inv c slots_dma (shell_written m a v)"
    using assms shape_put_value [OF d, of a]
    by (auto simp: shell_inv_def shell_written_def keys_put_register split: option.splits)
qed

lemma shell_window_read:
  assumes "shell_inv c slots_dma (cd_shell dev)" "gp_ok tr" "gp_cmd tr = TLM_READ_COMMAND"
    and "gp_len tr \<in> {4, 8}" "gp_byte_en tr = None" "get_address_type (gp_addr tr) = shell_reg"
  shows "cat_b_transport ops tr d (dev, env) =
     Inr (tr\<lparr>gp_data :=
            (if gp_addr tr AND 7 \<noteq> 4 then poke (gp_len tr) (replicate 8 0) (gp_data tr)
             else case find_register (cd_shell dev) (gp_addr tr) of
                    None \<Rightarrow> gp_data tr
                  | Some r \<Rightarrow> poke (gp_len tr) (le_bytes 8 (ucast (shell_value env r) :: u64)) (gp_data tr))\<rparr>,
          d, (dev, env))"
proof -
  have r: "read_shell_register a len v (dev, env) =
      Inr (if a AND 7 \<noteq> 4 then (len, 0, dev, env)
           else case find_register (cd_shell dev) a of
                  None \<Rightarrow> (0, -1, dev, env) | Some r \<Rightarrow> (4, ucast (shell_value env r), dev, env))" for a len v
    using shell_read_eq [OF assms(1), of a 0 env] by (simp add: read_shell_register_def split: option.splits)
  have m: "max (gp_len tr) 4 = gp_len tr" "\<not> 8 < gp_len tr" "\<not> length (gp_data tr) < gp_len tr"
    "\<not> (gp_len tr \<noteq> 4 \<and> gp_len tr \<noteq> 8)" "gp_len tr \<noteq> 0" using assms(2,4) by (auto simp: gp_ok_def)
  show ?thesis
  proof (cases "gp_addr tr AND 7 \<noteq> 4")
    case True
    with assms(3,5,6) m show ?thesis by (auto simp add: cat_b_transport_def Let_def r)
  next
    case False
    with assms(3,5,6) m show ?thesis
      by (cases "find_register (cd_shell dev) (gp_addr tr)") (auto simp add: cat_b_transport_def Let_def r)
  qed
qed

text \<open>
  A read in the shell window changes nothing in the device.  At an address that
  does not end in 4 (or \<open>C\<close>) it returns zeroes; at the address of a register it returns the value of the
  register (or the current answer of its read callback), zero-extended when the host reads
  8 bytes; at any other address the buffer keeps its content.
\<close>

theorem shell_register_read:
  assumes "shell_inv c slots_dma (cd_shell dev)" "gp_ok tr" "gp_cmd tr = TLM_READ_COMMAND"
    and "gp_len tr \<in> {4, 8}" "gp_byte_en tr = None" "get_address_type (gp_addr tr) = shell_reg"
  shows "cat_b_transport ops tr d (dev, env) =
     Inr (tr\<lparr>gp_data :=
            (if gp_addr tr AND 7 \<noteq> 4 then poke (gp_len tr) (replicate 8 0) (gp_data tr)
             else case find_register (cd_shell dev) (gp_addr tr) of
                    None \<Rightarrow> gp_data tr
                  | Some r \<Rightarrow> poke (gp_len tr) (le_bytes 8 (ucast (shell_value env r) :: u64)) (gp_data tr))\<rparr>,
          d, (dev, env))"
  using assms by (rule shell_window_read)

theorem shell_register_read_witness:
  "\<exists>c. init_shell_registers c True = Inr (shell_table c True) \<and>
     cat_b_transport \<lparr>ro_reset = (\<lambda>r. r), ro_read = (\<lambda>a v r. Inr (True, v, r)), ro_write = (\<lambda>a v r. Inr (True, r))\<rparr>
       (mk_gp TLM_READ_COMMAND 0x4034 [9, 9, 9, 9] 4) 0
       (\<lparr>cd_shell = shell_table c True, cd_adapter = \<lparr>wa_addr = -1, wa_data = 0\<rparr>, cd_role = None :: unit option\<rparr>,
        \<lparr>env_usec = 0, env_build_info = 0\<rparr>) =
     Inr ((mk_gp TLM_READ_COMMAND 0x4034 [9, 9, 9, 9] 4)\<lparr>gp_data := [0x0c, 0xd7, 0xbe, 0]\<rparr>, 0,
       \<lparr>cd_shell = shell_table c True, cd_adapter = \<lparr>wa_addr = -1, wa_data = 0\<rparr>, cd_role = None\<rparr>,
        \<lparr>env_usec = 0, env_build_info = 0\<rparr>)"
proof -
  let ?c = "\<lparr>sk_status = 7, sk_capabilities = 0x120, sk_engine_id = 2, sk_min_buffer_size = 0x10000,
    sk_min_num_slots = 64, sk_max_shell_reg = 128, sk_soft_reg_cap = 12\<rparr>"
  let ?m = "shell_table ?c True"
  have k: "unat (sk_soft_reg_cap ?c) < 16" by simp
  have dist: "distinct (map fst ?m)" using shell_table_distinct_iff [OF k] by simp
  then have i: "init_shell_registers ?c True = Inr ?m"
    unfolding init_shell_registers_def by (simp add: add_registers_eq)
  have inv: "shell_inv ?c True ?m" using dist by (simp add: shell_inv_def)
  have t: "get_address_type 0x4034 = shell_reg" by (simp add: get_address_type_eq)
  have "(0x4034, ro 0xbed70c) \<in> set (shell_rows ?c True)" by (simp add: shell_rows_defs)
  then have "find_register ?m 0x4034 = Some (ro 0xbed70c)"
    using find_register_Some [OF dist] by (simp add: shell_table_def)
  moreover have "gp_ok (mk_gp TLM_READ_COMMAND 0x4034 [9, 9, 9, 9] 4)" by (simp add: gp_ok_def)
  ultimately show ?thesis
    using shell_register_read [where dev = "\<lparr>cd_shell = ?m, cd_adapter = \<lparr>wa_addr = -1, wa_data = 0\<rparr>,
        cd_role = None :: unit option\<rparr>" and c = ?c and slots_dma = True] inv i t
    by (intro exI [of _ ?c])
       (simp add: shell_value_def ro_def mk_register_def poke_def bytes_simps)
qed

text \<open>
  Property C36: a write in the shell window stores the low 32 bits of the data in the register
  at its address when the register is writable, and changes nothing otherwise: the other
  registers, the payload and the rest of the device stay as they are.  When the register is writable, any following read transaction of
  the address, of 4 or 8 bytes and at any time, returns the new value, zero-extended in the bytes it asks for, and changes nothing.
\<close>

theorem shell_register_write:
  assumes "shell_inv c slots_dma (cd_shell dev)" "gp_ok tr" "gp_cmd tr = TLM_WRITE_COMMAND"
    and "gp_len tr \<in> {4, 8}" "gp_byte_en tr = None" "get_address_type (gp_addr tr) = shell_reg"
  shows "\<exists>m. cat_b_transport ops tr d (dev, env) = Inr (tr, d, (dev\<lparr>cd_shell := m\<rparr>, env)) \<and>
     shell_inv c slots_dma m \<and>
     (\<forall>a. find_register m a =
        (if a = gp_addr tr then map_option (\<lambda>r. if r_readonly r then r else r\<lparr>r_value := le_word (take 4 (gp_data tr))\<rparr>)
                                  (find_register (cd_shell dev) a)
         else find_register (cd_shell dev) a)) \<and>
     (\<forall>r tr' d' env'. find_register (cd_shell dev) (gp_addr tr) = Some r \<and> \<not> r_readonly r \<and>
        gp_ok tr' \<and> gp_cmd tr' = TLM_READ_COMMAND \<and> gp_len tr' \<in> {4, 8} \<and> gp_byte_en tr' = None \<and> gp_addr tr' = gp_addr tr \<longrightarrow>
        cat_b_transport ops tr' d' (dev\<lparr>cd_shell := m\<rparr>, env') =
          Inr (tr'\<lparr>gp_data := poke (gp_len tr') (take 4 (gp_data tr) @ [0, 0, 0, 0]) (gp_data tr')\<rparr>, d', (dev\<lparr>cd_shell := m\<rparr>, env')))"
proof -
  let ?v = "le_word (take (gp_len tr) (gp_data tr)) :: u64" and ?m = "cd_shell dev"
  have low: "ucast ?v = (le_word (take 4 (gp_data tr)) :: u32)"
  proof (rule bit_word_eqI)
    fix k assume k: "k < LENGTH(32)"
    then have "k div 8 < 4" by simp
    then show "bit (ucast ?v :: u32) k = bit (le_word (take 4 (gp_data tr)) :: u32) k"
      using k assms(4) by (auto simp: bit_simps bit_le_word)
  qed
  have m: "\<not> length (gp_data tr) < min (gp_len tr) 8" "min (gp_len tr) 8 = gp_len tr"
    "\<not> (gp_len tr \<noteq> 4 \<and> gp_len tr \<noteq> 8)" using assms(2,4) by (auto simp: gp_ok_def)
  have wr: "cat_b_transport ops tr d (dev, env) =
      Inr (tr, d, (dev\<lparr>cd_shell := shell_written ?m (gp_addr tr) (le_word (take 4 (gp_data tr)))\<rparr>, env))"
    unfolding low [symmetric]
    using assms(3,5,6) m shell_write_eq(1) [OF assms(1), of "gp_addr tr" "ucast ?v" env]
    by (auto simp add: cat_b_transport_def Let_def write_shell_register_def)
  have fw: "find_register (shell_written ?m (gp_addr tr) w) a =
      (if a = gp_addr tr then map_option (\<lambda>r. if r_readonly r then r else r\<lparr>r_value := w\<rparr>) (find_register ?m a)
       else find_register ?m a)" for a w
    by (auto simp: shell_written_def reg_simps split: option.splits)
  have rd: "cat_b_transport ops tr' d' (dev\<lparr>cd_shell := shell_written ?m (gp_addr tr) w\<rparr>, env') =
      Inr (tr'\<lparr>gp_data := poke (gp_len tr') (le_bytes 4 w @ [0, 0, 0, 0]) (gp_data tr')\<rparr>, d', (dev\<lparr>cd_shell := shell_written ?m (gp_addr tr) w\<rparr>, env'))"
    if f: "find_register ?m (gp_addr tr) = Some r" "\<not> r_readonly r" and tr': "gp_ok tr'" "gp_cmd tr' = TLM_READ_COMMAND"
      "gp_len tr' \<in> {4, 8}" "gp_byte_en tr' = None" "gp_addr tr' = gp_addr tr" for r tr' d' env' w
  proof -
    have inv': "shell_inv c slots_dma (cd_shell (dev\<lparr>cd_shell := shell_written ?m (gp_addr tr) w\<rparr>))"
      using shell_write_eq(2) [OF assms(1)] by simp
    have t': "get_address_type (gp_addr tr') = shell_reg" using tr'(5) assms(6) by simp
    have f': "find_register (shell_written ?m (gp_addr tr) w) (gp_addr tr) = Some (r\<lparr>r_value := w\<rparr>)" using f by (simp add: fw)
    have z: "le_bytes 8 (ucast w :: u64) = le_bytes 4 w @ [0, 0, 0, 0]" by (rule le_bytes_ucast)
    show ?thesis
      using shell_inv_writable [OF assms(1) f] f' tr'(5)
      by (simp add: shell_window_read [OF inv' tr'(1-4) t'] shell_value_def z)
  qed
  have le: "le_bytes 4 (le_word (take 4 (gp_data tr)) :: u32) = take 4 (gp_data tr)"
    using assms(2,4) by (intro le_bytes32_word) (auto simp: gp_ok_def)
  show ?thesis
  proof (intro exI [of _ "shell_written ?m (gp_addr tr) (le_word (take 4 (gp_data tr)))"] conjI wr fw allI impI, goal_cases)
    case 1
    show ?case using shell_write_eq(2) [OF assms(1)] .
  next
    case 2
    then show ?case by (elim conjE) (rule rd [where w = "le_word (take 4 (gp_data tr))", unfolded le])
  qed
qed

theorem shell_register_write_witness:
  "\<exists>c m. cat_b_transport \<lparr>ro_reset = (\<lambda>r. r), ro_read = (\<lambda>a v r. Inr (True, v, r)), ro_write = (\<lambda>a v r. Inr (True, r))\<rparr>
       (mk_gp TLM_WRITE_COMMAND 0x02a4 [1, 2, 3, 4] 4) 0
       (\<lparr>cd_shell = shell_table c True, cd_adapter = \<lparr>wa_addr = -1, wa_data = 0\<rparr>, cd_role = None :: unit option\<rparr>,
        \<lparr>env_usec = 0, env_build_info = 0\<rparr>) =
     Inr (mk_gp TLM_WRITE_COMMAND 0x02a4 [1, 2, 3, 4] 4, 0,
       \<lparr>cd_shell = m, cd_adapter = \<lparr>wa_addr = -1, wa_data = 0\<rparr>, cd_role = None\<rparr>,
        \<lparr>env_usec = 0, env_build_info = 0\<rparr>) \<and>
     map_option r_value (find_register m 0x02a4) = Some 0x04030201"
proof -
  let ?c = "\<lparr>sk_status = 7, sk_capabilities = 0x120, sk_engine_id = 2, sk_min_buffer_size = 0x10000,
    sk_min_num_slots = 64, sk_max_shell_reg = 128, sk_soft_reg_cap = 12\<rparr>"
  let ?m = "shell_table ?c True"
  have k: "unat (sk_soft_reg_cap ?c) < 16" by simp
  have dist: "distinct (map fst ?m)" using shell_table_distinct_iff [OF k] by simp
  then have inv: "shell_inv ?c True ?m" by (simp add: shell_inv_def)
  have t: "get_address_type 0x02a4 = shell_reg" by (simp add: get_address_type_eq)
  have "(0x02a4, rw 0xffffffff) \<in> set asmi_rows" by (simp add: asmi_rows_def)
  then have f: "find_register ?m 0x02a4 = Some (rw 0xffffffff)"
    using find_register_Some [OF dist] by (simp add: shell_table_def)
  have "gp_ok (mk_gp TLM_WRITE_COMMAND 0x02a4 [1, 2, 3, 4] 4)" by (simp add: gp_ok_def)
  from shell_register_write [where dev = "\<lparr>cd_shell = ?m, cd_adapter = \<lparr>wa_addr = -1, wa_data = 0\<rparr>,
        cd_role = None :: unit option\<rparr>" and c = ?c and slots_dma = True and
        env = "\<lparr>env_usec = 0, env_build_info = 0\<rparr>" and d = 0 and
        ops = "\<lparr>ro_reset = (\<lambda>r. r), ro_read = (\<lambda>a v r. Inr (True, v, r)), ro_write = (\<lambda>a v r. Inr (True, r))\<rparr>",
        OF _ this] inv t f
  show ?thesis
    by (intro exI [of _ ?c]) (auto simp: rw_def mk_register_def)
qed

section \<open>The role behind the device\<close>

text \<open>
  As long as no role is attached, which is always the case in the repository
  because nothing sets \<open>_role\<close>, every aligned read of the soft and DMA windows reports a good
  read and returns the bad-value pattern in the bytes asked for, and every write at most
  moves the half-write the adapter holds.
\<close>

theorem null_role_access:
  assumes "cd_role dev = None" "gp_ok tr" "gp_byte_en tr = None" "wa_access_ok (gp_addr tr) (gp_len tr)"
    and "get_address_type (gp_addr tr) \<in> {soft_reg, dma_reg}" "wa_inv (cd_adapter dev)"
  shows "(gp_cmd tr = TLM_READ_COMMAND \<longrightarrow>
      cat_b_transport ops tr d (dev, env) =
        Inr (tr\<lparr>gp_data := poke (gp_len tr) (le_bytes 8 mmio_bad_value) (gp_data tr)\<rparr>, d, (dev, env))) \<and>
    (gp_cmd tr = TLM_WRITE_COMMAND \<longrightarrow>
      (\<exists>wa. cat_b_transport ops tr d (dev, env) = Inr (tr, d, (dev\<lparr>cd_adapter := wa\<rparr>, env)) \<and> wa_inv wa))"
proof -
  have len: "gp_len tr = 4 \<or> gp_len tr = 8" using assms(4) by (auto simp: wa_access_ok_def)
  have f: "read_fn_of ops (get_address_type (gp_addr tr)) = read_role_register ops"
    "write_fn_of ops (get_address_type (gp_addr tr)) = write_role_register ops"
    using assms(5) by auto
  have m: "max (gp_len tr) (gp_len tr) = gp_len tr" "\<not> 8 < gp_len tr" "\<not> length (gp_data tr) < gp_len tr"
    "min (gp_len tr) 8 = gp_len tr" "gp_len tr \<noteq> 0" using assms(2) len by (auto simp: gp_ok_def)
  have same: "dev\<lparr>cd_role := None\<rparr> = dev" using assms(1) by simp
  have low: "take 4 (le_bytes 8 (mmio_bad_value AND 0xffffffff)) = take 4 (le_bytes 8 mmio_bad_value)"
    "take 4 (le_bytes 8 (drop_bit 32 mmio_bad_value AND 0xffffffff)) = take 4 (le_bytes 8 mmio_bad_value)"
    by (simp_all add: mmio_bad_value_def bytes_simps)
  have rd: "read_role_register ops (gp_addr tr) (gp_len tr) mmio_bad_value (dev, env) =
      Inr (gp_len tr, if gp_len tr = 8 then mmio_bad_value
        else (if gp_addr tr mod 8 = 4 then drop_bit 32 mmio_bad_value else mmio_bad_value) AND 0xffffffff, dev, env)"
    using assms(1,4) len same by (auto simp: read_role_register_def wa_read_def adapter_read_cb_def)
  have wr: "\<exists>n wa. write_role_register ops (gp_addr tr) (gp_len tr) v (dev, env) =
      Inr (n, dev\<lparr>cd_adapter := wa\<rparr>, env) \<and> wa_inv wa" for v
  proof -
    obtain n wa where w: "wa_write (adapter_write_cb ops) (gp_addr tr) (gp_len tr) v (cd_adapter dev, None) =
        Inr (n, wa, None)" "wa_inv wa"
      using wa_write_inv [OF assms(6), where wr = "adapter_write_cb ops" and a = "gp_addr tr"
          and len = "gp_len tr" and v = v and b = None] assms(4)
        wa_write_behind [where wr = "adapter_write_cb ops" and a = "gp_addr tr"
          and len = "gp_len tr" and v = v and wa = "cd_adapter dev" and b = None]
      by (auto simp: adapter_write_cb_def split: sum.splits)
    have "dev\<lparr>cd_adapter := wa, cd_role := None\<rparr> = dev\<lparr>cd_adapter := wa\<rparr>" using assms(1) by (cases dev) simp
    then show ?thesis
      using w assms(1) by (intro exI [of _ n] exI [of _ wa]) (simp add: write_role_register_def)
  qed
  have "gp_cmd tr = TLM_READ_COMMAND \<Longrightarrow> cat_b_transport ops tr d (dev, env) =
        Inr (tr\<lparr>gp_data := poke (gp_len tr) (le_bytes 8 mmio_bad_value) (gp_data tr)\<rparr>, d, (dev, env))"
    using assms(3) len m low by (auto simp: cat_b_transport_def Let_def f rd poke_def)
  moreover have "gp_cmd tr = TLM_WRITE_COMMAND \<Longrightarrow>
      \<exists>wa. cat_b_transport ops tr d (dev, env) = Inr (tr, d, (dev\<lparr>cd_adapter := wa\<rparr>, env)) \<and> wa_inv wa"
  proof -
    assume "gp_cmd tr = TLM_WRITE_COMMAND"
    moreover obtain n wa where "write_role_register ops (gp_addr tr) (gp_len tr)
        (le_word (take (gp_len tr) (gp_data tr))) (dev, env) = Inr (n, dev\<lparr>cd_adapter := wa\<rparr>, env)" "wa_inv wa"
      using wr by blast
    ultimately show ?thesis using assms(3) len m by (auto simp: cat_b_transport_def Let_def f)
  qed
  ultimately show ?thesis by blast
qed

theorem null_role_access_witness:
  "cat_b_transport \<lparr>ro_reset = (\<lambda>r. r), ro_read = (\<lambda>a v r. Inr (True, v, r)), ro_write = (\<lambda>a v r. Inr (True, r))\<rparr>
     (mk_gp TLM_READ_COMMAND 0x900004 [0, 0, 0, 0] 4) 0
     (\<lparr>cd_shell = [], cd_adapter = \<lparr>wa_addr = -1, wa_data = 0\<rparr>, cd_role = None :: unit option\<rparr>,
      \<lparr>env_usec = 0, env_build_info = 0\<rparr>) =
   Inr ((mk_gp TLM_READ_COMMAND 0x900004 [0, 0, 0, 0] 4)\<lparr>gp_data := [0xef, 0xbe, 0xad, 0xde]\<rparr>, 0,
     (\<lparr>cd_shell = [], cd_adapter = \<lparr>wa_addr = -1, wa_data = 0\<rparr>, cd_role = None\<rparr>,
      \<lparr>env_usec = 0, env_build_info = 0\<rparr>))"
proof -
  let ?tr = "mk_gp TLM_READ_COMMAND 0x900004 [0, 0, 0, 0] 4"
  let ?dev = "\<lparr>cd_shell = [], cd_adapter = \<lparr>wa_addr = -1, wa_data = 0\<rparr>, cd_role = None :: unit option\<rparr>"
  have "gp_ok ?tr" "get_address_type (gp_addr ?tr) \<in> {soft_reg, dma_reg}" "wa_inv (cd_adapter ?dev)"
    "wa_access_ok (gp_addr ?tr) (gp_len ?tr)"
    by (simp_all add: gp_ok_def get_address_type_eq wa_inv_def wa_defs)
  from null_role_access [of ?dev, OF _ this(1) _ this(4,2,3)] show ?thesis
    by (simp add: poke_def mmio_bad_value_def bytes_simps)
qed

text \<open>The device with a \<open>HelloWorldRole\<close> attached, as a host sees it.\<close>

definition hello_ops :: "(slots_engine \<Rightarrow> slots_engine) \<Rightarrow> slots_engine role_ops" where
  "hello_ops rst =
     \<lparr>ro_reset = rst, ro_read = hello_read_soft_register, ro_write = hello_write_soft_register\<rparr>"

lemma le_word_half: "le_word (le_bytes 4 (w :: u32)) = (ucast w :: u64)"
proof (rule bit_word_eqI)
  fix k assume "k < LENGTH(64)"
  show "bit (le_word (le_bytes 4 w) :: u64) k = bit (ucast w :: u64) k"
  proof (cases "k < 32")
    case True
    then have "k div 8 < 4" by simp
    with True show ?thesis by (simp add: bit_le_word nth_le_bytes bit_simps)
  next
    case False
    then have "\<not> k div 8 < 4" by simp
    with False show ?thesis by (auto simp: bit_le_word bit_simps dest: bit_imp_le_length)
  qed
qed

lemma adapter_cb_some:
  assumes "cd_role dev = Some e"
  shows "ro_write ops a v e = Inr (ok, e') \<Longrightarrow> adapter_write_cb ops a v (cd_role dev) = Inr (ok, Some e')"
    and "ro_read ops a v e = Inr (ok, v', e') \<Longrightarrow> adapter_read_cb ops a v (cd_role dev) = Inr (ok, v', Some e')"
  using assms by (simp_all add: adapter_write_cb_def adapter_read_cb_def)

text \<open>
  Property C14: with the role attached and the adapter idle, that is, holding no half of a write, three transactions of a host, a 4-byte write of the low
  half of a DMA register, a 4-byte write of its high half and an 8-byte read, return the value
  written.  Of the device only the role and the held half, which is cleared, can differ afterwards; of the role only the value of this
  register and the event: every other register is as it was, and the event is notified exactly if the register has a write callback, as the doorbells have,
  and the value is not zero.
\<close>

theorem device_dma_register_roundtrip:
  assumes "cd_role dev = Some e" "hello_inv magic e" "hello_dma_address magic a"
    and "\<not> is_write_in_progress (cd_adapter dev)"
    and "k = ucast (role_reg_index a)"
  shows "\<exists>e' r. tlm_target.bt_all (cat_b_transport (hello_ops rst))
      [mk_gp TLM_WRITE_COMMAND a (le_bytes 4 (ucast v :: u32)) 4,
       mk_gp TLM_WRITE_COMMAND (a + 4) (le_bytes 4 (ucast (drop_bit 32 v) :: u32)) 4,
       mk_gp TLM_READ_COMMAND a (replicate 8 0) 8] d (dev, env) =
    Inr ([mk_gp TLM_WRITE_COMMAND a (le_bytes 4 (ucast v :: u32)) 4,
       mk_gp TLM_WRITE_COMMAND (a + 4) (le_bytes 4 (ucast (drop_bit 32 v) :: u32)) 4,
       mk_gp TLM_READ_COMMAND a (le_bytes 8 v) 8], d,
      (dev\<lparr>cd_adapter := wa_reset (cd_adapter dev), cd_role := Some e'\<rparr>, env)) \<and>
    hello_inv magic e' \<and> hello_stored e' a = v \<and> find_register (se_regs e) k = Some r \<and>
    (\<forall>b. find_register (se_regs e') b = (if b = k then Some (r\<lparr>r_value := v\<rparr>) else find_register (se_regs e) b)) \<and>
    e' = e\<lparr>se_regs := se_regs e', se_event := se_event e \<or> (r_writefn r \<noteq> None \<and> v \<noteq> 0)\<rparr>"
proof -
  have al: "unat a mod 8 = 0" and w: "unat a div 2 ^ 20 = 9" using assms(3) by (simp_all add: hello_dma_address_def)
  have t: "get_address_type a = dma_reg" "get_address_type (a + 4) = dma_reg"
    using dma_window_type [OF w] dma_window_type [of "a + 4"] w window_plus4 [OF al] by simp_all
  obtain r where f: "find_register (se_regs e) k = Some r"
    using assms(3,5) hello_inv_find [OF assms(2), of k] by (auto simp: hello_dma_address_def)
  define e' where "e' = host_written e k v"
  have hw: "hello_write_soft_register a v e = Inr (True, e')"
    using dma_window_type [OF w] assms(2) f
    by (simp add: hello_write_soft_register_def write_dma_register_eq [of magic] hello_inv_def e'_def assms(5))
  obtain ok e2 where "hello_write_soft_register a v e = Inr (ok, e2)" "hello_inv magic e2" "hello_stored e2 a = v"
    using role.wr_stores [OF assms(2,3), of v] by blast
  with hw have e': "hello_write_soft_register a v e = Inr (True, e')" "hello_inv magic e'" "hello_stored e' a = v" by simp_all
  have regs: "\<forall>b. find_register (se_regs e') b = (if b = k then Some (r\<lparr>r_value := v\<rparr>) else find_register (se_regs e) b)"
    and ev: "e' = e\<lparr>se_regs := se_regs e', se_event := se_event e \<or> (r_writefn r \<noteq> None \<and> v \<noteq> 0)\<rparr>"
    using f by (simp_all add: e'_def host_written_def reg_simps)
  have rd: "hello_read_soft_register a mmio_bad_value e' = Inr (True, v, e')"
    using role.rd_fetches [OF e'(2) assms(3), of a mmio_bad_value] e'(3) by simp
  have a8: "a mod 8 = 0" using al by (simp add: word_unat_eq_iff unat_mod_distrib)
  note lo = low_word_facts [OF a8]
  let ?ops = "hello_ops rst" and ?dev1 = "dev\<lparr>cd_adapter := \<lparr>wa_addr = a, wa_data = ucast v\<rparr>\<rparr>"
  let ?dev2 = "dev\<lparr>cd_adapter := wa_reset (cd_adapter dev), cd_role := Some e'\<rparr>"
  have half: "ucast (ucast (ucast v :: u32) :: u64) = (ucast v :: u32)" by simp
  have w1: "cat_b_transport ?ops (mk_gp TLM_WRITE_COMMAND a (le_bytes 4 (ucast v :: u32)) 4) d (dev, env) =
      Inr (mk_gp TLM_WRITE_COMMAND a (le_bytes 4 (ucast v :: u32)) 4, d, (?dev1, env))"
    using t lo a8 assms(1,4)
    by (simp add: cat_b_transport_def Let_def write_role_register_def wa_write_def wa_access_ok_def
        is_low_word_def le_word_half)
  have w2: "cat_b_transport ?ops (mk_gp TLM_WRITE_COMMAND (a + 4) (le_bytes 4 (ucast (drop_bit 32 v) :: u32)) 4) d (?dev1, env) =
      Inr (mk_gp TLM_WRITE_COMMAND (a + 4) (le_bytes 4 (ucast (drop_bit 32 v) :: u32)) 4, d, (?dev2, env))"
    using t lo a8 assms(1) e'(1)
    by (simp add: cat_b_transport_def Let_def write_role_register_def wa_write_def wa_access_ok_def
        is_low_word_def is_high_word_def is_write_in_progress_def is_next_write_def le_word_half high_half
        combine_halves adapter_write_cb_def hello_ops_def wa_reset_def)
  have rt: "cat_b_transport ?ops (mk_gp TLM_READ_COMMAND a (replicate 8 0) 8) d (?dev2, env) =
      Inr (mk_gp TLM_READ_COMMAND a (le_bytes 8 v) 8, d, (?dev2, env))"
    using t a8 rd
    by (simp add: cat_b_transport_def Let_def read_role_register_def wa_read_def wa_access_ok_def
        adapter_read_cb_def hello_ops_def poke_all mk_gp_def)
  have "tlm_target.bt_all (cat_b_transport ?ops)
      [mk_gp TLM_WRITE_COMMAND a (le_bytes 4 (ucast v :: u32)) 4,
       mk_gp TLM_WRITE_COMMAND (a + 4) (le_bytes 4 (ucast (drop_bit 32 v) :: u32)) 4,
       mk_gp TLM_READ_COMMAND a (replicate 8 0) 8] d (dev, env) =
    Inr ([mk_gp TLM_WRITE_COMMAND a (le_bytes 4 (ucast v :: u32)) 4,
       mk_gp TLM_WRITE_COMMAND (a + 4) (le_bytes 4 (ucast (drop_bit 32 v) :: u32)) 4,
       mk_gp TLM_READ_COMMAND a (le_bytes 8 v) 8], d, (?dev2, env))"
    by (simp add: catapult.bt_all.simps w1 w2 rt)
  with e'(2,3) f regs ev show ?thesis by blast
qed

theorem device_dma_register_roundtrip_witness:
  "\<exists>dev e'. cd_role dev \<noteq> None \<and> tlm_target.bt_all (cat_b_transport (hello_ops (\<lambda>r. r)))
      [mk_gp TLM_WRITE_COMMAND 0x980000 (le_bytes 4 (ucast (0x700000005 :: u64) :: u32)) 4,
       mk_gp TLM_WRITE_COMMAND (0x980000 + 4) (le_bytes 4 (ucast (drop_bit 32 (0x700000005 :: u64)) :: u32)) 4,
       mk_gp TLM_READ_COMMAND 0x980000 (replicate 8 0) 8] 0 (dev, \<lparr>env_usec = 0, env_build_info = 0\<rparr>) =
    Inr ([mk_gp TLM_WRITE_COMMAND 0x980000 (le_bytes 4 (ucast (0x700000005 :: u64) :: u32)) 4,
       mk_gp TLM_WRITE_COMMAND (0x980000 + 4) (le_bytes 4 (ucast (drop_bit 32 (0x700000005 :: u64)) :: u32)) 4,
       mk_gp TLM_READ_COMMAND 0x980000 (le_bytes 8 (0x700000005 :: u64)) 8], 0,
      (dev\<lparr>cd_adapter := wa_reset (cd_adapter dev), cd_role := Some e'\<rparr>,
       \<lparr>env_usec = 0, env_build_info = 0\<rparr>))"
proof -
  obtain e where e: "hello_new 0x1234 = Inr e" by (simp add: hello_new_def slots_engine_new_eq)
  then have inv: "hello_inv 0x1234 e"
    using se_inv_new [of "0x1234" 64 e] by (simp add: hello_new_def hello_inv_def)
  have "role_reg_index 0x980000 = 0x30000" by (simp add: word_unat_eq_iff unat_role_reg_index)
  moreover have "get_doorbell_regnum 0 full_db = 0x30000" by (simp add: get_doorbell_regnum_def)
  ultimately have a: "hello_dma_address 0x1234 0x980000"
    using dma_registers_find(1) [of 64 0 "0x1234" full_db] by (simp add: hello_dma_address_def)
  let ?dev = "\<lparr>cd_shell = [], cd_adapter = \<lparr>wa_addr = -1, wa_data = 0\<rparr>, cd_role = Some e\<rparr>"
  have "cd_role ?dev = Some e" "\<not> is_write_in_progress (cd_adapter ?dev)"
    by (simp_all add: is_write_in_progress_def)
  note rt = device_dma_register_roundtrip [OF this(1) inv a this(2) refl, where rst = "\<lambda>r. r" and d = 0 and
      v = "0x700000005" and env = "\<lparr>env_usec = 0, env_build_info = 0\<rparr>"]
  from rt obtain e' r where "tlm_target.bt_all (cat_b_transport (hello_ops (\<lambda>r. r)))
      [mk_gp TLM_WRITE_COMMAND 0x980000 (le_bytes 4 (ucast (0x700000005 :: u64) :: u32)) 4,
       mk_gp TLM_WRITE_COMMAND (0x980000 + 4) (le_bytes 4 (ucast (drop_bit 32 (0x700000005 :: u64)) :: u32)) 4,
       mk_gp TLM_READ_COMMAND 0x980000 (replicate 8 0) 8] 0 (?dev, \<lparr>env_usec = 0, env_build_info = 0\<rparr>) =
    Inr ([mk_gp TLM_WRITE_COMMAND 0x980000 (le_bytes 4 (ucast (0x700000005 :: u64) :: u32)) 4,
       mk_gp TLM_WRITE_COMMAND (0x980000 + 4) (le_bytes 4 (ucast (drop_bit 32 (0x700000005 :: u64)) :: u32)) 4,
       mk_gp TLM_READ_COMMAND 0x980000 (le_bytes 8 (0x700000005 :: u64)) 8], 0,
      (?dev\<lparr>cd_adapter := wa_reset (cd_adapter ?dev), cd_role := Some e'\<rparr>,
       \<lparr>env_usec = 0, env_build_info = 0\<rparr>))" by (elim exE conjE) (rule that)
  then show ?thesis by (intro exI [of _ ?dev] exI [of _ e'] conjI) simp_all
qed

section \<open>DMA through the device\<close>

text \<open>
  The transfer of a slot asks the host for 16 bytes per block, modulo \<open>2 ^ 32\<close>
  because the payload's length is an \<open>unsigned int\<close>, from the slot's input address; whatever
  response the host gives, the bytes the payload holds afterwards are the slot's buffer, and
  the completion that the thread then writes to the control buffer never reaches the host.
\<close>

theorem slot_transfer_request:
  assumes "find_next_full_doorbell e d = Inr (Some (slot, blocks))"
    and "slot_config_of e slot = Some cfg" "ic_buffer cfg = Some buf"
    and "reg_at (se_regs e) (get_address_regnum slot input_addr) = Inr ia" "ia \<noteq> 0"
    and "reg_at (se_regs e) (get_address_regnum slot control_addr) = Inr ca"
    and "host (mk_gp TLM_READ_COMMAND ia buf (16 * unat blocks mod 2 ^ 32)) 0 w = Inr (tr', d', w')"
  shows "\<exists>s'. dma_scan (cat_shell_ops host) \<lparr>ds_engine = e, ds_pc = Scanning, ds_slot = d, ds_world = w\<rparr> = Inr s' \<and>
     ds_pc s' = After_read ca \<and> ds_slot s' = slot \<and> ds_world s' = w' \<and>
     slot_config_of (ds_engine s') slot = Some (cfg\<lparr>ic_buffer := Some (gp_data tr')\<rparr>) \<and>
     (\<forall>off s''. dma_finish_read off (cat_shell_ops host) ca s' = Inr s'' \<longrightarrow> ds_world s'' = w')"
proof -
  have "unat (blocks * 16) mod 2 ^ 32 = 16 * unat blocks mod 2 ^ 32"
    by (simp add: unat_word_ariths mod_mod_cancel mult.commute)
  then have "unat (ucast (blocks * dma_block_size) :: u32) = 16 * unat blocks mod 2 ^ 32"
    by (simp add: dma_block_size_def unsigned_ucast_eq take_bit_eq_mod)
  then have "dma_read_from_host host ia buf (blocks * dma_block_size) w = Inr (gp_data tr', w')"
    using assms(7) by (simp add: dma_read_from_host_def)
  moreover have "slot < length (se_config e)"
    using assms(2) by (auto simp: slot_config_of_def split: if_splits)
  ultimately show ?thesis
    using assms(1-6)
    by (auto simp: dma_scan_def Let_def cat_shell_ops_def slot_config_of_def dma_finish_read_def
        dma_write_to_host_def res_bind_eq_Inr)
qed

theorem slot_transfer_request_witness:
  "\<exists>e s'. dma_scan (cat_shell_ops (\<lambda>tr d w. Inr (tr, d, gp_len tr # w)))
       \<lparr>ds_engine = e, ds_pc = Scanning, ds_slot = 0, ds_world = []\<rparr> = Inr s' \<and>
     full_doorbell e 0 = 0x10000001 \<and> ds_world s' = [16]"
proof -
  let ?db = "(get_doorbell_regnum 0 full_db, plain_register 0x10000001)"
  let ?ia = "(get_address_regnum 0 input_addr, plain_register 0x1000)"
  let ?ca = "(get_address_regnum 0 control_addr, plain_register 0x2000)"
  let ?cfg = "\<lparr>ic_buffer = Some [1], ic_valid_length = 0, ic_signal = None\<rparr>"
  define e where "e = \<lparr>se_count = 1, se_config = [Some ?cfg], se_regs = [?db, ?ia, ?ca], se_event = False\<rparr>"
  let ?host = "\<lambda>tr d w. Inr (tr, d, gp_len tr # w)"
  have db: "full_doorbell e 0 = 0x10000001"
    by (simp add: e_def full_doorbell_def find_register_def plain_register_def mk_register_def)
  have c: "se_count e = Suc 0" by (simp add: e_def)
  have "find_next_loop (Suc 0) (full_doorbell e) 0 0 = Inr (Some (0, 0x10000001))"
    by (subst find_next_loop.simps) (simp add: db)
  then have f: "find_next_full_doorbell e 0 = Inr (Some (0, 0x10000001))"
    by (simp add: find_next_full_doorbell_def add_wrap_def c)
  have "slot_config_of e 0 = Some ?cfg" "reg_at (se_regs e) (get_address_regnum 0 input_addr) = Inr 0x1000"
    "reg_at (se_regs e) (get_address_regnum 0 control_addr) = Inr 0x2000"
    by (simp_all add: e_def slot_config_of_def reg_at_def find_register_def get_address_regnum_def
        get_doorbell_regnum_def plain_register_def mk_register_def)
  from slot_transfer_request [OF f this(1) _ this(2) _ this(3), where host = ?host and w = "[]" and buf = "[1]"]
  obtain s' where "dma_scan (cat_shell_ops ?host) \<lparr>ds_engine = e, ds_pc = Scanning, ds_slot = 0, ds_world = []\<rparr> = Inr s'"
    "ds_world s' = [16]" by auto
  with db show ?thesis by blast
qed

end
