(* ===== verification/Catapult_Reset.thy ===== *)
theory Catapult_Reset
  imports Catapult_Device
begin

text \<open>
  What \<open>CatapultDevice::reset\<close> (\<open>catapult/catapult_device.cc\<close>) does to a device a host has used: the shell registers
  and the role are reset, the width adapter in front of the role is not.  The reset thread of
  \<open>bedrock_cdx.cc\<close> resets the device one microsecond after the host could first reach it.
\<close>

section \<open>The shell registers after a reset\<close>

lemma reset_of_shape: "shape m = shape m' \<Longrightarrow> map_reset m = map_reset m'"
proof (induction m arbitrary: m')
  case Nil
  then show ?case by (simp add: shape_def map_reset_def)
next
  case (Cons ar m)
  then obtain ar' m'' where m': "m' = ar' # m''" by (cases m') (auto simp: shape_def)
  obtain a r a' r' where ar: "ar = (a, r)" "ar' = (a', r')" by force
  have "a = a'" "r\<lparr>r_value := 0\<rparr> = r'\<lparr>r_value := 0\<rparr>" "shape m = shape m''"
    using Cons.prems by (simp_all add: m' ar shape_def)
  moreover from this(2) have "reg_reset r = reg_reset r'"
    by (cases r, cases r') (simp add: reg_reset_def)
  ultimately show ?case using Cons.IH [of m''] by (simp add: m' ar map_reset_def)
qed

lemma shell_table_initial: "map_reset (shell_table c slots_dma) = shell_table c slots_dma"
proof -
  have "\<forall>(a, r) \<in> set (shell_rows c slots_dma). r_value r = r_initial r"
    by (simp add: shell_rows_defs ro_def rd_def mk_register_def)
  moreover have "\<forall>(a, r) \<in> set asmi_rows. r_value r = r_initial r"
    by (simp add: asmi_rows_def rw_def mk_register_def)
  ultimately have "\<forall>(a, r) \<in> set (shell_table c slots_dma). r_value r = r_initial r"
    by (fastforce simp: shell_table_def legacy_rows_def soft_cap_rows_def ro_def mk_register_def)
  then show ?thesis by (auto simp: map_reset_def reg_reset_def intro!: map_idI)
qed

lemma shell_inv_reset: "shell_inv c slots_dma m \<Longrightarrow> map_reset m = shell_table c slots_dma"
  using reset_of_shape [of m "shell_table c slots_dma"] by (simp add: shell_inv_def shell_table_initial)

section \<open>Every access keeps the shape of the bank\<close>

lemma write_fn_shell_inv:
  assumes "write_fn_of ops ty a len v (dev, env) = Inr (n, dev', env')" "shell_inv c slots_dma (cd_shell dev)"
  shows "shell_inv c slots_dma (cd_shell dev')"
  using assms shell_write_eq [OF assms(2), of a "ucast v"]
  by (cases ty) (auto simp: write_no_register_def write_shell_register_def write_role_register_def res_bind_eq_Inr)

lemma read_fn_shell_inv:
  assumes "read_fn_of ops ty a len v (dev, env) = Inr (n, v', dev', env')" "shell_inv c slots_dma (cd_shell dev)"
  shows "shell_inv c slots_dma (cd_shell dev')"
  using assms shell_read_eq [OF assms(2), of a]
  by (cases ty) (auto simp: read_no_register_def read_shell_register_def read_role_register_def res_bind_eq_Inr
      split: if_splits option.splits)

lemma cat_b_transport_shell_inv:
  assumes "cat_b_transport ops tr d (dev, env) = Inr (tr', d', dev', env')" "shell_inv c slots_dma (cd_shell dev)"
  shows "shell_inv c slots_dma (cd_shell dev')"
  using assms
  by (auto simp: cat_b_transport_def Let_def res_bind_eq_Inr split: if_splits tlm_command.splits
      dest: write_fn_shell_inv read_fn_shell_inv)

lemma host_shell_inv:
  "catapult.bt_all ops trs d (dev, env) = Inr (trs', d', dev', env') \<Longrightarrow>
     shell_inv c slots_dma (cd_shell dev) \<Longrightarrow> shell_inv c slots_dma (cd_shell dev')"
proof (induction trs arbitrary: d dev env trs')
  case (Cons tr trs)
  then show ?case by (fastforce simp: res_bind_eq_Inr dest: cat_b_transport_shell_inv)
qed simp

section \<open>Reset\<close>

text \<open>
  The reset thread of \<open>bedrock_cdx.cc\<close> sets the reset signal, waits a microsecond and resets the device.  The
  signal is not connected to the device, so the host can use it before (\<open>first\<close>) and after (\<open>trs\<close>).
\<close>

definition bedrock_pull_reset ::
  "'r role_ops \<Rightarrow> gp list \<Rightarrow> gp list \<Rightarrow> sc_time \<Rightarrow> 'r cat_device \<times> shell_env \<Rightarrow>
     (gp list \<times> sc_time \<times> 'r cat_device \<times> shell_env) res" where
  "bedrock_pull_reset ops first trs d s =
     res_bind (catapult.bt_all ops first d s) (\<lambda>(first', d1, dev, env).
     res_bind (catapult.bt_all ops trs d1 (cat_reset ops dev, env)) (\<lambda>(trs', d2, s').
       Inr (first' @ trs', d2, s')))"

text \<open>
  Property C35: after any sequence of transactions on a new device, whatever role is plugged in, a
  reset gives the new device back, with the role reset, except for the width adapter.  A low half the host
  wrote before the reset is still held, so when the reset thread of Bedrock comes in between, the first half of the host's next 32-bit
  write to a role register is dropped.
\<close>

theorem reset_keeps_held_half:
  assumes "cat_device_new c slots_dma = Inr dev0"
    and "catapult.bt_all ops trs d (dev0\<lparr>cd_role := role\<rparr>, env) = Inr (trs', d', dev, env')"
  shows "cat_reset ops dev = dev0\<lparr>cd_adapter := cd_adapter dev, cd_role := map_option (ro_reset ops) (cd_role dev)\<rparr> \<and>
    (is_write_in_progress (cd_adapter dev) \<and> gp_ok tr \<and> gp_cmd tr = TLM_WRITE_COMMAND \<and> gp_len tr = 4 \<and>
       gp_byte_en tr = None \<and> gp_addr tr mod 8 = 0 \<and> get_address_type (gp_addr tr) \<in> {soft_reg, dma_reg} \<longrightarrow>
     bedrock_pull_reset ops trs [tr] d (dev0\<lparr>cd_role := role\<rparr>, env) = Inr (trs' @ [tr], d', cat_reset ops dev, env'))"
proof -
  have init: "init_shell_registers c slots_dma = Inr (cd_shell dev0)"
    "dev0 = \<lparr>cd_shell = cd_shell dev0, cd_adapter = wa_reset \<lparr>wa_addr = 0, wa_data = 0\<rparr>, cd_role = None\<rparr>"
    using assms(1) by (auto simp: cat_device_new_def res_bind_eq_Inr)
  have t: "distinct (map fst (shell_table c slots_dma))" "cd_shell dev0 = shell_table c slots_dma"
    using init(1) by (auto simp: init_shell_registers_def add_registers_eq split: if_splits)
  then have "shell_inv c slots_dma (cd_shell (dev0\<lparr>cd_role := role\<rparr>))" by (simp add: shell_inv_def)
  from shell_inv_reset [OF host_shell_inv [OF assms(2) this]]
  have reset: "cat_reset ops dev = dev0\<lparr>cd_adapter := cd_adapter dev, cd_role := map_option (ro_reset ops) (cd_role dev)\<rparr>"
    using t(2) by (simp add: cat_reset_def)
  have held: "bedrock_pull_reset ops trs [tr] d (dev0\<lparr>cd_role := role\<rparr>, env) = Inr (trs' @ [tr], d', cat_reset ops dev, env')"
    if w: "is_write_in_progress (cd_adapter dev)" "gp_ok tr" "gp_cmd tr = TLM_WRITE_COMMAND" "gp_len tr = 4"
      "gp_byte_en tr = None" "gp_addr tr mod 8 = 0" "get_address_type (gp_addr tr) \<in> {soft_reg, dma_reg}"
  proof -
    have "wa_write (adapter_write_cb ops) (gp_addr tr) 4 v (cd_adapter dev, b) = Inr (0, cd_adapter dev, b)" for v b
      using w(1,6) low_word_facts(1) [OF w(6)] by (simp add: wa_write_def wa_access_ok_def is_low_word_def)
    then have "write_role_register ops (gp_addr tr) 4 v (cat_reset ops dev, env') = Inr (0, cat_reset ops dev, env')" for v
      by (simp add: write_role_register_def cat_reset_def)
    with w have "cat_b_transport ops tr d' (cat_reset ops dev, env') = Inr (tr, d', cat_reset ops dev, env')"
      by (auto simp: cat_b_transport_def Let_def gp_ok_def)
    with assms(2) show ?thesis by (simp add: bedrock_pull_reset_def catapult.bt_all.simps)
  qed
  from reset show ?thesis by (rule conjI) (intro impI, elim conjE, rule held)
qed

theorem reset_keeps_held_half_witness:
  "\<exists>ops c dev0 dev. cat_device_new c True = Inr dev0 \<and> cd_adapter dev = \<lparr>wa_addr = 0x800000, wa_data = 5\<rparr> \<and>
     cat_reset ops dev = dev0\<lparr>cd_adapter := \<lparr>wa_addr = 0x800000, wa_data = 5\<rparr>, cd_role := Some ()\<rparr>"
proof -
  let ?c = "\<lparr>sk_status = 7, sk_capabilities = 0x120, sk_engine_id = 2, sk_min_buffer_size = 0x10000,
    sk_min_num_slots = 64, sk_max_shell_reg = 128, sk_soft_reg_cap = 12\<rparr>"
  let ?ops = "\<lparr>ro_reset = (\<lambda>r. r), ro_read = (\<lambda>a v r. Inr (True, v, r)), ro_write = (\<lambda>a v r. Inr (True, r))\<rparr>"
  let ?fresh = "\<lparr>cd_shell = shell_table ?c True, cd_adapter = wa_reset \<lparr>wa_addr = 0, wa_data = 0\<rparr>, cd_role = None\<rparr>"
  let ?tr = "mk_gp TLM_WRITE_COMMAND 0x800000 [5, 0, 0, 0] 4"
  let ?env = "\<lparr>env_usec = 0, env_build_info = 0\<rparr>"
  let ?dev = "?fresh\<lparr>cd_role := Some (), cd_adapter := \<lparr>wa_addr = 0x800000, wa_data = 5\<rparr>\<rparr>"
  have k: "unat (sk_soft_reg_cap ?c) < 16" by simp
  have i: "init_shell_registers ?c True = Inr (shell_table ?c True)"
    unfolding init_shell_registers_def using shell_table_distinct_iff [OF k, of True] by (simp add: add_registers_eq)
  have n: "cat_device_new ?c True = Inr ?fresh" unfolding cat_device_new_def i by simp
  have t: "get_address_type 0x800000 = soft_reg" by (simp add: get_address_type_eq)
  have "catapult.bt_all ?ops [?tr] 0 (?fresh\<lparr>cd_role := Some ()\<rparr>, ?env) = Inr ([?tr], 0, ?dev, ?env)"
    by (simp add: cat_b_transport_def t write_role_register_def wa_defs)
  from reset_keeps_held_half [OF n this] n show ?thesis
    by (intro exI [of _ ?ops] exI [of _ ?c] exI [of _ ?fresh] exI [of _ ?dev]) simp
qed

end
