(* ===== verification/Ostream.thy ===== *)
theory Ostream
  imports Prelude
begin

text \<open>
  The part of a C++ output stream the code prints with: the format flags, the fill character and
  the width, the manipulators that set them, and the insertion of strings and of unsigned numbers.  An
  insertion pads to the width and sets the width to zero; the other settings stay until they are changed, which is what
  the functions that save and restore them are for.
\<close>

section \<open>Digits\<close>

definition digit_char :: "nat \<Rightarrow> char" where
  "digit_char n = ''0123456789abcdef'' ! n"

fun digits :: "nat \<Rightarrow> nat \<Rightarrow> string" where
  "digits b n = (if b < 2 \<or> n < b then [digit_char n] else digits b (n div b) @ [digit_char (n mod b)])"

declare digits.simps [simp del]

text \<open>Reading digits back: the value of a digit is its place among the sixteen, and a character that is none of them gets 16.\<close>

definition digit_value :: "char \<Rightarrow> nat" where
  "digit_value c = length (takeWhile (\<lambda>d. d \<noteq> c) ''0123456789abcdef'')"

definition hex_text :: "string \<Rightarrow> bool" where
  "hex_text ds \<longleftrightarrow> set ds \<subseteq> set ''0123456789abcdef''"

definition digits_value :: "nat \<Rightarrow> string \<Rightarrow> nat" where
  "digits_value b ds = foldl (\<lambda>v c. v * b + digit_value c) 0 ds"

lemma digit_values: "list_all (\<lambda>n. digit_value (digit_char n) = n) [0..<16]"
  by (simp add: upt_rec digit_char_def digit_value_def)

lemma digit_value_char: "n < 16 \<Longrightarrow> digit_value (digit_char n) = n"
  using digit_values by (auto simp: list_all_iff)

lemma digits_value_append: "digits_value b (ds @ es) = digits_value b ds * b ^ length es + digits_value b es"
  by (induction es rule: rev_induct) (simp_all add: digits_value_def algebra_simps)

lemma digits_value_single [simp]: "digits_value b [c] = digit_value c"
  by (simp add: digits_value_def)

lemma digits_value_digits: "2 \<le> b \<Longrightarrow> b \<le> 16 \<Longrightarrow> digits_value b (digits b n) = n"
proof (induction b n rule: digits.induct)
  case (1 b n)
  then have "n mod b < 16" by (intro less_le_trans [OF mod_less_divisor]) auto
  with 1 show ?case
    by (subst digits.simps) (auto simp: digits_value_append digit_value_char)
qed

lemma digits_value_zeros: "digits_value b (replicate k (CHR ''0'') @ ds) = digits_value b ds"
  by (induction k) (simp_all add: digits_value_def digit_value_def)

lemma digit_char_hex: "n < 16 \<Longrightarrow> digit_char n \<in> set ''0123456789abcdef''"
  unfolding digit_char_def by (intro nth_mem) simp

lemma hex_text_parts:
  "hex_text (ds @ es) \<longleftrightarrow> hex_text ds \<and> hex_text es" "hex_text [c] \<longleftrightarrow> c \<in> set ''0123456789abcdef''"
  by (auto simp: hex_text_def)

lemma digits_hex: "2 \<le> b \<Longrightarrow> b \<le> 16 \<Longrightarrow> hex_text (digits b n)"
proof (induction b n rule: digits.induct)
  case (1 b n)
  then have "n mod b < 16" by (intro less_le_trans [OF mod_less_divisor]) auto
  with 1 digit_char_hex [of n] digit_char_hex [of "n mod b"] show ?case
    by (subst digits.simps) (simp add: hex_text_parts del: list.set)
qed

lemma digits_nonempty: "0 < length (digits b n)"
  by (subst digits.simps) simp

lemma length_digits_le: "2 \<le> b \<Longrightarrow> n < b ^ k \<Longrightarrow> 0 < k \<Longrightarrow> length (digits b n) \<le> k"
proof (induction k arbitrary: n)
  case (Suc k)
  show ?case
  proof (cases "n < b")
    case False
    with Suc.prems have "0 < k" by (cases k) auto
    moreover have "n div b < b ^ k" using Suc.prems by (simp add: less_mult_imp_div_less algebra_simps)
    ultimately have "length (digits b (n div b)) \<le> k" using Suc by simp
    with False Suc.prems(1) show ?thesis by (subst digits.simps) simp
  qed (subst digits.simps, simp)
qed simp

lemma hex_digits_word: "length (digits 16 (unat (w :: 'a::len word))) \<le> (LENGTH('a) + 3) div 4"
proof -
  have "unat w < 2 ^ LENGTH('a)" by (rule unsigned_less)
  also have "(2 :: nat) ^ LENGTH('a) \<le> 2 ^ (4 * ((LENGTH('a) + 3) div 4))" by (intro power_increasing) auto
  also have "\<dots> = 16 ^ ((LENGTH('a) + 3) div 4)" by (simp add: power_mult)
  finally have "unat w < 16 ^ ((LENGTH('a) + 3) div 4)" .
  moreover have "4 \<le> LENGTH('a) + 3" using len_gt_0 [where 'a = 'a] by linarith
  ultimately show ?thesis by (intro length_digits_le) (simp_all add: div_greater_zero_iff)
qed

text \<open>A number below \<open>b ^ k\<close> padded with zeros to \<open>k\<close> digits, and how such texts are put together.\<close>

primrec fixed_digits :: "nat \<Rightarrow> nat \<Rightarrow> nat \<Rightarrow> string" where
  "fixed_digits b 0 n = []"
| "fixed_digits b (Suc k) n = fixed_digits b k (n div b) @ [digit_char (n mod b)]"

lemma length_fixed_digits [simp]: "length (fixed_digits b k n) = k"
  by (induction k arbitrary: n) simp_all

lemma fixed_digits_zero: "fixed_digits b k 0 = replicate k (CHR ''0'')"
  by (induction k) (simp_all add: digit_char_def flip: replicate_append_same)

lemma pad_digits:
  assumes "2 \<le> b" "n < b ^ k" "0 < k"
  shows "replicate (k - length (digits b n)) (CHR ''0'') @ digits b n = fixed_digits b k n"
  using assms(2,3)
proof (induction k arbitrary: n)
  case (Suc k)
  show ?case
  proof (cases "n < b")
    case True
    with assms(1) show ?thesis
      by (subst (1 2) digits.simps) (simp add: fixed_digits_zero)
  next
    case False
    with Suc.prems have "0 < k" by (cases k) auto
    moreover have "n div b < b ^ k" using Suc.prems by (simp add: less_mult_imp_div_less algebra_simps)
    ultimately show ?thesis
      using Suc.IH [of "n div b"] False assms(1) by (subst (1 2) digits.simps) simp
  qed
qed simp

lemma fixed_digits_split:
  "0 < b \<Longrightarrow> fixed_digits b (k + j) n = fixed_digits b k (n div b ^ j) @ fixed_digits b j (n mod b ^ j)"
proof (induction j arbitrary: n)
  case (Suc j)
  have "n div b div b ^ j = n div b ^ Suc j" by (simp add: div_mult2_eq)
  moreover have "(n div b) mod b ^ j = (n mod b ^ Suc j) div b"
    using Suc.prems by (simp add: mod_mult2_eq [of n b "b ^ j", simplified])
  moreover have "n mod b ^ Suc j mod b = n mod b" by (simp add: mod_mod_cancel)
  ultimately show ?case using Suc by simp
qed simp

section \<open>The stream\<close>

text \<open>
  Of the flags the base and the side of the text matter here; the code uses neither octal
  numbers nor the flags that show a base, a sign or capital digits.
\<close>

record fmtflags =
  ff_hex :: bool
  ff_left :: bool

record ostream =
  os_flags :: fmtflags
  os_fill :: char
  os_width :: int
  os_out :: string

definition cout_new :: ostream where
  "cout_new = \<lparr>os_flags = \<lparr>ff_hex = False, ff_left = False\<rparr>, os_fill = CHR '' '', os_width = 0, os_out = []\<rparr>"

type_synonym manip = "ostream \<Rightarrow> ostream"

definition setw :: "int \<Rightarrow> manip" where "setw n os = os\<lparr>os_width := n\<rparr>"
definition setfill :: "char \<Rightarrow> manip" where "setfill c os = os\<lparr>os_fill := c\<rparr>"
definition set_flags :: "fmtflags \<Rightarrow> manip" where "set_flags f os = os\<lparr>os_flags := f\<rparr>"
definition hex :: manip where "hex os = os\<lparr>os_flags := (os_flags os)\<lparr>ff_hex := True\<rparr>\<rparr>"
definition dec :: manip where "dec os = os\<lparr>os_flags := (os_flags os)\<lparr>ff_hex := False\<rparr>\<rparr>"
definition left :: manip where "left os = os\<lparr>os_flags := (os_flags os)\<lparr>ff_left := True\<rparr>\<rparr>"
definition right :: manip where "right os = os\<lparr>os_flags := (os_flags os)\<lparr>ff_left := False\<rparr>\<rparr>"

definition pad_left :: "char \<Rightarrow> int \<Rightarrow> string \<Rightarrow> string" where
  "pad_left c n s = replicate (nat n - length s) c @ s"

definition pad_right :: "char \<Rightarrow> int \<Rightarrow> string \<Rightarrow> string" where
  "pad_right c n s = s @ replicate (nat n - length s) c"

definition put :: "string \<Rightarrow> manip" where
  "put s os = os\<lparr>os_out := os_out os @ (if ff_left (os_flags os) then pad_right else pad_left) (os_fill os) (os_width os) s,
     os_width := 0\<rparr>"

definition put_num :: "nat \<Rightarrow> manip" where
  "put_num n os = put (digits (if ff_hex (os_flags os) then 16 else 10) n) os"

definition newline :: string where "newline = [char_of (10 :: nat)]"

definition endl :: manip where "endl os = os\<lparr>os_out := os_out os @ newline\<rparr>"

text \<open>\<open>os << a << b\<close> is \<open>emit [a, b] os\<close>.\<close>

primrec emit :: "manip list \<Rightarrow> manip" where
  "emit [] os = os"
| "emit (m # ms) os = emit ms (m os)"

lemma emit_append: "emit (ms @ ns) os = emit ns (emit ms os)"
  by (induction ms arbitrary: os) simp_all

named_theorems stream_simps \<open>what the manipulators and insertions do to a stream\<close>

lemmas [stream_simps] = setw_def setfill_def set_flags_def hex_def dec_def left_def right_def endl_def put_def put_num_def

lemma pad_zero [simp]: "n \<le> 0 \<Longrightarrow> pad_left c n s = s" "n \<le> 0 \<Longrightarrow> pad_right c n s = s"
  by (simp_all add: pad_left_def pad_right_def)

lemma pad_fits [simp]: "nat n \<le> length s \<Longrightarrow> pad_left c n s = s" "nat n \<le> length s \<Longrightarrow> pad_right c n s = s"
  by (simp_all add: pad_left_def pad_right_def)

lemma length_pad [simp]:
  "length (pad_left c n s) = max (nat n) (length s)" "length (pad_right c n s) = max (nat n) (length s)"
  by (simp_all add: pad_left_def pad_right_def)

lemma digits_value_pad_left: "digits_value b (pad_left (CHR ''0'') n ds) = digits_value b ds"
  by (simp add: pad_left_def digits_value_zeros)

lemma hex_text_pad_left: "hex_text ds \<Longrightarrow> hex_text (pad_left (CHR ''0'') n ds)"
  by (auto simp: hex_text_def pad_left_def)

lemma digits_value_pad_right:
  "digits_value b (pad_right (CHR ''0'') n ds) = digits_value b ds * b ^ (nat n - length ds)"
  using digits_value_zeros [of b "nat n - length ds" "[]"]
  by (simp add: pad_right_def digits_value_append) (simp add: digits_value_def)

end
