(* ===== verification/Manipulators.thy ===== *)
theory Manipulators
  imports Ostream
begin

text \<open>
  The stream manipulators of \<open>catapult/manipulators.hpp\<close>: \<open>out_hex\<close>, and the two that show the
  half of a 64-bit register a 32-bit access touches.  Each saves the settings of the stream,
  changes them, prints and restores them, so what matters is the text and what is left of the
  settings.
\<close>

section \<open>\<open>out_hex\<close>\<close>

text \<open>\<open>_width\<close> is an \<open>unsigned int\<close> made from a \<open>size_t\<close>, and \<open>setw\<close> takes an \<open>int\<close>.\<close>

record out_hex =
  oh_value :: u64
  oh_width :: u32
  oh_show_base :: bool

definition mk_out_hex :: "u64 \<Rightarrow> u64 \<Rightarrow> bool \<Rightarrow> out_hex" where
  "mk_out_hex value width show_base = \<lparr>oh_value = value, oh_width = ucast width, oh_show_base = show_base\<rparr>"

definition hex_right :: fmtflags where
  "hex_right = \<lparr>ff_hex = True, ff_left = False\<rparr>"

definition put_out_hex :: "out_hex \<Rightarrow> manip" where
  "put_out_hex h os0 =
     (let old_width = os_width os0; os1 = setw 0 os0;
          old_fill = os_fill os1; os2 = setfill (CHR ''0'') os1;
          old_fmt = os_flags os2; os3 = set_flags hex_right os2;
          os4 = (if oh_show_base h then put ''0x'' os3 else os3);
          os5 = emit [setw (sint (oh_width h)), put_num (unat (oh_value h))] os4
      in emit [set_flags old_fmt, setfill old_fill, setw old_width] os5)"

definition out_hex_digits :: "out_hex \<Rightarrow> string" where
  "out_hex_digits h = pad_left (CHR ''0'') (sint (oh_width h)) (digits 16 (unat (oh_value h)))"

lemma put_out_hex_eq:
  "put_out_hex h os = os\<lparr>os_out := os_out os @ (if oh_show_base h then ''0x'' else []) @ out_hex_digits h\<rparr>"
  by (simp add: put_out_hex_def out_hex_digits_def hex_right_def stream_simps)

lemma width_kept:
  assumes "(width :: u64) < 2 ^ 31"
  shows "nat (sint (ucast width :: u32)) = unat width"
proof -
  have u: "uint width < 2 ^ 31" using assms by (simp add: word_less_def)
  then have "uint (ucast width :: u32) = uint width" unfolding unsigned_ucast_eq
    by (intro take_bit_int_eq_self order_less_le_trans [OF u]) simp_all
  with u show ?thesis by (simp only: sint_uint unat_eq_nat_uint) (subst signed_take_bit_int_eq_self; simp add: order_trans [OF _ uint_ge_0])
qed

text \<open>
  Property C38: whatever the settings of the stream, \<open>out_hex\<close> appends the base, when it is asked for, and a text of nothing but hexadecimal digits
  that reads back as the value: it is padded to the width with zeros, whatever the fill of the stream, and never cut; for a width of up to 16 it is exactly that wide
  when the value fits.  It leaves every setting of the stream as it was.
\<close>

theorem out_hex_roundtrip:
  assumes "width < 2 ^ 31"
  shows "\<exists>ds. put_out_hex (mk_out_hex v width show_base) os =
      os\<lparr>os_out := os_out os @ (if show_base then ''0x'' else []) @ ds\<rparr> \<and>
    hex_text ds \<and> digits_value 16 ds = unat v \<and> unat width \<le> length ds \<and> length ds \<le> max (unat width) 16 \<and>
    (0 < width \<and> unat v < 16 ^ unat width \<longrightarrow> length ds = unat width)"
proof -
  let ?h = "mk_out_hex v width show_base"
  have w: "nat (sint (ucast width :: u32)) = unat width" by (rule width_kept [OF assms])
  have l: "length (digits 16 (unat v)) \<le> 16" using hex_digits_word [of v] by simp
  have f: "0 < width \<Longrightarrow> unat v < 16 ^ unat width \<Longrightarrow> length (digits 16 (unat v)) \<le> unat width"
    by (intro length_digits_le) (auto simp: word_less_nat_alt)
  show ?thesis
    using w l f by (intro exI [of _ "out_hex_digits ?h"])
      (auto simp: put_out_hex_eq mk_out_hex_def out_hex_digits_def digits_value_pad_left digits_value_digits hex_text_pad_left digits_hex max_def)
qed

theorem out_hex_roundtrip_witness:
  "\<exists>ds. put_out_hex (mk_out_hex 0xbeef 6 True) (setw 9 (hex cout_new)) =
      (setw 9 (hex cout_new))\<lparr>os_out := ''0x'' @ ds\<rparr> \<and> hex_text ds \<and> digits_value 16 ds = 0xbeef \<and> length ds = 6"
proof -
  have "(6 :: u64) < 2 ^ 31" by simp
  from out_hex_roundtrip [OF this, where v = "0xbeef" and show_base = True and os = "setw 9 (hex cout_new)"] show ?thesis
    by (auto simp: cout_new_def stream_simps)
qed

section \<open>\<open>out_write64b\<close> and \<open>out_read64b\<close>\<close>

record out64b =
  wb_value :: u64
  wb_length :: nat
  wb_offset :: nat
  wb_fill :: char
  wb_blank :: char

text \<open>The constructors of both assert a length and an offset that go together.\<close>

definition mk_out64b :: "u64 \<Rightarrow> nat \<Rightarrow> nat \<Rightarrow> out64b res" where
  "mk_out64b v l off =
     (if l = 8 \<and> off = 0 \<or> l = 4 \<and> (off = 0 \<or> off = 4)
      then Inr \<lparr>wb_value = v, wb_length = l, wb_offset = off, wb_fill = CHR ''0'', wb_blank = CHR ''x''\<rparr>
      else Inl Assertion_failed)"

text \<open>
  The part the two inserters share; they differ in the 32 bits they show.  The early return of a
  64-bit access leaves the settings changed.
\<close>

definition put_out64b :: "u32 \<Rightarrow> out64b \<Rightarrow> manip" where
  "put_out64b v32 wb os0 =
     (let old_width = os_width os0; os1 = setw (int (wb_length wb * 2)) os0;
          old_fill = os_fill os1; os2 = setfill (wb_fill wb) os1;
          old_fmt = os_flags os2; os3 = set_flags hex_right os2
      in if wb_length wb = 8 then put_num (unat (wb_value wb)) os3
         else
           let blanks = replicate 8 (wb_blank wb);
               os4 = (if wb_offset wb = 0 then put blanks os3 else os3);
               os5 = emit [setw 8, put_num (unat v32)] os4;
               os6 = (if wb_offset wb = 4 then put blanks os5 else os5)
           in emit [set_flags old_fmt, setfill old_fill, setw old_width] os6)"

definition put_out_write64b :: "out64b \<Rightarrow> manip" where
  "put_out_write64b wb = put_out64b (ucast (drop_bit (wb_offset wb * 8) (wb_value wb) AND 0xffffffff)) wb"

definition put_out_read64b :: "out64b \<Rightarrow> manip" where
  "put_out_read64b wb = put_out64b (ucast (wb_value wb AND 0xffffffff)) wb"

definition hex32 :: "u32 \<Rightarrow> string" where
  "hex32 v = pad_left (CHR ''0'') 8 (digits 16 (unat v))"

definition hex64 :: "u64 \<Rightarrow> string" where
  "hex64 v = pad_left (CHR ''0'') 16 (digits 16 (unat v))"

lemma hex32_length [simp]: "length (hex32 v) = 8"
  using hex_digits_word [of v] by (simp add: hex32_def)

lemma hex64_length [simp]: "length (hex64 v) = 16"
  using hex_digits_word [of v] by (simp add: hex64_def)

lemma eight_blanks: "replicate 8 (CHR ''x'') = ''xxxxxxxx''"
  by (simp add: numeral_eq_Suc)

lemma put_out64b_half:
  assumes "mk_out64b v 4 off = Inr wb"
  shows "put_out64b v32 wb os =
    os\<lparr>os_out := os_out os @ (if off = 0 then ''xxxxxxxx'' @ hex32 v32 else hex32 v32 @ ''xxxxxxxx'')\<rparr>"
  using assms
  by (auto simp: mk_out64b_def put_out64b_def hex32_def hex_right_def stream_simps eight_blanks split: if_splits)

lemma put_out64b_full:
  assumes "mk_out64b v 8 off = Inr wb"
  shows "put_out64b v32 wb os =
    os\<lparr>os_out := os_out os @ hex64 v, os_fill := CHR ''0'', os_width := 0, os_flags := hex_right\<rparr>"
  using assms by (auto simp: mk_out64b_def put_out64b_def hex64_def hex_right_def stream_simps split: if_splits)

lemma hex64_halves: "hex64 v = hex32 (ucast (drop_bit 32 v)) @ hex32 (ucast v)"
proof -
  have f: "hex64 v = fixed_digits 16 16 (unat v)"
    using pad_digits [of 16 "unat v" 16] unsigned_less [of v] by (simp add: hex64_def pad_left_def)
  have g: "hex32 w = fixed_digits 16 8 (unat w)" for w :: u32
    using pad_digits [of 16 "unat w" 8] unsigned_less [of w] by (simp add: hex32_def pad_left_def)
  have "unat v < 2 ^ 64" using unsigned_less [of v] by simp
  then have "unat v div 4294967296 < 4294967296" by (simp add: less_mult_imp_div_less)
  moreover have "unat (drop_bit 32 v) = unat v div 4294967296"
    by (simp only: unat_drop_bit_eq drop_bit_nat_def) simp
  ultimately have "unat (ucast (drop_bit 32 v) :: u32) = unat v div 16 ^ 8" "unat (ucast v :: u32) = unat v mod 16 ^ 8"
    by (simp_all add: unsigned_ucast_eq take_bit_nat_def)
  with fixed_digits_split [of 16 8 8 "unat v"] show ?thesis by (simp add: f g)
qed

text \<open>
  The two 32-bit views of a 64-bit write have 16 columns and leave the stream as it was; the half
  that is not accessed is blank, and the other halves put next to each other are the text of the 64-bit view, which reads
  back as the value.  The 64-bit view, however, returns before it restores the settings: whatever they
  were, the stream goes on in hexadecimal with zeros as fill.
\<close>

theorem out_write64b_views:
  "\<exists>lo hi full tlo thi.
     mk_out64b v 4 0 = Inr lo \<and> mk_out64b v 4 4 = Inr hi \<and> mk_out64b v 8 0 = Inr full \<and>
     put_out_write64b lo os = os\<lparr>os_out := os_out os @ ''xxxxxxxx'' @ tlo\<rparr> \<and>
     put_out_write64b hi os = os\<lparr>os_out := os_out os @ thi @ ''xxxxxxxx''\<rparr> \<and>
     length tlo = 8 \<and> length thi = 8 \<and> digits_value 16 (thi @ tlo) = unat v \<and>
     put_out_write64b full os =
       os\<lparr>os_out := os_out os @ thi @ tlo, os_fill := CHR ''0'', os_width := 0, os_flags := hex_right\<rparr>"
proof -
  obtain lo hi full where m: "mk_out64b v 4 0 = Inr lo" "mk_out64b v 4 4 = Inr hi" "mk_out64b v 8 0 = Inr full"
    by (simp add: mk_out64b_def)
  have f: "wb_offset lo = 0" "wb_offset hi = 4" "wb_value lo = v" "wb_value hi = v" using m by (auto simp: mk_out64b_def)
  have a: "(0xffffffff :: u64) = mask 32" by (simp add: mask_eq_exp_minus_1)
  have u: "ucast (x AND 0xffffffff) = (ucast x :: u32)" for x :: u64
    unfolding a by (rule bit_word_eqI) (simp add: bit_simps)
  have "digits_value 16 (hex64 v) = unat v"
    by (simp add: hex64_def digits_value_pad_left digits_value_digits)
  then show ?thesis
    using m put_out64b_half [OF m(1)] put_out64b_half [OF m(2)] put_out64b_full [OF m(3)]
    by (intro exI [of _ lo] exI [of _ hi] exI [of _ full] exI [of _ "hex32 (ucast v)"] exI [of _ "hex32 (ucast (drop_bit 32 v))"])
      (simp add: put_out_write64b_def f u hex64_halves)
qed

end
