(* ===== verification/Register_Print.thy ===== *)
theory Register_Print
  imports Register_Map Manipulators
begin

text \<open>
  What the register banks of \<open>catapult/register_map.hpp\<close> and the slots engine write to the console:
  the line of every access, the table of a bank, and the messages about doorbells.  The
  settings an inserter leaves on \<open>cout\<close> decide what the next one prints, so the stream is threaded
  through.  What a callback prints of its own is not part of the lines.
\<close>

section \<open>A bank with names\<close>

record ('r, 'e) named_map =
  nm_name :: string
  nm_regs :: "('r, 'e) register_map"
  nm_names :: "(u64 \<times> string) list"
  nm_max_width :: nat

definition named_map_new :: "string \<Rightarrow> ('r, 'e) named_map" where
  "named_map_new map_name = \<lparr>nm_name = map_name, nm_regs = [], nm_names = [], nm_max_width = 0\<rparr>"

definition add_named :: "u64 \<Rightarrow> string \<Rightarrow> ('r, 'e) register \<Rightarrow> ('r, 'e) named_map \<Rightarrow> ('r, 'e) named_map res" where
  "add_named addr name r m =
     (let m' = m\<lparr>nm_max_width := max (nm_max_width m) (length name)\<rparr>
      in res_bind (add_register addr r (nm_regs m')) (\<lambda>regs.
           Inr (m'\<lparr>nm_regs := regs, nm_names := nm_names m' @ [(addr, name)]\<rparr>)))"

definition reg_name :: "('r, 'e) named_map \<Rightarrow> u64 \<Rightarrow> string" where
  "reg_name m addr = (case map_of (nm_names m) addr of Some n \<Rightarrow> n | None \<Rightarrow> [])"

text \<open>The bank remembers the width of its longest name.\<close>

definition names_inv :: "('r, 'e) named_map \<Rightarrow> bool" where
  "names_inv m \<longleftrightarrow> map fst (nm_names m) = map fst (nm_regs m) \<and> distinct (map fst (nm_regs m)) \<and>
     (\<forall>(a, n) \<in> set (nm_names m). length n \<le> nm_max_width m)"

lemma names_inv_new: "names_inv (named_map_new map_name)"
  by (simp add: names_inv_def named_map_new_def)

lemma names_inv_add: "names_inv m \<Longrightarrow> add_named addr name r m = Inr m' \<Longrightarrow> names_inv m'"
  by (fastforce simp: names_inv_def add_named_def Let_def add_register_def find_register_None le_max_iff_disj split: if_splits)

lemma reg_name_width: "names_inv m \<Longrightarrow> length (reg_name m a) \<le> nm_max_width m"
  by (auto simp: names_inv_def reg_name_def split: option.splits dest: map_of_SomeD)

section \<open>The line of an access\<close>

definition not_found_line :: "string \<Rightarrow> u64 \<Rightarrow> manip" where
  "not_found_line name addr =
     emit [put ''CatapultDevice: registermap '', put name, put '' '', hex, put_num (unat addr), put '' not found in map'', endl]"

definition read_register_print ::
  "('w::len word, 'e) named_map \<Rightarrow> u64 \<Rightarrow> 'w word \<Rightarrow> 'e \<Rightarrow> ostream \<Rightarrow> bool \<times> 'w word \<times> ('w word, 'e) named_map \<times> 'e \<times> ostream" where
  "read_register_print m addr out env os =
     (case read_register (nm_regs m) addr out env of (result, out', regs', env') \<Rightarrow>
        (result, out', m\<lparr>nm_regs := regs'\<rparr>, env',
         if find_register (nm_regs m) addr = None then not_found_line (nm_name m) addr os
         else emit ([put ''CatapultDevice: rmap '', put (nm_name m), put ''  read '',
                setw 6, setfill (CHR ''0''), hex, put_num (unat addr), put '' ('',
                setw (int (nm_max_width m)), setfill (CHR '' ''), right, put (reg_name m addr), put '') => '']
              @ (if result then [hex, put_num (unat out')] else [put ''(no data)'']) @ [endl]) os))"

definition write_register_print ::
  "('w::len word, 'e) named_map \<Rightarrow> u64 \<Rightarrow> 'w word \<Rightarrow> 'e \<Rightarrow> ostream \<Rightarrow> bool \<times> ('w word, 'e) named_map \<times> 'e \<times> ostream" where
  "write_register_print m addr v env os =
     (case write_register (nm_regs m) addr v env of (result, regs', env') \<Rightarrow>
        (result, m\<lparr>nm_regs := regs'\<rparr>, env',
         if find_register (nm_regs m) addr = None then not_found_line (nm_name m) addr os
         else emit [put ''CatapultDevice: rmap '', put (nm_name m), put '' write '',
                setw 6, setfill (CHR ''0''), hex, put_num (unat addr),
                put '' ('', setw (int (nm_max_width m)), setfill (CHR '' ''), right, put (reg_name m addr), put '') <= '',
                hex, put_num (unat v), put (if result then '' ok '' else '' err''), endl] os))"

section \<open>The table of a bank\<close>

text \<open>One row: the transformed address, the name, the value, the protection.\<close>

definition print_row :: "int \<Rightarrow> nat \<Rightarrow> int \<Rightarrow> u64 \<Rightarrow> string \<Rightarrow> ('w::len word, 'e) register \<Rightarrow> manip" where
  "print_row address_width max_name_length value_width addr name r =
     emit [hex, put ''0x'',
       right, setfill (CHR ''0''), setw 6, hex, put_num (unat addr),
       setfill (CHR '' ''), setw (address_width - 8), put ''   '', put ''   '',
       left, setfill (CHR '' ''), setw (int max_name_length), put name,
       put '' = '',
       right, setfill (CHR '' ''), setw value_width, hex, put_num (unat (r_value r)),
       put ''   '',
       left, setfill (CHR '' ''), put ''(r/'', put [if r_readonly r then CHR ''o'' else CHR ''w''], put '')'',
       endl]"

definition print_header :: "string \<Rightarrow> nat \<Rightarrow> int \<Rightarrow> nat \<Rightarrow> int \<Rightarrow> string \<Rightarrow> manip" where
  "print_header name count address_width max_name_length value_width address_name =
     emit [dec, put ''address_width = '', put_num (nat address_width), endl,
       dec, put name, put '' register map contains '', put_num count, put ''entries:'', endl,
       setw address_width, left, put address_name, put ''   '', setw (int max_name_length), left, put ''name'',
       put ''   '', setw value_width, left, put ''value (hex)'', put ''   '', put ''protection'', endl]"

definition rows_in_order :: "('r, 'e) named_map \<Rightarrow> (u64 \<times> ('r, 'e) register) list" where
  "rows_in_order m = sort_key fst (nm_regs m)"

definition print_register_table ::
  "string \<Rightarrow> (u64 \<Rightarrow> u64) \<Rightarrow> ('w::len word, 'e) named_map \<Rightarrow> manip" where
  "print_register_table address_name address_transform m os =
     (let value_width = int (LENGTH('w) div 8 * 2);
          address_width = int (max (length address_name) 6);
          max_name_length = fold (\<lambda>(a, r) n. max n (length (reg_name m a))) (rows_in_order m) 0;
          os1 = print_header (nm_name m) (length (nm_regs m)) address_width max_name_length value_width address_name os
      in fold (\<lambda>(a, r). print_row address_width max_name_length value_width (address_transform a) (reg_name m a) r)
           (rows_in_order m) os1)"

section \<open>What is printed\<close>

definition row_text :: "int \<Rightarrow> nat \<Rightarrow> int \<Rightarrow> u64 \<Rightarrow> string \<Rightarrow> ('w::len word, 'e) register \<Rightarrow> string" where
  "row_text aw mnl vw addr name r =
     ''0x'' @ pad_left (CHR ''0'') 6 (digits 16 (unat addr)) @ pad_left (CHR '' '') (aw - 8) ''   '' @ ''   ''
     @ pad_right (CHR '' '') (int mnl) name @ '' = '' @ pad_left (CHR '' '') vw (digits 16 (unat (r_value r)))
     @ ''   (r/'' @ [if r_readonly r then CHR ''o'' else CHR ''w''] @ '')'' @ newline"

definition table_settings :: manip where
  "table_settings os = os\<lparr>os_flags := \<lparr>ff_hex = True, ff_left = True\<rparr>, os_fill := CHR '' '', os_width := 0\<rparr>"

lemma print_row_eq:
  "os_width os = 0 \<Longrightarrow> print_row aw mnl vw addr name r os =
     table_settings (os\<lparr>os_out := os_out os @ row_text aw mnl vw addr name r\<rparr>)"
  by (simp add: print_row_def row_text_def table_settings_def stream_simps)

lemma print_rows_eq:
  assumes "os_width os = 0"
  shows "fold (\<lambda>(a, r). print_row aw mnl vw (tr a) (nm a) r) rows os =
     (if rows = [] then os else table_settings
       (os\<lparr>os_out := os_out os @ concat (map (\<lambda>(a, r). row_text aw mnl vw (tr a) (nm a) r) rows)\<rparr>))"
  using assms
proof (induction rows arbitrary: os)
  case (Cons ar rows)
  obtain a r where ar: "ar = (a, r)" by force
  show ?case
    using Cons by (simp add: ar print_row_eq) (auto simp: table_settings_def)
qed simp

definition header_text :: "ostream \<Rightarrow> string \<Rightarrow> nat \<Rightarrow> int \<Rightarrow> string" where
  "header_text os name count aw =
     (if ff_left (os_flags os) then pad_right else pad_left) (os_fill os) (os_width os) ''address_width = ''
     @ digits 10 (nat aw) @ newline @ name @ '' register map contains '' @ digits 10 count @ ''entries:'' @ newline"

definition columns_text :: "char \<Rightarrow> int \<Rightarrow> nat \<Rightarrow> int \<Rightarrow> string \<Rightarrow> string" where
  "columns_text f aw mnl vw an = pad_right f aw an @ ''   '' @ pad_right f (int mnl) ''name'' @ ''   ''
     @ pad_right f vw ''value (hex)'' @ ''   protection'' @ newline"

lemma print_header_eq:
  "print_header name count aw mnl vw an os =
     os\<lparr>os_out := os_out os @ header_text os name count aw @ columns_text (os_fill os) aw mnl vw an,
       os_flags := \<lparr>ff_hex = False, ff_left = True\<rparr>, os_width := 0\<rparr>"
  by (simp add: print_header_def header_text_def columns_text_def stream_simps)

lemma print_table_eq:
  fixes m :: "('w::len word, 'e) named_map"
  defines "rows \<equiv> rows_in_order m" and "vw \<equiv> int (LENGTH('w) div 8 * 2)"
  defines "mnl \<equiv> fold (\<lambda>(a, r) n. max n (length (reg_name m a))) rows 0"
  shows "print_register_table an tr m os =
     os\<lparr>os_out := os_out os @ header_text os (nm_name m) (length (nm_regs m)) (int (max (length an) 6))
          @ columns_text (os_fill os) (int (max (length an) 6)) mnl vw an
          @ concat (map (\<lambda>(a, r). row_text (int (max (length an) 6)) mnl vw (tr a) (reg_name m a) r) rows),
        os_flags := \<lparr>ff_hex = rows \<noteq> [], ff_left = True\<rparr>,
        os_fill := (if rows = [] then os_fill os else CHR '' ''), os_width := 0\<rparr>"
proof -
  let ?aw = "int (max (length an) 6)"
  have "print_register_table an tr m os =
      fold (\<lambda>(a, r). print_row ?aw mnl vw (tr a) (reg_name m a) r) rows
        (print_header (nm_name m) (length (nm_regs m)) ?aw mnl vw an os)"
    by (simp only: print_register_table_def Let_def rows_def mnl_def vw_def)
  then show ?thesis by (simp add: print_rows_eq print_header_eq table_settings_def)
qed

lemma name_width_bound:
  "fold (\<lambda>(a, r) n. max n (f a)) rows k = (n :: nat) \<Longrightarrow> k \<le> n \<and> (\<forall>(a, r) \<in> set rows. f a \<le> n)"
proof (induction rows arbitrary: k)
  case (Cons ar rows)
  obtain a r where ar: "ar = (a, r)" by force
  from Cons.IH [of "max k (f a)"] Cons.prems show ?case by (auto simp: ar)
qed simp

section \<open>The columns\<close>

text \<open>Where the name and the value of a row and of the line above the rows begin.\<close>

definition row_name_column :: "string \<Rightarrow> nat" where
  "row_name_column an = 11 + max 3 (length an - 8)"

definition header_name_column :: "string \<Rightarrow> nat" where
  "header_name_column an = max (length an) 6 + 3"

lemma row_text_columns:
  fixes r :: "('w::len word, 'e) register"
  assumes "unat addr < 16 ^ 6" "8 dvd LENGTH('w)" "length name \<le> mnl"
  shows "length (row_text (int (max (length an) 6)) mnl (int (LENGTH('w) div 8 * 2)) addr name r) =
      row_name_column an + mnl + LENGTH('w) div 8 * 2 + 12 \<and>
    take mnl (drop (row_name_column an) (row_text (int (max (length an) 6)) mnl (int (LENGTH('w) div 8 * 2)) addr name r)) =
      pad_right (CHR '' '') (int mnl) name \<and>
    take (LENGTH('w) div 8 * 2) (drop (row_name_column an + mnl + 3)
      (row_text (int (max (length an) 6)) mnl (int (LENGTH('w) div 8 * 2)) addr name r)) =
      pad_left (CHR '' '') (int (LENGTH('w) div 8 * 2)) (digits 16 (unat (r_value r)))"
proof -
  let ?aw = "int (max (length an) 6)" and ?vw = "LENGTH('w) div 8 * 2"
  let ?pre = "''0x'' @ pad_left (CHR ''0'') 6 (digits 16 (unat addr)) @ pad_left (CHR '' '') (?aw - 8) ''   '' @ ''   ''"
  let ?n = "pad_right (CHR '' '') (int mnl) name" and ?v = "pad_left (CHR '' '') (int ?vw) (digits 16 (unat (r_value r)))"
  let ?post = "''   (r/'' @ [if r_readonly r then CHR ''o'' else CHR ''w''] @ '')'' @ newline"
  have d: "length (digits 16 (unat addr)) \<le> 6" using assms(1) by (intro length_digits_le) auto
  have "length (digits 16 (unat (r_value r))) \<le> (LENGTH('w) + 3) div 4" by (rule hex_digits_word)
  also have "\<dots> = ?vw" using assms(2) by auto
  finally have v: "length ?v = ?vw" by simp
  have p: "length ?pre = row_name_column an" using d by (simp add: row_name_column_def)
  have n: "length ?n = mnl" using assms(3) by simp
  have row: "row_text ?aw mnl (int ?vw) addr name r = ?pre @ ?n @ '' = '' @ ?v @ ?post"
    by (simp add: row_text_def)
  have "length ?post = 9" by (simp add: newline_def)
  with p n v have "length (?pre @ ?n @ '' = '' @ ?v @ ?post) = row_name_column an + mnl + ?vw + 12"
    by (simp only: length_append) simp
  moreover have "take mnl (drop (row_name_column an) (?pre @ ?n @ '' = '' @ ?v @ ?post)) = ?n"
  proof -
    have "take mnl (drop (length xs) (xs @ ?n @ ys)) = ?n" for xs ys using n by simp
    from this [of ?pre] show ?thesis by (simp only: p)
  qed
  moreover have "take ?vw (drop (row_name_column an + mnl + 3) (?pre @ ?n @ '' = '' @ ?v @ ?post)) = ?v"
  proof -
    have "length (?pre @ ?n @ '' = '') = row_name_column an + mnl + 3" using p n by (simp only: length_append) simp
    moreover have "take ?vw (drop (length xs) (xs @ ?v @ ?post)) = ?v" for xs using v by simp
    from this [of "?pre @ ?n @ '' = ''"] have "take ?vw (drop (length (?pre @ ?n @ '' = '')) (?pre @ ?n @ '' = '' @ ?v @ ?post)) = ?v"
      by (simp only: append.assoc)
    ultimately show ?thesis by (simp only:)
  qed
  ultimately show ?thesis by (simp only: row)
qed


section \<open>The line after a table\<close>

text \<open>The address in the line of an access is padded on the side the stream is set to.\<close>

lemma read_line_address:
  assumes "find_register (nm_regs m) addr = Some r"
  shows "\<exists>pre post. os_out (snd (snd (snd (snd (read_register_print m addr out env os))))) = os_out os @ pre
      @ (if ff_left (os_flags os) then pad_right else pad_left) (CHR ''0'') 6 (digits 16 (unat addr)) @ post \<and>
    os_flags (snd (snd (snd (snd (read_register_print m addr out env os))))) = hex_right"
proof -
  obtain ok out' regs env' where rr: "read_register (nm_regs m) addr out env = (ok, out', regs, env')"
    by (metis prod_cases4)
  let ?pre = "(if ff_left (os_flags os) then pad_right else pad_left) (os_fill os) (os_width os) ''CatapultDevice: rmap ''
    @ nm_name m @ ''  read ''"
  let ?post = "'' ('' @ pad_left (CHR '' '') (int (nm_max_width m)) (reg_name m addr) @ '') => '' @
    (if ok then digits 16 (unat out') else ''(no data)'') @ newline"
  show ?thesis
    using assms
    by (intro exI [of _ ?pre] exI [of _ ?post])
      (simp add: read_register_print_def rr stream_simps hex_right_def)
qed

text \<open>
  The line of a read shows the address, padded with zeros to six digits, as a number that reads
  back as the address, and leaves the stream ready to show the next one right.  After the table of a
  bank has been printed the stream is set to the left, and the first line shows the address times a power of sixteen.
\<close>

theorem read_line_after_table:
  assumes "find_register (nm_regs m) addr = Some r"
  shows "(\<exists>pre post field.
      os_out (snd (snd (snd (snd (read_register_print m addr out env (print_register_table an tr n os)))))) =
        os_out (print_register_table an tr n os) @ pre @ field @ post \<and>
      digits_value 16 field = unat addr * 16 ^ (6 - length (digits 16 (unat addr)))) \<and>
    (\<not> ff_left (os_flags os') \<longrightarrow> (\<exists>pre post field.
      os_out (snd (snd (snd (snd (read_register_print m addr out env os'))))) = os_out os' @ pre @ field @ post \<and>
      digits_value 16 field = unat addr \<and> length field = max 6 (length (digits 16 (unat addr))) \<and>
      \<not> ff_left (os_flags (snd (snd (snd (snd (read_register_print m addr out env os'))))))))"
proof
  let ?os = "print_register_table an tr n os"
  have l: "ff_left (os_flags ?os)" by (simp add: print_table_eq)
  have d: "digits_value 16 (digits 16 k) = k" for k by (simp add: digits_value_digits)
  obtain pre post where "os_out (snd (snd (snd (snd (read_register_print m addr out env ?os))))) =
      os_out ?os @ pre @ pad_right (CHR ''0'') 6 (digits 16 (unat addr)) @ post"
    using read_line_address [OF assms, of out env ?os] l by auto
  moreover have "digits_value 16 (pad_right (CHR ''0'') 6 (digits 16 (unat addr))) =
      unat addr * 16 ^ (6 - length (digits 16 (unat addr)))" by (simp add: digits_value_pad_right d)
  ultimately show "\<exists>pre post field. os_out (snd (snd (snd (snd (read_register_print m addr out env ?os))))) =
      os_out ?os @ pre @ field @ post \<and> digits_value 16 field = unat addr * 16 ^ (6 - length (digits 16 (unat addr)))"
    by blast
  show "\<not> ff_left (os_flags os') \<longrightarrow> (\<exists>pre post field.
      os_out (snd (snd (snd (snd (read_register_print m addr out env os'))))) = os_out os' @ pre @ field @ post \<and>
      digits_value 16 field = unat addr \<and> length field = max 6 (length (digits 16 (unat addr))) \<and>
      \<not> ff_left (os_flags (snd (snd (snd (snd (read_register_print m addr out env os')))))))"
  proof
    assume r: "\<not> ff_left (os_flags os')"
    obtain pre post where "os_out (snd (snd (snd (snd (read_register_print m addr out env os'))))) =
        os_out os' @ pre @ pad_left (CHR ''0'') 6 (digits 16 (unat addr)) @ post"
      "os_flags (snd (snd (snd (snd (read_register_print m addr out env os'))))) = hex_right"
      using read_line_address [OF assms, of out env os'] r by auto
    then show "\<exists>pre post field.
        os_out (snd (snd (snd (snd (read_register_print m addr out env os'))))) = os_out os' @ pre @ field @ post \<and>
        digits_value 16 field = unat addr \<and> length field = max 6 (length (digits 16 (unat addr))) \<and>
        \<not> ff_left (os_flags (snd (snd (snd (snd (read_register_print m addr out env os'))))))"
      by (intro exI [of _ pre] exI [of _ post] exI [of _ "pad_left (CHR ''0'') 6 (digits 16 (unat addr))"])
        (simp add: digits_value_pad_left d hex_right_def)
  qed
qed

text \<open>A bank with one register, for the witnesses.\<close>

definition ex_bank :: "(64 word, unit) named_map" where
  "ex_bank = \<lparr>nm_name = ''soft'', nm_regs = [(0x12, mk_register 0xab None None True)], nm_names = [(0x12, ''version'')],
     nm_max_width = 7\<rparr>"

theorem read_line_after_table_witness:
  "\<exists>pre post field. os_out (snd (snd (snd (snd (read_register_print ex_bank 0x12 0 () (print_register_table ''address'' id ex_bank cout_new)))))) =
      os_out (print_register_table ''address'' id ex_bank cout_new) @ pre @ field @ post \<and> digits_value 16 field = 0x120000"
proof -
  have f: "find_register (nm_regs ex_bank) 0x12 = Some (mk_register 0xab None None True)"
    by (simp add: ex_bank_def find_register_def)
  have "digits 16 18 = ''12''" by (simp add: digits.simps digit_char_def)
  with read_line_after_table [OF f, of 0 "()" "''address''" id ex_bank cout_new] show ?thesis by simp
qed


section \<open>The slots engine\<close>

text \<open>
  \<open>SlotsEngine::print\<close>, and the messages of \<open>write_doorbell_register\<close>: for a slot that is not
  implemented, and for a doorbell that is still set.  The second shows the old value twice.
\<close>

definition slots_print :: "(64 word, 'e) named_map \<Rightarrow> manip" where
  "slots_print = print_register_table ''softreg number'' id"

definition doorbell_messages :: "nat \<Rightarrow> nat \<Rightarrow> bool \<Rightarrow> u64 \<Rightarrow> u64 \<Rightarrow> manip" where
  "doorbell_messages slot_count slot_number is_done reg_value new_value =
     (if slot_count \<le> slot_number then
        emit [put ''SlotsEngine: slot '', put_num slot_number, put '' not implemented - dropping '',
          put (if is_done then ''done'' else ''full''), put '' doorbell write'', endl]
      else if reg_value \<noteq> 0 then
        emit [put ''WARNING: host overwrite pending doorbell for slot '', put_num slot_number,
          put '' (old value = '', put_out_hex (mk_out_hex reg_value 16 True),
          put '') with '', put_out_hex (mk_out_hex reg_value 16 True), endl]
      else id)"

lemma doorbell_message_hides_value:
  "doorbell_messages n slot is_done old v os = doorbell_messages n slot is_done old v' os"
  by (simp add: doorbell_messages_def)

lemma slots_table_aligned: "row_name_column ''softreg number'' = header_name_column ''softreg number''"
  by (simp add: row_name_column_def header_name_column_def)

end
