(* ===== verification/Pcie_Atc.thy ===== *)
theory Pcie_Atc
  imports Tlm "HOL-Library.Monad_Syntax"
begin

text \<open>
  The address translation cache of the PCIe accelerator (\<open>class ATC\<close> and \<open>MemoryRegion\<close> in
  \<open>pcie-ats-demo/pcie-acc.h\<close>).  A loop of the code that may run forever is a partial function
  whose value \<open>None\<close> is not returning.  The translation agent at the other end of the ATS
  socket and the attribute bits of \<open>atsattr_extension\<close> are not in the repository and are
  arguments.
\<close>

section \<open>Regions\<close>

record region =
  rg_virt :: u64
  rg_phys :: u64
  rg_length :: u64
  rg_attr :: u64

definition rg_contains :: "region \<Rightarrow> u64 \<Rightarrow> bool" where
  "rg_contains r a \<longleftrightarrow> rg_virt r \<le> a \<and> a < rg_virt r + rg_length r"

definition rg_virt_to_phys :: "region \<Rightarrow> u64 \<Rightarrow> u64" where
  "rg_virt_to_phys r a = rg_phys r OR (a AND (rg_length r - 1))"

definition SZ_4K :: u64 where "SZ_4K = 4096"

record ats_attrs =
  ATTR_EXEC :: u64
  ATTR_READ :: u64
  ATTR_WRITE :: u64
  ATTR_PHYS_ADDR :: u64

text \<open>
  What the code looks at when an ATS request has returned: the response, the result and the
  length and attributes of the extension, and the address the agent left in the payload.
\<close>

record ats_reply =
  ar_resp :: tlm_response
  ar_result_ok :: bool
  ar_addr :: u64
  ar_length :: u64
  ar_attr :: u64

type_synonym 'w ats_agent = "u64 \<Rightarrow> u64 \<Rightarrow> 'w \<Rightarrow> ats_reply \<times> 'w"

section \<open>The cache\<close>

fun atc_find :: "region list \<Rightarrow> u64 \<Rightarrow> region option" where
  "atc_find [] a = None"
| "atc_find (r # rs) a = (if rg_contains r a then Some r else atc_find rs a)"

definition atc_contains :: "region list \<Rightarrow> u64 \<Rightarrow> bool" where
  "atc_contains rs a \<longleftrightarrow> atc_find rs a \<noteq> None"

definition atc_virt_to_phys :: "region list \<Rightarrow> u64 \<Rightarrow> u64" where
  "atc_virt_to_phys rs a = (case atc_find rs a of Some r \<Rightarrow> rg_virt_to_phys r a | None \<Rightarrow> 0)"

definition atc_test_attr :: "region list \<Rightarrow> u64 \<Rightarrow> u64 \<Rightarrow> bool" where
  "atc_test_attr rs a attr = (case atc_find rs a of Some r \<Rightarrow> rg_attr r AND attr \<noteq> 0 | None \<Rightarrow> False)"

definition in_range :: "u64 \<Rightarrow> u64 \<Rightarrow> u64 \<Rightarrow> bool" where
  "in_range a start len \<longleftrightarrow> start \<le> a \<and> a < start + len"

definition atc_invalidate :: "u64 \<Rightarrow> u64 \<Rightarrow> region list \<Rightarrow> region list" where
  "atc_invalidate v len rs =
     filter (\<lambda>r. \<not> (in_range (rg_virt r) v len \<or> in_range (rg_virt r + rg_length r - 1) v len)) rs"

text \<open>The \<open>while (length)\<close> loop of \<open>do_ats_req\<close>.\<close>

partial_function (option) ats_loop ::
  "ats_attrs \<Rightarrow> 'w ats_agent \<Rightarrow> u64 \<Rightarrow> u64 \<Rightarrow> region list \<Rightarrow> 'w \<Rightarrow> (region list \<times> 'w) option" where
  "ats_loop at ats v len rs w =
     (if len = 0 then Some (rs, w)
      else let (r, w') = ats v (ATTR_WRITE at OR ATTR_READ at OR ATTR_EXEC at) w in
        if ar_resp r = TLM_OK_RESPONSE \<and> ar_result_ok r then
          let v' = v AND NOT (ar_length r - 1);
              rs' = rs @ [\<lparr>rg_virt = v', rg_phys = ar_addr r, rg_length = ar_length r, rg_attr = ar_attr r\<rparr>]
          in if len < ar_length r then Some (rs', w')
             else ats_loop at ats (v' + ar_length r) (len - ar_length r) rs' w'
        else ats_loop at ats v len rs w')"

definition do_ats_req ::
  "ats_attrs \<Rightarrow> 'w ats_agent \<Rightarrow> u64 \<Rightarrow> u64 \<Rightarrow> region list \<Rightarrow> 'w \<Rightarrow> (region list \<times> 'w) option" where
  "do_ats_req at ats v len rs w =
     ats_loop at ats (v AND NOT (SZ_4K - 1)) (len + (v AND (SZ_4K - 1))) rs w"

section \<open>Lookup\<close>

lemma atc_find_append:
  "atc_find (rs @ ss) a = (case atc_find rs a of Some r \<Rightarrow> Some r | None \<Rightarrow> atc_find ss a)"
  by (induction rs) auto

lemma atc_find_Some: "atc_find rs a = Some r \<Longrightarrow> r \<in> set rs \<and> rg_contains r a"
  by (induction rs) (auto split: if_splits)

lemma atc_contains_iff: "atc_contains rs a \<longleftrightarrow> (\<exists>r \<in> set rs. rg_contains r a)"
  unfolding atc_contains_def by (induction rs) auto

lemma atc_contains_append [simp]: "atc_contains (rs @ ss) a \<longleftrightarrow> atc_contains rs a \<or> atc_contains ss a"
  by (auto simp: atc_contains_iff)

text \<open>A region that does not run past the end of the address space.\<close>

definition rg_ok :: "region \<Rightarrow> bool" where
  "rg_ok r \<longleftrightarrow> 0 < unat (rg_length r) \<and> unat (rg_virt r) + unat (rg_length r) < 2 ^ 64"

lemma rg_contains_nat:
  "rg_ok r \<Longrightarrow> rg_contains r a \<longleftrightarrow>
     unat (rg_virt r) \<le> unat a \<and> unat a < unat (rg_virt r) + unat (rg_length r)"
  by (simp add: rg_contains_def rg_ok_def word_le_nat_alt word_less_nat_alt unat_word_ariths)

lemma in_range_nat:
  "unat v + unat len < 2 ^ 64 \<Longrightarrow> in_range a v len \<longleftrightarrow> unat v \<le> unat a \<and> unat a < unat v + unat len"
  by (simp add: in_range_def word_le_nat_alt word_less_nat_alt unat_word_ariths)

lemma rg_last_nat:
  assumes "rg_ok r"
  shows "unat (rg_virt r + rg_length r - 1) = unat (rg_virt r) + unat (rg_length r) - 1"
proof -
  have "unat (rg_virt r + rg_length r) = unat (rg_virt r) + unat (rg_length r)"
    using assms by (simp add: rg_ok_def unat_word_ariths)
  moreover have "rg_virt r + rg_length r \<noteq> 0"
    using calculation assms by (metis add_is_0 less_numeral_extra(3) rg_ok_def unat_0)
  ultimately show ?thesis by (metis unat_minus_one)
qed

section \<open>Properties of the cache\<close>



text \<open>A region of one 4 KB page, and an agent that translates every request in such pages.\<close>

definition page_region :: "region \<Rightarrow> bool" where
  "page_region r \<longleftrightarrow> rg_length r = SZ_4K \<and> unat (rg_virt r) mod 4096 = 0 \<and>
     unat (rg_phys r) mod 4096 = 0 \<and> unat (rg_virt r) + 4096 < 2 ^ 64"

definition page_agent :: "'w ats_agent \<Rightarrow> bool" where
  "page_agent ats \<longleftrightarrow> (\<forall>v at w. ar_resp (fst (ats v at w)) = TLM_OK_RESPONSE \<and>
     ar_result_ok (fst (ats v at w)) \<and> ar_length (fst (ats v at w)) = SZ_4K \<and>
     unat (ar_addr (fst (ats v at w))) mod 4096 = 0)"

lemma page_mask: "SZ_4K - 1 = mask 12" "(0xfff :: u64) = mask 12"
  by (simp_all add: SZ_4K_def mask_eq_exp_minus_1)

lemma unat_page_offset: "unat (v AND mask 12 :: u64) = unat v mod 4096"
  unfolding take_bit_eq_mask [symmetric] unsigned_take_bit_eq by (simp add: take_bit_eq_mod)

lemma unat_page_base: "unat (v AND NOT (mask 12) :: u64) = unat v - unat v mod 4096"
proof -
  have "(v AND mask 12) + (v AND NOT (mask 12)) = (v AND mask 12) OR (v AND NOT (mask 12))"
    by (rule disjunctive_add_eq_or, rule bit_word_eqI) (auto simp: bit_simps)
  also have "\<dots> = v" by (rule bit_word_eqI) (auto simp: bit_simps)
  finally have "v AND NOT (mask 12) = v - (v AND mask 12)" by (simp add: algebra_simps)
  moreover have "v AND mask 12 \<le> v" by (rule word_and_le2)
  ultimately show ?thesis by (simp add: unat_sub unat_page_offset)
qed

lemma page_base_same: "unat v mod 4096 = 0 \<Longrightarrow> (v AND NOT (mask 12) :: u64) = v"
  by (simp add: word_unat_eq_iff unat_page_base)

text \<open>
  The loop on page-aligned addresses: it adds pages until the length is used up, and the pages
  cover the range.
\<close>

lemma ats_loop_pages:
  assumes "page_agent ats" "unat v mod 4096 = 0" "unat v + unat len < 2 ^ 64 - 4096"
  shows "\<exists>new w'. ats_loop at ats v len rs w = Some (rs @ new, w') \<and>
     (\<forall>r \<in> set new. page_region r) \<and>
     (\<forall>a. unat v \<le> unat a \<and> unat a < unat v + unat len \<longrightarrow> atc_contains new a)"
  using assms(2,3)
proof (induction "unat len" arbitrary: v len rs w rule: less_induct)
  case less
  show ?case
  proof (cases "len = 0")
    case True
    then show ?thesis by (intro exI [of _ "[]"] exI [of _ w]) (auto simp: ats_loop.simps)
  next
    case False
    obtain r w1 where r: "ats v (ATTR_WRITE at OR ATTR_READ at OR ATTR_EXEC at) w = (r, w1)" by force
    then have ok: "ar_resp r = TLM_OK_RESPONSE" "ar_result_ok r" "ar_length r = SZ_4K"
        "unat (ar_addr r) mod 4096 = 0"
      using assms(1) by (auto simp: page_agent_def) (metis fst_conv)+
    let ?p = "\<lparr>rg_virt = v, rg_phys = ar_addr r, rg_length = SZ_4K, rg_attr = ar_attr r\<rparr>"
    have base: "v AND NOT (SZ_4K - 1) = v" using less.prems(1) by (simp add: page_mask page_base_same)
    have n4: "unat SZ_4K = 4096" by (simp add: SZ_4K_def)
    have pg: "page_region ?p" using less.prems ok by (simp add: page_region_def)
    have p: "rg_contains ?p a \<longleftrightarrow> unat v \<le> unat a \<and> unat a < unat v + 4096" for a
      using less.prems(2) n4 by (simp add: rg_contains_nat rg_ok_def)
    show ?thesis
    proof (cases "len < SZ_4K")
      case True
      then have "ats_loop at ats v len rs w = Some (rs @ [?p], w1)"
        using False r ok base by (subst ats_loop.simps) (simp add: Let_def)
      moreover have "unat len < 4096" using True n4 by (simp add: word_less_nat_alt)
      ultimately show ?thesis using p pg by (intro exI [of _ "[?p]"] exI [of _ w1]) (auto simp: atc_contains_iff)
    next
      case ge: False
      then have l: "4096 \<le> unat len" using n4 by (simp add: word_le_nat_alt not_less)
      have ul: "unat (len - SZ_4K) = unat len - 4096" using ge n4 by (simp add: unat_sub not_less)
      have uv: "unat (v + SZ_4K) = unat v + 4096" using less.prems(2) n4 by (simp add: unat_word_ariths)
      have "ats_loop at ats v len rs w = ats_loop at ats (v + SZ_4K) (len - SZ_4K) (rs @ [?p]) w1"
        using False r ok base ge by (subst ats_loop.simps) (simp add: Let_def)
      moreover obtain new w' where new:
        "ats_loop at ats (v + SZ_4K) (len - SZ_4K) (rs @ [?p]) w1 = Some ((rs @ [?p]) @ new, w')"
        "\<forall>r \<in> set new. page_region r"
        "\<forall>a. unat (v + SZ_4K) \<le> unat a \<and> unat a < unat (v + SZ_4K) + unat (len - SZ_4K) \<longrightarrow> atc_contains new a"
        using less.hyps [of "len - SZ_4K" "v + SZ_4K" "rs @ [?p]" w1] less.prems l ul uv
        by (auto simp: mod_add_eq)
      moreover have "atc_contains (?p # new) a" if "unat v \<le> unat a" "unat a < unat v + unat len" for a
        using that new(3) ul uv l p [of a] by (cases "unat a < unat v + 4096") (auto simp: atc_contains_iff)
      ultimately show ?thesis by (intro exI [of _ "?p # new"] exI [of _ w']) (simp add: pg)
    qed
  qed
qed

lemma do_ats_req_pages:
  assumes "page_agent ats" "unat v + unat len < 2 ^ 64 - 8192"
  shows "\<exists>new w'. do_ats_req at ats v len rs w = Some (rs @ new, w') \<and>
     (\<forall>r \<in> set new. page_region r) \<and>
     (\<forall>a. unat v \<le> unat a \<and> unat a < unat v + unat len \<longrightarrow> atc_contains new a)"
proof -
  let ?b = "v AND NOT (mask 12)" and ?l = "len + (v AND mask 12)"
  have l: "unat ?l = unat len + unat v mod 4096"
    using assms(2) mod_less_divisor [of 4096 "unat v"] by (simp add: unat_word_ariths unat_page_offset)
  have b: "unat ?b = unat v - unat v mod 4096" by (rule unat_page_base)
  have m: "unat v mod 4096 \<le> unat v" "(unat v - unat v mod 4096) mod 4096 = 0"
    by (simp_all add: minus_mod_eq_mult_div)
  from ats_loop_pages [OF assms(1), of ?b ?l at rs w] obtain new w' where
    "ats_loop at ats ?b ?l rs w = Some (rs @ new, w')" "\<forall>r \<in> set new. page_region r"
    "\<forall>a. unat ?b \<le> unat a \<and> unat a < unat ?b + unat ?l \<longrightarrow> atc_contains new a"
    using b l m assms(2) by auto
  then show ?thesis
    using b l m by (intro exI [of _ new] exI [of _ w']) (auto simp: do_ats_req_def page_mask)
qed

text \<open>
  Against an agent that answers every request with a 4 KB page, \<open>do_ats_req\<close>
  returns for any start and length, keeps the regions it had, adds only 4 KB pages, and
  afterwards the cache translates every address of the range.
\<close>

theorem do_ats_req_covers:
  assumes "page_agent ats" "unat v + unat len < 2 ^ 64 - 8192"
  shows "\<exists>new w'. do_ats_req at ats v len rs w = Some (rs @ new, w') \<and> (\<forall>r \<in> set new. page_region r) \<and>
     (\<forall>a. unat v \<le> unat a \<and> unat a < unat v + unat len \<longrightarrow> atc_contains (rs @ new) a)"
  using do_ats_req_pages [OF assms, of at rs w] by fastforce

theorem do_ats_req_covers_witness:
  "\<exists>new w'. do_ats_req \<lparr>ATTR_EXEC = 1, ATTR_READ = 2, ATTR_WRITE = 4, ATTR_PHYS_ADDR = 8\<rparr>
       (\<lambda>v at n. (\<lparr>ar_resp = TLM_OK_RESPONSE, ar_result_ok = True, ar_addr = 0x7000, ar_length = SZ_4K, ar_attr = at\<rparr>, n + 1))
       0x1010 0x2000 [] (0 :: nat) = Some (new, w') \<and> atc_contains new 0x1010 \<and> atc_contains new 0x300f"
proof -
  let ?ats = "\<lambda>v at n. (\<lparr>ar_resp = TLM_OK_RESPONSE, ar_result_ok = True, ar_addr = 0x7000, ar_length = SZ_4K, ar_attr = at\<rparr>, n + (1 :: nat))"
  have "page_agent ?ats" by (simp add: page_agent_def)
  from do_ats_req_covers [OF this, where v = "0x1010" and len = "0x2000" and rs = "[]" and w = 0 and
      at = "\<lparr>ATTR_EXEC = 1, ATTR_READ = 2, ATTR_WRITE = 4, ATTR_PHYS_ADDR = 8\<rparr>"]
  obtain new w' where n: "do_ats_req \<lparr>ATTR_EXEC = 1, ATTR_READ = 2, ATTR_WRITE = 4, ATTR_PHYS_ADDR = 8\<rparr>
       ?ats 0x1010 0x2000 [] 0 = Some (new, w')"
    and c: "\<And>a. 0x1010 \<le> unat a \<Longrightarrow> unat a < 0x3010 \<Longrightarrow> atc_contains new a" by auto
  have "atc_contains new 0x1010" "atc_contains new 0x300f" by (simp_all add: c)
  with n show ?thesis by blast
qed

lemma ats_loop_refused:
  assumes "\<forall>v at w. ar_resp (fst (ats v at w)) \<noteq> TLM_OK_RESPONSE \<or> \<not> ar_result_ok (fst (ats v at w))"
    and "ats_loop at ats v len rs w = Some y"
  shows "len = 0"
proof -
  have "ats = ats \<longrightarrow> len = 0"
  proof (rule ats_loop.raw_induct [where P = "\<lambda>_ ats' _ len _ _ _. ats' = ats \<longrightarrow> len = 0", OF _ assms(2)],
      intro impI)
    fix f at1 ats1 v1 len1 rs1 w1 y1
    assume IH: "\<And>at ats' v len rs w y. f at ats' v len rs w = Some y \<Longrightarrow> ats' = ats \<longrightarrow> len = 0"
      and b: "(if len1 = 0 then Some (rs1, w1)
       else let (r, w') = ats1 v1 (ATTR_WRITE at1 OR ATTR_READ at1 OR ATTR_EXEC at1) w1 in
        if ar_resp r = TLM_OK_RESPONSE \<and> ar_result_ok r then
          let v' = v1 AND NOT (ar_length r - 1);
              rs' = rs1 @ [\<lparr>rg_virt = v', rg_phys = ar_addr r, rg_length = ar_length r, rg_attr = ar_attr r\<rparr>]
          in if len1 < ar_length r then Some (rs', w')
             else f at1 ats1 (v' + ar_length r) (len1 - ar_length r) rs' w'
        else f at1 ats1 v1 len1 rs1 w') = Some y1"
      and a: "ats1 = ats"
    obtain r w2 where r: "ats v1 (ATTR_WRITE at1 OR ATTR_READ at1 OR ATTR_EXEC at1) w1 = (r, w2)" by force
    then have "\<not> (ar_resp r = TLM_OK_RESPONSE \<and> ar_result_ok r)" using assms(1) by (metis fst_conv)
    with b r a IH show "len1 = 0" by (auto split: if_splits)
  qed
  then show ?thesis by simp
qed

text \<open>
  An agent that refuses every request makes \<open>do_ats_req\<close> loop forever: a request
  that fails is sent again with nothing changed.
\<close>

theorem do_ats_req_never_gives_up:
  assumes "\<forall>v at w. ar_resp (fst (ats v at w)) \<noteq> TLM_OK_RESPONSE \<or> \<not> ar_result_ok (fst (ats v at w))"
    and "len + (v AND (SZ_4K - 1)) \<noteq> 0"
  shows "do_ats_req at ats v len rs w = None"
  using ats_loop_refused [OF assms(1)] assms(2) unfolding do_ats_req_def by (metis not_None_eq)

theorem do_ats_req_never_gives_up_witness:
  "do_ats_req \<lparr>ATTR_EXEC = 1, ATTR_READ = 2, ATTR_WRITE = 4, ATTR_PHYS_ADDR = 8\<rparr>
     (\<lambda>v at n. (\<lparr>ar_resp = TLM_GENERIC_ERROR_RESPONSE, ar_result_ok = True, ar_addr = 0x7000, ar_length = SZ_4K,
        ar_attr = at\<rparr>, n + 1)) 0x1000 4 [] (0 :: nat) = None"
  by (rule do_ats_req_never_gives_up) (simp_all add: SZ_4K_def)

end
