(* ===== verification/Pcie_Acc.thy ===== *)
theory Pcie_Acc
  imports Pcie_Atc
begin

text \<open>
  The PCIe accelerator of \<open>pcie-ats-demo/pcie-acc.h\<close>: its registers behind BAR 0, the ATS
  invalidation port, and the four threads that a write of the control register starts
  (translate, read, write, MD5).  A thread is modelled by what it does between being notified
  and waiting again.  The DMA socket, the ATS agent and the MD5 routines of OpenSSL are
  arguments.
\<close>

section \<open>Registers and BAR 0\<close>

record acc_regs =
  ar_addr_lsb :: u32
  ar_len :: u32
  ar_value :: u32
  ar_status :: u32
  ar_addr_msb :: u32
  ar_md5_0 :: u32
  ar_md5_1 :: u32
  ar_md5_2 :: u32
  ar_md5_3 :: u32

datatype acc_event = Ats_req | Read_req | Write_req | Md5_req

text \<open>
  \<open>ac_events\<close> are the threads that have been notified and have not run yet, oldest first.  The
  code notifies at once (\<open>sc_event::notify()\<close>), which reaches a thread only while it waits.
\<close>

record acc =
  ac_regs :: acc_regs
  ac_atc :: "region list"
  ac_events :: "acc_event list"

definition acc_new :: acc where
  "acc_new = \<lparr>ac_regs = \<lparr>ar_addr_lsb = 0, ar_len = 0, ar_value = 0, ar_status = 0, ar_addr_msb = 0,
       ar_md5_0 = 0, ar_md5_1 = 0, ar_md5_2 = 0, ar_md5_3 = 0\<rparr>, ac_atc = [], ac_events = []\<rparr>"

definition R_STATUS_DONE :: u32 where "R_STATUS_DONE = 1"
definition R_STATUS_ERR :: u32 where "R_STATUS_ERR = 2"

text \<open>The \<open>switch\<close> of the read path; the control register and unknown addresses read 0.\<close>

definition acc_reg :: "acc_regs \<Rightarrow> u64 \<Rightarrow> u32" where
  "acc_reg r addr =
     (if addr = 0x0 then 0
      else if addr = 0x4 then ar_addr_lsb r
      else if addr = 0x8 then ar_len r
      else if addr = 0xC then ar_value r
      else if addr = 0x10 then ar_status r
      else if addr = 0x14 then ar_addr_msb r
      else if addr = 0x18 then ar_md5_0 r
      else if addr = 0x1C then ar_md5_1 r
      else if addr = 0x20 then ar_md5_2 r
      else if addr = 0x24 then ar_md5_3 r
      else 0)"

definition ctrl_event :: "u32 \<Rightarrow> acc_event list" where
  "ctrl_event v =
     (if v AND 1 \<noteq> 0 then [Ats_req]
      else if v AND 2 \<noteq> 0 then [Read_req]
      else if v AND 4 \<noteq> 0 then [Write_req]
      else if v AND 8 \<noteq> 0 then [Md5_req]
      else [])"

text \<open>A thread notified already no longer waits, and a second notification is lost.\<close>

definition acc_notify :: "acc_event list \<Rightarrow> acc_event list \<Rightarrow> acc_event list" where
  "acc_notify es new = es @ filter (\<lambda>e. e \<notin> set es) new"

lemma acc_notify_simps [simp]: "acc_notify [] new = new" "acc_notify es [] = es"
  by (simp_all add: acc_notify_def)

definition acc_write :: "u64 \<Rightarrow> u32 \<Rightarrow> acc \<Rightarrow> acc" where
  "acc_write addr v s =
     (let r = ac_regs s in
      if addr = 0x0 then s\<lparr>ac_events := acc_notify (ac_events s) (ctrl_event v)\<rparr>
      else if addr = 0x4 then s\<lparr>ac_regs := r\<lparr>ar_addr_lsb := v\<rparr>\<rparr>
      else if addr = 0x8 then s\<lparr>ac_regs := r\<lparr>ar_len := v\<rparr>\<rparr>
      else if addr = 0xC then s\<lparr>ac_regs := r\<lparr>ar_value := v\<rparr>\<rparr>
      else if addr = 0x10 then s\<lparr>ac_regs := r\<lparr>ar_status := v\<rparr>\<rparr>
      else if addr = 0x14 then s\<lparr>ac_regs := r\<lparr>ar_addr_msb := v\<rparr>\<rparr>
      else s)"

definition bar_b_transport :: "nat \<Rightarrow> acc target" where
  "bar_b_transport bar_nr tr d s =
     (if gp_byte_en tr \<noteq> None \<or> 4 < gp_len tr \<or> gp_width tr < gp_len tr then
        Inr (tr\<lparr>gp_resp := TLM_GENERIC_ERROR_RESPONSE\<rparr>, d, s)
      else case gp_cmd tr of
        TLM_READ_COMMAND \<Rightarrow>
          Inr (tr\<lparr>gp_data := poke (gp_len tr) (le_bytes 4 (acc_reg (ac_regs s) (gp_addr tr))) (gp_data tr),
                  gp_resp := TLM_OK_RESPONSE\<rparr>, d, s)
      | TLM_WRITE_COMMAND \<Rightarrow>
          Inr (tr\<lparr>gp_resp := TLM_OK_RESPONSE\<rparr>, d,
               acc_write (gp_addr tr) (le_word (take (gp_len tr) (gp_data tr))) s)
      | TLM_IGNORE_COMMAND \<Rightarrow> Inr (tr\<lparr>gp_resp := TLM_GENERIC_ERROR_RESPONSE\<rparr>, d, s))"

definition config_b_transport :: "acc target" where
  "config_b_transport tr d s = Inr (tr\<lparr>gp_resp := TLM_OK_RESPONSE\<rparr>, d, s)"

definition b_transport_ats_inv :: "acc target" where
  "b_transport_ats_inv tr d s =
     Inr (tr\<lparr>gp_resp := TLM_OK_RESPONSE\<rparr>, d,
          (case gp_atsattr tr of
             None \<Rightarrow> s
           | Some x \<Rightarrow> s\<lparr>ac_atc := atc_invalidate (gp_addr tr) (ats_length x) (ac_atc s)\<rparr>))"

section \<open>Accesses to physical addresses\<close>

text \<open>
  The extension a fresh payload carries has the attributes set by the code; its other fields
  are what its constructor, which is not in the repository, leaves (\<open>x0\<close>).
\<close>

definition phys_gp :: "ats_attrs \<Rightarrow> atsattr \<Rightarrow> tlm_command \<Rightarrow> u64 \<Rightarrow> u8 list \<Rightarrow> nat \<Rightarrow> gp" where
  "phys_gp at x0 cmd phys buf len =
     (mk_gp cmd phys buf len)\<lparr>gp_atsattr := Some (x0\<lparr>ats_attributes := ATTR_PHYS_ADDR at\<rparr>)\<rparr>"

text \<open>
  The length is an \<open>unsigned int\<close> in the payload; the buffer must hold \<open>len\<close> bytes.  The buffers on the stack of \<open>phys_read32\<close> and of \<open>md5_thread\<close> are not
  initialised in the code and are zeros here.  Only the bytes asked for are used, so this makes a difference only for a target that answers
  a read with success and does not store all of them; the memories of the theorems do.
\<close>

definition phys_read ::
  "ats_attrs \<Rightarrow> atsattr \<Rightarrow> 'w target \<Rightarrow> u64 \<Rightarrow> u8 list \<Rightarrow> u64 \<Rightarrow> 'w \<Rightarrow> (u8 list \<times> 'w) res" where
  "phys_read at x0 dma phys buf len w =
     (if length buf < unat len then Inl Out_of_range
      else res_bind (dma (phys_gp at x0 TLM_READ_COMMAND phys buf (unat (ucast len :: u32))) 0 w)
        (\<lambda>(tr, _, w'). if gp_resp tr = TLM_OK_RESPONSE then Inr (gp_data tr, w') else Inl Assertion_failed))"

definition phys_read32 ::
  "ats_attrs \<Rightarrow> atsattr \<Rightarrow> 'w target \<Rightarrow> u64 \<Rightarrow> acc \<times> 'w \<Rightarrow> (acc \<times> 'w) res" where
  "phys_read32 at x0 dma phys = (\<lambda>(s, w).
     res_bind (phys_read at x0 dma phys (replicate 4 0) 4 w) (\<lambda>(buf, w').
     Inr (s\<lparr>ac_regs := (ac_regs s)\<lparr>ar_value := le_word (take 4 buf)\<rparr>\<rparr>, w')))"

definition phys_write32 ::
  "ats_attrs \<Rightarrow> atsattr \<Rightarrow> 'w target \<Rightarrow> u64 \<Rightarrow> acc \<times> 'w \<Rightarrow> (acc \<times> 'w) res" where
  "phys_write32 at x0 dma phys = (\<lambda>(s, w).
     res_bind (dma (phys_gp at x0 TLM_WRITE_COMMAND phys (le_bytes 4 (ar_value (ac_regs s))) 4) 0 w)
       (\<lambda>(tr, _, w'). if gp_resp tr = TLM_OK_RESPONSE then Inr (s, w') else Inl Assertion_failed))"

section \<open>The threads\<close>

definition acc_virt_addr :: "acc_regs \<Rightarrow> u64" where
  "acc_virt_addr r = push_bit 32 (ucast (ar_addr_msb r)) OR ucast (ar_addr_lsb r)"

definition set_status :: "u32 \<Rightarrow> acc \<Rightarrow> acc" where
  "set_status v s = s\<lparr>ac_regs := (ac_regs s)\<lparr>ar_status := v\<rparr>\<rparr>"

text \<open>\<open>if (!m_atc.contains(addr)) m_atc.do_ats_req(addr, len)\<close>.\<close>

definition translate ::
  "ats_attrs \<Rightarrow> 'w ats_agent \<Rightarrow> u64 \<Rightarrow> u64 \<Rightarrow> region list \<Rightarrow> 'w \<Rightarrow> (region list \<times> 'w) option" where
  "translate at ats v len rs w =
     (if atc_contains rs v then Some (rs, w) else do_ats_req at ats v len rs w)"

partial_function (option) ats_req_loop ::
  "ats_attrs \<Rightarrow> 'w ats_agent \<Rightarrow> u64 \<Rightarrow> u64 \<Rightarrow> region list \<Rightarrow> 'w \<Rightarrow> (region list \<times> 'w) option" where
  "ats_req_loop at ats addr len rs w =
     (if len = 0 then Some (rs, w)
      else Option.bind (translate at ats addr SZ_4K rs w) (\<lambda>(rs', w').
        if len < SZ_4K then Some (rs', w')
        else ats_req_loop at ats (addr + SZ_4K) (len - SZ_4K) rs' w'))"

definition ats_req_run :: "ats_attrs \<Rightarrow> 'w ats_agent \<Rightarrow> acc \<times> 'w \<Rightarrow> (acc \<times> 'w) option" where
  "ats_req_run at ats = (\<lambda>(s, w).
     Option.bind (ats_req_loop at ats (acc_virt_addr (ac_regs s)) (ucast (ar_len (ac_regs s))) (ac_atc s) w)
       (\<lambda>(rs, w'). Some (set_status R_STATUS_DONE (s\<lparr>ac_atc := rs\<rparr>), w')))"

definition read_run ::
  "ats_attrs \<Rightarrow> atsattr \<Rightarrow> 'w ats_agent \<Rightarrow> 'w target \<Rightarrow> acc \<times> 'w \<Rightarrow> (acc \<times> 'w) res option" where
  "read_run at x0 ats dma = (\<lambda>(s, w).
     let v = acc_virt_addr (ac_regs s) in
     Option.bind (translate at ats v SZ_4K (ac_atc s) w) (\<lambda>(rs, w').
       let s' = s\<lparr>ac_atc := rs\<rparr> in
       Some (res_bind
         (if atc_test_attr rs v (ATTR_READ at) then phys_read32 at x0 dma (atc_virt_to_phys rs v) (s', w')
          else Inr (s', w'))
         (\<lambda>(s'', w''). Inr (set_status R_STATUS_DONE s'', w'')))))"

definition write_run ::
  "ats_attrs \<Rightarrow> atsattr \<Rightarrow> 'w ats_agent \<Rightarrow> 'w target \<Rightarrow> acc \<times> 'w \<Rightarrow> (acc \<times> 'w) res option" where
  "write_run at x0 ats dma = (\<lambda>(s, w).
     let v = acc_virt_addr (ac_regs s) in
     Option.bind (translate at ats v SZ_4K (ac_atc s) w) (\<lambda>(rs, w').
       let s' = s\<lparr>ac_atc := rs\<rparr> in
       Some (res_bind
         (if atc_test_attr rs v (ATTR_WRITE at) then phys_write32 at x0 dma (atc_virt_to_phys rs v) (s', w')
          else Inr (s', w'))
         (\<lambda>(s'', w''). Inr (set_status R_STATUS_DONE s'', w'')))))"

text \<open>\<open>MD5_Init\<close> (\<open>None\<close> for a failure), \<open>MD5_Update\<close>, \<open>MD5_Final\<close>.\<close>

record 'c md5_ops =
  md5_init :: "'c option"
  md5_update :: "'c \<Rightarrow> u8 list \<Rightarrow> 'c"
  md5_final :: "'c \<Rightarrow> u8 list"

definition md5_chunk :: "u64 \<Rightarrow> u64 \<Rightarrow> u64" where
  "md5_chunk len phys = (if len \<le> SZ_4K then len else SZ_4K) - (phys AND (SZ_4K - 1))"

text \<open>
  The inner loop of \<open>md5_thread\<close>; it ends with what is left of the length, which is not 0 when
  an address may not be read.
\<close>

partial_function (option) md5_loop ::
  "ats_attrs \<Rightarrow> atsattr \<Rightarrow> 'w ats_agent \<Rightarrow> 'w target \<Rightarrow> 'c md5_ops \<Rightarrow> u64 \<Rightarrow> u64 \<Rightarrow> 'c \<Rightarrow> u8 list
     \<Rightarrow> region list \<Rightarrow> 'w \<Rightarrow> (u64 \<times> 'c \<times> region list \<times> 'w) res option" where
  "md5_loop at x0 ats dma ops v len ctx buf rs w =
     (if len = 0 then Some (Inr (len, ctx, rs, w))
      else Option.bind (translate at ats v len rs w) (\<lambda>(rs', w').
        if \<not> atc_test_attr rs' v (ATTR_READ at) then Some (Inr (len, ctx, rs', w'))
        else let phys = atc_virt_to_phys rs' v; n = md5_chunk len phys in
          (case phys_read at x0 dma phys buf n w' of
             Inl e \<Rightarrow> Some (Inl e)
           | Inr (buf', w'') \<Rightarrow>
               md5_loop at x0 ats dma ops (v + n) (len - n) (md5_update ops ctx (take (unat n) buf'))
                 buf' rs' w'')))"

definition set_md5_result :: "u8 list \<Rightarrow> acc \<Rightarrow> acc" where
  "set_md5_result res s =
     s\<lparr>ac_regs := (ac_regs s)\<lparr>ar_md5_0 := le_word (take 4 res), ar_md5_1 := le_word (take 4 (drop 4 res)),
        ar_md5_2 := le_word (take 4 (drop 8 res)), ar_md5_3 := le_word (take 4 (drop 12 res))\<rparr>\<rparr>"

definition md5_run ::
  "ats_attrs \<Rightarrow> atsattr \<Rightarrow> 'w ats_agent \<Rightarrow> 'w target \<Rightarrow> 'c md5_ops \<Rightarrow> acc \<times> 'w \<Rightarrow> (acc \<times> 'w) res option" where
  "md5_run at x0 ats dma ops = (\<lambda>(s, w).
     case md5_init ops of
       None \<Rightarrow> Some (Inr (set_status (R_STATUS_ERR OR R_STATUS_DONE) s, w))
     | Some ctx \<Rightarrow>
         Option.bind (md5_loop at x0 ats dma ops (acc_virt_addr (ac_regs s)) (ucast (ar_len (ac_regs s))) ctx
             (replicate 4096 0) (ac_atc s) w) (\<lambda>r. Some (res_bind r (\<lambda>(left, ctx', rs, w').
           let s' = s\<lparr>ac_atc := rs\<rparr> in
           if left \<noteq> 0 then Inr (set_status (R_STATUS_ERR OR R_STATUS_DONE) s', w')
           else Inr (set_status R_STATUS_DONE (set_md5_result (md5_final ops ctx') s'), w')))))"

text \<open>A notified event starts its thread.\<close>

definition acc_run ::
  "ats_attrs \<Rightarrow> atsattr \<Rightarrow> 'w ats_agent \<Rightarrow> 'w target \<Rightarrow> 'c md5_ops \<Rightarrow> acc \<times> 'w \<Rightarrow> (acc \<times> 'w) res option" where
  "acc_run at x0 ats dma ops = (\<lambda>(s, w).
     case ac_events s of
       [] \<Rightarrow> Some (Inr (s, w))
     | e # es \<Rightarrow>
         (let s' = s\<lparr>ac_events := es\<rparr> in
          case e of
            Ats_req \<Rightarrow> map_option Inr (ats_req_run at ats (s', w))
          | Read_req \<Rightarrow> read_run at x0 ats dma (s', w)
          | Write_req \<Rightarrow> write_run at x0 ats dma (s', w)
          | Md5_req \<Rightarrow> md5_run at x0 ats dma ops (s', w)))"

section \<open>The register file\<close>

lemma bar_frame:
  assumes "gp_ok tr" "bar_b_transport n tr d s = Inr (tr', d', s')"
  shows "gp_frame tr tr' \<and> (gp_cmd tr \<noteq> TLM_READ_COMMAND \<longrightarrow> gp_data tr' = gp_data tr)"
  using assms by (auto simp: bar_b_transport_def gp_ok_def split: tlm_command.splits if_splits)

interpretation bar: tlm_target "bar_b_transport n" for n
  by unfold_locales (use bar_frame in auto)

interpretation config: tlm_target config_b_transport
  by unfold_locales (auto simp: config_b_transport_def)

interpretation ats_inv: tlm_target b_transport_ats_inv
  by unfold_locales (auto simp: b_transport_ats_inv_def)

definition acc_writable :: "u64 \<Rightarrow> bool" where
  "acc_writable a \<longleftrightarrow> a \<in> {0x4, 0x8, 0xC, 0x10, 0x14}"

lemma acc_reg_write:
  "acc_reg (ac_regs (acc_write addr v s)) a =
     (if a = addr \<and> acc_writable addr then v else acc_reg (ac_regs s) a)"
  by (auto simp: acc_reg_def acc_write_def acc_writable_def Let_def)

text \<open>
  An access to BAR 0 of at most four bytes succeeds; a write sets the register at
  its address when that is one of the five writable ones, changes no other register and never
  a result register, and a write of the control register notifies one thread, the one of the lowest bit
  set, if that has not been notified already; a following read of four bytes returns the value the register then has.
\<close>

theorem bar_write_then_read:
  assumes "length data = 4"
  shows "\<exists>s'. tlm_target.bt_all (bar_b_transport n)
        [mk_gp TLM_WRITE_COMMAND addr data 4, mk_gp TLM_READ_COMMAND a (replicate 4 0) 4] d s =
      Inr ([(mk_gp TLM_WRITE_COMMAND addr data 4)\<lparr>gp_resp := TLM_OK_RESPONSE\<rparr>,
            (mk_gp TLM_READ_COMMAND a
               (if a = addr \<and> acc_writable addr then data
                else le_bytes 4 (acc_reg (ac_regs s) a)) 4)\<lparr>gp_resp := TLM_OK_RESPONSE\<rparr>], d, s') \<and>
     ac_atc s' = ac_atc s \<and>
     ac_events s' = acc_notify (ac_events s) (if addr = 0 then ctrl_event (le_word data) else []) \<and>
     length (ctrl_event (le_word data)) \<le> 1"
proof -
  let ?s = "acc_write addr (le_word data) s"
  have "tlm_target.bt_all (bar_b_transport n)
        [mk_gp TLM_WRITE_COMMAND addr data 4, mk_gp TLM_READ_COMMAND a (replicate 4 0) 4] d s =
      Inr ([(mk_gp TLM_WRITE_COMMAND addr data 4)\<lparr>gp_resp := TLM_OK_RESPONSE\<rparr>,
            (mk_gp TLM_READ_COMMAND a (le_bytes 4 (acc_reg (ac_regs ?s) a)) 4)\<lparr>gp_resp := TLM_OK_RESPONSE\<rparr>], d, ?s)"
    using assms by (simp add: bar.bt_all.simps bar_b_transport_def poke_all mk_gp_def)
  moreover have "le_bytes 4 (acc_reg (ac_regs ?s) a) =
      (if a = addr \<and> acc_writable addr then data else le_bytes 4 (acc_reg (ac_regs s) a))"
    using assms by (simp add: acc_reg_write le_bytes32_word)
  moreover have "ac_atc ?s = ac_atc s"
    "ac_events ?s = acc_notify (ac_events s) (if addr = 0 then ctrl_event (le_word data) else [])"
    by (simp_all add: acc_write_def Let_def)
  moreover have "length (ctrl_event (le_word data)) \<le> 1" by (simp add: ctrl_event_def)
  ultimately show ?thesis by auto
qed

theorem bar_write_then_read_witness:
  "\<exists>s'. tlm_target.bt_all (bar_b_transport 0)
        [mk_gp TLM_WRITE_COMMAND 0xC [1, 2, 3, 4] 4, mk_gp TLM_READ_COMMAND 0xC (replicate 4 0) 4] 0 acc_new =
      Inr ([(mk_gp TLM_WRITE_COMMAND 0xC [1, 2, 3, 4] 4)\<lparr>gp_resp := TLM_OK_RESPONSE\<rparr>,
            (mk_gp TLM_READ_COMMAND 0xC [1, 2, 3, 4] 4)\<lparr>gp_resp := TLM_OK_RESPONSE\<rparr>], 0, s')"
proof -
  have "length [1, 2, 3, 4 :: u8] = 4" by simp
  from bar_write_then_read [OF this, of 0 "0xC" "0xC" 0 acc_new] show ?thesis
    by (auto simp: acc_writable_def simp del: bar.bt_all.simps)
qed

end
