(* ===== verification/Memory.thy ===== *)
theory Memory
  imports Tlm
begin

text \<open>
  A memory behind a socket, as the DMA engines and the accelerator rely on it: the byte an
  address holds, reads and writes of a run of bytes, and what it means for a blocking target to
  be such a memory.  The memory models themselves are in \<open>libsystemctlm-soc\<close>.
\<close>

type_synonym bytes_memory = "u64 \<Rightarrow> u8"

definition mem_read :: "bytes_memory \<Rightarrow> u64 \<Rightarrow> nat \<Rightarrow> u8 list" where
  "mem_read m a n = map (\<lambda>i. m (a + of_nat i)) [0..<n]"

definition mem_write :: "bytes_memory \<Rightarrow> u64 \<Rightarrow> u8 list \<Rightarrow> bytes_memory" where
  "mem_write m a bs = (\<lambda>x. if unat (x - a) < length bs then bs ! unat (x - a) else m x)"

text \<open>
  A target whose reads without byte enables deliver the bytes of \<open>mem w\<close> and change nothing.
\<close>

definition reads_memory :: "'w target \<Rightarrow> ('w \<Rightarrow> bytes_memory) \<Rightarrow> bool" where
  "reads_memory dma mem \<longleftrightarrow> (\<forall>tr d w. gp_cmd tr = TLM_READ_COMMAND \<and> gp_byte_en tr = None \<longrightarrow>
     dma tr d w = Inr (tr\<lparr>gp_data := poke (gp_len tr) (mem_read (mem w) (gp_addr tr) (gp_len tr)) (gp_data tr),
                         gp_resp := TLM_OK_RESPONSE\<rparr>, d, w))"

definition memory_target :: "bytes_memory target \<Rightarrow> bool" where
  "memory_target dma \<longleftrightarrow> reads_memory dma (\<lambda>m. m) \<and>
     (\<forall>tr d m. gp_cmd tr = TLM_WRITE_COMMAND \<and> gp_byte_en tr = None \<longrightarrow>
        dma tr d m = Inr (tr\<lparr>gp_resp := TLM_OK_RESPONSE\<rparr>, d,
          mem_write m (gp_addr tr) (take (gp_len tr) (gp_data tr))))"

text \<open>
  A target that is a memory for the accesses inside the \<open>sz + 1\<close> bytes from \<open>lo\<close> on.  What becomes of the
  address of the payload does not matter to the code that uses it.
\<close>

definition memory_window :: "'w target \<Rightarrow> ('w \<Rightarrow> bytes_memory) \<Rightarrow> u64 \<Rightarrow> u64 \<Rightarrow> bool" where
  "memory_window dma mem lo sz \<longleftrightarrow> (\<forall>tr d w. gp_byte_en tr = None \<and> gp_len tr \<noteq> 0 \<and>
       unat (gp_addr tr - lo) + gp_len tr \<le> unat sz + 1 \<longrightarrow>
     (gp_cmd tr = TLM_READ_COMMAND \<longrightarrow> (\<exists>a. dma tr d w =
        Inr (tr\<lparr>gp_data := poke (gp_len tr) (mem_read (mem w) (gp_addr tr) (gp_len tr)) (gp_data tr),
                gp_resp := TLM_OK_RESPONSE, gp_addr := a\<rparr>, d, w))) \<and>
     (gp_cmd tr = TLM_WRITE_COMMAND \<longrightarrow> (\<exists>a w'. dma tr d w = Inr (tr\<lparr>gp_resp := TLM_OK_RESPONSE, gp_addr := a\<rparr>, d, w') \<and>
        mem w' = mem_write (mem w) (gp_addr tr) (take (gp_len tr) (gp_data tr)))))"

text \<open>A memory of its own state, the simplest such target.\<close>

definition ram :: "bytes_memory target" where
  "ram tr d m = (case gp_cmd tr of
     TLM_READ_COMMAND \<Rightarrow> Inr (tr\<lparr>gp_data := poke (gp_len tr) (mem_read m (gp_addr tr) (gp_len tr)) (gp_data tr),
                                  gp_resp := TLM_OK_RESPONSE\<rparr>, d, m)
   | TLM_WRITE_COMMAND \<Rightarrow> Inr (tr\<lparr>gp_resp := TLM_OK_RESPONSE\<rparr>, d, mem_write m (gp_addr tr) (take (gp_len tr) (gp_data tr)))
   | TLM_IGNORE_COMMAND \<Rightarrow> Inr (tr\<lparr>gp_resp := TLM_OK_RESPONSE\<rparr>, d, m))"

lemma ram_memory: "memory_target ram"
  by (simp add: memory_target_def reads_memory_def ram_def)

lemma ram_window: "memory_window ram (\<lambda>m. m) lo sz"
  unfolding memory_window_def
proof (intro allI impI conjI; elim conjE)
  fix tr :: gp and d m
  show "gp_cmd tr = TLM_READ_COMMAND \<Longrightarrow> \<exists>a. ram tr d m =
      Inr (tr\<lparr>gp_data := poke (gp_len tr) (mem_read m (gp_addr tr) (gp_len tr)) (gp_data tr),
              gp_resp := TLM_OK_RESPONSE, gp_addr := a\<rparr>, d, m)"
    by (intro exI [of _ "gp_addr tr"]) (simp add: ram_def)
  show "gp_cmd tr = TLM_WRITE_COMMAND \<Longrightarrow> \<exists>a m'. ram tr d m = Inr (tr\<lparr>gp_resp := TLM_OK_RESPONSE, gp_addr := a\<rparr>, d, m') \<and>
      m' = mem_write m (gp_addr tr) (take (gp_len tr) (gp_data tr))"
    by (intro exI [of _ "gp_addr tr"]) (simp add: ram_def)
qed

text \<open>The same memory seen with all addresses moved by \<open>base\<close>.\<close>

lemma mem_read_moved: "mem_read (\<lambda>a. m (a - base)) a n = mem_read m (a - base) n"
  by (simp add: mem_read_def algebra_simps)

lemma mem_write_moved: "mem_write (\<lambda>a. m (a - base)) a bs = (\<lambda>x. mem_write m (a - base) bs (x - base))"
proof -
  have d: "x - base - (a - base) = x - a" for x :: u64 by (simp add: algebra_simps)
  show ?thesis by (simp only: mem_write_def d)
qed

lemma length_mem_read [simp]: "length (mem_read m a n) = n"
  by (simp add: mem_read_def)

lemma mem_read_0 [simp]: "mem_read m a 0 = []"
  by (simp add: mem_read_def)

lemma mem_write_Nil [simp]: "mem_write m a [] = m"
  by (simp add: mem_write_def)

lemma mem_read_append: "mem_read m a (k + n) = mem_read m a k @ mem_read m (a + of_nat k) n"
proof -
  have "map f [0..<k + n] = map f [0..<k] @ map (\<lambda>i. f (k + i)) [0..<n]" for f :: "nat \<Rightarrow> u8"
    by (induction n) simp_all
  then show ?thesis by (simp add: mem_read_def add.assoc)
qed

lemma mem_read_write_same:
  "length bs < 2 ^ 64 \<Longrightarrow> mem_read (mem_write m a bs) a (length bs) = bs"
  by (rule nth_equalityI) (simp_all add: mem_read_def mem_write_def unat_of_nat)

text \<open>Two runs of bytes do not overlap.\<close>

definition apart :: "u64 \<Rightarrow> nat \<Rightarrow> u64 \<Rightarrow> nat \<Rightarrow> bool" where
  "apart a k b n \<longleftrightarrow> unat a + k \<le> unat b \<or> unat b + n \<le> unat a"

lemma unat_add_of_nat:
  "unat (a :: u64) + i < 2 ^ 64 \<Longrightarrow> unat (a + of_nat i) = unat a + i"
  by (simp add: unat_word_ariths unat_of_nat)

lemma mem_write_outside:
  assumes "apart a (length bs) b n" "i < n" "unat b + n \<le> 2 ^ 64" "unat a + length bs \<le> 2 ^ 64"
  shows "mem_write m a bs (b + of_nat i) = m (b + of_nat i)"
proof -
  have u: "unat (b + of_nat i) = unat b + i" using assms(2,3) by (intro unat_add_of_nat) simp
  have "\<not> unat (b + of_nat i - a) < length bs"
  proof (cases "a \<le> b + of_nat i")
    case True
    then have "unat (b + of_nat i - a) = unat b + i - unat a" using u by (simp add: unat_sub)
    with True assms(1,2) u show ?thesis by (auto simp: apart_def word_le_nat_alt)
  next
    case False
    then have "unat (b + of_nat i - a) = 2 ^ 64 - (unat a - (unat b + i))"
      using u by (simp add: unat_sub_if' word_le_nat_alt)
    with False assms u show ?thesis by (auto simp: word_le_nat_alt)
  qed
  then show ?thesis by (simp add: mem_write_def)
qed

lemma mem_read_apart:
  "apart a (length bs) b n \<Longrightarrow> unat b + n \<le> 2 ^ 64 \<Longrightarrow> unat a + length bs \<le> 2 ^ 64 \<Longrightarrow>
     mem_read (mem_write m a bs) b n = mem_read m b n"
  by (auto simp: mem_read_def mem_write_outside)

lemma mem_write_append:
  assumes "unat a + length xs + length ys \<le> 2 ^ 64"
  shows "mem_write (mem_write m a xs) (a + of_nat (length xs)) ys = mem_write m a (xs @ ys)"
proof
  fix x
  show "mem_write (mem_write m a xs) (a + of_nat (length xs)) ys x = mem_write m a (xs @ ys) x"
  proof (cases "length xs = 2 ^ 64 \<or> ys = []")
    case True
    then show ?thesis using assms by (auto simp: mem_write_def nth_append)
  next
    case False
    then have lx: "length xs < 2 ^ 64" using assms by auto
    let ?k = "of_nat (length xs) :: u64" and ?d = "x - a"
    have uk: "unat ?k = length xs" using lx by (simp add: unat_of_nat)
    have xd: "x - (a + ?k) = ?d - ?k" by simp
    show ?thesis
    proof (cases "?k \<le> ?d")
      case True
      then have "unat (?d - ?k) = unat ?d - length xs" by (simp add: unat_sub uk)
      with True uk show ?thesis
        unfolding mem_write_def xd by (auto simp: word_le_nat_alt nth_append)
    next
      case lt: False
      then have "unat (?d - ?k) = 2 ^ 64 - (length xs - unat ?d)"
        using uk by (simp add: unat_sub_if' word_le_nat_alt)
      with lt uk assms False show ?thesis
        unfolding mem_write_def xd by (auto simp: word_le_nat_alt nth_append)
    qed
  qed
qed

end
