(* ===== verification/Pcie_Threads.thy ===== *)
theory Pcie_Threads
  imports Pcie_Acc Memory
begin

text \<open>
  What the threads of the PCIe accelerator compute.  The hypotheses name what the threads rely
  on: a cache of 4 KB pages, a DMA target that is a memory, and that hashing a message in
  pieces is hashing it as a whole.
\<close>

section \<open>Caches of 4 KB pages\<close>

lemma same_page:
  fixes m i :: nat
  assumes "m mod 4096 + i < 4096"
  shows "(m + i) div 4096 = m div 4096 \<and> (m + i) mod 4096 = m mod 4096 + i"
proof -
  define q r where "q = m div 4096" and "r = m mod 4096 + i"
  then have "m + i = r + 4096 * q" by simp
  then show ?thesis using assms by (simp add: q_def [symmetric] r_def [symmetric])
qed

lemma page_region_contains:
  assumes "page_region r"
  shows "rg_contains r a \<longleftrightarrow> unat a div 4096 = unat (rg_virt r) div 4096"
proof -
  have "rg_ok r" using assms by (simp add: page_region_def rg_ok_def SZ_4K_def)
  moreover have "unat (rg_length r) = 4096" using assms by (simp add: page_region_def SZ_4K_def)
  moreover obtain k where "unat (rg_virt r) = 4096 * k" using assms by (auto simp: page_region_def)
  ultimately show ?thesis by (simp add: rg_contains_nat) linarith
qed

lemma atc_find_same_page:
  "\<forall>r \<in> set rs. page_region r \<Longrightarrow> unat a div 4096 = unat b div 4096 \<Longrightarrow> atc_find rs a = atc_find rs b"
  by (induction rs) (simp_all add: page_region_contains)

lemma or_page_offset:
  assumes "unat (p :: u64) mod 4096 = 0"
  shows "unat (p OR (a AND mask 12)) = unat p + unat a mod 4096"
proof -
  have p: "p AND NOT (mask 12) = p" using assms by (rule page_base_same)
  have "p + (a AND mask 12) = p OR (a AND mask 12)"
    by (subst (1 2) p [symmetric], rule disjunctive_add_eq_or, rule bit_word_eqI) (auto simp: bit_simps)
  moreover have "unat p + unat a mod 4096 < 2 ^ 64"
  proof -
    obtain k where k: "unat p = 4096 * k" using assms by auto
    have "unat p < 2 ^ 64" using unsigned_less [of p, where ?'a = nat] by simp
    then show ?thesis using k mod_less_divisor [of 4096 "unat a"] by simp
  qed
  then have "unat (p + (a AND mask 12)) = unat p + unat a mod 4096"
    by (simp add: unat_word_ariths unat_page_offset)
  ultimately show ?thesis by simp
qed

lemma page_translation:
  assumes "\<forall>r \<in> set rs. page_region r" "atc_contains rs a"
  shows "\<exists>p :: u64. unat p mod 4096 = 0 \<and>
    (\<forall>b. unat b div 4096 = unat a div 4096 \<longrightarrow> unat (atc_virt_to_phys rs b) = unat p + unat b mod 4096)"
proof -
  obtain r where r: "atc_find rs a = Some r" "page_region r"
    using assms atc_find_Some [of rs a] by (auto simp: atc_contains_def)
  then have "unat (rg_phys r) mod 4096 = 0" "rg_length r - 1 = mask 12"
    by (simp_all add: page_region_def page_mask)
  moreover have "atc_find rs b = Some r" if "unat b div 4096 = unat a div 4096" for b
    using atc_find_same_page [OF assms(1) that] r by simp
  ultimately show ?thesis
    by (intro exI [of _ "rg_phys r"]) (simp add: atc_virt_to_phys_def rg_virt_to_phys_def or_page_offset)
qed

lemma atc_test_attr_contains: "atc_test_attr rs a attr \<Longrightarrow> atc_contains rs a"
  by (auto simp: atc_test_attr_def atc_contains_def split: option.splits)

section \<open>A memory behind the DMA socket\<close>

lemma phys_read_memory:
  assumes "reads_memory dma mem" "unat n \<le> length buf" "unat n < 2 ^ 32"
  shows "phys_read at x0 dma phys buf n w =
    Inr (poke (unat n) (map (\<lambda>i. mem w (phys + of_nat i)) [0..<unat n]) buf, w)"
proof -
  have "unat (ucast n :: u32) = unat n" using assms(3) by (simp add: unsigned_ucast_eq take_bit_nat_eq_self_iff)
  then show ?thesis
    using assms by (simp add: phys_read_def phys_gp_def reads_memory_def mem_read_def)
qed

text \<open>The bytes an address range shows through the cache.\<close>

definition virt_bytes :: "region list \<Rightarrow> (u64 \<Rightarrow> u8) \<Rightarrow> u64 \<Rightarrow> nat \<Rightarrow> u8 list" where
  "virt_bytes rs mem v n = map (\<lambda>i. mem (atc_virt_to_phys rs (v + of_nat i))) [0..<n]"

lemma length_virt_bytes [simp]: "length (virt_bytes rs mem v n) = n"
  by (simp add: virt_bytes_def)

lemma virt_bytes_append:
  "virt_bytes rs mem v (m + n) = virt_bytes rs mem v m @ virt_bytes rs mem (v + of_nat m) n"
proof -
  have "map f [0..<m + n] = map f [0..<m] @ map (\<lambda>i. f (m + i)) [0..<n]" for f :: "nat \<Rightarrow> u8"
    by (induction n) simp_all
  then show ?thesis by (simp add: virt_bytes_def add.assoc)
qed

lemma page_read:
  assumes "\<forall>r \<in> set rs. page_region r" "atc_contains rs v" "unat v mod 4096 + n \<le> 4096"
    and "unat v + n < 2 ^ 64"
  shows "map (\<lambda>i. mem (atc_virt_to_phys rs v + of_nat i)) [0..<n] = virt_bytes rs mem v n"
proof -
  obtain p :: u64 where p: "unat p mod 4096 = 0" "\<forall>b. unat b div 4096 = unat v div 4096 \<longrightarrow>
      unat (atc_virt_to_phys rs b) = unat p + unat b mod 4096"
    using page_translation [OF assms(1,2)] by (elim exE conjE) (rule that)
  obtain k where k: "unat p = 4096 * k" using p(1) by auto
  have lt: "unat p < 2 ^ 64" using unsigned_less [of p, where ?'a = nat] by simp
  have "atc_virt_to_phys rs v + of_nat i = atc_virt_to_phys rs (v + of_nat i)" if i: "i < n" for i
  proof -
    have u: "unat (v + of_nat i) = unat v + i"
      using assms(4) i by (simp add: unat_word_ariths unat_of_nat)
    moreover have "(unat v + i) div 4096 = unat v div 4096" "(unat v + i) mod 4096 = unat v mod 4096 + i"
      using assms(3) i same_page [of "unat v" i] by auto
    ultimately have t: "unat (atc_virt_to_phys rs (v + of_nat i)) = unat p + unat v mod 4096 + i"
      using p(2) [THEN spec, of "v + of_nat i"] u by simp
    moreover have "unat p + unat v mod 4096 + i < 2 ^ 64"
      using lt k assms(3) i by simp
    ultimately have "unat (atc_virt_to_phys rs v + of_nat i) = unat p + unat v mod 4096 + i"
      using p(2) [THEN spec, of v] by (simp add: unat_word_ariths unat_of_nat)
    with t show ?thesis by (simp add: word_unat_eq_iff)
  qed
  then show ?thesis by (simp add: virt_bytes_def)
qed

section \<open>The MD5 thread\<close>

text \<open>Hashing in pieces, as \<open>MD5_Update\<close> is documented to do.\<close>

definition hashes_in_pieces :: "'c md5_ops \<Rightarrow> bool" where
  "hashes_in_pieces ops \<longleftrightarrow> (\<forall>c xs ys. md5_update ops (md5_update ops c xs) ys = md5_update ops c (xs @ ys)) \<and>
     (\<forall>c. md5_update ops c [] = c)"

text \<open>Every address of the range can be read through the cache.\<close>

definition readable :: "ats_attrs \<Rightarrow> region list \<Rightarrow> u64 \<Rightarrow> nat \<Rightarrow> bool" where
  "readable at rs v n \<longleftrightarrow> (\<forall>i < n. atc_test_attr rs (v + of_nat i) (ATTR_READ at))"

lemma readable_drop: "readable at rs v n \<Longrightarrow> m \<le> n \<Longrightarrow> readable at rs (v + of_nat m) (n - m)"
  by (auto simp: readable_def add.assoc of_nat_add [symmetric] simp del: of_nat_add)

lemma readable_head: "readable at rs v n \<Longrightarrow> 0 < n \<Longrightarrow> atc_test_attr rs v (ATTR_READ at)"
  by (auto simp: readable_def dest: spec [of _ 0])

lemma md5_chunk_page:
  assumes "\<forall>r \<in> set rs. page_region r" "atc_contains rs v"
  shows "md5_chunk len (atc_virt_to_phys rs v) = (if len \<le> SZ_4K then len else SZ_4K) - (v AND mask 12)"
proof -
  obtain p :: u64 where p: "unat p mod 4096 = 0" "\<forall>b. unat b div 4096 = unat v div 4096 \<longrightarrow>
      unat (atc_virt_to_phys rs b) = unat p + unat b mod 4096"
    using page_translation [OF assms] by (elim exE conjE) (rule that)
  then have "unat (atc_virt_to_phys rs v AND mask 12) = unat (v AND mask 12)"
    by (auto simp: unat_page_offset mod_add_eq)
  then have "atc_virt_to_phys rs v AND mask 12 = v AND mask 12" by (simp add: word_unat_eq_iff)
  then show ?thesis by (simp add: md5_chunk_def page_mask)
qed

lemma unat_min_page: "unat (if len \<le> SZ_4K then len else SZ_4K) = min (unat len) 4096"
  by (auto simp: SZ_4K_def word_le_nat_alt min_def)

text \<open>One turn of the loop when the chunk does not underflow.\<close>

lemma md5_loop_turn:
  assumes "\<forall>r \<in> set rs. page_region r" "reads_memory dma mem"
    and "atc_test_attr rs v (ATTR_READ at)" "length buf = 4096" "len \<noteq> 0"
    and "unat v mod 4096 \<le> min (unat len) 4096" "unat v + unat len < 2 ^ 64"
  shows "\<exists>n buf'. unat n = min (unat len) 4096 - unat v mod 4096 \<and> length buf' = 4096 \<and>
    md5_loop at x0 ats dma ops v len ctx buf rs w =
      md5_loop at x0 ats dma ops (v + n) (len - n)
        (md5_update ops ctx (virt_bytes rs (mem w) v (unat n))) buf' rs w"
proof -
  have c: "atc_contains rs v" using assms(3) by (rule atc_test_attr_contains)
  let ?phys = "atc_virt_to_phys rs v" and ?n = "md5_chunk len (atc_virt_to_phys rs v)"
  have "v AND mask 12 \<le> (if len \<le> SZ_4K then len else SZ_4K)"
    by (rule word_le_nat_alt [THEN iffD2]) (simp only: unat_min_page unat_page_offset assms(6))
  then have n: "unat ?n = min (unat len) 4096 - unat v mod 4096"
    by (simp add: md5_chunk_page [OF assms(1) c] unat_sub unat_min_page unat_page_offset)
  let ?m = "map (\<lambda>i. mem w (?phys + of_nat i)) [0..<unat ?n]"
  have bytes: "?m = virt_bytes rs (mem w) v (unat ?n)"
    using page_read [OF assms(1) c, of "unat ?n" "mem w"] n assms(6,7) by simp
  have "unat ?n \<le> length buf" "unat ?n < 2 ^ 32" using n assms(4) by simp_all
  then have "phys_read at x0 dma ?phys buf ?n w = Inr (poke (unat ?n) ?m buf, w)"
    by (rule phys_read_memory [OF assms(2)])
  then have "md5_loop at x0 ats dma ops v len ctx buf rs w =
      md5_loop at x0 ats dma ops (v + ?n) (len - ?n) (md5_update ops ctx (virt_bytes rs (mem w) v (unat ?n)))
        (poke (unat ?n) ?m buf) rs w"
    using assms(3,5) c bytes
    by (subst md5_loop.simps) (simp add: translate_def Let_def)
  moreover have "length (poke (unat ?n) ?m buf) = 4096" using n assms(4) by simp
  ultimately show ?thesis using n by blast
qed

lemma md5_loop_digest:
  assumes "\<forall>r \<in> set rs. page_region r" "reads_memory dma mem" "hashes_in_pieces ops"
    and "readable at rs v (unat len)" "unat v + unat len < 2 ^ 64" "length buf = 4096"
    and "unat v mod 4096 = 0 \<or> 4096 \<le> unat len \<or> len = 0"
  shows "md5_loop at x0 ats dma ops v len ctx buf rs w =
    Some (Inr (0, md5_update ops ctx (virt_bytes rs (mem w) v (unat len)), rs, w))"
  using assms(4-7)
proof (induction "unat len" arbitrary: v len ctx buf rule: less_induct)
  case less
  show ?case
  proof (cases "len = 0")
    case True
    then show ?thesis
      using assms(3) by (subst md5_loop.simps) (simp add: virt_bytes_def hashes_in_pieces_def)
  next
    case False
    then have pos: "0 < unat len" by (simp add: unat_gt_0)
    have m: "unat v mod 4096 < 4096" by simp
    have pre: "unat v mod 4096 \<le> min (unat len) 4096"
      using less.prems(4) m False by auto
    obtain n buf' where n: "unat n = min (unat len) 4096 - unat v mod 4096" "length buf' = 4096"
      "md5_loop at x0 ats dma ops v len ctx buf rs w =
        md5_loop at x0 ats dma ops (v + n) (len - n)
          (md5_update ops ctx (virt_bytes rs (mem w) v (unat n))) buf' rs w"
      using md5_loop_turn [OF assms(1,2) readable_head [OF less.prems(1) pos] less.prems(3) False pre less.prems(2), of x0 ats ops ctx w]
      by blast
    have npos: "0 < unat n" "unat n \<le> unat len" using n(1) less.prems(4) pos m by (auto simp: min_def)
    then have ul: "unat (len - n) = unat len - unat n" by (simp add: unat_sub word_le_nat_alt)
    have uv: "unat (v + n) = unat v + unat n" using less.prems(2) npos by (simp add: unat_word_ariths)
    have r: "readable at rs (v + n) (unat len - unat n)"
      using readable_drop [OF less.prems(1) npos(2)] by simp
    have al: "unat (v + n) mod 4096 = 0 \<or> unat len - unat n = 0"
    proof (cases "unat len < 4096")
      case True
      then show ?thesis using n(1) less.prems(4) False by (auto simp: min_def)
    next
      case ge: False
      have "unat v + (4096 - unat v mod 4096) = 4096 * (unat v div 4096 + 1)"
        using m by (simp add: minus_mod_eq_mult_div [symmetric])
      then show ?thesis using n(1) ge uv by (simp add: min_def)
    qed
    have "md5_loop at x0 ats dma ops (v + n) (len - n)
          (md5_update ops ctx (virt_bytes rs (mem w) v (unat n))) buf' rs w =
        Some (Inr (0, md5_update ops (md5_update ops ctx (virt_bytes rs (mem w) v (unat n)))
           (virt_bytes rs (mem w) (v + n) (unat len - unat n)), rs, w))"
      using less.hyps [of "len - n" "v + n" buf'] npos pos ul uv r n(2) al less.prems(2)
      by (auto simp: unat_eq_0)
    moreover have "virt_bytes rs (mem w) v (unat len) =
        virt_bytes rs (mem w) v (unat n) @ virt_bytes rs (mem w) (v + n) (unat len - unat n)"
      using virt_bytes_append [of rs "mem w" v "unat n" "unat len - unat n"] npos(2) by simp
    ultimately show ?thesis using n(3) assms(3) by (simp add: hashes_in_pieces_def)
  qed
qed

lemma md5_loop_short_turn:
  assumes "\<forall>r \<in> set rs. page_region r" "atc_test_attr rs v (ATTR_READ at)" "length buf = 4096"
    and "0 < unat len" "unat len < unat v mod 4096"
  shows "md5_loop at x0 ats dma ops v len ctx buf rs w = Some (Inl Out_of_range)"
proof -
  have c: "atc_contains rs v" using assms(2) by (rule atc_test_attr_contains)
  let ?n = "md5_chunk len (atc_virt_to_phys rs v)"
  have l: "unat len < 4096" using assms(5) mod_less_divisor [of 4096 "unat v"] by simp
  then have "len \<le> SZ_4K" by (simp add: SZ_4K_def word_le_nat_alt)
  then have n: "?n = len - (v AND mask 12)" by (simp add: md5_chunk_page [OF assms(1) c])
  have "unat ?n = 2 ^ 64 - (unat v mod 4096 - unat len)"
    unfolding n using assms(5) by (simp add: unat_sub_if' unat_page_offset word_le_nat_alt)
  then have "length buf < unat ?n" using l assms(3) mod_less_divisor [of 4096 "unat v"] by simp
  moreover have "len \<noteq> 0" using assms(4) by (auto simp: unat_eq_0)
  ultimately show ?thesis
    using assms(2) c by (subst md5_loop.simps) (simp add: translate_def Let_def phys_read_def)
qed

text \<open>A length equal to the page offset of the start: the loop turns without moving.\<close>

lemma md5_loop_stuck:
  assumes "\<forall>r \<in> set rs. page_region r" "reads_memory dma mem" "atc_test_attr rs v (ATTR_READ at)"
    and "unat len = unat v mod 4096" "len \<noteq> 0" "length buf = 4096"
  shows "md5_loop at x0 ats dma ops v len ctx buf rs w = None"
proof -
  have c: "atc_contains rs v" using assms(3) by (rule atc_test_attr_contains)
  have "unat len < 4096" using assms(4) by simp
  then have "len \<le> SZ_4K" by (simp add: SZ_4K_def word_le_nat_alt)
  moreover have "v AND mask 12 = len" using assms(4) by (simp add: word_unat_eq_iff unat_page_offset)
  ultimately have n: "md5_chunk len (atc_virt_to_phys rs v) = 0" by (simp add: md5_chunk_page [OF assms(1) c])
  have rd: "phys_read at x0 dma (atc_virt_to_phys rs v) b 0 w = Inr (b, w)" for b
    using phys_read_memory [OF assms(2), of 0 b] by simp
  have "\<not> (at = at \<and> x0 = x0 \<and> dma = dma \<and> v = v \<and> len = len \<and> rs = rs \<and> w = w)"
    if "md5_loop at x0 ats dma ops v len ctx buf rs w = Some y" for y
  proof (rule md5_loop.raw_induct [where P = "\<lambda>at' x0' _ dma' _ v' len' _ _ rs' w' _.
        \<not> (at' = at \<and> x0' = x0 \<and> dma' = dma \<and> v' = v \<and> len' = len \<and> rs' = rs \<and> w' = w)", OF _ that],
      intro notI, elim conjE, goal_cases)
    case (1 f at1 x1 ats1 dma1 ops1 v1 len1 ctx1 buf1 rs1 w1 y1)
    then show ?case
      using assms(3,5) c n rd by (simp add: translate_def Let_def) blast
  qed
  then show ?thesis by (metis not_Some_eq)
qed

lemma le_bytes_result:
  "ac_atc (set_md5_result res s) = ac_atc s" "ac_atc (set_status v s) = ac_atc s"
  "ac_events (set_md5_result res s) = ac_events s" "ac_events (set_status v s) = ac_events s"
  by (simp_all add: set_md5_result_def set_status_def)

section \<open>Properties of the threads\<close>

text \<open>
  Property C10: with a readable range in a cache all of whose regions are 4 KB pages, and a memory that serves the reads, the MD5 thread finishes and leaves in the
  result registers the digest of exactly the bytes the range shows, and \<open>R_STATUS_DONE\<close>
  without the error bit, whenever the range starts on a page boundary, or is at least 4096
  bytes long, or is empty.
\<close>

theorem md5_run_digest:
  assumes "\<forall>r \<in> set (ac_atc s). page_region r" "reads_memory dma mem" "hashes_in_pieces ops"
    and "md5_init ops = Some c0" "v = acc_virt_addr (ac_regs s)" "n = unat (ar_len (ac_regs s))"
    and "readable at (ac_atc s) v n" "unat v + n < 2 ^ 64"
    and "unat v mod 4096 = 0 \<or> 4096 \<le> n \<or> n = 0"
  shows "md5_run at x0 ats dma ops (s, w) =
    Some (Inr (set_status R_STATUS_DONE
      (set_md5_result (md5_final ops (md5_update ops c0 (virt_bytes (ac_atc s) (mem w) v n))) s), w))"
proof -
  let ?len = "ucast (ar_len (ac_regs s)) :: u64"
  have len: "unat ?len = n" using assms(6) by (simp add: unat_ucast32)
  then have "?len = 0 \<longleftrightarrow> n = 0" by (auto simp: unat_eq_0)
  then have "md5_loop at x0 ats dma ops v ?len c0 (replicate 4096 0) (ac_atc s) w =
    Some (Inr (0, md5_update ops c0 (virt_bytes (ac_atc s) (mem w) v n), ac_atc s, w))"
    using md5_loop_digest [OF assms(1-3), of at v ?len "replicate 4096 0"] assms(7-9) len by simp
  then show ?thesis using assms(4,5) by (simp add: md5_run_def Let_def)
qed

text \<open>The surroundings of the witnesses: a memory that holds its own addresses, one cached page.\<close>

lemma example_memory: "reads_memory
   (\<lambda>tr d w. Inr (tr\<lparr>gp_data := poke (gp_len tr) (map (\<lambda>i. ucast (gp_addr tr + of_nat i)) [0..<gp_len tr]) (gp_data tr),
       gp_resp := TLM_OK_RESPONSE\<rparr>, d, w)) (\<lambda>w a. ucast a)"
  by (simp add: reads_memory_def mem_read_def)

lemma example_page: "\<forall>r \<in> set [\<lparr>rg_virt = 0x1000, rg_phys = 0x5000, rg_length = SZ_4K, rg_attr = at\<rparr>]. page_region r"
  by (simp add: page_region_def)

lemma example_pieces: "hashes_in_pieces \<lparr>md5_init = Some [], md5_update = (@), md5_final = (\<lambda>c. c)\<rparr>"
  by (simp add: hashes_in_pieces_def)

lemma example_find:
  "0x1000 \<le> unat a \<Longrightarrow> unat a < 0x2000 \<Longrightarrow>
     atc_find [\<lparr>rg_virt = 0x1000, rg_phys = 0x5000, rg_length = SZ_4K, rg_attr = at\<rparr>] a =
       Some \<lparr>rg_virt = 0x1000, rg_phys = 0x5000, rg_length = SZ_4K, rg_attr = at\<rparr>"
  by (simp add: rg_contains_nat rg_ok_def SZ_4K_def)

lemma example_readable:
  "n \<le> 0x100 \<Longrightarrow> 0x1000 \<le> unat v \<Longrightarrow> unat v < 0x1100 \<Longrightarrow>
     readable \<lparr>ATTR_EXEC = 1, ATTR_READ = 2, ATTR_WRITE = 4, ATTR_PHYS_ADDR = 8\<rparr> [\<lparr>rg_virt = 0x1000, rg_phys = 0x5000, rg_length = SZ_4K, rg_attr = 2\<rparr>] v n"
  unfolding readable_def
proof (intro allI impI)
  fix i assume "i < n" "n \<le> 0x100" "0x1000 \<le> unat v" "unat v < 0x1100"
  then have "unat (v + of_nat i) = unat v + i" by (simp add: unat_word_ariths unat_of_nat)
  then show "atc_test_attr [\<lparr>rg_virt = 0x1000, rg_phys = 0x5000, rg_length = SZ_4K, rg_attr = 2\<rparr>] (v + of_nat i)
      (ATTR_READ \<lparr>ATTR_EXEC = 1, ATTR_READ = 2, ATTR_WRITE = 4, ATTR_PHYS_ADDR = 8\<rparr>)"
    using \<open>i < n\<close> \<open>n \<le> 0x100\<close> \<open>0x1000 \<le> unat v\<close> \<open>unat v < 0x1100\<close>
    by (simp add: atc_test_attr_def example_find del: atc_find.simps)
qed

lemma example_phys:
  assumes "0x1000 \<le> unat a" "unat a < 0x2000"
  shows "atc_virt_to_phys [\<lparr>rg_virt = 0x1000, rg_phys = 0x5000, rg_length = SZ_4K, rg_attr = at\<rparr>] a =
    0x5000 OR (a AND 0xfff)"
  unfolding atc_virt_to_phys_def example_find [OF assms] by (simp add: rg_virt_to_phys_def SZ_4K_def)

theorem md5_run_digest_witness:
  "md5_run \<lparr>ATTR_EXEC = 1, ATTR_READ = 2, ATTR_WRITE = 4, ATTR_PHYS_ADDR = 8\<rparr> \<lparr>ats_attributes = 0, ats_length = 0, ats_result_ok = False\<rparr> (\<lambda>v at w. (\<lparr>ar_resp = TLM_GENERIC_ERROR_RESPONSE, ar_result_ok = False, ar_addr = 0, ar_length = 0, ar_attr = 0\<rparr>, w))
     (\<lambda>tr d w. Inr (tr\<lparr>gp_data := poke (gp_len tr) (map (\<lambda>i. ucast (gp_addr tr + of_nat i)) [0..<gp_len tr]) (gp_data tr),
       gp_resp := TLM_OK_RESPONSE\<rparr>, d, w))
     \<lparr>md5_init = Some [], md5_update = (@), md5_final = (\<lambda>c. c)\<rparr> (\<lparr>ac_regs = \<lparr>ar_addr_lsb = 0x1000, ar_len = 3, ar_value = 0, ar_status = 0, ar_addr_msb = 0,
       ar_md5_0 = 0, ar_md5_1 = 0, ar_md5_2 = 0, ar_md5_3 = 0\<rparr>,
     ac_atc = [\<lparr>rg_virt = 0x1000, rg_phys = 0x5000, rg_length = SZ_4K, rg_attr = 2\<rparr>], ac_events = []\<rparr>, 0 :: nat) =
   Some (Inr (set_status R_STATUS_DONE (set_md5_result [0, 1, 2]
     \<lparr>ac_regs = \<lparr>ar_addr_lsb = 0x1000, ar_len = 3, ar_value = 0, ar_status = 0, ar_addr_msb = 0,
       ar_md5_0 = 0, ar_md5_1 = 0, ar_md5_2 = 0, ar_md5_3 = 0\<rparr>,
     ac_atc = [\<lparr>rg_virt = 0x1000, rg_phys = 0x5000, rg_length = SZ_4K, rg_attr = 2\<rparr>], ac_events = []\<rparr>), 0 :: nat))"
proof -
  let ?s = "\<lparr>ac_regs = \<lparr>ar_addr_lsb = 0x1000, ar_len = 3, ar_value = 0, ar_status = 0, ar_addr_msb = 0,
       ar_md5_0 = 0, ar_md5_1 = 0, ar_md5_2 = 0, ar_md5_3 = 0\<rparr>,
     ac_atc = [\<lparr>rg_virt = 0x1000, rg_phys = 0x5000, rg_length = SZ_4K, rg_attr = 2\<rparr>], ac_events = []\<rparr>"
  have v: "0x1000 = acc_virt_addr (ac_regs ?s)" by (simp add: acc_virt_addr_def)
  have n: "3 = unat (ar_len (ac_regs ?s))" by simp
  have p: "\<forall>r \<in> set (ac_atc ?s). page_region r" using example_page by simp
  have r: "readable \<lparr>ATTR_EXEC = 1, ATTR_READ = 2, ATTR_WRITE = 4, ATTR_PHYS_ADDR = 8\<rparr> (ac_atc ?s) 0x1000 3" using example_readable [of 3 "0x1000"] by simp
  have "virt_bytes (ac_atc ?s) (\<lambda>a. ucast a) 0x1000 3 = [0, 1, 2]"
    by (simp add: virt_bytes_def upt_conv_Cons example_phys)
  then show ?thesis
    using md5_run_digest [OF p example_memory example_pieces _ v n r, of "[]"] by simp
qed

text \<open>
  A range that does not start on a page boundary and is shorter than a page is
  never digested.  The length of the first chunk is the whole length less the page offset of the
  address: when the two are equal the thread reads nothing forever, and otherwise that
  subtraction wraps around, on the first or the second chunk, and the read is far larger than
  the thread's buffer.
\<close>

theorem md5_run_short_unaligned:
  assumes "\<forall>r \<in> set (ac_atc s). page_region r" "reads_memory dma mem"
    and "md5_init ops = Some c0" "v = acc_virt_addr (ac_regs s)" "n = unat (ar_len (ac_regs s))"
    and "readable at (ac_atc s) v n" "unat v + n < 2 ^ 64"
    and "0 < n" "n < 4096" "unat v mod 4096 \<noteq> 0"
  shows "md5_run at x0 ats dma ops (s, w) =
    (if n = unat v mod 4096 then None else Some (Inl Out_of_range))"
proof -
  let ?len = "ucast (ar_len (ac_regs s)) :: u64" and ?rs = "ac_atc s" and ?buf = "replicate 4096 0 :: u8 list"
  have len: "unat ?len = n" using assms(5) by (simp add: unat_ucast32)
  then have l0: "?len \<noteq> 0" using assms(8) by (auto simp: unat_eq_0)
  have at0: "atc_test_attr ?rs v (ATTR_READ at)" using assms(6,8) by (rule readable_head)
  have "md5_loop at x0 ats dma ops v ?len c0 ?buf ?rs w =
      (if n = unat v mod 4096 then None else Some (Inl Out_of_range))"
  proof (cases "n < unat v mod 4096")
    case True
    then show ?thesis
      using md5_loop_short_turn [OF assms(1) at0, of ?buf ?len] len assms(8) by simp
  next
    case ge: False
    show ?thesis
    proof (cases "n = unat v mod 4096")
      case True
      then show ?thesis using md5_loop_stuck [OF assms(1,2) at0, of ?len ?buf] len l0 by simp
    next
      case False
      have pre: "unat v mod 4096 \<le> min (unat ?len) 4096" using ge len assms(9) by simp
      obtain k buf' where k: "unat k = min (unat ?len) 4096 - unat v mod 4096" "length buf' = 4096"
        "md5_loop at x0 ats dma ops v ?len c0 ?buf ?rs w =
          md5_loop at x0 ats dma ops (v + k) (?len - k)
            (md5_update ops c0 (virt_bytes ?rs (mem w) v (unat k))) buf' ?rs w"
        using md5_loop_turn [OF assms(1,2) at0 _ l0 pre, of ?buf x0 ats ops c0 w] assms(7) len by auto
      have uk: "unat k = n - unat v mod 4096" using k(1) len assms(9) by simp
      then have ul: "unat (?len - k) = unat v mod 4096"
        using ge len by (simp add: unat_sub word_le_nat_alt)
      have uv: "unat (v + k) = unat v + unat k" using assms(7) uk by (simp add: unat_word_ariths)
      have "unat v mod 4096 + unat k < 4096" using uk ge assms(9) by simp
      then have off: "unat (v + k) mod 4096 = n" using same_page [of "unat v" "unat k"] uv uk ge by simp
      have "unat k < n" using uk assms(8,10) by simp
      then have "atc_test_attr ?rs (v + of_nat (unat k)) (ATTR_READ at)"
        using assms(6) unfolding readable_def by blast
      then have "md5_loop at x0 ats dma ops (v + k) (?len - k)
            (md5_update ops c0 (virt_bytes ?rs (mem w) v (unat k))) buf' ?rs w = Some (Inl Out_of_range)"
        using md5_loop_short_turn [OF assms(1), of "v + k" at buf' "?len - k"] k(2) ul off ge False assms(10)
        by simp
      then show ?thesis using k(3) False by simp
    qed
  qed
  then show ?thesis using assms(3,4) by (simp add: md5_run_def)
qed

theorem md5_run_short_unaligned_witness:
  "md5_run \<lparr>ATTR_EXEC = 1, ATTR_READ = 2, ATTR_WRITE = 4, ATTR_PHYS_ADDR = 8\<rparr> \<lparr>ats_attributes = 0, ats_length = 0, ats_result_ok = False\<rparr> (\<lambda>v at w. (\<lparr>ar_resp = TLM_GENERIC_ERROR_RESPONSE, ar_result_ok = False, ar_addr = 0, ar_length = 0, ar_attr = 0\<rparr>, w))
     (\<lambda>tr d w. Inr (tr\<lparr>gp_data := poke (gp_len tr) (map (\<lambda>i. ucast (gp_addr tr + of_nat i)) [0..<gp_len tr]) (gp_data tr),
       gp_resp := TLM_OK_RESPONSE\<rparr>, d, w))
     \<lparr>md5_init = Some [], md5_update = (@), md5_final = (\<lambda>c. c)\<rparr> (\<lparr>ac_regs = \<lparr>ar_addr_lsb = 0x1010, ar_len = 16, ar_value = 0, ar_status = 0, ar_addr_msb = 0,
       ar_md5_0 = 0, ar_md5_1 = 0, ar_md5_2 = 0, ar_md5_3 = 0\<rparr>,
     ac_atc = [\<lparr>rg_virt = 0x1000, rg_phys = 0x5000, rg_length = SZ_4K, rg_attr = 2\<rparr>], ac_events = []\<rparr>, 0 :: nat) = None \<and>
   md5_run \<lparr>ATTR_EXEC = 1, ATTR_READ = 2, ATTR_WRITE = 4, ATTR_PHYS_ADDR = 8\<rparr> \<lparr>ats_attributes = 0, ats_length = 0, ats_result_ok = False\<rparr> (\<lambda>v at w. (\<lparr>ar_resp = TLM_GENERIC_ERROR_RESPONSE, ar_result_ok = False, ar_addr = 0, ar_length = 0, ar_attr = 0\<rparr>, w))
     (\<lambda>tr d w. Inr (tr\<lparr>gp_data := poke (gp_len tr) (map (\<lambda>i. ucast (gp_addr tr + of_nat i)) [0..<gp_len tr]) (gp_data tr),
       gp_resp := TLM_OK_RESPONSE\<rparr>, d, w))
     \<lparr>md5_init = Some [], md5_update = (@), md5_final = (\<lambda>c. c)\<rparr> (\<lparr>ac_regs = \<lparr>ar_addr_lsb = 0x1010, ar_len = 100, ar_value = 0, ar_status = 0, ar_addr_msb = 0,
       ar_md5_0 = 0, ar_md5_1 = 0, ar_md5_2 = 0, ar_md5_3 = 0\<rparr>,
     ac_atc = [\<lparr>rg_virt = 0x1000, rg_phys = 0x5000, rg_length = SZ_4K, rg_attr = 2\<rparr>], ac_events = []\<rparr>, 0 :: nat) = Some (Inl Out_of_range)"
proof -
  let ?s = "\<lparr>ac_regs = \<lparr>ar_addr_lsb = 0x1010, ar_len = 16, ar_value = 0, ar_status = 0, ar_addr_msb = 0,
       ar_md5_0 = 0, ar_md5_1 = 0, ar_md5_2 = 0, ar_md5_3 = 0\<rparr>,
     ac_atc = [\<lparr>rg_virt = 0x1000, rg_phys = 0x5000, rg_length = SZ_4K, rg_attr = 2\<rparr>], ac_events = []\<rparr>"
  let ?t = "\<lparr>ac_regs = \<lparr>ar_addr_lsb = 0x1010, ar_len = 100, ar_value = 0, ar_status = 0, ar_addr_msb = 0,
       ar_md5_0 = 0, ar_md5_1 = 0, ar_md5_2 = 0, ar_md5_3 = 0\<rparr>,
     ac_atc = [\<lparr>rg_virt = 0x1000, rg_phys = 0x5000, rg_length = SZ_4K, rg_attr = 2\<rparr>], ac_events = []\<rparr>"
  have v: "0x1010 = acc_virt_addr (ac_regs ?s)" "0x1010 = acc_virt_addr (ac_regs ?t)"
    by (simp_all add: acc_virt_addr_def)
  have n: "16 = unat (ar_len (ac_regs ?s))" "100 = unat (ar_len (ac_regs ?t))" by simp_all
  have p: "\<forall>r \<in> set (ac_atc ?s). page_region r" "\<forall>r \<in> set (ac_atc ?t). page_region r"
    using example_page by simp_all
  have r: "readable \<lparr>ATTR_EXEC = 1, ATTR_READ = 2, ATTR_WRITE = 4, ATTR_PHYS_ADDR = 8\<rparr> (ac_atc ?s) 0x1010 16" "readable \<lparr>ATTR_EXEC = 1, ATTR_READ = 2, ATTR_WRITE = 4, ATTR_PHYS_ADDR = 8\<rparr> (ac_atc ?t) 0x1010 100"
    using example_readable [of 16 "0x1010"] example_readable [of 100 "0x1010"] by simp_all
  have "md5_init \<lparr>md5_init = Some [], md5_update = (@), md5_final = (\<lambda>c. c)\<rparr> = Some []" by simp
  then show ?thesis
    by (intro conjI trans [OF md5_run_short_unaligned [OF p(1) example_memory _ v(1) n(1) r(1)]]
        trans [OF md5_run_short_unaligned [OF p(2) example_memory _ v(2) n(2) r(2)]]) simp_all
qed

section \<open>Single accesses\<close>

lemma acc_virt_addr_frame [simp]:
  "acc_virt_addr (r\<lparr>ar_value := x\<rparr>) = acc_virt_addr r" "acc_virt_addr (r\<lparr>ar_status := x\<rparr>) = acc_virt_addr r"
  by (simp_all add: acc_virt_addr_def)

text \<open>
  A word the accelerator writes through a translated address that may be read and
  written is the word it reads back there, whatever the value register was set to in between;
  the write changes the four bytes at the physical address and no others, and both threads end
  with \<open>R_STATUS_DONE\<close>.
\<close>

theorem write_then_read_word:
  assumes "memory_target dma" "v = acc_virt_addr (ac_regs s)"
    and "atc_test_attr (ac_atc s) v (ATTR_READ at)" "atc_test_attr (ac_atc s) v (ATTR_WRITE at)"
  shows "\<exists>m' s''. write_run at x0 ats dma (s, m) = Some (Inr (set_status R_STATUS_DONE s, m')) \<and>
     read_run at x0 ats dma ((set_status R_STATUS_DONE s)\<lparr>ac_regs := (ac_regs (set_status R_STATUS_DONE s))\<lparr>ar_value := x\<rparr>\<rparr>, m')
       = Some (Inr (s'', m')) \<and>
     ar_value (ac_regs s'') = ar_value (ac_regs s) \<and> ar_status (ac_regs s'') = R_STATUS_DONE \<and>
     (\<forall>a. 4 \<le> unat (a - atc_virt_to_phys (ac_atc s) v) \<longrightarrow> m' a = m a)"
proof -
  let ?p = "atc_virt_to_phys (ac_atc s) v" and ?d = "le_bytes 4 (ar_value (ac_regs s))"
  let ?m = "mem_write m ?p ?d"
  have c: "atc_contains (ac_atc s) v" using assms(3) by (rule atc_test_attr_contains)
  have w: "write_run at x0 ats dma (s, m) = Some (Inr (set_status R_STATUS_DONE s, ?m))"
    using assms c by (simp add: write_run_def translate_def Let_def phys_write32_def phys_gp_def memory_target_def)
  have "map (\<lambda>i. ?m (?p + of_nat i)) [0..<4] = ?d"
    using mem_read_write_same [of ?d m ?p] by (simp add: mem_read_def)
  moreover have "reads_memory dma (\<lambda>m. m)" using assms(1) by (simp add: memory_target_def)
  ultimately have "phys_read at x0 dma ?p (replicate 4 0) 4 ?m = Inr (poke 4 ?d (replicate 4 0), ?m)"
    using phys_read_memory [of dma "\<lambda>m. m" 4 "replicate 4 0" at x0 ?p ?m] by simp
  then have "read_run at x0 ats dma ((set_status R_STATUS_DONE s)\<lparr>ac_regs := (ac_regs (set_status R_STATUS_DONE s))\<lparr>ar_value := x\<rparr>\<rparr>, ?m)
      = Some (Inr (s\<lparr>ac_regs := (ac_regs s)\<lparr>ar_value := ar_value (ac_regs s), ar_status := R_STATUS_DONE\<rparr>\<rparr>, ?m))"
    using assms(2,3) c
    by (simp add: read_run_def translate_def Let_def phys_read32_def set_status_def poke_def take_le_bytes)
  moreover have "4 \<le> unat (a - ?p) \<Longrightarrow> ?m a = m a" for a by (simp add: mem_write_def)
  ultimately show ?thesis using w by auto
qed

theorem write_then_read_word_witness:
  "\<exists>m' s''. write_run \<lparr>ATTR_EXEC = 1, ATTR_READ = 2, ATTR_WRITE = 4, ATTR_PHYS_ADDR = 8\<rparr> \<lparr>ats_attributes = 0, ats_length = 0, ats_result_ok = False\<rparr> (\<lambda>v at w. (\<lparr>ar_resp = TLM_GENERIC_ERROR_RESPONSE, ar_result_ok = False, ar_addr = 0, ar_length = 0, ar_attr = 0\<rparr>, w))
      (\<lambda>tr d m. if gp_cmd tr = TLM_READ_COMMAND
        then Inr (tr\<lparr>gp_data := poke (gp_len tr) (map (\<lambda>i. m (gp_addr tr + of_nat i)) [0..<gp_len tr]) (gp_data tr),
                     gp_resp := TLM_OK_RESPONSE\<rparr>, d, m)
        else Inr (tr\<lparr>gp_resp := TLM_OK_RESPONSE\<rparr>, d, mem_write m (gp_addr tr) (take (gp_len tr) (gp_data tr))))
      (\<lparr>ac_regs = \<lparr>ar_addr_lsb = 0x1000, ar_len = 0, ar_value = 0xabcd, ar_status = 0, ar_addr_msb = 0,
       ar_md5_0 = 0, ar_md5_1 = 0, ar_md5_2 = 0, ar_md5_3 = 0\<rparr>,
     ac_atc = [\<lparr>rg_virt = 0x1000, rg_phys = 0x5000, rg_length = SZ_4K, rg_attr = 6\<rparr>], ac_events = []\<rparr>, \<lambda>a. 0) = Some (Inr (s'', m')) \<and> ar_status (ac_regs s'') = R_STATUS_DONE \<and> m' 0 = 0"
proof -
  let ?dma = "\<lambda>tr d m. if gp_cmd tr = TLM_READ_COMMAND
        then Inr (tr\<lparr>gp_data := poke (gp_len tr) (map (\<lambda>i. m (gp_addr tr + of_nat i)) [0..<gp_len tr]) (gp_data tr),
                     gp_resp := TLM_OK_RESPONSE\<rparr>, d, m)
        else Inr (tr\<lparr>gp_resp := TLM_OK_RESPONSE\<rparr>, d, mem_write m (gp_addr tr) (take (gp_len tr) (gp_data tr)))"
  let ?s = "\<lparr>ac_regs = \<lparr>ar_addr_lsb = 0x1000, ar_len = 0, ar_value = 0xabcd, ar_status = 0, ar_addr_msb = 0,
       ar_md5_0 = 0, ar_md5_1 = 0, ar_md5_2 = 0, ar_md5_3 = 0\<rparr>,
     ac_atc = [\<lparr>rg_virt = 0x1000, rg_phys = 0x5000, rg_length = SZ_4K, rg_attr = 6\<rparr>], ac_events = []\<rparr>"
  have mem: "memory_target ?dma" by (simp add: memory_target_def reads_memory_def mem_read_def)
  have v: "0x1000 = acc_virt_addr (ac_regs ?s)" by (simp add: acc_virt_addr_def)
  have f: "atc_find (ac_atc ?s) 0x1000 = Some \<lparr>rg_virt = 0x1000, rg_phys = 0x5000, rg_length = SZ_4K, rg_attr = 6\<rparr>"
    using example_find [of "0x1000" 6] by simp
  have t: "atc_test_attr (ac_atc ?s) 0x1000 (ATTR_READ \<lparr>ATTR_EXEC = 1, ATTR_READ = 2, ATTR_WRITE = 4, ATTR_PHYS_ADDR = 8\<rparr>)" "atc_test_attr (ac_atc ?s) 0x1000 (ATTR_WRITE \<lparr>ATTR_EXEC = 1, ATTR_READ = 2, ATTR_WRITE = 4, ATTR_PHYS_ADDR = 8\<rparr>)"
    unfolding atc_test_attr_def f by simp_all
  have "atc_virt_to_phys (ac_atc ?s) 0x1000 = 0x5000"
    unfolding atc_virt_to_phys_def f by (simp add: rg_virt_to_phys_def SZ_4K_def)
  with write_then_read_word [OF mem v t, where x = 0 and m = "\<lambda>a. 0" and ats = "(\<lambda>v at w. (\<lparr>ar_resp = TLM_GENERIC_ERROR_RESPONSE, ar_result_ok = False, ar_addr = 0, ar_length = 0, ar_attr = 0\<rparr>, w))" and ?x0.0 = "\<lparr>ats_attributes = 0, ats_length = 0, ats_result_ok = False\<rparr>"]
  obtain m' where "write_run \<lparr>ATTR_EXEC = 1, ATTR_READ = 2, ATTR_WRITE = 4, ATTR_PHYS_ADDR = 8\<rparr> \<lparr>ats_attributes = 0, ats_length = 0, ats_result_ok = False\<rparr> (\<lambda>v at w. (\<lparr>ar_resp = TLM_GENERIC_ERROR_RESPONSE, ar_result_ok = False, ar_addr = 0, ar_length = 0, ar_attr = 0\<rparr>, w)) ?dma (?s, \<lambda>a. 0) = Some (Inr (set_status R_STATUS_DONE ?s, m'))"
    "\<forall>a. 4 \<le> unat (a - 0x5000) \<longrightarrow> m' a = 0" by auto
  then show ?thesis by (intro exI [of _ m'] exI [of _ "set_status R_STATUS_DONE ?s"]) (simp add: set_status_def)
qed

text \<open>
  An access that the cached attributes do not allow is skipped without a trace: no
  payload reaches the DMA socket, the value register keeps its content, and the status is
  \<open>R_STATUS_DONE\<close>, the same as after a successful access, with no error bit.
\<close>

theorem denied_access_reports_done:
  assumes "v = acc_virt_addr (ac_regs s)" "atc_contains (ac_atc s) v"
  shows "(\<not> atc_test_attr (ac_atc s) v (ATTR_READ at) \<longrightarrow>
      read_run at x0 ats dma (s, w) = Some (Inr (set_status R_STATUS_DONE s, w))) \<and>
    (\<not> atc_test_attr (ac_atc s) v (ATTR_WRITE at) \<longrightarrow>
      write_run at x0 ats dma (s, w) = Some (Inr (set_status R_STATUS_DONE s, w)))"
  using assms by (simp add: read_run_def write_run_def translate_def Let_def)

theorem denied_access_reports_done_witness:
  "write_run \<lparr>ATTR_EXEC = 1, ATTR_READ = 2, ATTR_WRITE = 4, ATTR_PHYS_ADDR = 8\<rparr> \<lparr>ats_attributes = 0, ats_length = 0, ats_result_ok = False\<rparr> (\<lambda>v at w. (\<lparr>ar_resp = TLM_GENERIC_ERROR_RESPONSE, ar_result_ok = False, ar_addr = 0, ar_length = 0, ar_attr = 0\<rparr>, w)) (\<lambda>tr d w. Inl Aborted) (\<lparr>ac_regs = \<lparr>ar_addr_lsb = 0x1000, ar_len = 0, ar_value = 0xabcd, ar_status = 0, ar_addr_msb = 0,
       ar_md5_0 = 0, ar_md5_1 = 0, ar_md5_2 = 0, ar_md5_3 = 0\<rparr>,
     ac_atc = [\<lparr>rg_virt = 0x1000, rg_phys = 0x5000, rg_length = SZ_4K, rg_attr = 2\<rparr>], ac_events = []\<rparr>, ()) =
     Some (Inr (set_status R_STATUS_DONE \<lparr>ac_regs = \<lparr>ar_addr_lsb = 0x1000, ar_len = 0, ar_value = 0xabcd, ar_status = 0, ar_addr_msb = 0,
       ar_md5_0 = 0, ar_md5_1 = 0, ar_md5_2 = 0, ar_md5_3 = 0\<rparr>,
     ac_atc = [\<lparr>rg_virt = 0x1000, rg_phys = 0x5000, rg_length = SZ_4K, rg_attr = 2\<rparr>], ac_events = []\<rparr>, ()))"
proof -
  let ?s = "\<lparr>ac_regs = \<lparr>ar_addr_lsb = 0x1000, ar_len = 0, ar_value = 0xabcd, ar_status = 0, ar_addr_msb = 0,
       ar_md5_0 = 0, ar_md5_1 = 0, ar_md5_2 = 0, ar_md5_3 = 0\<rparr>,
     ac_atc = [\<lparr>rg_virt = 0x1000, rg_phys = 0x5000, rg_length = SZ_4K, rg_attr = 2\<rparr>], ac_events = []\<rparr>"
  have v: "0x1000 = acc_virt_addr (ac_regs ?s)" by (simp add: acc_virt_addr_def)
  have f: "atc_find (ac_atc ?s) 0x1000 = Some \<lparr>rg_virt = 0x1000, rg_phys = 0x5000, rg_length = SZ_4K, rg_attr = 2\<rparr>"
    using example_find [of "0x1000" 2] by simp
  have c: "atc_contains (ac_atc ?s) 0x1000" unfolding atc_contains_def f by simp
  have nt: "\<not> atc_test_attr (ac_atc ?s) 0x1000 (ATTR_WRITE \<lparr>ATTR_EXEC = 1, ATTR_READ = 2, ATTR_WRITE = 4, ATTR_PHYS_ADDR = 8\<rparr>)" unfolding atc_test_attr_def f by simp
  show ?thesis by (rule denied_access_reports_done [OF v c, THEN conjunct2, THEN mp, OF nt])
qed

section \<open>The translation thread\<close>

lemma next_page:
  "unat (v :: u64) mod 4096 = 0 \<Longrightarrow> unat v + 4096 < 2 ^ 64 \<Longrightarrow>
     unat (v + SZ_4K) = unat v + 4096 \<and> unat (v + SZ_4K) mod 4096 = 0"
  by (simp add: SZ_4K_def unat_word_ariths mod_add_eq)

lemma page_contains_all:
  assumes "\<forall>r \<in> set rs. page_region r" "atc_contains rs v" "unat a div 4096 = unat v div 4096"
  shows "atc_contains rs a"
  using assms atc_find_same_page [OF assms(1,3)] by (simp add: atc_contains_def)

lemma translate_page:
  assumes "page_agent ats" "\<forall>r \<in> set rs. page_region r" "unat v mod 4096 = 0" "unat v < 2 ^ 64 - 16384"
  shows "\<exists>new w'. translate at ats v SZ_4K rs w = Some (rs @ new, w') \<and>
     (\<forall>r \<in> set (rs @ new). page_region r) \<and>
     (\<forall>a. unat v \<le> unat a \<and> unat a < unat v + 4096 \<longrightarrow> atc_contains (rs @ new) a)"
proof (cases "atc_contains rs v")
  case True
  have "unat a div 4096 = unat v div 4096" if a: "unat v \<le> unat a" "unat a < unat v + 4096" for a :: u64
  proof -
    obtain k where "unat v = 4096 * k" using assms(3) by auto
    then show ?thesis using a by simp
  qed
  then have "\<forall>a. unat v \<le> unat a \<and> unat a < unat v + 4096 \<longrightarrow> atc_contains rs a"
    using page_contains_all [OF assms(2) True] by blast
  then show ?thesis
    using True assms(2) by (intro exI [of _ "[]"] exI [of _ w]) (simp add: translate_def)
next
  case False
  have "unat SZ_4K = 4096" by (simp add: SZ_4K_def)
  then obtain new w' where "do_ats_req at ats v SZ_4K rs w = Some (rs @ new, w')"
    "\<forall>r \<in> set new. page_region r" "\<forall>a. unat v \<le> unat a \<and> unat a < unat v + 4096 \<longrightarrow> atc_contains new a"
    using do_ats_req_pages [OF assms(1), of v SZ_4K at rs w] assms(4) by auto
  then show ?thesis
    using False assms(2) by (intro exI [of _ new] exI [of _ w']) (auto simp: translate_def)
qed

lemma ats_req_loop_covers:
  assumes "page_agent ats" "\<forall>r \<in> set rs. page_region r" "unat v mod 4096 = 0" "unat v + unat len < 2 ^ 64 - 16384"
  shows "\<exists>new w'. ats_req_loop at ats v len rs w = Some (rs @ new, w') \<and>
     (\<forall>r \<in> set (rs @ new). page_region r) \<and>
     (\<forall>a. unat v \<le> unat a \<and> unat a < unat v + unat len \<longrightarrow> atc_contains (rs @ new) a)"
  using assms(2-4)
proof (induction "unat len" arbitrary: v len rs w rule: less_induct)
  case less
  show ?case
  proof (cases "len = 0")
    case True
    then show ?thesis
      using less.prems(1) by (intro exI [of _ "[]"] exI [of _ w]) (auto simp: ats_req_loop.simps)
  next
    case False
    obtain new1 w1 where t: "translate at ats v SZ_4K rs w = Some (rs @ new1, w1)"
      "\<forall>r \<in> set (rs @ new1). page_region r"
      "\<forall>a. unat v \<le> unat a \<and> unat a < unat v + 4096 \<longrightarrow> atc_contains (rs @ new1) a"
      using translate_page [OF assms(1) less.prems(1,2), of at w] less.prems(3) by auto
    have n4: "unat SZ_4K = 4096" by (simp add: SZ_4K_def)
    show ?thesis
    proof (cases "len < SZ_4K")
      case True
      then have "ats_req_loop at ats v len rs w = Some (rs @ new1, w1)"
        using False t(1) by (simp add: ats_req_loop.simps [of _ _ v len])
      moreover have "unat len < 4096" using True n4 by (simp add: word_less_nat_alt)
      ultimately show ?thesis using t(2,3) by (intro exI [of _ new1] exI [of _ w1]) auto
    next
      case ge: False
      then have l: "4096 \<le> unat len" using n4 by (simp add: word_le_nat_alt not_less)
      have ul: "unat (len - SZ_4K) = unat len - 4096" using ge n4 by (simp add: unat_sub not_less)
      have uv: "unat (v + SZ_4K) = unat v + 4096" "unat (v + SZ_4K) mod 4096 = 0"
        by (rule next_page [OF less.prems(2), THEN conjunct1] next_page [OF less.prems(2), THEN conjunct2],
            use less.prems(3) l in simp)+
      obtain new2 w2 where r: "ats_req_loop at ats (v + SZ_4K) (len - SZ_4K) (rs @ new1) w1 = Some ((rs @ new1) @ new2, w2)"
        "\<forall>r \<in> set ((rs @ new1) @ new2). page_region r"
        "\<forall>a. unat (v + SZ_4K) \<le> unat a \<and> unat a < unat (v + SZ_4K) + unat (len - SZ_4K)
           \<longrightarrow> atc_contains ((rs @ new1) @ new2) a"
        using less.hyps [of "len - SZ_4K" "rs @ new1" "v + SZ_4K" w1] l ul uv t(2) less.prems(3) by auto
      have "ats_req_loop at ats v len rs w = Some (rs @ (new1 @ new2), w2)"
        using False t(1) ge r(1) by (simp add: ats_req_loop.simps [of _ _ v len])
      moreover have "atc_contains (rs @ (new1 @ new2)) a" if "unat v \<le> unat a" "unat a < unat v + unat len" for a
        using that t(3) r(3) ul uv(1) l by (cases "unat a < unat v + 4096") auto
      ultimately show ?thesis using r(2) by (intro exI [of _ "new1 @ new2"] exI [of _ w2]) auto
    qed
  qed
qed

text \<open>
  Property C20: with a cache of 4 KB pages and an agent that translates in such pages, the
  translation thread finishes for every page-aligned range, sets \<open>R_STATUS_DONE\<close>, keeps what
  the cache had, and leaves every address of the range translated, by pages only: the
  state the MD5 thread needs.
\<close>

theorem ats_req_run_covers:
  assumes "page_agent ats" "\<forall>r \<in> set (ac_atc s). page_region r"
    and "v = acc_virt_addr (ac_regs s)" "n = unat (ar_len (ac_regs s))"
    and "unat v mod 4096 = 0" "unat v + n < 2 ^ 64 - 16384"
  shows "\<exists>new w'. ats_req_run at ats (s, w) =
      Some (set_status R_STATUS_DONE (s\<lparr>ac_atc := ac_atc s @ new\<rparr>), w') \<and>
    (\<forall>r \<in> set new. page_region r) \<and>
    (\<forall>a. unat v \<le> unat a \<and> unat a < unat v + n \<longrightarrow> atc_contains (ac_atc s @ new) a)"
proof -
  have len: "unat (ucast (ar_len (ac_regs s)) :: u64) = n"
    using assms(4) by (simp add: unat_ucast32)
  obtain new w' where "ats_req_loop at ats v (ucast (ar_len (ac_regs s))) (ac_atc s) w = Some (ac_atc s @ new, w')"
    "\<forall>r \<in> set (ac_atc s @ new). page_region r"
    "\<forall>a. unat v \<le> unat a \<and> unat a < unat v + n \<longrightarrow> atc_contains (ac_atc s @ new) a"
    using ats_req_loop_covers [OF assms(1,2,5), of "ucast (ar_len (ac_regs s))" at w] assms(6) len by auto
  then show ?thesis
    using assms(3) by (intro exI [of _ new] exI [of _ w']) (auto simp: ats_req_run_def)
qed

theorem ats_req_run_covers_witness:
  "\<exists>new w'. ats_req_run \<lparr>ATTR_EXEC = 1, ATTR_READ = 2, ATTR_WRITE = 4, ATTR_PHYS_ADDR = 8\<rparr>
     (\<lambda>v at n. (\<lparr>ar_resp = TLM_OK_RESPONSE, ar_result_ok = True, ar_addr = 0x7000, ar_length = SZ_4K, ar_attr = at\<rparr>, n + 1))
     (\<lparr>ac_regs = \<lparr>ar_addr_lsb = 0x1000, ar_len = 0x2000, ar_value = 0, ar_status = 0, ar_addr_msb = 0,
       ar_md5_0 = 0, ar_md5_1 = 0, ar_md5_2 = 0, ar_md5_3 = 0\<rparr>,
     ac_atc = [\<lparr>rg_virt = 0x1000, rg_phys = 0x5000, rg_length = SZ_4K, rg_attr = 2\<rparr>], ac_events = []\<rparr>, 0 :: nat) = Some (set_status R_STATUS_DONE (\<lparr>ac_regs = \<lparr>ar_addr_lsb = 0x1000, ar_len = 0x2000, ar_value = 0, ar_status = 0, ar_addr_msb = 0,
       ar_md5_0 = 0, ar_md5_1 = 0, ar_md5_2 = 0, ar_md5_3 = 0\<rparr>,
     ac_atc = [\<lparr>rg_virt = 0x1000, rg_phys = 0x5000, rg_length = SZ_4K, rg_attr = 2\<rparr>], ac_events = []\<rparr>\<lparr>ac_atc := ac_atc (\<lparr>ac_regs = \<lparr>ar_addr_lsb = 0x1000, ar_len = 0x2000, ar_value = 0, ar_status = 0, ar_addr_msb = 0,
       ar_md5_0 = 0, ar_md5_1 = 0, ar_md5_2 = 0, ar_md5_3 = 0\<rparr>,
     ac_atc = [\<lparr>rg_virt = 0x1000, rg_phys = 0x5000, rg_length = SZ_4K, rg_attr = 2\<rparr>], ac_events = []\<rparr>) @ new\<rparr>), w') \<and>
     atc_contains (ac_atc (\<lparr>ac_regs = \<lparr>ar_addr_lsb = 0x1000, ar_len = 0x2000, ar_value = 0, ar_status = 0, ar_addr_msb = 0,
       ar_md5_0 = 0, ar_md5_1 = 0, ar_md5_2 = 0, ar_md5_3 = 0\<rparr>,
     ac_atc = [\<lparr>rg_virt = 0x1000, rg_phys = 0x5000, rg_length = SZ_4K, rg_attr = 2\<rparr>], ac_events = []\<rparr>) @ new) 0x2fff"
proof -
  let ?ats = "\<lambda>v at n. (\<lparr>ar_resp = TLM_OK_RESPONSE, ar_result_ok = True, ar_addr = 0x7000, ar_length = SZ_4K, ar_attr = at\<rparr>, n + (1 :: nat))"
  let ?s = "\<lparr>ac_regs = \<lparr>ar_addr_lsb = 0x1000, ar_len = 0x2000, ar_value = 0, ar_status = 0, ar_addr_msb = 0,
       ar_md5_0 = 0, ar_md5_1 = 0, ar_md5_2 = 0, ar_md5_3 = 0\<rparr>,
     ac_atc = [\<lparr>rg_virt = 0x1000, rg_phys = 0x5000, rg_length = SZ_4K, rg_attr = 2\<rparr>], ac_events = []\<rparr>"
  have a: "page_agent ?ats" by (simp add: page_agent_def)
  have v: "0x1000 = acc_virt_addr (ac_regs ?s)" by (simp add: acc_virt_addr_def)
  have n: "0x2000 = unat (ar_len (ac_regs ?s))" by simp
  have p: "\<forall>r \<in> set (ac_atc ?s). page_region r" using example_page by simp
  from ats_req_run_covers [OF a p v n, of "\<lparr>ATTR_EXEC = 1, ATTR_READ = 2, ATTR_WRITE = 4, ATTR_PHYS_ADDR = 8\<rparr>" 0]
  obtain new w' where nw: "ats_req_run \<lparr>ATTR_EXEC = 1, ATTR_READ = 2, ATTR_WRITE = 4, ATTR_PHYS_ADDR = 8\<rparr> ?ats (?s, 0) =
      Some (set_status R_STATUS_DONE (?s\<lparr>ac_atc := ac_atc ?s @ new\<rparr>), w')"
    "\<forall>a. 0x1000 \<le> unat a \<and> unat a < 0x3000 \<longrightarrow> atc_contains (ac_atc ?s @ new) a"
    by auto
  from nw(2) have "atc_contains (ac_atc ?s @ new) 0x2fff" by (rule allE [of _ "0x2fff"]) simp
  with nw(1) show ?thesis by blast
qed

end
