(* ===== verification/Demo_Dma.thy ===== *)
theory Demo_Dma
  imports Memory
begin

text \<open>
  The demonstration DMA of \<open>demo-dma.h\<close> and \<open>demo-dma.cc\<close>: eight 32-bit registers, a register
  port, and a thread that copies up to 32 bytes per burst through the initiator socket.  The
  register file is the array \<open>u32[8]\<close> of the union; the fields are its first six elements.
\<close>

section \<open>State\<close>

abbreviation (input) R_DST_ADDR :: nat where "R_DST_ADDR \<equiv> 0"
abbreviation (input) R_SRC_ADDR :: nat where "R_SRC_ADDR \<equiv> 1"
abbreviation (input) R_LEN :: nat where "R_LEN \<equiv> 2"
abbreviation (input) R_CTRL :: nat where "R_CTRL \<equiv> 3"
abbreviation (input) R_BYTE_EN :: nat where "R_BYTE_EN \<equiv> 4"
abbreviation (input) R_ERROR_RESP :: nat where "R_ERROR_RESP \<equiv> 5"

definition DEMODMA_CTRL_RUN :: u32 where "DEMODMA_CTRL_RUN = 1"
definition DEMODMA_CTRL_DONE :: u32 where "DEMODMA_CTRL_DONE = 2"

fun demodma_resp :: "tlm_response \<Rightarrow> u32" where
  "demodma_resp TLM_OK_RESPONSE = 0"
| "demodma_resp TLM_ADDRESS_ERROR_RESPONSE = 2"
| "demodma_resp _ = 1"

text \<open>
  \<open>dd_wake\<close>: the time until the notification of \<open>ev_dma_copy\<close>, if one is pending; \<open>dd_buf\<close>: the
  32-byte buffer of the thread, which it never clears.
\<close>

record demodma =
  dd_u32 :: "u32 list"
  dd_irq :: bool
  dd_wake :: "sc_time option"
  dd_buf :: "u8 list"

definition demodma_new :: "u8 list \<Rightarrow> demodma" where
  "demodma_new raw_buf = \<lparr>dd_u32 = replicate 8 0, dd_irq = False, dd_wake = None, dd_buf = raw_buf\<rparr>"

definition dd_reg :: "nat \<Rightarrow> demodma \<Rightarrow> u32" where
  "dd_reg i s = dd_u32 s ! i"

definition dd_set :: "nat \<Rightarrow> u32 \<Rightarrow> demodma \<Rightarrow> demodma" where
  "dd_set i v s = s\<lparr>dd_u32 := (dd_u32 s)[i := v]\<rparr>"

section \<open>Operations\<close>

definition do_dma_trans ::
  "'w target \<Rightarrow> tlm_command \<Rightarrow> u8 list \<Rightarrow> u64 \<Rightarrow> nat \<Rightarrow> demodma \<times> 'w \<Rightarrow> (u8 list \<times> demodma \<times> 'w) res" where
  "do_dma_trans init_socket cmd buf addr len = (\<lambda>(s, w).
     let tr = mk_gp cmd addr buf len;
         be = dd_reg R_BYTE_EN s;
         tr' = (if be \<noteq> 0 then tr\<lparr>gp_byte_en := Some (le_bytes 4 be)\<rparr> else tr)
     in res_bind (init_socket tr' 0 w) (\<lambda>(tr'', _, w').
        Inr (gp_data tr'', dd_set R_ERROR_RESP (demodma_resp (gp_resp tr'')) s, w')))"

definition update_irqs :: "demodma \<Rightarrow> demodma" where
  "update_irqs s = s\<lparr>dd_irq := dd_reg R_CTRL s AND DEMODMA_CTRL_DONE \<noteq> 0\<rparr>"

text \<open>\<open>memcpy(&regs.u32[i], data, len)\<close> with \<open>len \<le> 4\<close>.\<close>

definition poke_reg :: "nat \<Rightarrow> nat \<Rightarrow> u8 list \<Rightarrow> u32 \<Rightarrow> u32" where
  "poke_reg len i data old = le_word (poke len data (le_bytes 4 old))"

definition dd_b_transport :: "'w target \<Rightarrow> (demodma \<times> 'w) target" where
  "dd_b_transport init_socket tr d = (\<lambda>(s, w).
     case reg_access_error tr of
       Some e \<Rightarrow> Inr (tr\<lparr>gp_resp := e\<rparr>, d, s, w)
     | None \<Rightarrow>
         (let addr = unat (drop_bit 2 (gp_addr tr) AND 7); len = gp_len tr in
          case gp_cmd tr of
            TLM_READ_COMMAND \<Rightarrow>
              Inr (tr\<lparr>gp_data := poke len (le_bytes 4 (dd_reg addr s)) (gp_data tr),
                      gp_resp := TLM_OK_RESPONSE\<rparr>, d, s, w)
          | TLM_WRITE_COMMAND \<Rightarrow>
              (let s1 = dd_set addr (poke_reg len addr (gp_data tr) (dd_reg addr s)) s in
               if addr = 3 then
                 res_bind (do_dma_trans init_socket TLM_READ_COMMAND (replicate 4 0)
                             (ucast (dd_reg R_SRC_ADDR s1)) 4 (s1, w)) (\<lambda>(_, s2, w').
                 Inr (tr\<lparr>gp_resp := TLM_OK_RESPONSE\<rparr>, d,
                      s2\<lparr>dd_wake := Some (case dd_wake s2 of None \<Rightarrow> d + SC_US | Some t \<Rightarrow> min t (d + SC_US))\<rparr>, w'))
               else Inr (tr\<lparr>gp_resp := TLM_OK_RESPONSE\<rparr>, d, s1, w))
          | TLM_IGNORE_COMMAND \<Rightarrow> Inr (tr\<lparr>gp_resp := TLM_OK_RESPONSE\<rparr>, d, s, w)))"

text \<open>
  One turn of \<open>do_dma_copy\<close> after its first \<open>wait\<close>: a burst if there is one to do, and the end of the copy.  The
  Boolean of the result says that the turn ends in the delay of one microsecond.
\<close>

definition dd_running :: "demodma \<Rightarrow> bool" where
  "dd_running s \<longleftrightarrow> dd_reg R_CTRL s AND DEMODMA_CTRL_RUN \<noteq> 0"

definition dd_burst :: "'w target \<Rightarrow> demodma \<times> 'w \<Rightarrow> (demodma \<times> 'w) res" where
  "dd_burst init_socket = (\<lambda>(s, w).
     if dd_reg R_LEN s > 0 \<and> dd_running s then
       let tlen = (if dd_reg R_LEN s > 32 then 32 else dd_reg R_LEN s) in
       res_bind (do_dma_trans init_socket TLM_READ_COMMAND (dd_buf s)
                   (ucast (dd_reg R_SRC_ADDR s)) (unat tlen) (s, w)) (\<lambda>(buf1, s1, w1).
       res_bind (do_dma_trans init_socket TLM_WRITE_COMMAND buf1
                   (ucast (dd_reg R_DST_ADDR s1)) (unat tlen) (s1\<lparr>dd_buf := buf1\<rparr>, w1)) (\<lambda>(buf2, s2', w2).
       let s2 = s2'\<lparr>dd_buf := buf2\<rparr>;
           s3 = dd_set R_DST_ADDR (dd_reg R_DST_ADDR s2 + tlen) s2;
           s4 = dd_set R_SRC_ADDR (dd_reg R_SRC_ADDR s3 + tlen) s3;
           s5 = dd_set R_LEN (dd_reg R_LEN s4 - tlen) s4
       in Inr (s5, w2)))
     else Inr (s, w))"

definition dd_copy_turn :: "'w target \<Rightarrow> demodma \<times> 'w \<Rightarrow> (bool \<times> demodma \<times> 'w) res" where
  "dd_copy_turn init_socket sw =
     res_bind (dd_burst init_socket sw) (\<lambda>(s, w).
     if dd_reg R_LEN s = 0 \<and> dd_running s then
       let s1 = dd_set R_CTRL (dd_reg R_CTRL s AND NOT DEMODMA_CTRL_RUN) s;
           s2 = dd_set R_CTRL (dd_reg R_CTRL s1 OR DEMODMA_CTRL_DONE) s1
       in Inr (False, update_irqs s2, w)
     else Inr (True, update_irqs s, w))"

text \<open>
  The thread from the moment it is notified until it waits for the next notification, with at
  most \<open>n\<close> turns: it waits when the run bit is clear at the head of the loop.
\<close>

primrec dd_copy :: "nat \<Rightarrow> 'w target \<Rightarrow> demodma \<times> 'w \<Rightarrow> (demodma \<times> 'w) res option" where
  "dd_copy 0 init_socket sw = None"
| "dd_copy (Suc n) init_socket sw =
     (case dd_copy_turn init_socket sw of
        Inl e \<Rightarrow> Some (Inl e)
      | Inr (_, s, w) \<Rightarrow> if dd_running s then dd_copy n init_socket (s, w) else Some (Inr (s, w)))"

section \<open>The register file\<close>

definition dd_inv :: "demodma \<Rightarrow> bool" where
  "dd_inv s \<longleftrightarrow> length (dd_u32 s) = 8 \<and> length (dd_buf s) = 32"

lemma dd_inv_new: "length raw_buf = 32 \<Longrightarrow> dd_inv (demodma_new raw_buf)"
  by (simp add: dd_inv_def demodma_new_def)

lemma dd_inv_set [simp]: "dd_inv (dd_set i v s) = dd_inv s"
  by (simp add: dd_inv_def dd_set_def)

lemma dd_reg_set [simp]:
  "dd_inv s \<Longrightarrow> i < 8 \<Longrightarrow> dd_reg j (dd_set i v s) = (if i = j then v else dd_reg j s)"
  by (simp add: dd_reg_def dd_set_def dd_inv_def)

lemma dd_set_same: "dd_set i v (dd_set i x s) = dd_set i v s"
  by (simp add: dd_set_def)

lemma dd_inv_irq [simp]: "dd_inv (update_irqs s) = dd_inv s"
  by (simp add: dd_inv_def update_irqs_def)

lemma dd_reg_irq [simp]: "dd_reg i (update_irqs s) = dd_reg i s"
  by (simp add: dd_reg_def update_irqs_def)

lemma dd_buf_simps [simp]:
  "dd_reg i (s\<lparr>dd_buf := b\<rparr>) = dd_reg i s" "dd_buf (dd_set i v s) = dd_buf s"
  "dd_inv s \<Longrightarrow> length b = 32 \<Longrightarrow> dd_inv (s\<lparr>dd_buf := b\<rparr>)" "dd_buf (update_irqs s) = dd_buf s"
  by (simp_all add: dd_reg_def dd_set_def dd_inv_def update_irqs_def)

lemma reg_index_bound: "unat (drop_bit 2 (a :: u64) AND 7) < 8"
proof -
  have seven: "(7 :: u64) = mask 3" by (simp add: mask_eq_exp_minus_1)
  show ?thesis
    unfolding seven take_bit_eq_mask [symmetric] unsigned_take_bit_eq by (simp add: take_bit_eq_mod)
qed

text \<open>The register port keeps the contract of a blocking target.\<close>

lemma dd_frame:
  assumes "gp_ok tr" "dd_b_transport init_socket tr d sw = Inr (tr', d', sw')"
  shows "gp_frame tr tr' \<and> d' = d \<and> (gp_cmd tr \<noteq> TLM_READ_COMMAND \<longrightarrow> gp_data tr' = gp_data tr)"
proof -
  obtain s w where sw: "sw = (s, w)" by force
  show ?thesis
  proof (cases "reg_access_error tr")
    case None
    note len = reg_access_error_None [OF None]
    with None assms show ?thesis
      by (auto simp: sw dd_b_transport_def Let_def gp_ok_def res_bind_eq_Inr split: tlm_command.splits if_splits)
  next
    case (Some e)
    with assms show ?thesis by (auto simp: sw dd_b_transport_def)
  qed
qed

interpretation demo_port: tlm_target "dd_b_transport init_socket" for init_socket
  by unfold_locales (metis dd_frame tlm_command.distinct(1))+

section \<open>The copy as a function of memories\<close>

text \<open>What the bursts do to a memory: 32 bytes at a time, read before write.\<close>

function chunk_copy :: "nat \<Rightarrow> bytes_memory \<Rightarrow> u64 \<Rightarrow> u64 \<Rightarrow> nat \<Rightarrow> bytes_memory" where
  "chunk_copy k m dst src n =
     (if n = 0 \<or> k = 0 then m
      else let t = min n k in
        chunk_copy k (mem_write m dst (mem_read m src t)) (dst + of_nat t) (src + of_nat t) (n - t))"
  by pat_completeness auto
termination by (relation "measure (\<lambda>(k, m, dst, src, n). n)") auto

declare chunk_copy.simps [simp del]

lemma chunk_copy_small: "0 < k \<Longrightarrow> n \<le> k \<Longrightarrow> chunk_copy k m dst src n = mem_write m dst (mem_read m src n)"
  by (cases "n = 0") (simp_all add: chunk_copy.simps [of k m dst src n] chunk_copy.simps [of k _ _ _ 0] Let_def)

lemma chunk_copy_apart:
  assumes "0 < k" "apart dst n src n" "unat dst + n < 2 ^ 64" "unat src + n < 2 ^ 64"
  shows "chunk_copy k m dst src n = mem_write m dst (mem_read m src n)"
  using assms(2-4)
proof (induction n arbitrary: m dst src rule: less_induct)
  case (less n)
  show ?case
  proof (cases "n = 0")
    case True
    then show ?thesis by (simp add: chunk_copy.simps)
  next
    case False
    let ?t = "min n k"
    have t: "0 < ?t" "?t \<le> n" using False assms(1) by auto
    let ?m = "mem_write m dst (mem_read m src ?t)"
    have u: "unat (dst + of_nat ?t) = unat dst + ?t" "unat (src + of_nat ?t) = unat src + ?t"
      using less.prems t by (auto intro!: unat_add_of_nat)
    have "chunk_copy k m dst src n = chunk_copy k ?m (dst + of_nat ?t) (src + of_nat ?t) (n - ?t)"
      using False assms(1) by (subst chunk_copy.simps) (simp add: Let_def)
    also have "\<dots> = mem_write ?m (dst + of_nat ?t) (mem_read ?m (src + of_nat ?t) (n - ?t))"
      by (rule less.IH) (use t less.prems u in \<open>auto simp: apart_def\<close>)
    also have "mem_read ?m (src + of_nat ?t) (n - ?t) = mem_read m (src + of_nat ?t) (n - ?t)"
      by (rule mem_read_apart) (use t less.prems u in \<open>auto simp: apart_def\<close>)
    also have "mem_write ?m (dst + of_nat ?t) (mem_read m (src + of_nat ?t) (n - ?t)) =
        mem_write m dst (mem_read m src ?t @ mem_read m (src + of_nat ?t) (n - ?t))"
      using mem_write_append [of dst "mem_read m src ?t" "mem_read m (src + of_nat ?t) (n - ?t)" m] less.prems t
      by simp
    also have "mem_read m src ?t @ mem_read m (src + of_nat ?t) (n - ?t) = mem_read m src n"
      using mem_read_append [of m src ?t "n - ?t"] t by simp
    finally show ?thesis .
  qed
qed

text \<open>A turn on a memory without byte enables.\<close>

lemma do_dma_trans_memory:
  assumes "memory_target init" "dd_reg R_BYTE_EN s = 0"
  shows "do_dma_trans init TLM_READ_COMMAND buf a n (s, m) =
      Inr (poke n (mem_read m a n) buf, dd_set R_ERROR_RESP 0 s, m)"
    and "do_dma_trans init TLM_WRITE_COMMAND buf a n (s, m) =
      Inr (buf, dd_set R_ERROR_RESP 0 s, mem_write m a (take n buf))"
  using assms by (simp_all add: do_dma_trans_def Let_def memory_target_def reads_memory_def)

lemma run_bits:
  "(c AND NOT DEMODMA_CTRL_RUN OR DEMODMA_CTRL_DONE) AND DEMODMA_CTRL_RUN = 0"
  "(c AND NOT DEMODMA_CTRL_RUN OR DEMODMA_CTRL_DONE) AND DEMODMA_CTRL_DONE = DEMODMA_CTRL_DONE"
  unfolding DEMODMA_CTRL_RUN_def DEMODMA_CTRL_DONE_def
  by (rule bit_word_eqI, auto simp: bit_simps)+

lemma dd_copy_turn_memory:
  assumes "memory_target init" "dd_inv s" "dd_reg R_BYTE_EN s = 0" "dd_running s"
  defines "t \<equiv> min (unat (dd_reg R_LEN s)) 32"
  shows "\<exists>s'. dd_copy_turn init (s, m) =
      Inr (dd_reg R_LEN s' \<noteq> 0, s',
           mem_write m (ucast (dd_reg R_DST_ADDR s)) (mem_read m (ucast (dd_reg R_SRC_ADDR s)) t)) \<and>
    dd_inv s' \<and> dd_reg R_BYTE_EN s' = 0 \<and>
    dd_reg R_DST_ADDR s' = dd_reg R_DST_ADDR s + of_nat t \<and>
    dd_reg R_SRC_ADDR s' = dd_reg R_SRC_ADDR s + of_nat t \<and>
    dd_reg R_LEN s' = dd_reg R_LEN s - of_nat t \<and>
    (if dd_reg R_LEN s' = 0
     then dd_reg R_CTRL s' = dd_reg R_CTRL s AND NOT DEMODMA_CTRL_RUN OR DEMODMA_CTRL_DONE \<and> dd_irq s'
     else dd_reg R_CTRL s' = dd_reg R_CTRL s)"
proof (cases "dd_reg R_LEN s = 0")
  case True
  then have t: "t = 0" by (simp add: t_def)
  let ?c = "dd_reg R_CTRL s AND NOT DEMODMA_CTRL_RUN OR DEMODMA_CTRL_DONE"
  let ?s = "update_irqs (dd_set R_CTRL ?c (dd_set R_CTRL (dd_reg R_CTRL s AND NOT DEMODMA_CTRL_RUN) s))"
  have "dd_copy_turn init (s, m) = Inr (False, ?s, m)"
    using True assms(2,4) by (simp add: dd_copy_turn_def dd_burst_def Let_def)
  moreover have "dd_irq ?s"
    using assms(2) run_bits(2) [of "dd_reg R_CTRL s"] by (simp add: update_irqs_def DEMODMA_CTRL_DONE_def)
  ultimately show ?thesis using True t assms(2,3) by (intro exI [of _ ?s]) simp
next
  case False
  let ?len = "dd_reg R_LEN s" and ?src = "dd_reg R_SRC_ADDR s" and ?dst = "dd_reg R_DST_ADDR s"
  let ?tl = "if ?len > 32 then 32 else ?len"
  have t: "unat ?tl = t" "of_nat t = ?tl" by (auto simp: t_def min_def word_less_nat_alt)
  let ?b = "poke t (mem_read m (ucast ?src) t) (dd_buf s)"
  have b: "length ?b = 32" "take t ?b = mem_read m (ucast ?src) t"
    using assms(2) by (simp_all add: t_def dd_inv_def)
  let ?s2 = "(dd_set R_ERROR_RESP 0 ((dd_set R_ERROR_RESP 0 s)\<lparr>dd_buf := ?b\<rparr>))\<lparr>dd_buf := ?b\<rparr>"
  let ?s5 = "dd_set R_LEN (?len - ?tl) (dd_set R_SRC_ADDR (?src + ?tl) (dd_set R_DST_ADDR (?dst + ?tl) ?s2))"
  let ?m = "mem_write m (ucast ?dst) (mem_read m (ucast ?src) t)"
  have inv: "dd_inv ?s2" "dd_inv ?s5" using assms(2) b(1) by simp_all
  have pos: "?len > 0" using False by (simp add: word_neq_0_conv)
  have burst: "dd_burst init (s, m) = Inr (?s5, ?m)"
    using pos assms(2-4) t b inv(1)
    by (simp add: dd_burst_def Let_def do_dma_trans_memory [OF assms(1)] del: of_nat_unat split del: if_split)
  have regs: "dd_reg R_CTRL ?s5 = dd_reg R_CTRL s" "dd_reg R_LEN ?s5 = ?len - ?tl" "dd_reg R_BYTE_EN ?s5 = 0"
    "dd_reg R_SRC_ADDR ?s5 = ?src + ?tl" "dd_reg R_DST_ADDR ?s5 = ?dst + ?tl"
    using assms(2,3) b(1) by simp_all
  then have run: "dd_running ?s5" using assms(4) by (simp add: dd_running_def)
  show ?thesis
  proof (cases "?len - ?tl = 0")
    case True
    let ?c = "dd_reg R_CTRL s AND NOT DEMODMA_CTRL_RUN OR DEMODMA_CTRL_DONE"
    let ?s' = "update_irqs (dd_set R_CTRL ?c (dd_set R_CTRL (dd_reg R_CTRL s AND NOT DEMODMA_CTRL_RUN) ?s5))"
    have "dd_copy_turn init (s, m) = Inr (False, ?s', ?m)"
      using burst regs run inv(2) True by (simp add: dd_copy_turn_def Let_def split del: if_split)
    moreover have "dd_irq ?s'"
      using inv(2) run_bits(2) [of "dd_reg R_CTRL s"] by (simp add: update_irqs_def DEMODMA_CTRL_DONE_def split del: if_split)
    moreover have "dd_reg R_CTRL ?s' = ?c" "dd_reg R_LEN ?s' = 0" "dd_reg R_BYTE_EN ?s' = 0"
      "dd_reg R_SRC_ADDR ?s' = ?src + ?tl" "dd_reg R_DST_ADDR ?s' = ?dst + ?tl" "dd_inv ?s'"
      using inv(2) regs True by (simp_all split del: if_split)
    ultimately show ?thesis using t True by (intro exI [of _ ?s']) (simp split del: if_split)
  next
    case ne: False
    have "dd_copy_turn init (s, m) = Inr (True, update_irqs ?s5, ?m)"
      using burst regs run inv(2) ne by (simp add: dd_copy_turn_def Let_def split del: if_split)
    moreover have "dd_inv (update_irqs ?s5)" using inv(2) by simp
    ultimately show ?thesis
      using t ne regs by (intro exI [of _ "update_irqs ?s5"]) (simp split del: if_split)
  qed
qed

lemma ucast_add_no_wrap:
  assumes "unat (a :: u32) + t < 2 ^ 32"
  shows "(ucast (a + of_nat t) :: u64) = ucast a + of_nat t" "unat (a + of_nat t) = unat a + t"
proof -
  show u: "unat (a + of_nat t) = unat a + t"
    using assms by (simp add: unat_word_ariths unat_of_nat)
  have "unat (ucast (a + of_nat t) :: u64) = unat a + t"
    using u by (simp add: unat_ucast32)
  moreover have "unat (ucast a + of_nat t :: u64) = unat a + t"
    using assms by (simp add: unat_add_of_nat unat_ucast32)
  ultimately show "(ucast (a + of_nat t) :: u64) = ucast a + of_nat t" by (simp add: word_unat_eq_iff)
qed

lemma dd_copy_chunks:
  assumes "memory_target init" "dd_inv s" "dd_reg R_BYTE_EN s = 0" "dd_running s"
    and "unat (dd_reg R_LEN s) \<le> 32 * Suc n"
    and "unat (dd_reg R_DST_ADDR s) + unat (dd_reg R_LEN s) < 2 ^ 32"
    and "unat (dd_reg R_SRC_ADDR s) + unat (dd_reg R_LEN s) < 2 ^ 32"
  shows "\<exists>s'. dd_copy (Suc n) init (s, m) = Some (Inr (s', chunk_copy 32 m (ucast (dd_reg R_DST_ADDR s))
        (ucast (dd_reg R_SRC_ADDR s)) (unat (dd_reg R_LEN s)))) \<and>
     dd_inv s' \<and> \<not> dd_running s' \<and> dd_irq s' \<and> dd_reg R_LEN s' = 0 \<and>
     dd_reg R_DST_ADDR s' = dd_reg R_DST_ADDR s + dd_reg R_LEN s \<and>
     dd_reg R_SRC_ADDR s' = dd_reg R_SRC_ADDR s + dd_reg R_LEN s"
  using assms(2-7)
proof (induction n arbitrary: s m)
  case 0
  let ?t = "min (unat (dd_reg R_LEN s)) 32" and ?d = "ucast (dd_reg R_DST_ADDR s) :: u64"
    and ?c = "ucast (dd_reg R_SRC_ADDR s) :: u64"
  have t: "?t = unat (dd_reg R_LEN s)" using "0.prems"(4) by simp
  obtain s' where s': "dd_copy_turn init (s, m) = Inr (dd_reg R_LEN s' \<noteq> 0, s', mem_write m ?d (mem_read m ?c ?t))"
    "dd_inv s'" "dd_reg R_DST_ADDR s' = dd_reg R_DST_ADDR s + of_nat ?t"
    "dd_reg R_SRC_ADDR s' = dd_reg R_SRC_ADDR s + of_nat ?t" "dd_reg R_LEN s' = dd_reg R_LEN s - of_nat ?t"
    "if dd_reg R_LEN s' = 0
     then dd_reg R_CTRL s' = dd_reg R_CTRL s AND NOT DEMODMA_CTRL_RUN OR DEMODMA_CTRL_DONE \<and> dd_irq s'
     else dd_reg R_CTRL s' = dd_reg R_CTRL s"
    using dd_copy_turn_memory [OF assms(1) "0.prems"(1-3), of m] by blast
  have z: "dd_reg R_LEN s' = 0" using s'(5) t by simp
  with s'(6) have nr: "\<not> dd_running s'" "dd_irq s'" by (simp_all add: dd_running_def run_bits)
  have "chunk_copy 32 m ?d ?c (unat (dd_reg R_LEN s)) = mem_write m ?d (mem_read m ?c ?t)"
    unfolding t by (rule chunk_copy_small) (use t in simp_all)
  with s' z nr t show ?case by (intro exI [of _ s']) simp
next
  case (Suc n)
  let ?len = "unat (dd_reg R_LEN s)"
  let ?t = "min ?len 32" and ?d = "ucast (dd_reg R_DST_ADDR s) :: u64" and ?c = "ucast (dd_reg R_SRC_ADDR s) :: u64"
  let ?m = "mem_write m ?d (mem_read m ?c ?t)"
  obtain s' where s': "dd_copy_turn init (s, m) = Inr (dd_reg R_LEN s' \<noteq> 0, s', ?m)"
    "dd_inv s'" "dd_reg R_BYTE_EN s' = 0" "dd_reg R_DST_ADDR s' = dd_reg R_DST_ADDR s + of_nat ?t"
    "dd_reg R_SRC_ADDR s' = dd_reg R_SRC_ADDR s + of_nat ?t" "dd_reg R_LEN s' = dd_reg R_LEN s - of_nat ?t"
    "if dd_reg R_LEN s' = 0
     then dd_reg R_CTRL s' = dd_reg R_CTRL s AND NOT DEMODMA_CTRL_RUN OR DEMODMA_CTRL_DONE \<and> dd_irq s'
     else dd_reg R_CTRL s' = dd_reg R_CTRL s"
    using dd_copy_turn_memory [OF assms(1) Suc.prems(1-3), of m] by blast
  have ut: "unat (of_nat ?t :: u32) = ?t" by (simp add: unat_of_nat)
  have ul: "unat (dd_reg R_LEN s') = ?len - ?t"
    unfolding s'(6) using ut by (subst unat_sub) (simp_all add: word_le_nat_alt)
  show ?case
  proof (cases "dd_reg R_LEN s' = 0")
    case True
    with s'(7) have nr: "\<not> dd_running s'" "dd_irq s'" by (simp_all add: dd_running_def run_bits)
    have le: "?len \<le> 32" using ul True by simp
    then have "chunk_copy 32 m ?d ?c ?len = ?m" by (simp add: chunk_copy_small)
    with s' nr True le show ?thesis by (intro exI [of _ s']) simp
  next
    case False
    with s'(7) Suc.prems(3) have run: "dd_running s'" by (simp add: dd_running_def)
    have gt: "32 < ?len" using False ul by (metis diff_is_0_eq min.absorb1 not_less unat_eq_0 order_refl)
    then have t: "?t = 32" by simp
    have nw: "unat (dd_reg R_DST_ADDR s) + ?t < 2 ^ 32" "unat (dd_reg R_SRC_ADDR s) + ?t < 2 ^ 32"
      using Suc.prems(5,6) gt by simp_all
    have u: "unat (dd_reg R_DST_ADDR s') = unat (dd_reg R_DST_ADDR s) + ?t"
      "(ucast (dd_reg R_DST_ADDR s') :: u64) = ?d + of_nat ?t"
      "unat (dd_reg R_SRC_ADDR s') = unat (dd_reg R_SRC_ADDR s) + ?t"
      "(ucast (dd_reg R_SRC_ADDR s') :: u64) = ?c + of_nat ?t"
      by (simp_all only: s'(4,5) ucast_add_no_wrap [OF nw(1)] ucast_add_no_wrap [OF nw(2)])
    have pre: "unat (dd_reg R_LEN s') \<le> 32 * Suc n"
      "unat (dd_reg R_DST_ADDR s') + unat (dd_reg R_LEN s') < 2 ^ 32"
      "unat (dd_reg R_SRC_ADDR s') + unat (dd_reg R_LEN s') < 2 ^ 32"
      using Suc.prems(4-6) ul u(1,3) gt by simp_all
    obtain s'' where s'': "dd_copy (Suc n) init (s', ?m) = Some (Inr (s'', chunk_copy 32 ?m
        (?d + of_nat ?t) (?c + of_nat ?t) (?len - ?t)))"
      "dd_inv s''" "\<not> dd_running s''" "dd_irq s''" "dd_reg R_LEN s'' = 0"
      "dd_reg R_DST_ADDR s'' = dd_reg R_DST_ADDR s' + dd_reg R_LEN s'"
      "dd_reg R_SRC_ADDR s'' = dd_reg R_SRC_ADDR s' + dd_reg R_LEN s'"
      using Suc.IH [OF s'(2,3) run pre, of ?m] unfolding u(2,4) ul by blast
    have "chunk_copy 32 m ?d ?c ?len = chunk_copy 32 ?m (?d + of_nat ?t) (?c + of_nat ?t) (?len - ?t)"
      using gt by (subst chunk_copy.simps) (simp add: Let_def)
    moreover have "dd_copy (Suc (Suc n)) init (s, m) = dd_copy (Suc n) init (s', ?m)"
      using s'(1) run by (simp only: dd_copy.simps) simp
    ultimately show ?thesis
      using s'' s'(4-6) by (intro exI [of _ s'']) (simp del: dd_copy.simps)
  qed
qed

section \<open>Properties of the copy\<close>

text \<open>
  Property C11: started with the run bit and no byte enables on a memory, the DMA finishes after
  at most one turn per 32 bytes; the memory is what copying 32 bytes at a time makes of it,
  and for ranges that do not overlap that is the source range copied to the destination and
  nothing else.  The length is then 0, both addresses are past their ranges, the
  run bit is clear and the interrupt is raised.
\<close>

theorem dma_copies_memory:
  assumes "memory_target init" "dd_inv s" "dd_reg R_BYTE_EN s = 0" "dd_running s"
    and "n = unat (dd_reg R_LEN s)" "n \<le> 32 * Suc turns"
    and "dst = ucast (dd_reg R_DST_ADDR s)" "src = ucast (dd_reg R_SRC_ADDR s)"
    and "unat dst + n < 2 ^ 32" "unat src + n < 2 ^ 32"
  shows "\<exists>s' m'. dd_copy (Suc turns) init (s, m) = Some (Inr (s', m')) \<and>
     m' = chunk_copy 32 m dst src n \<and> (apart dst n src n \<longrightarrow> m' = mem_write m dst (mem_read m src n)) \<and>
     \<not> dd_running s' \<and> dd_irq s' \<and> dd_reg R_LEN s' = 0 \<and>
     dd_reg R_DST_ADDR s' = dd_reg R_DST_ADDR s + dd_reg R_LEN s \<and>
     dd_reg R_SRC_ADDR s' = dd_reg R_SRC_ADDR s + dd_reg R_LEN s"
proof -
  have u: "unat dst = unat (dd_reg R_DST_ADDR s)" "unat src = unat (dd_reg R_SRC_ADDR s)"
    using assms(7,8) by (simp_all add: unat_ucast32)
  then have "apart dst n src n \<Longrightarrow> chunk_copy 32 m dst src n = mem_write m dst (mem_read m src n)"
    using assms(9,10) by (intro chunk_copy_apart) simp_all
  with dd_copy_chunks [OF assms(1-4), of turns m] assms(5-10) u show ?thesis by auto
qed

theorem dma_copies_memory_witness:
  "\<exists>s'. dd_copy 2 (\<lambda>tr d m. if gp_cmd tr = TLM_READ_COMMAND
        then Inr (tr\<lparr>gp_data := poke (gp_len tr) (mem_read m (gp_addr tr) (gp_len tr)) (gp_data tr),
                     gp_resp := TLM_OK_RESPONSE\<rparr>, d, m)
        else Inr (tr\<lparr>gp_resp := TLM_OK_RESPONSE\<rparr>, d, mem_write m (gp_addr tr) (take (gp_len tr) (gp_data tr))))
      (\<lparr>dd_u32 = [0x1000, 0x2000, 40, 1, 0, 0, 0, 0], dd_irq = False, dd_wake = None, dd_buf = replicate 32 0\<rparr>, \<lambda>a. ucast a) =
    Some (Inr (s', mem_write (\<lambda>a. ucast a) 0x1000 (mem_read (\<lambda>a. ucast a) 0x2000 40))) \<and> dd_irq s'"
proof -
  let ?init = "\<lambda>tr d m. if gp_cmd tr = TLM_READ_COMMAND
        then Inr (tr\<lparr>gp_data := poke (gp_len tr) (mem_read m (gp_addr tr) (gp_len tr)) (gp_data tr),
                     gp_resp := TLM_OK_RESPONSE\<rparr>, d, m)
        else Inr (tr\<lparr>gp_resp := TLM_OK_RESPONSE\<rparr>, d, mem_write m (gp_addr tr) (take (gp_len tr) (gp_data tr)))"
  let ?s = "\<lparr>dd_u32 = [0x1000, 0x2000, 40, 1, 0, 0, 0, 0], dd_irq = False, dd_wake = None, dd_buf = replicate 32 0\<rparr>"
  have mem: "memory_target ?init" by (simp add: memory_target_def reads_memory_def)
  have s: "dd_inv ?s" "dd_reg R_BYTE_EN ?s = 0" "dd_running ?s" "40 = unat (dd_reg R_LEN ?s)"
    "0x1000 = ucast (dd_reg R_DST_ADDR ?s)" "0x2000 = ucast (dd_reg R_SRC_ADDR ?s)"
    by (simp_all add: dd_inv_def dd_reg_def dd_running_def DEMODMA_CTRL_RUN_def)
  have "(40 :: nat) \<le> 32 * Suc 1" "unat (0x1000 :: u64) + 40 < 2 ^ 32" "unat (0x2000 :: u64) + 40 < 2 ^ 32"
    "apart 0x1000 40 0x2000 40" by (simp_all add: apart_def)
  with dma_copies_memory [OF mem s(1-4) _ s(5,6), of 1 "\<lambda>a. ucast a"] show ?thesis
    by (auto simp: numeral_2_eq_2 simp del: dd_copy.simps)
qed

end
