(* ===== verification/Interleaving.thy ===== *)
theory Interleaving
  imports Prelude
begin

text \<open>
  Runs of a system whose processes take turns: \<open>step a st\<close> is what the action \<open>a\<close> makes of the
  state, or how it stops the simulation; the order of the actions is the scheduler's and the
  environment's.
\<close>

text \<open>All states that a set of actions leads to, in any order; a failure stops the program.\<close>

inductive reach :: "('a \<Rightarrow> 's \<Rightarrow> 's res) \<Rightarrow> ('a \<Rightarrow> bool) \<Rightarrow> 's \<Rightarrow> 's res \<Rightarrow> bool" for step A st where
  reach_refl: "reach step A st (Inr st)"
| reach_step: "reach step A st (Inr st1) \<Longrightarrow> A a \<Longrightarrow> reach step A st (step a st1)"

text \<open>The same along a given sequence of actions.\<close>

primrec run_acts :: "('a \<Rightarrow> 's \<Rightarrow> 's res) \<Rightarrow> 'a list \<Rightarrow> 's \<Rightarrow> 's res" where
  "run_acts step [] st = Inr st"
| "run_acts step (a # as) st = res_bind (step a st) (run_acts step as)"

lemma run_acts_append: "run_acts step (as @ bs) st = res_bind (run_acts step as st) (run_acts step bs)"
proof (induction as arbitrary: st)
  case (Cons a as)
  then show ?case by (cases "step a st") simp_all
qed simp

lemma reach_trans_run:
  "reach step A st r \<Longrightarrow> \<forall>a \<in> set as. A a \<Longrightarrow> r = Inr st1 \<Longrightarrow> reach step A st (run_acts step as st1)"
proof (induction as arbitrary: r st1)
  case (Cons a as)
  have "reach step A st (step a st1)" using Cons.prems by (auto intro: reach_step)
  then show ?case using Cons.IH Cons.prems(2) by (cases "step a st1") simp_all
qed simp

text \<open>What a sequence of actions leads to is reached.\<close>

lemma run_acts_reach: "\<forall>a \<in> set as. A a \<Longrightarrow> reach step A st (run_acts step as st)"
  by (rule reach_trans_run [OF reach_refl _ refl])

text \<open>The rule for invariants; \<open>I\<close> may also speak of failures.\<close>

lemma reach_invariant:
  assumes "reach step A st r" "I (Inr st)" "\<And>st a. I (Inr st) \<Longrightarrow> A a \<Longrightarrow> I (step a st)"
  shows "I r"
  using assms by (induction rule: reach.induct) auto

text \<open>The same for an invariant of the states only.\<close>

lemma reach_invariant_states:
  assumes "reach step A st (Inr st1)" "I st" "\<And>st a st'. I st \<Longrightarrow> A a \<Longrightarrow> step a st = Inr st' \<Longrightarrow> I st'"
  shows "I st1"
proof -
  have "\<forall>x. r = Inr x \<longrightarrow> I x" if "reach step A st r" for r
    using that by (induction rule: reach.induct) (use assms(2,3) in auto)
  with assms(1) show ?thesis by blast
qed

text \<open>The same for an invariant of the states that also rules out every failure.\<close>

lemma reach_invariant_safe:
  assumes "reach step A st r" "I st" "\<And>st a. I st \<Longrightarrow> A a \<Longrightarrow> \<exists>st'. step a st = Inr st' \<and> I st'"
  shows "\<exists>st'. r = Inr st' \<and> I st'"
  by (rule reach_invariant [OF assms(1)]) (use assms(2,3) in auto)

text \<open>The rule for progress: every action in \<open>P\<close> brings the measure down, no other brings it up.\<close>

lemma run_acts_progress:
  fixes size_left :: "'s \<Rightarrow> nat"
  assumes "\<And>st a. I st \<Longrightarrow> A a \<Longrightarrow> \<exists>st'. step a st = Inr st' \<and> I st' \<and> size_left st' \<le> size_left st - (if P a then 1 else 0)"
    and "I st" "\<forall>a \<in> set as. A a"
  shows "\<exists>st'. run_acts step as st = Inr st' \<and> I st' \<and> size_left st' \<le> size_left st - length (filter P as)"
  using assms(2,3)
proof (induction as arbitrary: st)
  case (Cons a as)
  obtain st1 where st1: "step a st = Inr st1" "I st1" "size_left st1 \<le> size_left st - (if P a then 1 else 0)"
    using assms(1) [of st a] Cons.prems by auto
  obtain st' where "run_acts step as st1 = Inr st'" "I st'" "size_left st' \<le> size_left st1 - length (filter P as)"
    using Cons.IH [OF st1(2)] Cons.prems(2) by auto
  then show ?case using st1 by (intro exI [of _ st']) (auto split: if_splits)
qed simp

end
