(* ===== verification/Dma_Steps.thy ===== *)
theory Dma_Steps
  imports Demo_Dma Interleaving
begin

text \<open>
  The demonstration DMA step by step.  Its thread gives up control at its two waits and inside the blocking
  calls of \<open>do_dma_trans\<close>; the call in the register port is made by whoever writes the control register, so several can be
  under way.  Between two such points only one process runs.
\<close>

section \<open>The thread\<close>

text \<open>
  \<open>Dma_start\<close>: never run, waiting by its static sensitivity; \<open>Dma_started\<close>: notified there.  \<open>Dma_wait\<close> and
  \<open>Dma_awake\<close>: at the \<open>wait\<close> for \<open>ev_dma_copy\<close>, and notified there.  \<open>Dma_read\<close> and \<open>Dma_write\<close>: in a call that has not
  reached the other end, with its length, its address, and whether the payload points to the byte enables;
  \<open>Dma_read_back\<close> and \<open>Dma_written\<close>: the other end has answered.  \<open>Dma_delay\<close>: in the delay of one microsecond.
\<close>

datatype dma_at =
    Dma_start
  | Dma_started
  | Dma_wait
  | Dma_awake
  | Dma_read u32 u64 bool
  | Dma_read_back u32 tlm_response
  | Dma_write u32 u64 bool
  | Dma_written u32 tlm_response
  | Dma_delay

text \<open>The payload points to the register of the byte enables, which is read when the call gets there.\<close>

definition dma_payload :: "tlm_command \<Rightarrow> u8 list \<Rightarrow> u64 \<Rightarrow> nat \<Rightarrow> bool \<Rightarrow> demodma \<Rightarrow> gp" where
  "dma_payload cmd buf addr len be s =
     (mk_gp cmd addr buf len)\<lparr>gp_byte_en := (if be then Some (le_bytes 4 (dd_reg R_BYTE_EN s)) else None)\<rparr>"

text \<open>
  From behind the two transfers of a burst to the next wait.  At the end of the copy the run bit is clear, so the
  head of the loop waits.
\<close>

definition dma_tail :: "demodma \<Rightarrow> demodma \<times> dma_at" where
  "dma_tail s =
     (if dd_reg R_LEN s = 0 \<and> dd_running s then
        let s1 = dd_set R_CTRL (dd_reg R_CTRL s AND NOT DEMODMA_CTRL_RUN) s;
            s2 = dd_set R_CTRL (dd_reg R_CTRL s1 OR DEMODMA_CTRL_DONE) s1
        in (update_irqs s2, Dma_wait)
      else (s, Dma_delay))"

text \<open>From behind the first wait, and from the head of the loop.\<close>

definition dma_turn :: "demodma \<Rightarrow> demodma \<times> dma_at" where
  "dma_turn s =
     (if dd_reg R_LEN s > 0 \<and> dd_running s then
        let tlen = (if dd_reg R_LEN s > 32 then 32 else dd_reg R_LEN s)
        in (s, Dma_read tlen (ucast (dd_reg R_SRC_ADDR s)) (dd_reg R_BYTE_EN s \<noteq> 0))
      else dma_tail s)"

definition dma_head :: "demodma \<Rightarrow> demodma \<times> dma_at" where
  "dma_head s = (if dd_running s then dma_turn s else (s, Dma_wait))"

definition dma_advance :: "u32 \<Rightarrow> demodma \<Rightarrow> demodma" where
  "dma_advance tlen s =
     (let s1 = dd_set R_DST_ADDR (dd_reg R_DST_ADDR s + tlen) s;
          s2 = dd_set R_SRC_ADDR (dd_reg R_SRC_ADDR s1 + tlen) s1
      in dd_set R_LEN (dd_reg R_LEN s2 - tlen) s2)"

fun dma_thread :: "'w target \<Rightarrow> demodma \<times> dma_at \<times> 'w \<Rightarrow> (demodma \<times> dma_at \<times> 'w) res" where
  "dma_thread init (s, Dma_start, w) = Inr (s, Dma_start, w)"
| "dma_thread init (s, Dma_started, w) = (case dma_head s of (s', at) \<Rightarrow> Inr (s', at, w))"
| "dma_thread init (s, Dma_wait, w) = Inr (s, Dma_wait, w)"
| "dma_thread init (s, Dma_awake, w) = (case dma_turn s of (s', at) \<Rightarrow> Inr (s', at, w))"
| "dma_thread init (s, Dma_read tlen addr be, w) =
     res_bind (init (dma_payload TLM_READ_COMMAND (dd_buf s) addr (unat tlen) be s) 0 w)
       (\<lambda>(tr, _, w'). Inr (s\<lparr>dd_buf := gp_data tr\<rparr>, Dma_read_back tlen (gp_resp tr), w'))"
| "dma_thread init (s, Dma_read_back tlen resp, w) =
     (let s1 = dd_set R_ERROR_RESP (demodma_resp resp) s in
      Inr (s1, Dma_write tlen (ucast (dd_reg R_DST_ADDR s1)) (dd_reg R_BYTE_EN s1 \<noteq> 0), w))"
| "dma_thread init (s, Dma_write tlen addr be, w) =
     res_bind (init (dma_payload TLM_WRITE_COMMAND (dd_buf s) addr (unat tlen) be s) 0 w)
       (\<lambda>(tr, _, w'). Inr (s\<lparr>dd_buf := gp_data tr\<rparr>, Dma_written tlen (gp_resp tr), w'))"
| "dma_thread init (s, Dma_written tlen resp, w) =
     (case dma_tail (dma_advance tlen (dd_set R_ERROR_RESP (demodma_resp resp) s)) of (s', at) \<Rightarrow> Inr (s', at, w))"
| "dma_thread init (s, Dma_delay, w) = (case dma_head (update_irqs s) of (s', at) \<Rightarrow> Inr (s', at, w))"

section \<open>The register port\<close>

text \<open>
  A write of the control register makes a call of its own before it notifies the thread: \<open>Spec_read\<close>, with the
  delay of the access, has not reached the other end, \<open>Spec_back\<close> has been answered.
\<close>

datatype port_call = Spec_read u64 bool sc_time | Spec_back tlm_response sc_time

text \<open>The access up to this call; what it returns to the initiator is that of \<open>dd_b_transport\<close>.\<close>

definition dma_port :: "gp \<Rightarrow> sc_time \<Rightarrow> demodma \<Rightarrow> demodma \<times> port_call list" where
  "dma_port tr d s =
     (if reg_access_error tr \<noteq> None \<or> gp_cmd tr \<noteq> TLM_WRITE_COMMAND then (s, [])
      else let addr = unat (drop_bit 2 (gp_addr tr) AND 7);
               s1 = dd_set addr (poke_reg (gp_len tr) addr (gp_data tr) (dd_reg addr s)) s
           in (s1, if addr = 3 then [Spec_read (ucast (dd_reg R_SRC_ADDR s1)) (dd_reg R_BYTE_EN s1 \<noteq> 0) d] else []))"

definition dma_notify :: "sc_time \<Rightarrow> demodma \<Rightarrow> demodma" where
  "dma_notify d s = s\<lparr>dd_wake := Some (case dd_wake s of None \<Rightarrow> d + SC_US | Some t \<Rightarrow> min t (d + SC_US))\<rparr>"

text \<open>The \<open>k\<close>-th of the calls under way goes on.\<close>

definition dma_port_step ::
  "'w target \<Rightarrow> nat \<Rightarrow> demodma \<times> port_call list \<times> 'w \<Rightarrow> (demodma \<times> port_call list \<times> 'w) res" where
  "dma_port_step init k = (\<lambda>(s, calls, w).
     if k < length calls then
       (case calls ! k of
          Spec_read addr be d \<Rightarrow>
            res_bind (init (dma_payload TLM_READ_COMMAND (replicate 4 0) addr 4 be s) 0 w)
              (\<lambda>(tr, _, w'). Inr (s, calls[k := Spec_back (gp_resp tr) d], w'))
        | Spec_back resp d \<Rightarrow>
            Inr (dma_notify d (dd_set R_ERROR_RESP (demodma_resp resp) s), take k calls @ drop (Suc k) calls, w))
     else Inr (s, calls, w))"

section \<open>The whole device\<close>

text \<open>
  An access to the registers, a step of a call in the port, the notification, a step of the thread.  The notification
  reaches the thread only where it waits for it.
\<close>

datatype dma_event = Port gp sc_time | Port_call nat | Notify | Dma_thread

type_synonym 'w dma_state = "demodma \<times> dma_at \<times> port_call list \<times> 'w"

fun dma_act :: "'w target \<Rightarrow> dma_event \<Rightarrow> 'w dma_state \<Rightarrow> 'w dma_state res" where
  "dma_act init (Port tr d) (s, at, calls, w) = (case dma_port tr d s of (s', cs) \<Rightarrow> Inr (s', at, calls @ cs, w))"
| "dma_act init (Port_call k) (s, at, calls, w) =
     res_bind (dma_port_step init k (s, calls, w)) (\<lambda>(s', calls', w'). Inr (s', at, calls', w'))"
| "dma_act init Notify (s, at, calls, w) =
     (if dd_wake s = None then Inr (s, at, calls, w)
      else Inr (s\<lparr>dd_wake := None\<rparr>, case at of Dma_start \<Rightarrow> Dma_started | Dma_wait \<Rightarrow> Dma_awake | _ \<Rightarrow> at, calls, w))"
| "dma_act init Dma_thread (s, at, calls, w) =
     res_bind (dma_thread init (s, at, w)) (\<lambda>(s', at', w'). Inr (s', at', calls, w'))"

text \<open>Undisturbed, the steps of the thread from its wake-up on are a turn of its loop.\<close>

lemma dd_regs8:
  "length (dd_u32 s) = 8 \<Longrightarrow> i < 8 \<Longrightarrow> dd_reg j (dd_set i v s) = (if i = j then v else dd_reg j s)"
  "length (dd_u32 (dd_set i v s)) = length (dd_u32 s)" "dd_irq (dd_set i v s) = dd_irq s" "dd_wake (dd_set i v s) = dd_wake s"
  "dd_irq (update_irqs s) = (dd_reg R_CTRL s AND DEMODMA_CTRL_DONE \<noteq> 0)" "length (dd_u32 (update_irqs s)) = length (dd_u32 s)" "dd_wake (update_irqs s) = dd_wake s"
  by (simp_all add: dd_reg_def dd_set_def update_irqs_def)

lemma dd_set_buf: "(dd_set i v s)\<lparr>dd_buf := b\<rparr> = dd_set i v (s\<lparr>dd_buf := b\<rparr>)"
  by (simp add: dd_set_def)

lemma dma_turn_steps:
  assumes "dd_reg R_LEN s > 0" "dd_running s" "length (dd_u32 s) = 8"
  shows "run_acts (dma_act init) (replicate 5 Dma_thread) (s, Dma_awake, calls, w) =
     res_bind (dd_burst init (s, w)) (\<lambda>(s', w'). case dma_tail s' of (s2, at) \<Rightarrow> Inr (s2, at, calls, w'))"
proof -
  have r: "replicate 5 Dma_thread = [Dma_thread, Dma_thread, Dma_thread, Dma_thread, Dma_thread]" by (simp add: eval_nat_numeral)
  have u: "(mk_gp c a b n)\<lparr>gp_byte_en := None\<rparr> = mk_gp c a b n" for c a b n by (simp add: mk_gp_def)
  show ?thesis
    using assms
    by (simp add: r dma_turn_def dd_burst_def do_dma_trans_def dma_payload_def dma_advance_def Let_def res_bind_assoc split_def
        dd_set_buf u dd_regs8 cong: if_cong)
qed

text \<open>Undisturbed, the steps of an access are the call of the port.\<close>

lemma dma_port_steps:
  "run_acts (dma_act init) [Port tr d, Port_call 0, Port_call 0] (s, at, [], w) =
     res_bind (dd_b_transport init tr d (s, w)) (\<lambda>(_, _, s', w'). Inr (s', at, [], w'))"
proof (cases "reg_access_error tr = None \<and> gp_cmd tr = TLM_WRITE_COMMAND")
  case False
  then show ?thesis
    by (cases "reg_access_error tr"; cases "gp_cmd tr")
      (simp_all add: dma_port_def dma_port_step_def dd_b_transport_def Let_def)
next
  case True
  have u: "(mk_gp c a b n)\<lparr>gp_byte_en := None\<rparr> = mk_gp c a b n" for c a b n by (simp add: mk_gp_def)
  show ?thesis
    using True
    by (simp add: dma_port_def dma_port_step_def dma_notify_def dd_b_transport_def do_dma_trans_def dma_payload_def Let_def
        res_bind_assoc split_def u cong: if_cong)
qed

section \<open>A start is never lost\<close>

text \<open>
  A host that leaves the done bit clear when it writes the control register: of the accesses only the writes of register 3 that the
  port accepts are restricted, and the value they leave in a control register with a clear done bit.
\<close>

definition writes_ctrl :: "gp \<Rightarrow> bool" where
  "writes_ctrl tr \<longleftrightarrow> reg_access_error tr = None \<and> gp_cmd tr = TLM_WRITE_COMMAND \<and> unat (drop_bit 2 (gp_addr tr) AND 7) = R_CTRL"

fun leaves_done :: "dma_event \<Rightarrow> bool" where
  "leaves_done (Port tr d) \<longleftrightarrow> (writes_ctrl tr \<longrightarrow> (\<forall>old. old AND DEMODMA_CTRL_DONE = 0 \<longrightarrow>
     poke_reg (gp_len tr) R_CTRL (gp_data tr) old AND DEMODMA_CTRL_DONE = 0))"
| "leaves_done _ \<longleftrightarrow> True"

definition dd_done :: "demodma \<Rightarrow> bool" where
  "dd_done s \<longleftrightarrow> dd_reg R_CTRL s AND DEMODMA_CTRL_DONE \<noteq> 0"

definition dma_awaits :: "'w dma_state \<Rightarrow> bool" where
  "dma_awaits = (\<lambda>(s, at, calls, w). length (dd_u32 s) = 8 \<and>
     (at = Dma_start \<or> at = Dma_started \<longrightarrow> \<not> dd_done s \<and> \<not> dd_irq s) \<and>
     (at = Dma_start \<or> at = Dma_wait \<longrightarrow> dd_wake s \<noteq> None \<or> calls \<noteq> [] \<or> (\<not> dd_running s \<and> dd_irq s = dd_done s)))"

lemma dd_irq_update [simp]: "dd_irq (update_irqs s) = dd_done s"
  by (simp add: dd_regs8 dd_done_def)

lemma dd_flags [simp]:
  "length (dd_u32 s) = 8 \<Longrightarrow> i < 8 \<Longrightarrow> i \<noteq> 3 \<Longrightarrow> dd_done (dd_set i v s) = dd_done s"
  "length (dd_u32 s) = 8 \<Longrightarrow> i < 8 \<Longrightarrow> i \<noteq> 3 \<Longrightarrow> dd_running (dd_set i v s) = dd_running s"
  "dd_done (update_irqs s) = dd_done s" "dd_running (update_irqs s) = dd_running s"
  "dd_done (s\<lparr>dd_wake := x\<rparr>) = dd_done s" "dd_running (s\<lparr>dd_wake := x\<rparr>) = dd_running s"
  "dd_done (s\<lparr>dd_buf := b\<rparr>) = dd_done s" "dd_running (s\<lparr>dd_buf := b\<rparr>) = dd_running s"
  by (simp_all add: dd_done_def dd_running_def dd_regs8) (simp_all add: dd_reg_def update_irqs_def)

text \<open>What the segments of the thread leave for the next wait.\<close>

lemma dma_tail_awaits:
  assumes "length (dd_u32 s) = 8" "dma_tail s = (s', at)"
  shows "length (dd_u32 s') = 8 \<and> (at = Dma_delay \<or> at = Dma_wait \<and> \<not> dd_running s' \<and> dd_irq s' = dd_done s')"
  using assms run_bits(1) [of "dd_reg R_CTRL s"]
  by (auto simp: dma_tail_def Let_def dd_regs8 dd_running_def split: if_splits)

lemma dma_turn_awaits:
  assumes "length (dd_u32 s) = 8" "dma_turn s = (s', at)"
  shows "length (dd_u32 s') = 8 \<and> at \<noteq> Dma_start \<and> at \<noteq> Dma_started \<and> (at = Dma_wait \<longrightarrow> \<not> dd_running s' \<and> dd_irq s' = dd_done s')"
  using assms dma_tail_awaits [OF assms(1)] by (auto simp: dma_turn_def Let_def split: if_splits)

lemma dma_head_awaits:
  assumes "length (dd_u32 s) = 8" "dd_irq s = dd_done s" "dma_head s = (s', at)"
  shows "length (dd_u32 s') = 8 \<and> at \<noteq> Dma_start \<and> at \<noteq> Dma_started \<and> (at = Dma_wait \<longrightarrow> \<not> dd_running s' \<and> dd_irq s' = dd_done s')"
  using assms dma_turn_awaits [OF assms(1)] by (auto simp: dma_head_def split: if_splits)

lemma dma_port_awaits:
  assumes "dma_port tr d s = (s', cs)" "length (dd_u32 s) = 8"
  shows "length (dd_u32 s') = 8" "dd_wake s' = dd_wake s" "dd_irq s' = dd_irq s"
    "cs = [] \<Longrightarrow> dd_done s' = dd_done s \<and> dd_running s' = dd_running s"
    "leaves_done (Port tr d) \<Longrightarrow> \<not> dd_done s \<Longrightarrow> \<not> dd_done s'"
proof -
  let ?i = "unat (drop_bit 2 (gp_addr tr) AND 7)"
  have i: "?i < 8" by (rule reg_index_bound)
  have s': "s' = s \<or> s' = dd_set ?i (poke_reg (gp_len tr) ?i (gp_data tr) (dd_reg ?i s)) s \<and> (cs = [] \<longrightarrow> ?i \<noteq> 3) \<and>
      (writes_ctrl tr \<longleftrightarrow> ?i = 3)"
    using assms(1) by (auto simp: dma_port_def writes_ctrl_def Let_def split: if_splits)
  then show "length (dd_u32 s') = 8" "dd_wake s' = dd_wake s" "dd_irq s' = dd_irq s" using assms(2) by (auto simp: dd_regs8)
  show "dd_done s' = dd_done s \<and> dd_running s' = dd_running s" if "cs = []" using s' that assms(2) i by auto
  show "\<not> dd_done s'" if "leaves_done (Port tr d)" "\<not> dd_done s"
  proof (cases "?i = 3")
    case True
    then show ?thesis using s' that assms(2) by (auto simp: dd_done_def dd_regs8)
  next
    case False
    then show ?thesis using s' that assms(2) i by auto
  qed
qed

lemma dma_awaits_thread:
  assumes "dma_awaits (s, at, calls, w)" "dma_thread init (s, at, w) = Inr (s', at', w')"
  shows "dma_awaits (s', at', calls, w')"
proof -
  have len: "length (dd_u32 s) = 8" using assms(1) by (simp add: dma_awaits_def)
  show ?thesis
  proof (cases at)
    case Dma_started
    then show ?thesis
      using assms dma_head_awaits [OF len] by (auto simp: dma_awaits_def split: prod.splits)
  next
    case Dma_awake
    then show ?thesis
      using assms dma_turn_awaits [OF len] by (auto simp: dma_awaits_def split: prod.splits)
  next
    case Dma_delay
    then show ?thesis
      using assms dma_head_awaits [of "update_irqs s"] len by (auto simp: dma_awaits_def dd_regs8 split: prod.splits)
  next
    case (Dma_written tlen resp)
    have "length (dd_u32 (dma_advance tlen (dd_set R_ERROR_RESP (demodma_resp resp) s))) = 8"
      using len by (simp add: dma_advance_def Let_def dd_regs8)
    then show ?thesis
      using Dma_written assms(2) dma_tail_awaits by (auto simp: dma_awaits_def split: prod.splits)
  qed (use assms in \<open>auto simp: dma_awaits_def res_bind_eq_Inr Let_def dd_regs8\<close>)
qed

lemma dma_awaits_act:
  assumes "dma_awaits st" "leaves_done a" "dma_act init a st = Inr st'"
  shows "dma_awaits st'"
proof -
  obtain s at calls w where st: "st = (s, at, calls, w)" by (cases st)
  have len: "length (dd_u32 s) = 8" using assms(1) by (simp add: dma_awaits_def st)
  show ?thesis
  proof (cases a)
    case (Port tr d)
    obtain s1 cs where p: "dma_port tr d s = (s1, cs)" by (cases "dma_port tr d s")
    have "\<not> dd_done s \<Longrightarrow> \<not> dd_done s1" using dma_port_awaits(5) [OF p len] assms(2) unfolding Port by blast
    moreover have "st' = (s1, at, calls @ cs, w)" using assms(3) by (simp add: Port st p)
    ultimately show ?thesis
      using assms(1) dma_port_awaits(1-4) [OF p len] unfolding st by (auto simp: dma_awaits_def)
  next
    case (Port_call k)
    show ?thesis
    proof (cases "k < length calls")
      case True
      show ?thesis
      proof (cases "calls ! k")
        case (Spec_read addr be d)
        then obtain x w2 where st': "st' = (s, at, calls[k := x], w2)"
          using assms(3) Port_call True st by (auto simp: dma_port_step_def res_bind_eq_Inr)
        have "calls[k := x] \<noteq> []" using True by auto
        then show ?thesis using assms(1) unfolding st st' by (simp add: dma_awaits_def)
      next
        case (Spec_back resp d)
        let ?s1 = "dma_notify d (dd_set R_ERROR_RESP (demodma_resp resp) s)"
        have st': "st' = (?s1, at, take k calls @ drop (Suc k) calls, w)"
          using assms(3) Port_call Spec_back True st by (simp add: dma_port_step_def)
        have "length (dd_u32 ?s1) = 8" "dd_wake ?s1 \<noteq> None" "dd_done ?s1 = dd_done s" "dd_irq ?s1 = dd_irq s"
          using len by (simp_all add: dma_notify_def dd_regs8)
        then show ?thesis using assms(1) unfolding st st' by (simp add: dma_awaits_def)
      qed
    qed (use assms Port_call st in \<open>simp add: dma_port_step_def\<close>)
  next
    case Notify
    then show ?thesis using assms st by (cases at) (auto simp: dma_awaits_def split: if_splits)
  next
    case Dma_thread
    then show ?thesis using assms st dma_awaits_thread by (auto simp: res_bind_eq_Inr)
  qed
qed

text \<open>
  Property C8: from reset on, whatever hosts read and write to any register, as long as no write of the control register sets a
  done bit that is clear, and however their accesses, the calls, the notifications and the steps of the thread
  interleave: when the thread waits for its event, no notification is pending and no access is in its speculative
  read, the run bit is clear and the interrupt line shows the done bit.  No start is lost, and every
  acknowledgement reaches the line.
\<close>

theorem dma_never_sleeps_on_work:
  assumes "reach (dma_act init) leaves_done (demodma_new raw, Dma_start, [], w) (Inr (s, at, calls, w'))"
    and "at = Dma_start \<or> at = Dma_wait" "dd_wake s = None" "calls = []"
  shows "\<not> dd_running s \<and> dd_irq s = dd_done s"
proof -
  have "dma_awaits (demodma_new raw, Dma_start, [], w)"
    by (simp add: dma_awaits_def demodma_new_def dd_done_def dd_running_def dd_reg_def)
  then have "dma_awaits (s, at, calls, w')"
    by (rule reach_invariant_states [OF assms(1)]) (rule dma_awaits_act)
  then show ?thesis using assms(2-4) by (auto simp: dma_awaits_def)
qed

text \<open>A start of a copy of no bytes from the address 34, from reset on.\<close>

abbreviation sample_starts :: "dma_event list" where
  "sample_starts \<equiv> [Port (mk_gp TLM_WRITE_COMMAND 0x4 [34, 0, 0, 0] 4) 0, Port (mk_gp TLM_WRITE_COMMAND 0xc [1, 0, 0, 0] 4) 0, Port_call 0, Port_call 0, Notify, Dma_thread]"

theorem dma_never_sleeps_on_work_witness:
  "\<exists>s. run_acts (dma_act ram) sample_starts (demodma_new [], Dma_start, [], \<lambda>_. 0) = Inr (s, Dma_wait, [], \<lambda>_. 0) \<and>
     \<not> dd_running s \<and> dd_irq s = dd_done s"
proof -
  have nth: "replicate 8 (0 :: u32) = [0, 0, 0, 0, 0, 0, 0, 0]" by (simp add: eval_nat_numeral)
  have one: "le_word (poke 4 [1, 0, 0, 0] (replicate 4 0)) = (1 :: u32)" by (simp add: eval_nat_numeral poke_def)
  have "poke 4 [34, 0, 0, 0] (replicate 4 0) = [34, 0, 0, 0 :: u8]" by (simp add: eval_nat_numeral poke_def)
  then have src: "le_word (poke 4 [34, 0, 0, 0] (replicate 4 0)) = (34 :: u32)" by simp
  obtain s where s: "run_acts (dma_act ram) sample_starts (demodma_new [], Dma_start, [], \<lambda>_. 0) = Inr (s, Dma_wait, [], \<lambda>_. 0)"
    "dd_wake s = None"
    by (simp add: dma_port_def dma_port_step_def dma_notify_def dma_head_def dma_turn_def dma_tail_def dma_payload_def Let_def
        demodma_new_def dd_reg_def dd_set_def dd_running_def update_irqs_def poke_reg_def reg_access_error_def mk_gp_def ram_def
        DEMODMA_CTRL_RUN_def nth one src)
  have "\<forall>a \<in> set sample_starts. leaves_done a" by (simp add: writes_ctrl_def poke_reg_def mk_gp_def DEMODMA_CTRL_DONE_def poke_all)
  from run_acts_reach [OF this] s(1)
  have "reach (dma_act ram) leaves_done (demodma_new [], Dma_start, [], \<lambda>_. 0) (Inr (s, Dma_wait, [], \<lambda>_. 0))" by metis
  from dma_never_sleeps_on_work [OF this disjI2 [OF refl] s(2) refl] s(1) show ?thesis by blast
qed

section \<open>A copy, seen by a host that polls\<close>

text \<open>The host only reads, or makes accesses the port refuses.\<close>

fun dma_polls :: "dma_event \<Rightarrow> bool" where
  "dma_polls (Port tr d) \<longleftrightarrow> gp_cmd tr \<noteq> TLM_WRITE_COMMAND \<or> reg_access_error tr \<noteq> None"
| "dma_polls _ \<longleftrightarrow> True"

text \<open>
  The first \<open>k\<close> of the \<open>n\<close> bytes are copied, and the registers say so; \<open>m\<close> is the memory before.
\<close>

definition copy_regs :: "u32 \<Rightarrow> u32 \<Rightarrow> nat \<Rightarrow> nat \<Rightarrow> demodma \<Rightarrow> bool" where
  "copy_regs dst src n k s \<longleftrightarrow> dd_inv s \<and> dd_reg R_BYTE_EN s = 0 \<and> k \<le> n \<and> unat (dd_reg R_LEN s) = n - k \<and>
     dd_reg R_DST_ADDR s = dst + of_nat k \<and> dd_reg R_SRC_ADDR s = src + of_nat k"

definition copied :: "bytes_memory \<Rightarrow> u32 \<Rightarrow> u32 \<Rightarrow> nat \<Rightarrow> nat \<Rightarrow> bytes_memory" where
  "copied m dst src n k = mem_write m (ucast dst) (take k (mem_read m (ucast src) n))"

definition burst_len :: "nat \<Rightarrow> nat \<Rightarrow> nat" where
  "burst_len n k = min (n - k) 32"

text \<open>Where the thread is within a burst, and what it has in its hands.\<close>

definition dma_place :: "bytes_memory \<Rightarrow> u32 \<Rightarrow> u32 \<Rightarrow> nat \<Rightarrow> nat \<Rightarrow> demodma \<Rightarrow> dma_at \<Rightarrow> bytes_memory \<Rightarrow> bool" where
  "dma_place m dst src n k s at w \<longleftrightarrow>
     (let t = burst_len n k; bs = mem_read m (ucast src + of_nat k) t in
      case at of
        Dma_awake \<Rightarrow> w = copied m dst src n k
      | Dma_delay \<Rightarrow> w = copied m dst src n k
      | Dma_read tlen addr be \<Rightarrow> unat tlen = t \<and> addr = ucast src + of_nat k \<and> \<not> be \<and> w = copied m dst src n k
      | Dma_read_back tlen resp \<Rightarrow> unat tlen = t \<and> take t (dd_buf s) = bs \<and> w = copied m dst src n k
      | Dma_write tlen addr be \<Rightarrow> unat tlen = t \<and> addr = ucast dst + of_nat k \<and> \<not> be \<and> take t (dd_buf s) = bs \<and> w = copied m dst src n k
      | Dma_written tlen resp \<Rightarrow> unat tlen = t \<and> w = copied m dst src n (k + t)
      | _ \<Rightarrow> False)"

fun dma_copying :: "bytes_memory \<Rightarrow> u32 \<Rightarrow> u32 \<Rightarrow> nat \<Rightarrow> bytes_memory dma_state \<Rightarrow> bool" where
  "dma_copying m dst src n (s, at, calls, w) \<longleftrightarrow> calls = [] \<and>
     (if dd_running s then \<exists>k < n. copy_regs dst src n k s \<and> dma_place m dst src n k s at w
      else copy_regs dst src n n s \<and> dd_done s \<and> dd_irq s \<and> w = copied m dst src n n \<and>
        (at = Dma_wait \<or> at = Dma_awake \<or> at = Dma_delay))"

text \<open>The steps the thread still has to take: five for a burst.\<close>

fun dma_steps_left :: "bytes_memory dma_state \<Rightarrow> nat" where
  "dma_steps_left (s, at, calls, w) =
     (if \<not> dd_running s then 0
      else 5 * ((unat (dd_reg R_LEN s) + 31) div 32) -
        (case at of Dma_read tlen addr be \<Rightarrow> 1 | Dma_read_back tlen resp \<Rightarrow> 2 | Dma_write tlen addr be \<Rightarrow> 3
         | Dma_written tlen resp \<Rightarrow> 4 | _ \<Rightarrow> 0))"

text \<open>The range copied so far and the range still to be read.\<close>

lemma copied_step:
  assumes "k < n" "apart (ucast dst) n (ucast src) n" "unat dst + n < 2 ^ 32" "unat src + n < 2 ^ 32"
  defines "t \<equiv> burst_len n k"
  shows "mem_read (copied m dst src n k) (ucast src + of_nat k) t = mem_read m (ucast src + of_nat k) t"
    "mem_write (copied m dst src n k) (ucast dst + of_nat k) (mem_read m (ucast src + of_nat k) t) = copied m dst src n (k + t)"
    "k + t \<le> n" "0 < t" "t \<le> 32"
proof -
  show t: "k + t \<le> n" "0 < t" "t \<le> 32" using assms(1) by (auto simp: t_def burst_len_def)
  have u: "unat (ucast src :: u64) = unat src" "unat (ucast dst :: u64) = unat dst" by (simp_all add: unat_ucast32)
  let ?bs = "mem_read m (ucast src) n"
  have l: "length (take k ?bs) = k" using assms(1) by simp
  have us: "unat (ucast src + of_nat k :: u64) = unat src + k" using u assms(1,4) by (subst unat_add_of_nat) simp_all
  show "mem_read (copied m dst src n k) (ucast src + of_nat k) t = mem_read m (ucast src + of_nat k) t"
    unfolding copied_def
    by (rule mem_read_apart) (use assms(1-4) t u us l in \<open>auto simp: apart_def\<close>)
  have rd: "take (k + t) ?bs = take k ?bs @ mem_read m (ucast src + of_nat k) t"
  proof -
    have "?bs = (mem_read m (ucast src) k @ mem_read m (ucast src + of_nat k) t) @ mem_read m (ucast src + of_nat (k + t)) (n - (k + t))"
      using mem_read_append [of m "ucast src" "k + t" "n - (k + t)"] mem_read_append [of m "ucast src" k t] t(1) by simp
    then show ?thesis by simp
  qed
  show "mem_write (copied m dst src n k) (ucast dst + of_nat k) (mem_read m (ucast src + of_nat k) t) = copied m dst src n (k + t)"
    unfolding copied_def rd using mem_write_append [of "ucast dst" "take k ?bs" "mem_read m (ucast src + of_nat k) t" m] l u assms(3) t(1) by simp
qed

lemma dd_inv8: "dd_inv s \<Longrightarrow> length (dd_u32 s) = 8"
  by (simp add: dd_inv_def)

text \<open>The registers after a burst.\<close>

lemma copy_regs_advance:
  fixes e :: u32
  assumes "copy_regs dst src n k s" "dd_running s" "unat tlen = burst_len n k" "k < n"
  defines "s1 \<equiv> dma_advance tlen (dd_set R_ERROR_RESP e s)"
  shows "copy_regs dst src n (k + burst_len n k) s1" "dd_running s1"
proof -
  have inv: "dd_inv s" using assms(1) by (simp add: copy_regs_def)
  have t: "k + burst_len n k \<le> n" using assms(4) by (auto simp: burst_len_def)
  have n: "of_nat (burst_len n k) = tlen" by (simp flip: assms(3))
  have "unat (dd_reg R_LEN s - tlen) = n - (k + burst_len n k)"
    using assms(1,3) t by (subst unat_sub) (auto simp: copy_regs_def word_le_nat_alt)
  then show "copy_regs dst src n (k + burst_len n k) s1"
    using assms(1) inv t n by (simp add: copy_regs_def s1_def dma_advance_def Let_def add.assoc)
  show "dd_running s1" using assms(2) inv by (simp add: s1_def dma_advance_def Let_def dd_inv8 dd_regs8)
qed

lemma dma_copyingI:
  "dd_running s \<Longrightarrow> k < n \<Longrightarrow> copy_regs dst src n k s \<Longrightarrow> dma_place m dst src n k s at w \<Longrightarrow>
     dma_copying m dst src n (s, at, [], w)"
  by auto

lemma copy_regs_frame:
  "copy_regs dst src n k (update_irqs s) = copy_regs dst src n k s"
  "copy_regs dst src n k (s\<lparr>dd_wake := x\<rparr>) = copy_regs dst src n k s"
  "dd_inv s \<Longrightarrow> copy_regs dst src n k (dd_set R_ERROR_RESP e s) = copy_regs dst src n k s"
  "dd_inv s \<Longrightarrow> length b = 32 \<Longrightarrow> copy_regs dst src n k (s\<lparr>dd_buf := b\<rparr>) = copy_regs dst src n k s"
  by (auto simp: copy_regs_def) (auto simp: dd_inv_def dd_reg_def)

text \<open>At the head of the loop the next burst begins.\<close>

lemma dma_turn_copying:
  assumes "copy_regs dst src n k s" "dd_running s" "k < n" "unat src + n < 2 ^ 32"
  shows "\<exists>tlen. dma_turn s = (s, Dma_read tlen (ucast src + of_nat k) False) \<and> unat tlen = burst_len n k"
proof -
  have len: "unat (dd_reg R_LEN s) = n - k" "dd_reg R_SRC_ADDR s = src + of_nat k" "dd_reg R_BYTE_EN s = 0"
    using assms(1) by (simp_all add: copy_regs_def)
  have pos: "dd_reg R_LEN s > 0" using len(1) assms(3) by (simp add: word_less_nat_alt)
  have "(ucast (src + of_nat k) :: u64) = ucast src + of_nat k"
    using assms(3,4) by (intro ucast_add_no_wrap(1)) simp
  moreover have "unat (if dd_reg R_LEN s > 32 then 32 else dd_reg R_LEN s) = burst_len n k"
    using len(1) by (auto simp: burst_len_def word_less_nat_alt)
  ultimately show ?thesis using assms(2) pos len by (simp add: dma_turn_def Let_def)
qed

text \<open>After a burst the copy is complete, or the delay comes.\<close>

lemma dma_tail_copying:
  assumes "copy_regs dst src n k s" "dd_running s" "dma_tail s = (s', at)"
  shows "dma_copying m dst src n (s', at, [], copied m dst src n k)"
    "dd_running s' \<Longrightarrow> at = Dma_delay \<and> s' = s"
proof -
  let ?c = "dd_reg R_CTRL s AND NOT DEMODMA_CTRL_RUN OR DEMODMA_CTRL_DONE"
  have inv: "dd_inv s" "unat (dd_reg R_LEN s) = n - k" "k \<le> n" using assms(1) by (simp_all add: copy_regs_def)
  have z: "dd_reg R_LEN s = 0 \<longleftrightarrow> k = n" using inv(2,3) by (auto simp: unat_eq_0 [symmetric])
  have "dma_copying m dst src n (s', at, [], copied m dst src n k) \<and> (dd_running s' \<longrightarrow> at = Dma_delay \<and> s' = s)"
  proof (cases "k = n")
    case True
    let ?t = "update_irqs (dd_set R_CTRL ?c (dd_set R_CTRL (dd_reg R_CTRL s AND NOT DEMODMA_CTRL_RUN) s))"
    have "s' = ?t" "at = Dma_wait" using assms(2,3) z True inv(1) by (simp_all add: dma_tail_def Let_def)
    moreover have "\<not> dd_running ?t" "dd_done ?t"
      using inv(1) run_bits [of "dd_reg R_CTRL s"]
      by (simp_all add: dd_running_def dd_done_def dd_inv8 dd_regs8 DEMODMA_CTRL_DONE_def)
    moreover have "copy_regs dst src n n ?t" using assms(1) True inv(1) by (simp add: copy_regs_def)
    moreover have "dd_irq ?t" using calculation(4) by simp
    ultimately show ?thesis using True by simp
  next
    case False
    have r: "s' = s" "at = Dma_delay" using assms(2,3) z False by (simp_all add: dma_tail_def)
    have "dma_copying m dst src n (s, Dma_delay, [], copied m dst src n k)"
      by (rule dma_copyingI [OF assms(2) _ assms(1)]) (use False inv(3) in \<open>simp_all add: dma_place_def\<close>)
    then show ?thesis using r by simp
  qed
  then show "dma_copying m dst src n (s', at, [], copied m dst src n k)"
    "dd_running s' \<Longrightarrow> at = Dma_delay \<and> s' = s" by blast+
qed

lemma dma_copying_thread:
  assumes "memory_target init" "apart (ucast dst) n (ucast src) n" "unat dst + n < 2 ^ 32" "unat src + n < 2 ^ 32"
    and "dma_copying m dst src n (s, at, calls, w)"
  shows "\<exists>s' at' w'. dma_thread init (s, at, w) = Inr (s', at', w') \<and> dma_copying m dst src n (s', at', calls, w') \<and>
    dma_steps_left (s', at', calls, w') \<le> dma_steps_left (s, at, calls, w) - 1"
proof (cases "dd_running s")
  case False
  have c: "calls = []" "copy_regs dst src n n s" "dd_done s" "dd_irq s" "w = copied m dst src n n"
    "at = Dma_wait \<or> at = Dma_awake \<or> at = Dma_delay" using assms(5) False by simp_all
  have t: "dma_turn s = (s, Dma_delay)" "dma_head (update_irqs s) = (update_irqs s, Dma_wait)"
    using False by (simp_all add: dma_turn_def dma_tail_def dma_head_def)
  have go: "\<exists>s' at' w'. Inr (t, at1, w) = Inr (s', at', w') \<and> dma_copying m dst src n (s', at', calls, w') \<and>
      dma_steps_left (s', at', calls, w') \<le> dma_steps_left (s, at, calls, w) - 1"
    if "t = s \<or> t = update_irqs s" "at1 = Dma_wait \<or> at1 = Dma_delay" for t at1
    using that c(1-5) False by (intro exI [of _ t] exI [of _ at1] exI [of _ w]) (auto simp: copy_regs_frame)
  from c(6) show ?thesis
  proof (elim disjE)
    assume at: "at = Dma_wait"
    show ?thesis unfolding at dma_thread.simps by (rule go [unfolded at]) simp_all
  next
    assume at: "at = Dma_awake"
    show ?thesis unfolding at dma_thread.simps t prod.case by (rule go [unfolded at]) simp_all
  next
    assume at: "at = Dma_delay"
    show ?thesis unfolding at dma_thread.simps t prod.case by (rule go [unfolded at]) simp_all
  qed
next
  case True
  obtain k where c: "calls = []" "k < n" "copy_regs dst src n k s" "dma_place m dst src n k s at w" using assms(5) True by auto
  let ?t = "burst_len n k" and ?left = "5 * ((n - k + 31) div 32)"
  note step = copied_step(1,2) [where m = m, OF c(2) assms(2-4)] copied_step(3-5) [OF c(2) assms(2-4)] and pl = c(4) [unfolded dma_place_def Let_def]
  have regs: "dd_inv s" "unat (dd_reg R_LEN s) = n - k" "dd_reg R_BYTE_EN s = 0" "dd_reg R_DST_ADDR s = dst + of_nat k"
    using c(3) by (simp_all add: copy_regs_def)
  have le: "1 \<le> (n - k + 31) div 32" using c(2) by (simp add: div_greater_zero_iff Suc_le_eq)
  obtain tlen where turn: "dma_turn s = (s, Dma_read tlen (ucast src + of_nat k) False)" "unat tlen = ?t"
    using dma_turn_copying [OF c(3) True c(2) assms(4)] by blast
  have same: "dma_copying m dst src n (t, at', [], w')"
    if "copy_regs dst src n k t" "dd_running t" "dma_place m dst src n k t at' w'" for t at' w'
    by (rule dma_copyingI [OF that(2) c(2) that(1,3)])
  have go: "\<exists>s' at' w'. Inr (t, at1, w1) = Inr (s', at', w') \<and> dma_copying m dst src n (s', at', calls, w') \<and>
      dma_steps_left (s', at', calls, w') \<le> l"
    if "dma_copying m dst src n (t, at1, [], w1)" "dma_steps_left (t, at1, [], w1) \<le> l" for t at1 w1 and l :: nat
    using that c(1) by blast
  show ?thesis
  proof (cases at)
    case Dma_awake
    have "dma_copying m dst src n (s, Dma_read tlen (ucast src + of_nat k) False, [], w)"
      by (rule same [OF c(3) True]) (use pl Dma_awake turn(2) in \<open>simp add: dma_place_def\<close>)
    then show ?thesis using Dma_awake turn True c(1) by (simp del: dma_copying.simps)
  next
    case Dma_delay
    obtain tlen' where turn': "dma_turn (update_irqs s) = (update_irqs s, Dma_read tlen' (ucast src + of_nat k) False)" "unat tlen' = ?t"
      using dma_turn_copying [of dst src n k "update_irqs s"] c(2,3) True assms(4) by (auto simp: copy_regs_frame)
    have "dma_copying m dst src n (update_irqs s, Dma_read tlen' (ucast src + of_nat k) False, [], w)"
      by (rule same) (use pl Dma_delay turn'(2) c(3) True in \<open>simp_all add: dma_place_def copy_regs_frame\<close>)
    then show ?thesis using Dma_delay turn' True c(1) by (simp add: dma_head_def del: dma_copying.simps)
  next
    case (Dma_read tl addr be)
    let ?b = "poke ?t (mem_read m (ucast src + of_nat k) ?t) (dd_buf s)"
    have b: "length ?b = 32" "take ?t ?b = mem_read m (ucast src + of_nat k) ?t"
      using regs(1) step(5) by (simp_all add: dd_inv_def)
    have rd: "dma_thread init (s, at, w) = Inr (s\<lparr>dd_buf := ?b\<rparr>, Dma_read_back tl TLM_OK_RESPONSE, w)"
      using assms(1) pl Dma_read step(1) by (simp add: memory_target_def reads_memory_def dma_payload_def)
    have "dma_copying m dst src n (s\<lparr>dd_buf := ?b\<rparr>, Dma_read_back tl TLM_OK_RESPONSE, [], w)"
      by (rule same) (use pl Dma_read b c(3) True regs(1) in \<open>simp_all add: dma_place_def copy_regs_frame\<close>)
    then show ?thesis unfolding rd by (rule go) (use Dma_read True regs(2) le in simp)
  next
    case (Dma_read_back tl resp)
    let ?s1 = "dd_set R_ERROR_RESP (demodma_resp resp) s"
    have dst: "(ucast (dst + of_nat k) :: u64) = ucast dst + of_nat k"
      using c(2) assms(3) by (intro ucast_add_no_wrap(1)) simp
    have run: "dd_running ?s1" using True regs(1) by (simp add: dd_inv8)
    have st: "dma_thread init (s, at, w) = Inr (?s1, Dma_write tl (ucast dst + of_nat k) False, w)"
      using Dma_read_back regs dst by (simp add: Let_def)
    have "dma_copying m dst src n (?s1, Dma_write tl (ucast dst + of_nat k) False, [], w)"
      by (rule same) (use pl Dma_read_back run c(3) regs(1) in \<open>simp_all add: dma_place_def copy_regs_frame\<close>)
    then show ?thesis unfolding st by (rule go) (use Dma_read_back True run regs(1,2) le in simp)
  next
    case (Dma_write tl addr be)
    have st: "dma_thread init (s, at, w) =
        Inr (s\<lparr>dd_buf := dd_buf s\<rparr>, Dma_written tl TLM_OK_RESPONSE, mem_write w (ucast dst + of_nat k) (mem_read m (ucast src + of_nat k) ?t))"
      using assms(1) pl Dma_write by (simp add: memory_target_def dma_payload_def)
    have "dma_copying m dst src n (s, Dma_written tl TLM_OK_RESPONSE, [], mem_write w (ucast dst + of_nat k) (mem_read m (ucast src + of_nat k) ?t))"
      by (rule same [OF c(3) True]) (use pl Dma_write step(2) in \<open>simp add: dma_place_def\<close>)
    then show ?thesis unfolding st by (intro go) (use Dma_write True regs(2) le in simp_all)
  next
    case (Dma_written tl resp)
    let ?s1 = "dma_advance tl (dd_set R_ERROR_RESP (demodma_resp resp) s)"
    have tl: "unat tl = ?t" "w = copied m dst src n (k + ?t)" using pl Dma_written by simp_all
    note adv = copy_regs_advance [OF c(3) True tl(1) c(2), of "demodma_resp resp"]
    obtain s2 at2 where tail: "dma_tail ?s1 = (s2, at2)" by (cases "dma_tail ?s1")
    have st: "dma_thread init (s, at, w) = Inr (s2, at2, w)" using Dma_written tail by simp
    have len1: "unat (dd_reg R_LEN ?s1) = n - (k + ?t)" using adv(1) by (simp add: copy_regs_def)
    have less: "5 * ((n - (k + ?t) + 31) div 32) \<le> ?left - 5"
    proof (cases "n - k \<le> 32")
      case True
      then show ?thesis by (simp add: burst_len_def)
    next
      case False
      then have eq: "n - k + 31 = (n - (k + ?t) + 31) + 32" by (simp add: burst_len_def)
      have add: "(x + 32) div 32 = x div 32 + 1" for x :: nat by simp
      show ?thesis unfolding eq add by simp
    qed
    have "dma_copying m dst src n (s2, at2, [], w)"
      using dma_tail_copying(1) [OF adv tail] tl(2) by simp
    then show ?thesis unfolding st
    proof (rule go)
      show "dma_steps_left (s2, at2, [], w) \<le> dma_steps_left (s, at, calls, w) - 1"
      proof (cases "dd_running s2")
        case run: True
        then have "at2 = Dma_delay" "s2 = ?s1" using dma_tail_copying(2) [OF adv tail] by simp_all
        then show ?thesis using Dma_written True run len1 less regs(2) by simp
      qed simp
    qed
  qed (use pl in simp_all)
qed

lemma dma_place_frame: "dma_place m dst src n k (s\<lparr>dd_wake := x\<rparr>) at w = dma_place m dst src n k s at w"
  by (cases at) (simp_all add: dma_place_def Let_def)

lemma dma_copying_act:
  assumes "memory_target init" "apart (ucast dst) n (ucast src) n" "unat dst + n < 2 ^ 32" "unat src + n < 2 ^ 32"
    and "dma_copying m dst src n st" "dma_polls a"
  shows "\<exists>st'. dma_act init a st = Inr st' \<and> dma_copying m dst src n st' \<and>
    dma_steps_left st' \<le> dma_steps_left st - (if a = Dma_thread then 1 else 0)"
proof -
  obtain s at calls w where st: "st = (s, at, calls, w)" by (cases st)
  note inv = assms(5) [unfolded st]
  have calls: "calls = []" using inv by simp
  show ?thesis
  proof (cases a)
    case (Port tr d)
    have "dma_port tr d s = (s, [])" using assms(6) Port by (auto simp: dma_port_def)
    then show ?thesis using inv Port st by (simp del: dma_copying.simps dma_steps_left.simps)
  next
    case (Port_call k)
    then show ?thesis using inv st calls by (simp add: dma_port_step_def del: dma_copying.simps dma_steps_left.simps)
  next
    case Notify
    let ?at = "case at of Dma_start \<Rightarrow> Dma_started | Dma_wait \<Rightarrow> Dma_awake | _ \<Rightarrow> at"
    show ?thesis
    proof (cases "dd_running s")
      case True
      then obtain k where k: "k < n" "copy_regs dst src n k s" "dma_place m dst src n k s at w" using inv by auto
      then have at: "?at = at" by (cases at) (auto simp: dma_place_def Let_def)
      have "dma_copying m dst src n (s\<lparr>dd_wake := None\<rparr>, at, [], w)"
        by (rule dma_copyingI [OF _ k(1)]) (use True k in \<open>simp_all add: copy_regs_frame dma_place_frame\<close>)
      moreover have "dma_steps_left (s\<lparr>dd_wake := None\<rparr>, at, [], w) = dma_steps_left (s, at, [], w)"
        by (simp add: dd_reg_def)
      ultimately show ?thesis using Notify st inv calls at by (simp del: dma_copying.simps dma_steps_left.simps)
    next
      case False
      have "dma_copying m dst src n (s\<lparr>dd_wake := None\<rparr>, ?at, [], w)" using inv False by (auto simp: copy_regs_frame)
      moreover have "dma_steps_left (s\<lparr>dd_wake := None\<rparr>, ?at, [], w) = 0" "dma_steps_left (s, at, [], w) = 0" using False by simp_all
      ultimately show ?thesis using Notify st inv calls by (simp del: dma_copying.simps dma_steps_left.simps)
    qed
  next
    case Dma_thread
    obtain s' at' w' where "dma_thread init (s, at, w) = Inr (s', at', w')" "dma_copying m dst src n (s', at', calls, w')"
      "dma_steps_left (s', at', calls, w') \<le> dma_steps_left (s, at, calls, w) - 1"
      using dma_copying_thread [OF assms(1-4) inv] by blast
    then show ?thesis using Dma_thread st by (simp del: dma_copying.simps dma_steps_left.simps)
  qed
qed

text \<open>
  Property C5: started with the run bit and no byte enables on a memory, with ranges that do not overlap, and then
  only polled: under every interleaving of the host, the notifications and the thread, and however long the
  transfers take, nothing fails, and memory always is what it was with a front part of the source range at the
  destination; when the run bit is clear, the whole range is there, the done bit is set, the interrupt line is raised,
  the length is 0 and both addresses are past their ranges.  And the run bit is clear once the thread has been given five
  steps for each started 32 bytes.
\<close>

theorem dma_polled_copy:
  assumes "\<forall>a \<in> set as. dma_polls a" "memory_target init" "dd_inv s" "dd_reg R_BYTE_EN s = 0" "dd_running s"
    and "at = Dma_awake \<or> at = Dma_delay" "n = unat (dd_reg R_LEN s)" "0 < n"
    and "dst = dd_reg R_DST_ADDR s" "src = dd_reg R_SRC_ADDR s"
    and "apart (ucast dst) n (ucast src) n" "unat dst + n < 2 ^ 32" "unat src + n < 2 ^ 32"
  shows "\<exists>s' at' k. run_acts (dma_act init) as (s, at, [], m) =
      Inr (s', at', [], mem_write m (ucast dst) (take k (mem_read m (ucast src) n))) \<and>
    (\<not> dd_running s' \<longrightarrow> k = n \<and> dd_done s' \<and> dd_irq s' \<and> dd_reg R_LEN s' = 0 \<and>
       dd_reg R_DST_ADDR s' = dst + of_nat n \<and> dd_reg R_SRC_ADDR s' = src + of_nat n) \<and>
    (5 * ((n + 31) div 32) \<le> length (filter (\<lambda>a. a = Dma_thread) as) \<longrightarrow> \<not> dd_running s')"
proof -
  have "dma_place m dst src n 0 s at m" using assms(6) by (auto simp: dma_place_def copied_def)
  then have start: "dma_copying m dst src n (s, at, [], m)"
    by (intro dma_copyingI [OF assms(5,8)]) (use assms in \<open>simp_all add: copy_regs_def\<close>)
  obtain s' at' calls w' where r: "run_acts (dma_act init) as (s, at, [], m) = Inr (s', at', calls, w')"
    "dma_copying m dst src n (s', at', calls, w')"
    "dma_steps_left (s', at', calls, w') \<le> dma_steps_left (s, at, [], m) - length (filter (\<lambda>a. a = Dma_thread) as)"
    using run_acts_progress [where step = "dma_act init" and A = dma_polls, OF dma_copying_act [OF assms(2,11-13)] start assms(1)]
    by (metis prod_cases4)
  have calls: "calls = []" using r(2) by simp
  have left: "dma_steps_left (s, at, [], m) = 5 * ((n + 31) div 32)" using assms(5-7) by auto
  have fin: "\<not> dd_running s' \<longrightarrow> w' = copied m dst src n n \<and> dd_done s' \<and> dd_irq s' \<and> copy_regs dst src n n s'" using r(2) by simp
  have more: "\<exists>k < n. w' = copied m dst src n k \<or> w' = copied m dst src n (k + burst_len n k)" if "dd_running s'"
    using r(2) that by (cases at') (auto simp: dma_place_def Let_def)
  have pos: "dd_running s' \<longrightarrow> 0 < dma_steps_left (s', at', calls, w')"
  proof
    assume run: "dd_running s'"
    then obtain k where "k < n" "copy_regs dst src n k s'" using r(2) by auto
    then have "1 \<le> (unat (dd_reg R_LEN s') + 31) div 32" by (simp add: copy_regs_def div_greater_zero_iff Suc_le_eq)
    then show "0 < dma_steps_left (s', at', calls, w')" using run by (auto split: dma_at.splits)
  qed
  have "5 * ((n + 31) div 32) \<le> length (filter (\<lambda>a. a = Dma_thread) as) \<longrightarrow> \<not> dd_running s'"
    using r(3) left pos by linarith
  moreover obtain k where "w' = copied m dst src n k" "\<not> dd_running s' \<longrightarrow> k = n" using fin more by metis
  moreover have "\<not> dd_running s' \<longrightarrow> dd_reg R_LEN s' = 0 \<and> dd_reg R_DST_ADDR s' = dst + of_nat n \<and> dd_reg R_SRC_ADDR s' = src + of_nat n"
    using fin by (auto simp: copy_regs_def unat_eq_0)
  ultimately show ?thesis using r(1) fin calls unfolding copied_def by blast
qed

theorem dma_polled_copy_witness:
  "\<exists>s' at'. run_acts (dma_act ram) (replicate 10 Dma_thread)
       (\<lparr>dd_u32 = [0x1000, 0x2000, 40, 1, 0, 0, 0, 0], dd_irq = False, dd_wake = None, dd_buf = replicate 32 0\<rparr>, Dma_awake, [], \<lambda>a. ucast a) =
     Inr (s', at', [], mem_write (\<lambda>a. ucast a) 0x1000 (mem_read (\<lambda>a. ucast a) 0x2000 40)) \<and> dd_irq s'"
proof -
  let ?s = "\<lparr>dd_u32 = [0x1000, 0x2000, 40, 1, 0, 0, 0, 0], dd_irq = False, dd_wake = None, dd_buf = replicate 32 0\<rparr>"
  let ?as = "replicate 10 Dma_thread" and ?m = "(\<lambda>a. ucast a) :: bytes_memory"
  have s: "dd_inv ?s" "dd_reg R_BYTE_EN ?s = 0" "dd_running ?s" "(40 :: nat) = unat (dd_reg R_LEN ?s)" "(0 :: nat) < 40"
    "(0x1000 :: u32) = dd_reg R_DST_ADDR ?s" "(0x2000 :: u32) = dd_reg R_SRC_ADDR ?s"
    by (simp_all add: dd_inv_def dd_reg_def dd_running_def DEMODMA_CTRL_RUN_def)
  have r: "apart (ucast (0x1000 :: u32)) 40 (ucast (0x2000 :: u32)) 40" "unat (0x1000 :: u32) + 40 < 2 ^ 32" "unat (0x2000 :: u32) + 40 < 2 ^ 32"
    by (simp_all add: apart_def)
  have p: "\<forall>a \<in> set ?as. dma_polls a" "5 * ((40 + 31) div 32) \<le> length (filter (\<lambda>a. a = Dma_thread) ?as)" by simp_all
  obtain s' at' k where x: "run_acts (dma_act ram) ?as (?s, Dma_awake, [], ?m) =
      Inr (s', at', [], mem_write ?m (ucast (0x1000 :: u32)) (take k (mem_read ?m (ucast (0x2000 :: u32)) 40)))"
    "\<not> dd_running s' \<longrightarrow> k = 40 \<and> dd_irq s'" "\<not> dd_running s'"
    using dma_polled_copy [where m = ?m, OF p(1) ram_memory s(1-3) disjI1 [OF refl] s(4-7) r] p(2) by blast
  have "(ucast (0x1000 :: u32) :: u64) = 0x1000" "(ucast (0x2000 :: u32) :: u64) = 0x2000" by simp_all
  then show ?thesis using x by (intro exI [of _ s'] exI [of _ at']) simp
qed

section \<open>Registers written during a burst\<close>

text \<open>
  The thread subtracts the bytes of its burst from the length register as it is then: a length the host writes during a
  burst is short of these bytes, and one that is smaller wraps round, so the engine copies on through four gigabytes.
\<close>

lemma length_written_mid_burst:
  assumes "length (dd_u32 s) = 8" "dd_running s" "gp_cmd tr = TLM_WRITE_COMMAND" "reg_access_error tr = None"
    and "drop_bit 2 (gp_addr tr) AND 7 = 2" "v = poke_reg (gp_len tr) 2 (gp_data tr) (dd_reg R_LEN s)" "v < tlen"
  shows "\<exists>t. run_acts (dma_act init) [Port tr d, Dma_thread] (s, Dma_written tlen resp, calls, w) = Inr (t, Dma_delay, calls, w) \<and>
    unat (dd_reg R_LEN t) = 2 ^ 32 + unat v - unat tlen \<and> dd_running t"
proof -
  let ?s = "dd_set 2 v s" and ?t = "dma_advance tlen (dd_set R_ERROR_RESP (demodma_resp resp) (dd_set 2 v s))"
  have p: "dma_port tr d s = (?s, [])" using assms(3-6) by (simp add: dma_port_def Let_def)
  have t: "dd_reg R_LEN ?t = v - tlen" "dd_running ?t"
    using assms(1,2) by (simp_all add: dma_advance_def Let_def dd_regs8)
  have ne: "v - tlen \<noteq> 0" using assms(7) by auto
  have "unat (v - tlen) = 2 ^ 32 + unat v - unat tlen"
    using assms(7) by (simp add: unat_sub_if_size word_size word_le_nat_alt word_less_nat_alt)
  then show ?thesis using p t ne by (intro exI [of _ ?t]) (simp add: dma_tail_def)
qed

end
