(* ===== verification/Axi_Dma.thy ===== *)
theory Axi_Dma
  imports Memory
begin

text \<open>
  The AXI DMA of \<open>xilinx-axidma.h\<close> and \<open>xilinx-axidma.cc\<close>: the register port the two
  channels share, the memory-to-stream thread, and the stream-to-memory port.  With
  \<open>use_memcpy\<close> the engine reads and writes the memory of the simulator itself, which is an
  argument (\<open>ap_host_read\<close>, \<open>ap_host_write\<close>).
\<close>

section \<open>State\<close>

abbreviation (input) AXIDMA_R_CR :: nat where "AXIDMA_R_CR \<equiv> 0"
abbreviation (input) AXIDMA_R_SR :: nat where "AXIDMA_R_SR \<equiv> 1"
abbreviation (input) AXIDMA_R_ADDR :: nat where "AXIDMA_R_ADDR \<equiv> 6"
abbreviation (input) AXIDMA_R_ADDR_MSB :: nat where "AXIDMA_R_ADDR_MSB \<equiv> 7"
abbreviation (input) AXIDMA_R_LENGTH :: nat where "AXIDMA_R_LENGTH \<equiv> 10"
abbreviation (input) AXIDMA_R_MAX :: nat where "AXIDMA_R_MAX \<equiv> 11"

definition AXIDMA_SR_IDLE :: u32 where "AXIDMA_SR_IDLE = 0x2"
definition AXIDMA_SR_IOC_IRQ :: u32 where "AXIDMA_SR_IOC_IRQ = 0x1000"
definition AXIDMA_CR_IOC_IRQ_EN :: u32 where "AXIDMA_CR_IOC_IRQ_EN = 0x1000"

text \<open>
  The register array of the union, the count of bytes copied (not set by the constructor, so
  its raw content is an argument), and the two events: notified and not yet acted on.
\<close>

record axidma =
  ad_u32 :: "u32 list"
  ad_copied :: u32
  ad_irq :: bool
  ad_ev_copy :: bool
  ad_ev_irq :: bool

definition axidma_new :: "u32 \<Rightarrow> axidma" where
  "axidma_new raw_copied =
     \<lparr>ad_u32 = replicate 11 0, ad_copied = raw_copied, ad_irq = False, ad_ev_copy = False, ad_ev_irq = False\<rparr>"

definition ad_reg :: "nat \<Rightarrow> axidma \<Rightarrow> u32" where
  "ad_reg i s = ad_u32 s ! i"

definition ad_set :: "nat \<Rightarrow> u32 \<Rightarrow> axidma \<Rightarrow> axidma" where
  "ad_set i v s = s\<lparr>ad_u32 := (ad_u32 s)[i := v]\<rparr>"

text \<open>
  The two sockets, the state of a fresh \<open>genattr_extension\<close> (\<open>ap_attr\<close>), and the memory of
  the simulator.
\<close>

record 'w axi_ports =
  ap_init :: "'w target"
  ap_stream :: "'w target"
  ap_attr :: genattr
  ap_use_memcpy :: bool
  ap_host_read :: "u64 \<Rightarrow> nat \<Rightarrow> 'w \<Rightarrow> u8 list"
  ap_host_write :: "u64 \<Rightarrow> u8 list \<Rightarrow> 'w \<Rightarrow> 'w"

section \<open>The register port\<close>

definition ad_update_irqs :: "axidma \<Rightarrow> axidma" where
  "ad_update_irqs s =
     s\<lparr>ad_irq := ad_reg AXIDMA_R_SR s AND ad_reg AXIDMA_R_CR s AND AXIDMA_CR_IOC_IRQ_EN \<noteq> 0,
       ad_ev_irq := False\<rparr>"

definition ad_idle :: "axidma \<Rightarrow> bool" where
  "ad_idle s \<longleftrightarrow> ad_reg AXIDMA_R_SR s AND AXIDMA_SR_IDLE \<noteq> 0"

text \<open>
  An index past the array is an access out of range; a write of fewer than four bytes leaves
  part of the local variable \<open>v\<close> uninitialised.
\<close>

definition ad_b_transport :: "axidma target" where
  "ad_b_transport tr d s =
     (case reg_access_error tr of
        Some e \<Rightarrow> Inr (tr\<lparr>gp_resp := e\<rparr>, d, s)
      | None \<Rightarrow>
          (let i = unat (drop_bit 2 (gp_addr tr)); len = gp_len tr;
               done = (\<lambda>tr s. Inr (tr\<lparr>gp_resp := TLM_OK_RESPONSE\<rparr>, d, s\<lparr>ad_ev_irq := True\<rparr>)) in
           case gp_cmd tr of
             TLM_READ_COMMAND \<Rightarrow>
               if AXIDMA_R_MAX \<le> i then Inl Out_of_range
               else done (tr\<lparr>gp_data := poke len (le_bytes 4 (ad_reg i s)) (gp_data tr)\<rparr>) s
           | TLM_WRITE_COMMAND \<Rightarrow>
               if len < 4 then Inl Indeterminate
               else (let v = le_word (take len (gp_data tr)) in
                 if i = AXIDMA_R_SR then
                   done tr (ad_set i (ad_reg i s AND NOT (v AND AXIDMA_SR_IOC_IRQ)) s)
                 else if i = AXIDMA_R_LENGTH then
                   (let s1 = ad_set AXIDMA_R_LENGTH v (s\<lparr>ad_copied := 0\<rparr>) in
                    done tr ((ad_set AXIDMA_R_SR (ad_reg AXIDMA_R_SR s1 AND NOT AXIDMA_SR_IDLE) s1)\<lparr>ad_ev_copy := True\<rparr>))
                 else if AXIDMA_R_MAX \<le> i then Inl Out_of_range
                 else done tr (ad_set i v s))
           | TLM_IGNORE_COMMAND \<Rightarrow> done tr s))"

section \<open>Transfers\<close>

definition ad_addr :: "axidma \<Rightarrow> u64" where
  "ad_addr s = push_bit 32 (ucast (ad_reg AXIDMA_R_ADDR_MSB s)) + ucast (ad_reg AXIDMA_R_ADDR s)"

definition ad_set_addr :: "u64 \<Rightarrow> axidma \<Rightarrow> axidma" where
  "ad_set_addr a s = ad_set AXIDMA_R_ADDR_MSB (ucast (drop_bit 32 a)) (ad_set AXIDMA_R_ADDR (ucast a) s)"

text \<open>\<open>do_dma_trans\<close> only prints when the response is an error.\<close>

definition ad_dma_trans ::
  "'w target \<Rightarrow> tlm_command \<Rightarrow> u8 list \<Rightarrow> u64 \<Rightarrow> nat \<Rightarrow> sc_time \<Rightarrow> 'w \<Rightarrow> (u8 list \<times> sc_time \<times> 'w) res" where
  "ad_dma_trans sk cmd buf addr len d w =
     res_bind (sk (mk_gp cmd addr buf len) d w) (\<lambda>(tr, d', w'). Inr (gp_data tr, d', w'))"

definition do_stream_trans ::
  "genattr \<Rightarrow> 'w target \<Rightarrow> u8 list \<Rightarrow> u64 \<Rightarrow> nat \<Rightarrow> bool \<Rightarrow> sc_time \<Rightarrow> 'w \<Rightarrow> 'w res" where
  "do_stream_trans g0 sk buf addr len eop d w =
     res_bind (sk ((mk_gp TLM_WRITE_COMMAND addr buf len)\<lparr>gp_genattr := Some (g0\<lparr>ga_eop := eop\<rparr>)\<rparr>) d w)
       (\<lambda>(_, _, w'). Inr w')"

text \<open>
  One turn of \<open>axidma_mm2s::do_dma_copy\<close> from behind its \<open>wait\<close>: \<open>buf\<close> is the raw content of
  the 2 KB buffer.
\<close>

definition mm2s_turn :: "'w axi_ports \<Rightarrow> u8 list \<Rightarrow> axidma \<times> 'w \<Rightarrow> (axidma \<times> 'w) res" where
  "mm2s_turn ap buf = (\<lambda>(s, w).
     if ad_idle s then Inl Assertion_failed
     else let len = ad_reg AXIDMA_R_LENGTH s;
              tlen = (if len > 2048 then 2048 else len);
              eop = (tlen = len);
              addr = ad_addr s in
       res_bind
         (if ap_use_memcpy ap
          then Inr (poke (unat tlen) (ap_host_read ap addr (unat tlen) w) buf, 0, w)
          else ad_dma_trans (ap_init ap) TLM_READ_COMMAND buf addr (unat tlen) 0 w) (\<lambda>(buf', d, w1).
       res_bind (do_stream_trans (ap_attr ap) (ap_stream ap) buf' addr (unat tlen) eop d w1) (\<lambda>w2.
       let s1 = ad_set AXIDMA_R_LENGTH (len - tlen) s;
           s2 = ad_set_addr (addr + ucast tlen) s1 in
       if ad_reg AXIDMA_R_LENGTH s2 = 0
       then Inr ((ad_set AXIDMA_R_SR (ad_reg AXIDMA_R_SR s2 OR AXIDMA_SR_IDLE OR AXIDMA_SR_IOC_IRQ) s2)\<lparr>ad_ev_irq := True\<rparr>, w2)
       else Inr (s2, w2))))"

text \<open>
  \<open>axidma_s2mm::s_b_transport\<close>.  While the channel is idle the port waits for a write of the
  length register: the value \<open>None\<close>, the packet has not been taken.
\<close>

definition s2mm_b_transport :: "'w axi_ports \<Rightarrow> gp \<Rightarrow> sc_time \<Rightarrow> axidma \<times> 'w \<Rightarrow> (gp \<times> sc_time \<times> axidma \<times> 'w) res option" where
  "s2mm_b_transport ap tr d = (\<lambda>(s, w).
     let eop = (case gp_genattr tr of Some g \<Rightarrow> ga_eop g | None \<Rightarrow> True);
         len = (of_nat (gp_len tr) :: u32) in
     if ad_idle s then None
     else let addr = ad_addr s;
              length = ad_reg AXIDMA_R_LENGTH s;
              n = (if len \<le> length then len else length) in
       Some (res_bind
         (if ap_use_memcpy ap then Inr (gp_data tr, d, ap_host_write ap addr (take (unat n) (gp_data tr)) w)
          else ad_dma_trans (ap_init ap) TLM_WRITE_COMMAND (gp_data tr) addr (unat n) d w) (\<lambda>(buf, d', w').
       let s1 = ad_set AXIDMA_R_LENGTH (length - n) (s\<lparr>ad_copied := ad_copied s + n\<rparr>);
           s2 = ad_set_addr (addr + ucast n) s1;
           s3 = (if ad_reg AXIDMA_R_LENGTH s2 = 0 \<or> eop
                 then ad_set AXIDMA_R_LENGTH (ad_copied s2)
                        (ad_set AXIDMA_R_SR (ad_reg AXIDMA_R_SR s2 OR AXIDMA_SR_IDLE OR AXIDMA_SR_IOC_IRQ) s2)
                 else s2)
       in Inr (tr\<lparr>gp_data := buf, gp_resp := TLM_OK_RESPONSE\<rparr>, d', s3\<lparr>ad_ev_irq := True\<rparr>, w'))))"

section \<open>Registers\<close>

definition ad_inv :: "axidma \<Rightarrow> bool" where
  "ad_inv s \<longleftrightarrow> length (ad_u32 s) = 11"

lemma ad_inv_simps [simp]:
  "ad_inv (axidma_new raw)" "ad_inv (ad_set i v s) = ad_inv s" "ad_inv (ad_set_addr a s) = ad_inv s"
  "ad_inv (s\<lparr>ad_ev_irq := b\<rparr>) = ad_inv s" "ad_inv (s\<lparr>ad_ev_copy := b\<rparr>) = ad_inv s"
  "ad_inv (s\<lparr>ad_copied := c\<rparr>) = ad_inv s" "ad_inv (ad_update_irqs s) = ad_inv s"
  by (simp_all add: ad_inv_def axidma_new_def ad_set_def ad_set_addr_def ad_update_irqs_def)

lemma ad_reg_simps [simp]:
  "ad_inv s \<Longrightarrow> i < 11 \<Longrightarrow> ad_reg j (ad_set i v s) = (if i = j then v else ad_reg j s)"
  "ad_reg j (s\<lparr>ad_ev_irq := b\<rparr>) = ad_reg j s" "ad_reg j (s\<lparr>ad_ev_copy := b\<rparr>) = ad_reg j s"
  "ad_reg j (s\<lparr>ad_copied := c\<rparr>) = ad_reg j s" "ad_reg j (ad_update_irqs s) = ad_reg j s"
  by (simp_all add: ad_reg_def ad_set_def ad_inv_def ad_update_irqs_def)

lemma ad_reg_set_addr [simp]:
  "ad_inv s \<Longrightarrow> j \<noteq> 6 \<Longrightarrow> j \<noteq> 7 \<Longrightarrow> ad_reg j (ad_set_addr a s) = ad_reg j s"
  by (simp add: ad_set_addr_def)

lemma ad_addr_halves: "push_bit 32 (ucast (ucast (drop_bit 32 a) :: u32)) + ucast (ucast a :: u32) = (a :: u64)"
proof -
  let ?h = "push_bit 32 (ucast (ucast (drop_bit 32 a) :: u32)) :: u64" and ?l = "ucast (ucast a :: u32) :: u64"
  have "?h + ?l = ?h OR ?l"
    by (rule disjunctive_add_eq_or, rule bit_word_eqI) (auto simp: bit_simps)
  also have "\<dots> = a" by (rule bit_word_eqI) (auto simp: bit_simps)
  finally show ?thesis .
qed

lemma ad_addr_set [simp]: "ad_inv s \<Longrightarrow> ad_addr (ad_set_addr a s) = a"
  by (simp add: ad_addr_def ad_set_addr_def ad_addr_halves)

lemma ad_addr_frame [simp]:
  "ad_inv s \<Longrightarrow> i < 11 \<Longrightarrow> i \<noteq> 6 \<Longrightarrow> i \<noteq> 7 \<Longrightarrow> ad_addr (ad_set i v s) = ad_addr s"
  "ad_addr (s\<lparr>ad_ev_irq := b\<rparr>) = ad_addr s" "ad_addr (s\<lparr>ad_copied := c\<rparr>) = ad_addr s"
  by (simp_all add: ad_addr_def)

lemma ad_copied_simps [simp]:
  "ad_copied (ad_set i v s) = ad_copied s" "ad_copied (ad_set_addr a s) = ad_copied s"
  by (simp_all add: ad_set_def ad_set_addr_def)

lemma idle_bits:
  "(r AND NOT AXIDMA_SR_IDLE) AND AXIDMA_SR_IDLE = 0"
  "(r OR AXIDMA_SR_IDLE OR AXIDMA_SR_IOC_IRQ) AND AXIDMA_SR_IDLE = AXIDMA_SR_IDLE"
  "(r AND (NOT v OR NOT AXIDMA_SR_IOC_IRQ)) AND AXIDMA_SR_IDLE = r AND AXIDMA_SR_IDLE"
  unfolding AXIDMA_SR_IDLE_def AXIDMA_SR_IOC_IRQ_def
  by (rule bit_word_eqI; auto simp: bit_simps)+

section \<open>The register port keeps the contract of a target\<close>

lemma ad_frame:
  assumes "gp_ok tr" "ad_b_transport tr d s = Inr (tr', d', s')"
  shows "gp_frame tr tr' \<and> (gp_cmd tr \<noteq> TLM_READ_COMMAND \<longrightarrow> gp_data tr' = gp_data tr)"
proof (cases "reg_access_error tr")
  case None
  note len = reg_access_error_None [OF None]
  with None assms show ?thesis
    by (auto simp: ad_b_transport_def Let_def gp_ok_def split: tlm_command.splits if_splits)
next
  case (Some e)
  with assms show ?thesis by (auto simp: ad_b_transport_def)
qed

interpretation axi_port: tlm_target ad_b_transport
  by unfold_locales (metis ad_frame tlm_command.distinct(1))+

end
