(* ===== verification/Axi_Channels.thy ===== *)
theory Axi_Channels
  imports Axi_Dma
begin

text \<open>
  Streams: the packets a range of memory is cut into and the transactions that carry packets.  And two facts of
  the AXI DMA: an access to its registers never sets the idle bit, and a channel fresh from reset drops a packet.
\<close>

section \<open>A register access never sets the idle bit\<close>

lemma ad_b_transport_idle:
  assumes "ad_inv s" "\<not> ad_ev_copy s" "ad_idle s \<longrightarrow> ad_reg AXIDMA_R_LENGTH s = 0"
    and "ad_b_transport tr d s = Inr (tr', d', t)"
  shows "ad_inv t \<and> (ad_ev_copy t \<longrightarrow> \<not> ad_idle t) \<and> (ad_idle t \<longrightarrow> ad_idle s \<and> ad_reg AXIDMA_R_LENGTH t = 0)"
proof -
  have ev: "ad_ev_copy (ad_set i v x) = ad_ev_copy x" for i v x by (simp add: ad_set_def)
  show ?thesis
    using assms
    by (auto simp: ad_b_transport_def ad_idle_def Let_def idle_bits ev split: option.splits tlm_command.splits if_splits)
qed

section \<open>Surroundings of the witnesses\<close>

definition packet_sink :: "('a \<times> (u8 list \<times> bool) list) target" where
  "packet_sink tr d w = Inr (tr\<lparr>gp_resp := TLM_OK_RESPONSE\<rparr>, d, (fst w, snd w @
     [(take (gp_len tr) (gp_data tr), case gp_genattr tr of Some g \<Rightarrow> ga_eop g | None \<Rightarrow> True)]))"

text \<open>The surroundings of the witnesses: a memory that holds its own addresses, a sink that records.\<close>

definition sample_ports :: "(bytes_memory \<times> (u8 list \<times> bool) list) axi_ports" where
  "sample_ports = \<lparr>ap_init = (\<lambda>tr d w. Inr (tr\<lparr>gp_data := poke (gp_len tr) (mem_read (fst w) (gp_addr tr) (gp_len tr)) (gp_data tr),
       gp_resp := TLM_OK_RESPONSE\<rparr>, d, w)), ap_stream = packet_sink, ap_attr = \<lparr>ga_master_id = 0, ga_eop = False\<rparr>, ap_use_memcpy = False,
     ap_host_read = (\<lambda>_ _ _. []), ap_host_write = (\<lambda>_ _ w. w)\<rparr>"

section \<open>Packets\<close>

text \<open>A stream sink: it takes every packet, as its bytes and the end-of-packet flag.\<close>

definition takes_packets :: "'w target \<Rightarrow> (u8 list \<Rightarrow> bool \<Rightarrow> 'w \<Rightarrow> 'w) \<Rightarrow> bool" where
  "takes_packets sk put \<longleftrightarrow> (\<forall>tr d w g. gp_cmd tr = TLM_WRITE_COMMAND \<and> gp_genattr tr = Some g \<longrightarrow>
     sk tr d w = Inr (tr\<lparr>gp_resp := TLM_OK_RESPONSE\<rparr>, d, put (take (gp_len tr) (gp_data tr)) (ga_eop g) w))"

text \<open>The packets a range is cut into: \<open>k\<close> bytes each, the last one marked.\<close>

function packets :: "nat \<Rightarrow> bytes_memory \<Rightarrow> u64 \<Rightarrow> nat \<Rightarrow> (u8 list \<times> bool) list" where
  "packets k m a n =
     (if n \<le> k \<or> k = 0 then [(mem_read m a n, True)]
      else (mem_read m a k, False) # packets k m (a + of_nat k) (n - k))"
  by pat_completeness auto
termination by (relation "measure (\<lambda>(k, m, a, n). n)") auto

declare packets.simps [simp del]

lemma packets_last: "n \<le> k \<or> k = 0 \<Longrightarrow> packets k m a n = [(mem_read m a n, True)]"
  by (subst packets.simps) simp

lemma packets_more:
  "\<not> (n \<le> k \<or> k = 0) \<Longrightarrow> packets k m a n = (mem_read m a k, False) # packets k m (a + of_nat k) (n - k)"
  by (subst packets.simps) simp

lemma packets_concat: "concat (map fst (packets k m a n)) = mem_read m a n"
proof (induction k m a n rule: packets.induct)
  case (1 k m a n)
  show ?case
  proof (cases "n \<le> k \<or> k = 0")
    case True
    then show ?thesis by (simp add: packets_last)
  next
    case False
    then show ?thesis
      using 1 mem_read_append [of m a k "n - k"] by (simp add: packets_more)
  qed
qed

lemma packets_shape:
  "packets k m a n \<noteq> [] \<and> snd (last (packets k m a n)) \<and>
     (\<forall>p \<in> set (butlast (packets k m a n)). \<not> snd p) \<and> (0 < k \<longrightarrow> (\<forall>p \<in> set (packets k m a n). length (fst p) \<le> k))"
proof (induction k m a n rule: packets.induct)
  case (1 k m a n)
  show ?case
  proof (cases "n \<le> k \<or> k = 0")
    case True
    then show ?thesis by (auto simp: packets_last [OF True])
  next
    case False
    then show ?thesis using 1 [OF False] by (simp add: packets_more)
  qed
qed

section \<open>A packet on the stream port\<close>

definition stream_gp :: "u8 list \<times> bool \<Rightarrow> gp" where
  "stream_gp p = (mk_gp TLM_WRITE_COMMAND 0 (fst p) (length (fst p)))\<lparr>gp_genattr := Some \<lparr>ga_master_id = 0, ga_eop = snd p\<rparr>\<rparr>"

text \<open>
  A channel fresh from reset is not idle: its first packet is not held back but
  dropped, with a completion interrupt, and the length register then holds the raw content of the
  counter of bytes.
\<close>

lemma s2mm_drops_after_reset:
  assumes "memory_target (ap_init ap)" "\<not> ap_use_memcpy ap"
  shows "\<exists>tr d s'. s2mm_b_transport ap (stream_gp (b, True)) 0 (axidma_new raw, m) = Some (Inr (tr, d, s', m)) \<and>
     ad_reg AXIDMA_R_LENGTH s' = raw \<and> ad_reg AXIDMA_R_SR s' = AXIDMA_SR_IDLE OR AXIDMA_SR_IOC_IRQ"
proof -
  have r: "ad_reg AXIDMA_R_LENGTH (axidma_new raw) = 0" "ad_reg AXIDMA_R_SR (axidma_new raw) = 0"
    "ad_addr (axidma_new raw) = 0" "ad_copied (axidma_new raw) = raw"
    by (simp_all add: ad_reg_def axidma_new_def ad_addr_def)
  have "take 0 b = []" by simp
  then have "ad_dma_trans (ap_init ap) TLM_WRITE_COMMAND b 0 0 0 m = Inr (b, 0, m)"
    using assms(1) by (simp add: ad_dma_trans_def memory_target_def)
  then show ?thesis
    using assms(2) r by (simp add: s2mm_b_transport_def stream_gp_def Let_def ad_idle_def min_def)
qed

end
