(* ===== verification/Axi_Steps.thy ===== *)
theory Axi_Steps
  imports Axi_Channels Interleaving
begin

text \<open>
  The memory-to-stream thread of the AXI DMA step by step.  It gives up control while it waits for
  \<open>ev_dma_copy\<close> and inside its two blocking calls, whose other ends may wait; the host reads and
  writes the registers in between.
\<close>

section \<open>The thread\<close>

text \<open>
  Where the thread is, with its local variables: \<open>addr\<close>, \<open>tlen\<close>, \<open>eop\<close> and \<open>delay\<close>, and the buffer.
  \<open>At_head\<close>: not run yet.  \<open>At_read\<close> and \<open>At_stream\<close>: in the call, which has not reached the other end yet; \<open>At_sent\<close>: the
  stream has taken the packet and its call has not returned yet.  Between the two calls
  the thread touches its local variables only.
\<close>

datatype mm2s_at =
    At_head
  | At_wait
  | At_awake
  | At_read "u8 list" u64 u32 bool
  | At_stream "u8 list" u64 u32 bool sc_time
  | At_sent u64 u32

text \<open>From behind the \<open>wait\<close> to the first call; \<open>memcpy\<close> does not give up control.\<close>

definition mm2s_begin :: "'w axi_ports \<Rightarrow> u8 list \<Rightarrow> axidma \<Rightarrow> 'w \<Rightarrow> mm2s_at res" where
  "mm2s_begin ap buf s w =
     (if ad_idle s then Inl Assertion_failed
      else let len = ad_reg AXIDMA_R_LENGTH s;
               tlen = (if len > 2048 then 2048 else len);
               eop = (tlen = len);
               addr = ad_addr s in
        Inr (if ap_use_memcpy ap
             then At_stream (poke (unat tlen) (ap_host_read ap addr (unat tlen) w) buf) addr tlen eop 0
             else At_read buf addr tlen eop))"

text \<open>What follows the call of the stream.\<close>

definition mm2s_finish :: "u64 \<Rightarrow> u32 \<Rightarrow> axidma \<Rightarrow> axidma" where
  "mm2s_finish addr tlen s =
     (let s1 = ad_set AXIDMA_R_LENGTH (ad_reg AXIDMA_R_LENGTH s - tlen) s;
          s2 = ad_set_addr (addr + ucast tlen) s1 in
      if ad_reg AXIDMA_R_LENGTH s2 = 0
      then (ad_set AXIDMA_R_SR (ad_reg AXIDMA_R_SR s2 OR AXIDMA_SR_IDLE OR AXIDMA_SR_IOC_IRQ) s2)\<lparr>ad_ev_irq := True\<rparr>
      else s2)"

text \<open>From the head of the loop.\<close>

definition mm2s_head :: "'w axi_ports \<Rightarrow> u8 list \<Rightarrow> axidma \<Rightarrow> 'w \<Rightarrow> mm2s_at res" where
  "mm2s_head ap buf s w = (if ad_reg AXIDMA_R_LENGTH s = 0 then Inr At_wait else mm2s_begin ap buf s w)"

fun mm2s_thread ::
  "'w axi_ports \<Rightarrow> u8 list \<Rightarrow> axidma \<times> mm2s_at \<times> 'w \<Rightarrow> (axidma \<times> mm2s_at \<times> 'w) res" where
  "mm2s_thread ap buf (s, At_head, w) = res_bind (mm2s_head ap buf s w) (\<lambda>at. Inr (s, at, w))"
| "mm2s_thread ap buf (s, At_wait, w) = Inr (s, At_wait, w)"
| "mm2s_thread ap buf (s, At_awake, w) = res_bind (mm2s_begin ap buf s w) (\<lambda>at. Inr (s, at, w))"
| "mm2s_thread ap buf (s, At_read b addr tlen eop, w) =
     res_bind (ad_dma_trans (ap_init ap) TLM_READ_COMMAND b addr (unat tlen) 0 w)
       (\<lambda>(b', d, w'). Inr (s, At_stream b' addr tlen eop d, w'))"
| "mm2s_thread ap buf (s, At_stream b addr tlen eop d, w) =
     res_bind (do_stream_trans (ap_attr ap) (ap_stream ap) b addr (unat tlen) eop d w)
       (\<lambda>w'. Inr (s, At_sent addr tlen, w'))"
| "mm2s_thread ap buf (s, At_sent addr tlen, w) =
     (let t = mm2s_finish addr tlen s in res_bind (mm2s_head ap buf t w) (\<lambda>at. Inr (t, at, w)))"

section \<open>The thread and its host\<close>

text \<open>
  A register access of the host, the interrupt method, a step of the thread with \<open>buf\<close> the raw content of its
  buffer.  A notification of \<open>ev_dma_copy\<close> reaches the thread only at its \<open>wait\<close>.
\<close>

datatype axi_act = Reg gp | Irq_method | Thread_step "u8 list"

fun mm2s_act :: "'w axi_ports \<Rightarrow> axi_act \<Rightarrow> axidma \<times> mm2s_at \<times> 'w \<Rightarrow> (axidma \<times> mm2s_at \<times> 'w) res" where
  "mm2s_act ap (Reg tr) (s, at, w) =
     res_bind (ad_b_transport tr 0 s) (\<lambda>(_, _, t).
       Inr (t\<lparr>ad_ev_copy := False\<rparr>, if ad_ev_copy t \<and> at = At_wait then At_awake else at, w))"
| "mm2s_act ap Irq_method (s, at, w) = Inr (if ad_ev_irq s then ad_update_irqs s else s, at, w)"
| "mm2s_act ap (Thread_step buf) (s, at, w) = mm2s_thread ap buf (s, at, w)"

text \<open>Undisturbed, the steps of the thread from its wake-up on are the turn of its loop and the head of the next.\<close>

lemma mm2s_turn_steps:
  "run_acts (mm2s_act ap) (replicate (if ap_use_memcpy ap then 3 else 4) (Thread_step buf)) (s, At_awake, w) =
     res_bind (mm2s_turn ap buf (s, w)) (\<lambda>(s', w'). res_bind (mm2s_head ap buf s' w') (\<lambda>at. Inr (s', at, w')))"
proof (cases "ad_idle s")
  case True
  have "replicate (if ap_use_memcpy ap then 3 else 4) (Thread_step buf) =
      Thread_step buf # replicate (if ap_use_memcpy ap then 2 else 3) (Thread_step buf)" by (simp add: numeral_eq_Suc)
  then show ?thesis using True by (simp add: mm2s_turn_def mm2s_begin_def)
next
  case False
  have r: "replicate 3 (Thread_step buf) = [Thread_step buf, Thread_step buf, Thread_step buf]"
    "replicate 4 (Thread_step buf) = [Thread_step buf, Thread_step buf, Thread_step buf, Thread_step buf]"
    by (simp_all add: eval_nat_numeral)
  show ?thesis
    using False
    by (cases "ap_use_memcpy ap")
      (simp_all add: r mm2s_turn_def mm2s_begin_def mm2s_finish_def Let_def res_bind_assoc split_def if_distrib [of Inr, symmetric])
qed

section \<open>The assertion\<close>

definition mm2s_ok :: "axidma \<times> mm2s_at \<times> 'w \<Rightarrow> bool" where
  "mm2s_ok = (\<lambda>(s, at, w). ad_inv s \<and> \<not> ad_ev_copy s \<and>
     (ad_idle s \<longrightarrow> ad_reg AXIDMA_R_LENGTH s = 0 \<and> (at = At_head \<or> at = At_wait)))"

lemma mm2s_finish_ok:
  assumes "ad_inv s" "\<not> ad_ev_copy s" "\<not> ad_idle s"
  shows "ad_inv (mm2s_finish a n s) \<and> \<not> ad_ev_copy (mm2s_finish a n s) \<and>
    (ad_idle (mm2s_finish a n s) \<longrightarrow> ad_reg AXIDMA_R_LENGTH (mm2s_finish a n s) = 0)"
proof -
  have ev: "ad_ev_copy (ad_set i v x) = ad_ev_copy x" "ad_ev_copy (ad_set_addr a x) = ad_ev_copy x" for i v x a
    by (simp_all add: ad_set_def ad_set_addr_def)
  show ?thesis using assms by (auto simp: mm2s_finish_def ad_idle_def Let_def ev)
qed

text \<open>A failure that stops the simulation comes from a socket or from the register access.\<close>

definition ports_never_stop :: "'w axi_ports \<Rightarrow> bool" where
  "ports_never_stop ap \<longleftrightarrow> (\<forall>tr d w. (\<exists>x. ap_init ap tr d w = Inr x) \<and> (\<exists>x. ap_stream ap tr d w = Inr x))"

lemma mm2s_ok_act:
  assumes "mm2s_ok st" "ports_never_stop ap"
  shows "case mm2s_act ap a st of Inl e \<Rightarrow> e \<noteq> Assertion_failed | Inr st' \<Rightarrow> mm2s_ok st'"
proof -
  obtain s at w where st: "st = (s, at, w)" by (cases st)
  have inv: "ad_inv s" "\<not> ad_ev_copy s" "ad_idle s \<longrightarrow> ad_reg AXIDMA_R_LENGTH s = 0 \<and> (at = At_head \<or> at = At_wait)"
    using assms(1) by (simp_all add: st mm2s_ok_def)
  have beg: "\<exists>at'. mm2s_begin ap buf s w = Inr at' \<and> at' \<noteq> At_head \<and> at' \<noteq> At_wait" if "\<not> ad_idle s" for buf
    using that by (simp add: mm2s_begin_def Let_def)
  have head: "mm2s_head ap buf t w = Inr At_wait \<and> ad_reg AXIDMA_R_LENGTH t = 0 \<or>
      (\<exists>at'. mm2s_head ap buf t w = Inr at' \<and> \<not> ad_idle t)" if "ad_idle t \<longrightarrow> ad_reg AXIDMA_R_LENGTH t = 0" for t buf
    using that by (auto simp: mm2s_head_def mm2s_begin_def Let_def)
  show ?thesis
  proof (cases a)
    case (Reg tr)
    show ?thesis
    proof (cases "ad_b_transport tr 0 s")
      case (Inl e)
      then have "e \<noteq> Assertion_failed"
        by (auto simp: ad_b_transport_def Let_def split: option.splits tlm_command.splits if_splits)
      then show ?thesis using Reg Inl st by simp
    next
      case (Inr x)
      obtain tr' d' t where x: "x = (tr', d', t)" by (cases x)
      from ad_b_transport_idle [OF inv(1,2) _ Inr [unfolded x]] inv(3) show ?thesis
        using Reg Inr x st inv(3) by (auto simp: mm2s_ok_def ad_idle_def)
    qed
  next
    case Irq_method
    then show ?thesis using inv by (auto simp: st mm2s_ok_def ad_idle_def) (simp_all add: ad_update_irqs_def)
  next
    case (Thread_step buf)
    show ?thesis
    proof (cases at)
      case At_head
      then show ?thesis using Thread_step st inv head [of s buf] by (auto simp: mm2s_ok_def)
    next
      case At_awake
      then show ?thesis using Thread_step st inv beg [of buf] by (auto simp: mm2s_ok_def)
    next
      case (At_read b addr tlen eop)
      obtain x where "ap_init ap (mk_gp TLM_READ_COMMAND addr b (unat tlen)) 0 w = Inr x"
        using assms(2) unfolding ports_never_stop_def by blast
      then show ?thesis using Thread_step st inv At_read by (cases x) (auto simp: mm2s_ok_def ad_dma_trans_def)
    next
      case (At_stream b addr tlen eop d)
      obtain x where "ap_stream ap ((mk_gp TLM_WRITE_COMMAND addr b (unat tlen))\<lparr>gp_genattr := Some ((ap_attr ap)\<lparr>ga_eop := eop\<rparr>)\<rparr>) d w = Inr x"
        using assms(2) unfolding ports_never_stop_def by blast
      then show ?thesis using Thread_step st inv At_stream by (cases x) (auto simp: mm2s_ok_def do_stream_trans_def)
    next
      case (At_sent addr tlen)
      have fin: "ad_inv (mm2s_finish addr tlen s)" "\<not> ad_ev_copy (mm2s_finish addr tlen s)"
        "ad_idle (mm2s_finish addr tlen s) \<longrightarrow> ad_reg AXIDMA_R_LENGTH (mm2s_finish addr tlen s) = 0"
        using mm2s_finish_ok [of s addr tlen] inv At_sent by auto
      show ?thesis using Thread_step At_sent st fin(1,2) head [OF fin(3), of buf] by (auto simp: mm2s_ok_def Let_def)
    qed (use Thread_step st assms(1) in simp)
  qed
qed

text \<open>The surroundings of the witnesses: a channel just told to stream 3000 bytes, the recording sink.\<close>

definition sample_axidma :: axidma where
  "sample_axidma = \<lparr>ad_u32 = [0, 0, 0, 0, 0, 0, 0x1000, 0, 0, 0, 3000], ad_copied = 0, ad_irq = False,
     ad_ev_copy = False, ad_ev_irq = False\<rparr>"

definition sample_put :: "u8 list \<Rightarrow> bool \<Rightarrow> bytes_memory \<times> (u8 list \<times> bool) list \<Rightarrow> bytes_memory \<times> (u8 list \<times> bool) list" where
  "sample_put b e w = (fst w, snd w @ [(b, e)])"

lemma sample_surroundings:
  "reads_memory (ap_init sample_ports) fst" "takes_packets (ap_stream sample_ports) sample_put"
  "\<not> ap_use_memcpy sample_ports" "fst (sample_put b e w) = fst w" "ports_never_stop sample_ports"
  by (simp_all add: sample_ports_def reads_memory_def takes_packets_def packet_sink_def sample_put_def ports_never_stop_def)

lemma sample_axidma_regs:
  "ad_inv sample_axidma" "\<not> ad_idle sample_axidma" "\<not> ad_ev_copy sample_axidma"
  "ad_reg AXIDMA_R_LENGTH sample_axidma = 3000" "ad_addr sample_axidma = 0x1000"
  by (simp_all add: sample_axidma_def ad_inv_def ad_idle_def ad_reg_def ad_addr_def)

text \<open>
  Property C18: from reset on, whatever the host reads and writes, also in the middle of a transfer,
  and however long the calls of the thread take, the assertion of the memory-to-stream thread holds, as
  long as the sockets themselves do not stop the simulation; and the channel is idle only at
  the head of the loop or at the \<open>wait\<close>, with a length of 0.
\<close>

theorem mm2s_assertion_holds_mid_transfer:
  assumes "reach (mm2s_act ap) (\<lambda>_. True) (axidma_new raw, At_head, w) r" "ports_never_stop ap"
  shows "r \<noteq> Inl Assertion_failed \<and> (\<forall>s at w'. r = Inr (s, at, w') \<and> ad_idle s \<longrightarrow>
    ad_reg AXIDMA_R_LENGTH s = 0 \<and> (at = At_head \<or> at = At_wait))"
proof -
  let ?I = "\<lambda>r. case r of Inl e \<Rightarrow> e \<noteq> Assertion_failed | Inr st \<Rightarrow> mm2s_ok st"
  have "?I r"
  proof (rule reach_invariant [where I = ?I, OF assms(1)])
    show "?I (Inr (axidma_new raw, At_head, w))"
      by (simp add: mm2s_ok_def ad_idle_def) (simp add: axidma_new_def ad_reg_def)
  qed (use mm2s_ok_act [OF _ assms(2)] in simp)
  then show ?thesis by (auto simp: mm2s_ok_def)
qed

theorem mm2s_assertion_holds_mid_transfer_witness:
  "run_acts (mm2s_act sample_ports) [Reg (mk_gp TLM_WRITE_COMMAND 0x28 [4, 0, 0, 0] 4), Thread_step [], Irq_method]
     (axidma_new 0, At_head, (\<lambda>a. ucast a, [])) \<noteq> Inl Assertion_failed"
  by (rule conjunct1 [OF mm2s_assertion_holds_mid_transfer [OF run_acts_reach sample_surroundings(5)]]) simp

section \<open>A transfer, seen by a host that polls\<close>

text \<open>
  The host reads registers and writes any but the address and length registers, by valid
  accesses; the buffer of the thread has 2 KB.
\<close>

fun mm2s_poll :: "axi_act \<Rightarrow> bool" where
  "mm2s_poll (Reg tr) \<longleftrightarrow> unat (drop_bit 2 (gp_addr tr)) < AXIDMA_R_MAX \<and>
     (gp_cmd tr = TLM_WRITE_COMMAND \<longrightarrow> 4 \<le> gp_len tr \<and>
        unat (drop_bit 2 (gp_addr tr)) \<notin> {AXIDMA_R_ADDR, AXIDMA_R_ADDR_MSB, AXIDMA_R_LENGTH})"
| "mm2s_poll Irq_method \<longleftrightarrow> True"
| "mm2s_poll (Thread_step buf) \<longleftrightarrow> length buf = 2048"

lemma ad_b_transport_poll:
  assumes "mm2s_poll (Reg tr)" "ad_inv s"
  shows "\<exists>tr' d' t. ad_b_transport tr d s = Inr (tr', d', t) \<and> ad_inv t \<and> ad_ev_copy t = ad_ev_copy s \<and>
    ad_reg AXIDMA_R_LENGTH t = ad_reg AXIDMA_R_LENGTH s \<and> ad_addr t = ad_addr s \<and> ad_idle t = ad_idle s \<and>
    ad_copied t = ad_copied s"
proof -
  have ev: "ad_ev_copy (ad_set i v x) = ad_ev_copy x" for i v x by (simp add: ad_set_def)
  show ?thesis
    using assms
    by (cases "reg_access_error tr"; cases "gp_cmd tr") (auto simp: ad_b_transport_def Let_def ad_idle_def ev idle_bits)
qed

text \<open>What is left to send.\<close>

definition mm2s_left :: "bytes_memory \<Rightarrow> axidma \<Rightarrow> (u8 list \<times> bool) list" where
  "mm2s_left m s = packets 2048 m (ad_addr s) (unat (ad_reg AXIDMA_R_LENGTH s))"

text \<open>The local variables of the thread inside a transfer.\<close>

definition mm2s_locals :: "axidma \<Rightarrow> u64 \<Rightarrow> u32 \<Rightarrow> bool \<Rightarrow> bool" where
  "mm2s_locals s addr tlen eop \<longleftrightarrow> addr = ad_addr s \<and>
     unat tlen = min (unat (ad_reg AXIDMA_R_LENGTH s)) 2048 \<and> eop = (unat (ad_reg AXIDMA_R_LENGTH s) \<le> 2048)"

fun mm2s_sent ::
  "('w \<Rightarrow> bytes_memory) \<Rightarrow> (u8 list \<Rightarrow> bool \<Rightarrow> 'w \<Rightarrow> 'w) \<Rightarrow> 'w \<Rightarrow> (u8 list \<times> bool) list \<Rightarrow> u64 \<Rightarrow> axidma \<times> mm2s_at \<times> 'w \<Rightarrow> bool" where
  "mm2s_sent mem put w0 ps a1 (s, at, w) \<longleftrightarrow> ad_inv s \<and> \<not> ad_ev_copy s \<and> mem w = mem w0 \<and>
     (if ad_idle s then (at = At_head \<or> at = At_wait) \<and> ad_reg AXIDMA_R_LENGTH s = 0 \<and> ad_addr s = a1 \<and>
        w = fold (\<lambda>(b, e). put b e) ps w0
      else ad_reg AXIDMA_R_LENGTH s \<noteq> 0 \<and> ad_addr s + of_nat (unat (ad_reg AXIDMA_R_LENGTH s)) = a1 \<and>
        (\<exists>front. front @ mm2s_left (mem w0) s = ps \<and>
        (case at of
           At_head \<Rightarrow> w = fold (\<lambda>(b, e). put b e) front w0
         | At_wait \<Rightarrow> False
         | At_awake \<Rightarrow> w = fold (\<lambda>(b, e). put b e) front w0
         | At_read b addr tlen eop \<Rightarrow> mm2s_locals s addr tlen eop \<and> length b = 2048 \<and> w = fold (\<lambda>(b, e). put b e) front w0
         | At_stream b addr tlen eop d \<Rightarrow> mm2s_locals s addr tlen eop \<and>
             take (unat tlen) b = mem_read (mem w0) addr (unat tlen) \<and> w = fold (\<lambda>(b, e). put b e) front w0
         | At_sent addr tlen \<Rightarrow> (\<exists>eop. mm2s_locals s addr tlen eop) \<and>
             w = fold (\<lambda>(b, e). put b e) (front @ [hd (mm2s_left (mem w0) s)]) w0)))"

text \<open>Only the last packet is marked.\<close>

lemma packets_marks: "map snd (packets k m a n) = replicate (length (packets k m a n) - 1) False @ [True]"
proof (induction k m a n rule: packets.induct)
  case (1 k m a n)
  show ?case
  proof (cases "n \<le> k \<or> k = 0")
    case True
    then show ?thesis by (simp add: packets_last [OF True])
  next
    case False
    have "packets k m (a + of_nat k) (n - k) \<noteq> []" using packets_shape [of k m "a + of_nat k" "n - k"] by blast
    then have "length (packets k m (a + of_nat k) (n - k)) = Suc (length (packets k m (a + of_nat k) (n - k)) - 1)" by simp
    then show ?thesis
      using 1 [OF False] by (simp only: packets_more [OF False] list.map snd_conv list.size diff_Suc_1 plus_1_eq_Suc replicate_Suc append_Cons add_Suc_right add_0_right)
        (metis append_Cons replicate_Suc)
  qed
qed

lemma mm2s_left_step:
  assumes "mm2s_locals s addr tlen eop"
  shows "mm2s_left m s = (mem_read m addr (unat tlen), eop) #
    (if eop then [] else packets 2048 m (addr + of_nat (unat tlen)) (unat (ad_reg AXIDMA_R_LENGTH s) - unat tlen))"
  using assms by (auto simp: mm2s_left_def mm2s_locals_def packets_last packets_more)

lemma mm2s_begin_locals:
  assumes "\<not> ad_idle s" "\<not> ap_use_memcpy ap"
  shows "\<exists>addr tlen eop. mm2s_begin ap buf s w = Inr (At_read buf addr tlen eop) \<and> mm2s_locals s addr tlen eop"
proof -
  let ?len = "ad_reg AXIDMA_R_LENGTH s"
  let ?tlen = "if ?len > 2048 then 2048 else ?len"
  have "mm2s_locals s (ad_addr s) ?tlen (?tlen = ?len)"
    by (auto simp: mm2s_locals_def word_less_nat_alt word_unat_eq_iff)
  moreover have "mm2s_begin ap buf s w = Inr (At_read buf (ad_addr s) ?tlen (?tlen = ?len))"
    using assms by (simp only: mm2s_begin_def Let_def if_False)
  ultimately show ?thesis by blast
qed

text \<open>The registers after a packet.\<close>

lemma mm2s_finish_regs:
  assumes "ad_inv s" "\<not> ad_idle s" "mm2s_locals s addr tlen eop" "\<not> ad_ev_copy s"
  defines "t \<equiv> mm2s_finish addr tlen s"
  shows "ad_inv t \<and> \<not> ad_ev_copy t \<and> ad_addr t = addr + of_nat (unat tlen) \<and>
    unat (ad_reg AXIDMA_R_LENGTH t) = unat (ad_reg AXIDMA_R_LENGTH s) - unat tlen \<and> ad_idle t = eop"
proof -
  let ?len = "ad_reg AXIDMA_R_LENGTH s"
  have le: "tlen \<le> ?len" using assms(3) by (simp add: mm2s_locals_def word_le_nat_alt)
  have sub: "unat (?len - tlen) = unat ?len - unat tlen" using le by (simp add: unat_sub)
  have eop: "?len - tlen = 0 \<longleftrightarrow> eop" using assms(3) sub by (auto simp: mm2s_locals_def unat_eq_0 [symmetric])
  have u: "(ucast tlen :: u64) = of_nat (unat tlen)" by (simp add: word_unat_eq_iff unat_ucast32 unat_of_nat)
  have ev: "ad_ev_copy (ad_set i v x) = ad_ev_copy x" "ad_ev_copy (ad_set_addr a x) = ad_ev_copy x" for i v x a
    by (simp_all add: ad_set_def ad_set_addr_def)
  let ?s2 = "ad_set_addr (addr + ucast tlen) (ad_set AXIDMA_R_LENGTH (?len - tlen) s)"
  have l2: "ad_reg AXIDMA_R_LENGTH ?s2 = ?len - tlen" "ad_inv ?s2" "ad_addr ?s2 = addr + of_nat (unat tlen)"
    "ad_reg AXIDMA_R_SR ?s2 = ad_reg AXIDMA_R_SR s" "\<not> ad_ev_copy ?s2"
    using assms(1,4) u by (simp_all add: ev split del: if_split)
  show ?thesis
  proof (cases "?len - tlen = 0")
    case True
    let ?s' = "(ad_set AXIDMA_R_SR (ad_reg AXIDMA_R_SR ?s2 OR AXIDMA_SR_IDLE OR AXIDMA_SR_IOC_IRQ) ?s2)\<lparr>ad_ev_irq := True\<rparr>"
    have "t = ?s'" using True l2(1) by (simp add: t_def mm2s_finish_def Let_def split del: if_split)
    moreover have "ad_idle ?s'" using l2(2) idle_bits(2) [of "ad_reg AXIDMA_R_SR ?s2"]
      by (simp add: ad_idle_def AXIDMA_SR_IDLE_def split del: if_split)
    moreover have "ad_inv ?s'" "ad_addr ?s' = addr + of_nat (unat tlen)" "ad_reg AXIDMA_R_LENGTH ?s' = ?len - tlen" "\<not> ad_ev_copy ?s'"
      using l2 ev by (simp_all split del: if_split)
    ultimately show ?thesis using True eop sub by (simp split del: if_split)
  next
    case False
    then have "t = ?s2" using l2(1) by (simp add: t_def mm2s_finish_def Let_def split del: if_split)
    moreover have "\<not> ad_idle ?s2" using assms(2) l2(4) by (simp add: ad_idle_def split del: if_split)
    ultimately show ?thesis using False eop sub l2 by (simp split del: if_split)
  qed
qed

lemma mm2s_sent_regs:
  assumes "mm2s_sent mem put w0 ps a1 (s, at, w)" "ad_inv t" "\<not> ad_ev_copy t"
    and "ad_reg AXIDMA_R_LENGTH t = ad_reg AXIDMA_R_LENGTH s" "ad_addr t = ad_addr s" "ad_idle t = ad_idle s"
  shows "mm2s_sent mem put w0 ps a1 (t, at, w)"
proof -
  have l: "mm2s_left m t = mm2s_left m s" for m using assms(4,5) by (simp add: mm2s_left_def)
  have v: "mm2s_locals t x y z = mm2s_locals s x y z" for x y z using assms(4,5) by (simp add: mm2s_locals_def)
  show ?thesis using assms(1-3) unfolding mm2s_sent.simps assms(4-6) l v by blast
qed

text \<open>The head of the loop.\<close>

lemma mm2s_sent_head:
  assumes "\<not> ap_use_memcpy ap" "mm2s_sent mem put w0 ps a1 (s, At_head, w)" "length buf = 2048"
  shows "\<exists>at. mm2s_head ap buf s w = Inr at \<and> mm2s_sent mem put w0 ps a1 (s, at, w) \<and>
    (if ad_idle s then at = At_wait else \<exists>b addr tlen eop. at = At_read b addr tlen eop)"
proof (cases "ad_idle s")
  case True
  have "mm2s_head ap buf s w = Inr At_wait" using assms(2) True by (simp add: mm2s_head_def)
  moreover have "mm2s_sent mem put w0 ps a1 (s, At_wait, w)" using assms(2) True unfolding mm2s_sent.simps if_P [OF True] by blast
  ultimately show ?thesis using True by (simp del: mm2s_sent.simps)
next
  case False
  obtain addr tlen eop where beg: "mm2s_begin ap buf s w = Inr (At_read buf addr tlen eop)" "mm2s_locals s addr tlen eop"
    using mm2s_begin_locals [OF False assms(1)] by blast
  have "mm2s_head ap buf s w = Inr (At_read buf addr tlen eop)" using assms(2) False beg(1) by (simp add: mm2s_head_def)
  moreover have "mm2s_sent mem put w0 ps a1 (s, At_read buf addr tlen eop, w)" using assms(2,3) False beg(2) by auto
  ultimately show ?thesis using False by auto
qed

text \<open>The steps of the thread.\<close>

lemma mm2s_sent_thread:
  assumes "reads_memory (ap_init ap) mem" "takes_packets (ap_stream ap) put" "\<not> ap_use_memcpy ap"
    and "\<And>b e w. mem (put b e w) = mem w"
    and "mm2s_sent mem put w0 ps a1 (s, at, w)" "length buf = 2048"
  shows "\<exists>st'. mm2s_thread ap buf (s, at, w) = Inr st' \<and> mm2s_sent mem put w0 ps a1 st'"
proof (cases "ad_idle s")
  case True
  then consider "at = At_head" | "at = At_wait" using assms(5) by auto
  then show ?thesis
  proof cases
    assume "at = At_head"
    then show ?thesis using mm2s_sent_head [OF assms(3) _ assms(6)] assms(5) by fastforce
  qed (use assms(5) in \<open>simp del: mm2s_sent.simps\<close>)
next
  case False
  then have inv: "ad_inv s" "\<not> ad_ev_copy s" "mem w = mem w0" "ad_reg AXIDMA_R_LENGTH s \<noteq> 0"
    "ad_addr s + of_nat (unat (ad_reg AXIDMA_R_LENGTH s)) = a1" using assms(5) by simp_all
  obtain addr tlen eop where beg: "mm2s_begin ap buf s w = Inr (At_read buf addr tlen eop)" "mm2s_locals s addr tlen eop"
    using mm2s_begin_locals [OF False assms(3)] by blast
  show ?thesis
  proof (cases at)
    case At_head
    then show ?thesis using mm2s_sent_head [OF assms(3) _ assms(6)] assms(5) by fastforce
  next
    case At_awake
    then have "mm2s_thread ap buf (s, at, w) = Inr (s, At_read buf addr tlen eop, w)" using beg(1) by simp
    moreover have "mm2s_sent mem put w0 ps a1 (s, At_read buf addr tlen eop, w)"
      using assms(5,6) False At_awake beg(2) by auto
    ultimately show ?thesis by blast
  next
    case At_wait
    then show ?thesis using assms(5) False by simp
  next
    case (At_read b addr tlen eop)
    then have loc: "mm2s_locals s addr tlen eop" "length b = 2048" using assms(5) False by auto
    then have n: "unat tlen \<le> 2048" by (simp add: mm2s_locals_def)
    let ?b = "poke (unat tlen) (mem_read (mem w) addr (unat tlen)) b"
    have "mm2s_thread ap buf (s, at, w) = Inr (s, At_stream ?b addr tlen eop 0, w)"
      using assms(1) At_read by (simp add: ad_dma_trans_def reads_memory_def)
    moreover have "take (unat tlen) ?b = mem_read (mem w0) addr (unat tlen)" using inv(3) by simp
    then have "mm2s_sent mem put w0 ps a1 (s, At_stream ?b addr tlen eop 0, w)"
      using assms(5) False At_read by auto
    ultimately show ?thesis by blast
  next
    case (At_stream b addr tlen eop d)
    obtain front where f: "front @ mm2s_left (mem w0) s = ps" "mm2s_locals s addr tlen eop"
      "take (unat tlen) b = mem_read (mem w0) addr (unat tlen)" "w = fold (\<lambda>(b, e). put b e) front w0"
      using assms(5) False At_stream by auto
    let ?w = "put (mem_read (mem w0) addr (unat tlen)) eop w"
    have "mm2s_thread ap buf (s, at, w) = Inr (s, At_sent addr tlen, ?w)"
      using assms(2) f(3) At_stream by (simp add: do_stream_trans_def takes_packets_def)
    moreover have "mm2s_sent mem put w0 ps a1 (s, At_sent addr tlen, ?w)"
      using False inv f(1,2) assms(4) by (auto simp: f(4) mm2s_left_step [OF f(2)] intro!: exI [of _ front])
    ultimately show ?thesis by blast
  next
    case (At_sent addr tlen)
    obtain front eop where f: "front @ mm2s_left (mem w0) s = ps" "mm2s_locals s addr tlen eop"
      "w = fold (\<lambda>(b, e). put b e) (front @ [hd (mm2s_left (mem w0) s)]) w0"
      using assms(5) False At_sent by auto
    let ?t = "mm2s_finish addr tlen s"
    have t: "ad_inv ?t" "\<not> ad_ev_copy ?t" "ad_addr ?t = addr + of_nat (unat tlen)"
      "unat (ad_reg AXIDMA_R_LENGTH ?t) = unat (ad_reg AXIDMA_R_LENGTH s) - unat tlen" "ad_idle ?t = eop"
      using mm2s_finish_regs [OF inv(1) False f(2) inv(2)] by simp_all
    have le: "unat tlen \<le> unat (ad_reg AXIDMA_R_LENGTH s)" "addr = ad_addr s"
      "eop \<longleftrightarrow> unat (ad_reg AXIDMA_R_LENGTH s) = unat tlen" using f(2) by (auto simp: mm2s_locals_def)
    have sum: "of_nat (unat tlen) + of_nat (unat (ad_reg AXIDMA_R_LENGTH s) - unat tlen) =
        (of_nat (unat (ad_reg AXIDMA_R_LENGTH s)) :: u64)" using le(1) by (simp flip: of_nat_add)
    have left: "mm2s_left (mem w0) s = (mem_read (mem w0) addr (unat tlen), eop) # (if eop then [] else mm2s_left (mem w0) ?t)"
      using mm2s_left_step [OF f(2), of "mem w0"] t(3,4) by (simp add: mm2s_left_def)
    have head: "mm2s_sent mem put w0 ps a1 (?t, At_head, w)"
    proof (cases eop)
      case True
      then have z: "ad_reg AXIDMA_R_LENGTH ?t = 0" using t(4) le(3) by (simp add: unat_eq_0 [symmetric])
      have "ad_reg AXIDMA_R_LENGTH s = tlen" using le(3) True by (simp add: word_unat_eq_iff)
      then have "ad_addr ?t = a1" using t(3) inv(5) le(2) by simp
      moreover have "w = fold (\<lambda>(b, e). put b e) ps w0" using f(1,3) left True by simp
      ultimately show ?thesis using t True z inv(3) by simp
    next
      case more: False
      have z: "ad_reg AXIDMA_R_LENGTH ?t \<noteq> 0" using t(4) le more by (auto simp: unat_eq_0 [symmetric])
      have "ad_addr ?t + of_nat (unat (ad_reg AXIDMA_R_LENGTH ?t)) = a1"
        unfolding t(3,4) add.assoc sum using inv(5) by (simp only: le(2))
      moreover have "(front @ [hd (mm2s_left (mem w0) s)]) @ mm2s_left (mem w0) ?t = ps" using f(1) left more by simp
      ultimately show ?thesis using t more z inv(3) f(3) by auto
    qed
    obtain at' where "mm2s_head ap buf ?t w = Inr at'" "mm2s_sent mem put w0 ps a1 (?t, at', w)"
      using mm2s_sent_head [OF assms(3) head assms(6)] by blast
    then show ?thesis using At_sent by (simp add: Let_def del: mm2s_sent.simps)
  qed
qed

lemma mm2s_sent_act:
  assumes "reads_memory (ap_init ap) mem" "takes_packets (ap_stream ap) put" "\<not> ap_use_memcpy ap"
    and "\<And>b e w. mem (put b e w) = mem w"
    and "mm2s_sent mem put w0 ps a1 st" "mm2s_poll a"
  shows "\<exists>st'. mm2s_act ap a st = Inr st' \<and> mm2s_sent mem put w0 ps a1 st'"
proof -
  obtain s at w where st: "st = (s, at, w)" by (cases st)
  note inv = assms(5) [unfolded st]
  show ?thesis
  proof (cases a)
    case (Reg tr)
    obtain tr' d' t where b: "ad_b_transport tr 0 s = Inr (tr', d', t)" "ad_inv t" "ad_ev_copy t = ad_ev_copy s"
      "ad_reg AXIDMA_R_LENGTH t = ad_reg AXIDMA_R_LENGTH s" "ad_addr t = ad_addr s" "ad_idle t = ad_idle s"
      using ad_b_transport_poll [of tr s 0] assms(6) Reg inv by auto
    have "mm2s_sent mem put w0 ps a1 (t\<lparr>ad_ev_copy := False\<rparr>, at, w)"
      by (rule mm2s_sent_regs [OF inv]) (use b in \<open>simp_all add: ad_idle_def ad_addr_def\<close>)
    moreover have "\<not> ad_ev_copy t" using b(3) inv by simp
    ultimately show ?thesis using Reg st b(1) by (simp del: mm2s_sent.simps)
  next
    case Irq_method
    have "mm2s_sent mem put w0 ps a1 (ad_update_irqs s, at, w)"
      by (rule mm2s_sent_regs [OF inv]) (use inv in \<open>simp_all add: ad_idle_def ad_addr_def\<close>, simp add: ad_update_irqs_def)
    then show ?thesis using Irq_method st inv by (simp del: mm2s_sent.simps)
  next
    case (Thread_step buf)
    then show ?thesis using mm2s_sent_thread [OF assms(1-4) inv] assms(6) st by simp
  qed
qed

lemma mm2s_sent_reach:
  assumes "reach (mm2s_act ap) mm2s_poll (s, at, w) r"
    and "reads_memory (ap_init ap) mem" "takes_packets (ap_stream ap) put" "\<not> ap_use_memcpy ap"
    and "\<And>b e w. mem (put b e w) = mem w" "ad_inv s" "\<not> ad_idle s" "\<not> ad_ev_copy s" "at = At_head \<or> at = At_awake"
    and "n = unat (ad_reg AXIDMA_R_LENGTH s)" "0 < n" "ps = packets 2048 (mem w) (ad_addr s) n"
  shows "\<exists>st'. r = Inr st' \<and> mm2s_sent mem put w ps (ad_addr s + of_nat n) st'"
proof -
  let ?I = "mm2s_sent mem put w ps (ad_addr s + of_nat n)"
  have start: "?I (s, at, w)" using assms(6-12) by (auto simp: mm2s_left_def)
  have "\<exists>st'. mm2s_act ap a st = Inr st' \<and> ?I st'" if "?I st" "mm2s_poll a" for st a
    by (rule mm2s_sent_act [where put = put, OF assms(2-4) _ that]) (rule assms(5))
  from reach_invariant_safe [where I = ?I, OF assms(1) start this] show ?thesis .
qed

section \<open>A transfer ends\<close>

text \<open>The steps the thread still has to take: one to begin, three for a packet.\<close>

fun mm2s_steps_left :: "bytes_memory \<Rightarrow> axidma \<times> mm2s_at \<times> 'w \<Rightarrow> nat" where
  "mm2s_steps_left m (s, at, w) =
     (if ad_idle s then 0
      else 3 * length (mm2s_left m s) + 1 -
        (case at of At_read b addr tlen eop \<Rightarrow> 1 | At_stream b addr tlen eop d \<Rightarrow> 2 | At_sent addr tlen \<Rightarrow> 3 | _ \<Rightarrow> 0))"

lemma mm2s_left_pos: "0 < length (mm2s_left m s)"
  using packets_shape [of 2048 m] by (simp add: mm2s_left_def)

lemma mm2s_steps_left_regs:
  "ad_reg AXIDMA_R_LENGTH t = ad_reg AXIDMA_R_LENGTH s \<Longrightarrow> ad_addr t = ad_addr s \<Longrightarrow> ad_idle t = ad_idle s \<Longrightarrow>
     mm2s_steps_left m (t, at, w') = mm2s_steps_left m (s, at, w)"
  by (simp add: mm2s_left_def)

lemma mm2s_steps_left_thread:
  assumes "reads_memory (ap_init ap) mem" "takes_packets (ap_stream ap) put" "\<not> ap_use_memcpy ap"
    and "mm2s_sent mem put w0 ps a1 (s, at, w)" "mm2s_thread ap buf (s, at, w) = Inr st'"
  shows "mm2s_steps_left (mem w0) st' = mm2s_steps_left (mem w0) (s, at, w) - 1"
proof (cases "ad_idle s")
  case True
  then have "at = At_head \<or> at = At_wait" "ad_reg AXIDMA_R_LENGTH s = 0" using assms(4) by simp_all
  then show ?thesis using assms(5) True by (auto simp: mm2s_head_def)
next
  case False
  obtain addr tlen eop where beg: "mm2s_begin ap buf s w = Inr (At_read buf addr tlen eop)"
    using mm2s_begin_locals [OF False assms(3)] by blast
  have len: "ad_reg AXIDMA_R_LENGTH s \<noteq> 0" using assms(4) False by simp
  show ?thesis
  proof (cases at)
    case (At_read b addr tlen eop)
    then have "\<exists>b'. st' = (s, At_stream b' addr tlen eop 0, w)"
      using assms(1,5) by (auto simp: ad_dma_trans_def reads_memory_def)
    then show ?thesis using At_read False by auto
  next
    case (At_stream b addr tlen eop d)
    then have "\<exists>w'. st' = (s, At_sent addr tlen, w')"
      using assms(2,5) by (auto simp: do_stream_trans_def takes_packets_def)
    then show ?thesis using At_stream False by auto
  next
    case (At_sent addr tlen)
    obtain eop where loc: "mm2s_locals s addr tlen eop" using assms(4) False At_sent by auto
    let ?t = "mm2s_finish addr tlen s"
    have t: "ad_addr ?t = addr + of_nat (unat tlen)" "ad_idle ?t = eop"
      "unat (ad_reg AXIDMA_R_LENGTH ?t) = unat (ad_reg AXIDMA_R_LENGTH s) - unat tlen"
      using mm2s_finish_regs [OF _ False loc] assms(4) by simp_all
    have "mm2s_left m s = (mem_read m addr (unat tlen), eop) # (if eop then [] else mm2s_left m ?t)" for m
      using mm2s_left_step [OF loc, of m] t(1,3) by (simp add: mm2s_left_def)
    note left = this
    show ?thesis
    proof (cases eop)
      case True
      then show ?thesis using assms(5) At_sent False t(2) left [of "mem w0"] by (auto simp: Let_def res_bind_eq_Inr)
    next
      case more: False
      obtain b' addr' tlen' eop' where "mm2s_begin ap buf ?t w = Inr (At_read b' addr' tlen' eop')"
        using mm2s_begin_locals [OF _ assms(3), of ?t buf w] t(2) more by blast
      moreover have "ad_reg AXIDMA_R_LENGTH ?t \<noteq> 0" using t(3) loc more by (auto simp: mm2s_locals_def unat_eq_0 [symmetric])
      ultimately have "st' = (?t, At_read b' addr' tlen' eop', w)" using assms(5) At_sent by (simp add: Let_def mm2s_head_def)
      then show ?thesis using At_sent False t(2) more left [of "mem w0"] by simp
    qed
  next
    case At_wait
    then show ?thesis using assms(4) False by simp
  qed (use assms(5) False beg len in \<open>auto simp: mm2s_head_def\<close>)
qed

definition thread_steps :: "axi_act list \<Rightarrow> nat" where
  "thread_steps as = length (filter (\<lambda>a. \<exists>buf. a = Thread_step buf) as)"

lemma mm2s_steps_left_act:
  assumes "reads_memory (ap_init ap) mem" "takes_packets (ap_stream ap) put" "\<not> ap_use_memcpy ap"
    and "\<And>b e w. mem (put b e w) = mem w" "mm2s_sent mem put w0 ps a1 st" "mm2s_poll a"
  shows "\<exists>st'. mm2s_act ap a st = Inr st' \<and> mm2s_sent mem put w0 ps a1 st' \<and>
    mm2s_steps_left (mem w0) st' \<le> mm2s_steps_left (mem w0) st - (if \<exists>buf. a = Thread_step buf then 1 else 0)"
proof -
  obtain st1 where st1: "mm2s_act ap a st = Inr st1" "mm2s_sent mem put w0 ps a1 st1"
    using mm2s_sent_act [where put = put, OF assms(1-3) assms(4,5,6)] by blast
  obtain s at w where st: "st = (s, at, w)" by (cases st)
  have "mm2s_steps_left (mem w0) st1 \<le> mm2s_steps_left (mem w0) st - (if \<exists>buf. a = Thread_step buf then 1 else 0)"
  proof (cases a)
    case (Reg tr)
    obtain tr' d' t where b: "ad_b_transport tr 0 s = Inr (tr', d', t)" "ad_inv t" "ad_ev_copy t = ad_ev_copy s"
      "ad_reg AXIDMA_R_LENGTH t = ad_reg AXIDMA_R_LENGTH s" "ad_addr t = ad_addr s" "ad_idle t = ad_idle s"
      using ad_b_transport_poll [of tr s 0] assms(5,6) Reg st by auto
    have "st1 = (t\<lparr>ad_ev_copy := False\<rparr>, at, w)" using st1(1) Reg st b(1,3) assms(5) by auto
    then show ?thesis
      using mm2s_steps_left_regs [of "t\<lparr>ad_ev_copy := False\<rparr>" s "mem w0" at w w] b st Reg
      by (simp add: ad_idle_def ad_addr_def del: mm2s_steps_left.simps)
  next
    case Irq_method
    then show ?thesis
      using mm2s_steps_left_regs [of "ad_update_irqs s" s "mem w0" at w w] st1(1) st
      by (simp add: ad_idle_def ad_addr_def del: mm2s_steps_left.simps split: if_splits)
  next
    case (Thread_step buf)
    then show ?thesis
      using mm2s_steps_left_thread [OF assms(1-3) assms(5) [unfolded st]] st1(1) st
      by (simp del: mm2s_steps_left.simps)
  qed
  with st1 show ?thesis by blast
qed

lemma length_packets: "0 < k \<Longrightarrow> length (packets k m a n) = max 1 ((n + k - 1) div k)"
proof (induction k m a n rule: packets.induct)
  case (1 k m a n)
  show ?case
  proof (cases "n \<le> k \<or> k = 0")
    case True
    then have "(n + k - 1) div k \<le> 1" using 1(2) by (simp add: less_mult_imp_div_less less_Suc_eq_le [symmetric])
    then show ?thesis using True by (simp add: packets_last)
  next
    case False
    have "(n + k - 1) div k = Suc ((n - k + k - 1) div k)"
      using False div_add_self2 [of k "n - 1"] by (simp add: add.commute)
    moreover have "1 \<le> (n - k + k - 1) div k" using False by (simp add: div_greater_zero_iff Suc_le_eq) linarith
    ultimately show ?thesis using 1 False by (simp add: packets_more)
  qed
qed

text \<open>
  Such a transfer ends: when the thread has been given one step and three for each started 2 KB of the range, in
  whatever order with the accesses of the polling host and the interrupt method, the idle bit is set.
\<close>

lemma mm2s_transfer_ends:
  assumes "\<forall>a \<in> set as. mm2s_poll a" "3 * ((n + 2047) div 2048) + 1 \<le> thread_steps as"
    and "reads_memory (ap_init ap) mem" "takes_packets (ap_stream ap) put" "\<not> ap_use_memcpy ap"
    and "\<And>b e w. mem (put b e w) = mem w" "ad_inv s" "\<not> ad_idle s" "\<not> ad_ev_copy s" "at = At_head \<or> at = At_awake"
    and "n = unat (ad_reg AXIDMA_R_LENGTH s)" "0 < n"
  shows "\<exists>s' at' w'. run_acts (mm2s_act ap) as (s, at, w) = Inr (s', at', w') \<and> ad_idle s'"
proof -
  let ?ps = "packets 2048 (mem w) (ad_addr s) n"
  have start: "mm2s_sent mem put w ?ps (ad_addr s + of_nat n) (s, at, w)" using assms(7-12) by (auto simp: mm2s_left_def)
  note steps = mm2s_steps_left_act [where put = put and ap = ap and mem = mem and ?w0.0 = w and ps = ?ps and ?a1.0 = "ad_addr s + of_nat n",
    OF assms(3-5) assms(6)]
  obtain st' where r: "run_acts (mm2s_act ap) as (s, at, w) = Inr st'" "mm2s_sent mem put w ?ps (ad_addr s + of_nat n) st'"
    "mm2s_steps_left (mem w) st' \<le> mm2s_steps_left (mem w) (s, at, w) - thread_steps as"
    using run_acts_progress [where step = "mm2s_act ap" and A = mm2s_poll, OF steps start assms(1)] unfolding thread_steps_def by blast
  have "1 \<le> (n + 2047) div 2048" using assms(12) by (simp add: div_greater_zero_iff Suc_le_eq)
  then have "length (mm2s_left (mem w) s) = (n + 2047) div 2048"
    using length_packets [of 2048 "mem w" "ad_addr s" n] assms(11) by (simp add: mm2s_left_def max_absorb2)
  then have "mm2s_steps_left (mem w) st' = 0" using r(3) assms(2,8) assms(10) by auto
  moreover obtain s' at' w' where st': "st' = (s', at', w')" by (cases st')
  moreover have "0 < 3 * length (mm2s_left (mem w) s') + 1 - (case at' of At_read b addr tlen eop \<Rightarrow> 1
      | At_stream b addr tlen eop d \<Rightarrow> 2 | At_sent addr tlen \<Rightarrow> 3 | _ \<Rightarrow> 0)"
  proof -
    define l where "l = length (mm2s_left (mem w) s')"
    then have "0 < l" using mm2s_left_pos by simp
    then show ?thesis unfolding l_def [symmetric] by (cases at') simp_all
  qed
  ultimately show ?thesis using r(1) by (auto split: if_splits)
qed

section \<open>A transfer, from the write of the length to the idle bit\<close>

text \<open>
  Property C15: a host that has written a length other than 0 and then polls the channel by valid accesses that
  leave the address and length registers alone finds, under every interleaving with the thread
  and however long its calls take: no failure; as long as the idle bit is clear, the
  packets the stream has taken are a front part of the range cut into packets of at most 2 KB; once the
  idle bit is set, the stream has taken exactly these packets, of which the last alone is
  marked, the length register is 0 and the address register is just behind the range.  And the idle bit is
  set once the thread has been given one step and three for each started 2 KB of the range.
\<close>

theorem mm2s_polled_transfer:
  assumes "\<forall>a \<in> set as. mm2s_poll a"
    and "reads_memory (ap_init ap) mem" "takes_packets (ap_stream ap) put" "\<not> ap_use_memcpy ap"
    and "\<And>b e w. mem (put b e w) = mem w" "ad_inv s" "\<not> ad_idle s" "\<not> ad_ev_copy s" "at = At_head \<or> at = At_awake"
    and "n = unat (ad_reg AXIDMA_R_LENGTH s)" "0 < n" "ps = packets 2048 (mem w) (ad_addr s) n"
  shows "\<exists>s' at' w'. run_acts (mm2s_act ap) as (s, at, w) = Inr (s', at', w') \<and>
    (if ad_idle s' then w' = fold (\<lambda>(b, e). put b e) ps w \<and> ad_reg AXIDMA_R_LENGTH s' = 0 \<and> ad_addr s' = ad_addr s + of_nat n
     else \<exists>front rest. ps = front @ rest \<and> w' = fold (\<lambda>(b, e). put b e) front w) \<and>
    (3 * ((n + 2047) div 2048) + 1 \<le> thread_steps as \<longrightarrow> ad_idle s') \<and>
    concat (map fst ps) = mem_read (mem w) (ad_addr s) n \<and> map snd ps = replicate (length ps - 1) False @ [True]"
proof -
  let ?I = "mm2s_sent mem put w ps (ad_addr s + of_nat n)"
  obtain s' at' w' where r: "run_acts (mm2s_act ap) as (s, at, w) = Inr (s', at', w')" "?I (s', at', w')"
    using mm2s_sent_reach [where put = put, OF run_acts_reach [OF assms(1)] assms(2-4) assms(5-12)] by (metis prod_cases3)
  have "ad_idle s'" if enough: "3 * ((n + 2047) div 2048) + 1 \<le> thread_steps as"
  proof -
    obtain s2 at2 w2 where "run_acts (mm2s_act ap) as (s, at, w) = Inr (s2, at2, w2)" "ad_idle s2"
      using mm2s_transfer_ends [where put = put and w = w, OF assms(1) enough assms(2-4) assms(5-11)] by blast
    then show ?thesis using r(1) by simp
  qed
  moreover have "\<exists>front rest. ps = front @ rest \<and> w' = fold (\<lambda>(b, e). put b e) front w" if idle: "\<not> ad_idle s'"
  proof -
    obtain front where f: "front @ mm2s_left (mem w) s' = ps"
      "w' = fold (\<lambda>(b, e). put b e) front w \<or> w' = fold (\<lambda>(b, e). put b e) (front @ [hd (mm2s_left (mem w) s')]) w"
      using r(2) idle by (cases at') auto
    have "mm2s_left (mem w) s' \<noteq> []" using packets_shape [of 2048 "mem w"] by (simp add: mm2s_left_def)
    then have "ps = (front @ [hd (mm2s_left (mem w) s')]) @ tl (mm2s_left (mem w) s')" using f(1) by simp
    then show ?thesis using f by metis
  qed
  moreover have "concat (map fst ps) = mem_read (mem w) (ad_addr s) n" by (simp add: assms(12) packets_concat)
  moreover have "map snd ps = replicate (length ps - 1) False @ [True]"
    using packets_marks [of 2048 "mem w" "ad_addr s" n] by (simp add: assms(12))
  ultimately show ?thesis using r by (intro exI [of _ s'] exI [of _ at'] exI [of _ w']) auto
qed

theorem mm2s_polled_transfer_witness:
  "\<exists>s' at' w'. run_acts (mm2s_act sample_ports) (replicate 7 (Thread_step (replicate 2048 0)))
       (sample_axidma, At_awake, (\<lambda>a. ucast a, [])) = Inr (s', at', w') \<and>
     ad_idle s' \<and> ad_addr s' = 0x1000 + 3000"
proof -
  let ?as = "replicate 7 (Thread_step (replicate 2048 0))" and ?w = "(\<lambda>a. ucast a, [])"
  have poll: "\<forall>a \<in> set ?as. mm2s_poll a" by simp
  have n: "(3000 :: nat) = unat (ad_reg AXIDMA_R_LENGTH sample_axidma)" "0 < (3000 :: nat)"
    by (simp_all add: sample_axidma_regs(4))
  have "3 * ((3000 + 2047) div 2048) + 1 \<le> thread_steps ?as" by (simp add: thread_steps_def)
  moreover obtain s' at' w' where "run_acts (mm2s_act sample_ports) ?as (sample_axidma, At_awake, ?w) = Inr (s', at', w')"
    "ad_idle s' \<longrightarrow> ad_addr s' = 0x1000 + 3000" "3 * ((3000 + 2047) div 2048) + 1 \<le> thread_steps ?as \<longrightarrow> ad_idle s'"
    using mm2s_polled_transfer [where put = sample_put and mem = fst and w = ?w, OF poll sample_surroundings(1-4)
        sample_axidma_regs(1-3) disjI2 [OF refl] n refl]
    unfolding sample_axidma_regs(5) by (simp only: of_nat_numeral split: if_splits) blast
  ultimately show ?thesis by blast
qed

section \<open>A length written during a transfer\<close>

text \<open>
  The thread subtracts what it has sent from the length register as it is then: a length the host
  writes while a packet is under way loses that packet's bytes, and wraps round when it is smaller; the address the host
  writes with it is lost.
\<close>

lemma length_written_mid_transfer:
  assumes "ad_inv s" "gp_cmd tr = TLM_WRITE_COMMAND" "gp_byte_en tr = None" "gp_len tr = 4" "4 \<le> gp_width tr"
    and "drop_bit 2 (gp_addr tr) = 10" "v = le_word (take 4 (gp_data tr))" "v \<noteq> tlen"
  shows "\<exists>t at. run_acts (mm2s_act ap) [Reg tr, Thread_step buf] (s, At_sent addr tlen, w) = Inr (t, at, w) \<and> at \<noteq> At_wait \<and>
    ad_reg AXIDMA_R_LENGTH t = v - tlen \<and> ad_addr t = addr + ucast tlen \<and> \<not> ad_idle t \<and>
    (v < tlen \<longrightarrow> unat (ad_reg AXIDMA_R_LENGTH t) = 2 ^ 32 + unat v - unat tlen)"
proof -
  let ?s1 = "ad_set AXIDMA_R_LENGTH v (s\<lparr>ad_copied := 0\<rparr>)"
  let ?t = "(ad_set AXIDMA_R_SR (ad_reg AXIDMA_R_SR ?s1 AND NOT AXIDMA_SR_IDLE) ?s1)\<lparr>ad_ev_irq := True, ad_ev_copy := False\<rparr>"
  have t: "ad_inv ?t" "ad_reg AXIDMA_R_LENGTH ?t = v" "ad_reg AXIDMA_R_SR ?t AND AXIDMA_SR_IDLE = 0"
    using assms(1) by (simp_all add: idle_bits)
  have "reg_access_error tr = None" using assms(2-5) by (simp add: reg_access_error_def)
  then have "mm2s_act ap (Reg tr) (s, At_sent addr tlen, w) = Inr (?t, At_sent addr tlen, w)"
    using assms(2,4,6,7) by (simp add: ad_b_transport_def Let_def)
  moreover have "ad_reg AXIDMA_R_LENGTH (mm2s_finish addr tlen ?t) = v - tlen" "ad_addr (mm2s_finish addr tlen ?t) = addr + ucast tlen"
    "\<not> ad_idle (mm2s_finish addr tlen ?t)"
    using t assms(8) by (simp_all add: mm2s_finish_def Let_def ad_idle_def)
  moreover have "\<exists>at. mm2s_head ap buf (mm2s_finish addr tlen ?t) w = Inr at \<and> at \<noteq> At_wait"
    using calculation(2,4) assms(8) by (simp add: mm2s_head_def mm2s_begin_def Let_def)
  moreover have "unat (v - tlen) = 2 ^ 32 + unat v - unat tlen" if "v < tlen"
    using that by (simp add: unat_sub_if_size word_size word_le_nat_alt word_less_nat_alt)
  ultimately show ?thesis by (elim exE conjE, intro exI [of _ "mm2s_finish addr tlen ?t"]) (simp add: Let_def)
qed

end
