(* ===== verification/Axi_Sink.thy ===== *)
theory Axi_Sink
  imports Axi_Steps
begin

text \<open>
  The stream-to-memory port of the AXI DMA step by step.  The process that calls \<open>s_b_transport\<close> waits
  for \<open>ev_dma_copy\<close> while the channel is idle, and gives up control inside the blocking write to memory; the
  host reads and writes the registers in between.
\<close>

section \<open>The process in the stream port\<close>

text \<open>
  \<open>Port_free\<close>: no call under way.  \<open>Port_held\<close>: in the \<open>wait\<close> of the loop on the idle bit; \<open>Port_awake\<close>: notified
  there.  \<open>Port_write\<close>: in the write to memory, which has not reached it yet; \<open>Port_written\<close>: the
  memory has the data and the call has not returned yet.
\<close>

datatype s2mm_at =
    Port_free
  | Port_held gp sc_time
  | Port_awake gp sc_time
  | Port_write gp sc_time u64 u32
  | Port_written u64 u32 bool

definition s2mm_eop :: "gp \<Rightarrow> bool" where
  "s2mm_eop tr = (case gp_genattr tr of Some g \<Rightarrow> ga_eop g | None \<Rightarrow> True)"

text \<open>What follows the write.\<close>

definition s2mm_finish :: "u64 \<Rightarrow> u32 \<Rightarrow> bool \<Rightarrow> axidma \<Rightarrow> axidma" where
  "s2mm_finish addr n eop s =
     (let s0 = s\<lparr>ad_copied := ad_copied s + n\<rparr>;
          s1 = ad_set AXIDMA_R_LENGTH (ad_reg AXIDMA_R_LENGTH s0 - n) s0;
          s2 = ad_set_addr (addr + ucast n) s1;
          s3 = (if ad_reg AXIDMA_R_LENGTH s2 = 0 \<or> eop
                then ad_set AXIDMA_R_LENGTH (ad_copied s2)
                       (ad_set AXIDMA_R_SR (ad_reg AXIDMA_R_SR s2 OR AXIDMA_SR_IDLE OR AXIDMA_SR_IOC_IRQ) s2)
                else s2)
      in s3\<lparr>ad_ev_irq := True\<rparr>)"

text \<open>From behind the loop on the idle bit to the write; \<open>memcpy\<close> does not give up control.\<close>

definition s2mm_begin :: "'w axi_ports \<Rightarrow> gp \<Rightarrow> sc_time \<Rightarrow> axidma \<Rightarrow> 'w \<Rightarrow> axidma \<times> s2mm_at \<times> 'w" where
  "s2mm_begin ap tr d s w =
     (let addr = ad_addr s;
          len = of_nat (gp_len tr);
          n = (if len \<le> ad_reg AXIDMA_R_LENGTH s then len else ad_reg AXIDMA_R_LENGTH s) in
      if ap_use_memcpy ap
      then (s2mm_finish addr n (s2mm_eop tr) s, Port_free, ap_host_write ap addr (take (unat n) (gp_data tr)) w)
      else (s, Port_write tr d addr n, w))"

text \<open>
  A step of the process; \<open>q\<close> are the transactions that the initiator behind the stream still has to make, one after the
  other.
\<close>

fun s2mm_process ::
  "'w axi_ports \<Rightarrow> axidma \<times> s2mm_at \<times> 'w \<times> gp list \<Rightarrow> (axidma \<times> s2mm_at \<times> 'w \<times> gp list) res" where
  "s2mm_process ap (s, Port_free, w, []) = Inr (s, Port_free, w, [])"
| "s2mm_process ap (s, Port_free, w, tr # q) =
     (if ad_idle s then Inr (s, Port_held tr 0, w, q)
      else case s2mm_begin ap tr 0 s w of (s', at, w') \<Rightarrow> Inr (s', at, w', q))"
| "s2mm_process ap (s, Port_held tr d, w, q) = Inr (s, Port_held tr d, w, q)"
| "s2mm_process ap (s, Port_awake tr d, w, q) =
     (if ad_idle s then Inr (s, Port_held tr d, w, q)
      else case s2mm_begin ap tr d s w of (s', at, w') \<Rightarrow> Inr (s', at, w', q))"
| "s2mm_process ap (s, Port_write tr d addr n, w, q) =
     res_bind (ad_dma_trans (ap_init ap) TLM_WRITE_COMMAND (gp_data tr) addr (unat n) d w)
       (\<lambda>(_, _, w'). Inr (s, Port_written addr n (s2mm_eop tr), w', q))"
| "s2mm_process ap (s, Port_written addr n eop, w, q) = Inr (s2mm_finish addr n eop s, Port_free, w, q)"

text \<open>A register access of the host, the interrupt method, a step of the process in the port.\<close>

datatype sink_act = Sink_reg gp | Sink_irq | Port_step

fun s2mm_act ::
  "'w axi_ports \<Rightarrow> sink_act \<Rightarrow> axidma \<times> s2mm_at \<times> 'w \<times> gp list \<Rightarrow> (axidma \<times> s2mm_at \<times> 'w \<times> gp list) res" where
  "s2mm_act ap (Sink_reg tr) (s, at, w, q) =
     res_bind (ad_b_transport tr 0 s) (\<lambda>(_, _, t).
       Inr (t\<lparr>ad_ev_copy := False\<rparr>,
            case at of Port_held p d \<Rightarrow> if ad_ev_copy t then Port_awake p d else at | _ \<Rightarrow> at, w, q))"
| "s2mm_act ap Sink_irq (s, at, w, q) = Inr (if ad_ev_irq s then ad_update_irqs s else s, at, w, q)"
| "s2mm_act ap Port_step st = s2mm_process ap st"

text \<open>Undisturbed, the steps of the process on a channel that is not idle are the call of the port.\<close>

lemma s2mm_call_steps:
  assumes "\<not> ad_idle s"
  shows "run_acts (s2mm_act ap) (replicate (if ap_use_memcpy ap then 1 else 3) Port_step) (s, Port_free, w, tr # q) =
     (case s2mm_b_transport ap tr 0 (s, w) of
        Some r \<Rightarrow> res_bind r (\<lambda>(_, _, s', w'). Inr (s', Port_free, w', q))
      | None \<Rightarrow> Inr (s, Port_held tr 0, w, q))"
proof (cases "ap_use_memcpy ap")
  case True
  then show ?thesis using assms
    by (simp add: s2mm_b_transport_def s2mm_begin_def s2mm_finish_def s2mm_eop_def Let_def split_def)
next
  case False
  then show ?thesis using assms
    by (simp add: numeral_3_eq_3 s2mm_b_transport_def s2mm_begin_def s2mm_finish_def s2mm_eop_def Let_def res_bind_assoc split_def)
qed

text \<open>The host of \<open>mm2s_poll\<close>: valid accesses that leave the address and length registers alone.\<close>

fun sink_poll :: "sink_act \<Rightarrow> bool" where
  "sink_poll (Sink_reg tr) = mm2s_poll (Reg tr)"
| "sink_poll Sink_irq = True"
| "sink_poll Port_step = True"

section \<open>Back-pressure\<close>

text \<open>While the channel is idle, the first packet is held and the rest stays with the initiator.\<close>

definition s2mm_pressed :: "axidma \<Rightarrow> 'w \<Rightarrow> gp list \<Rightarrow> axidma \<times> s2mm_at \<times> 'w \<times> gp list \<Rightarrow> bool" where
  "s2mm_pressed s0 w0 q0 = (\<lambda>(s, at, w, q). ad_inv s \<and> \<not> ad_ev_copy s \<and> ad_idle s \<and> w = w0 \<and>
     ad_addr s = ad_addr s0 \<and> ad_reg AXIDMA_R_LENGTH s = ad_reg AXIDMA_R_LENGTH s0 \<and> ad_copied s = ad_copied s0 \<and>
     (at = Port_free \<and> q = q0 \<or> (\<exists>p. q0 = p # q \<and> at = Port_held p 0)))"

lemma ad_idle_frame [simp]:
  "ad_idle (s\<lparr>ad_ev_copy := b\<rparr>) = ad_idle s" "ad_idle (s\<lparr>ad_ev_irq := b\<rparr>) = ad_idle s"
  "ad_idle (ad_update_irqs s) = ad_idle s" "ad_addr (s\<lparr>ad_ev_copy := b\<rparr>) = ad_addr s"
  "ad_addr (ad_update_irqs s) = ad_addr s" "ad_copied (ad_update_irqs s) = ad_copied s"
  "ad_ev_copy (ad_update_irqs s) = ad_ev_copy s"
  by (simp_all add: ad_idle_def ad_addr_def) (simp_all add: ad_update_irqs_def)

lemma s2mm_pressed_act:
  assumes "s2mm_pressed s0 w0 q0 st" "sink_poll a"
  shows "\<exists>st'. s2mm_act ap a st = Inr st' \<and> s2mm_pressed s0 w0 q0 st'"
proof -
  obtain s at w q where st: "st = (s, at, w, q)" by (cases st)
  note inv = assms(1) [unfolded st s2mm_pressed_def prod.case]
  show ?thesis
  proof (cases a)
    case (Sink_reg tr)
    obtain tr' d' t where "ad_b_transport tr 0 s = Inr (tr', d', t)" "ad_inv t" "ad_ev_copy t = ad_ev_copy s"
      "ad_reg AXIDMA_R_LENGTH t = ad_reg AXIDMA_R_LENGTH s" "ad_addr t = ad_addr s" "ad_idle t = ad_idle s" "ad_copied t = ad_copied s"
      using ad_b_transport_poll [of tr s 0] assms(2) Sink_reg inv by auto
    then show ?thesis using inv Sink_reg st by (auto simp: s2mm_pressed_def)
  next
    case Sink_irq
    then show ?thesis using inv st by (auto simp: s2mm_pressed_def)
  next
    case Port_step
    then show ?thesis using inv st by (cases q) (auto simp: s2mm_pressed_def)
  qed
qed

text \<open>
  Property C9: back-pressure of the stream-to-memory channel.  As long as the channel is idle and its host
  only polls, the port takes nothing, under every interleaving: memory, address, length and count stay, the
  first packet of the stream waits in the call and the others with their initiator.  A write of
  the length register then starts the transfer: the channel is not idle, has the length written, and a
  waiting packet is notified (no wake-up is lost, whether the packet or the write came first).
\<close>

theorem s2mm_back_pressure:
  assumes "reach (s2mm_act ap) sink_poll (s, Port_free, w, q) r" "ad_inv s" "ad_idle s" "\<not> ad_ev_copy s"
    and "gp_cmd tr = TLM_WRITE_COMMAND" "gp_byte_en tr = None" "gp_len tr = 4" "4 \<le> gp_width tr" "drop_bit 2 (gp_addr tr) = 10"
  shows "\<exists>s' at q' t. r = Inr (s', at, w, q') \<and> ad_idle s' \<and> ad_addr s' = ad_addr s \<and>
    ad_reg AXIDMA_R_LENGTH s' = ad_reg AXIDMA_R_LENGTH s \<and>
    s2mm_act ap (Sink_reg tr) (s', at, w, q') = Inr (t, if at = Port_free then Port_free else Port_awake (hd q) 0, w, q') \<and>
    (if at = Port_free then q' = q else q = hd q # q' \<and> at = Port_held (hd q) 0) \<and>
    ad_inv t \<and> \<not> ad_idle t \<and> \<not> ad_ev_copy t \<and> ad_copied t = 0 \<and> ad_addr t = ad_addr s \<and>
    ad_reg AXIDMA_R_LENGTH t = le_word (take 4 (gp_data tr))"
proof -
  have start: "s2mm_pressed s w q (s, Port_free, w, q)" using assms(2-4) by (simp add: s2mm_pressed_def)
  obtain s' at w' q' where r: "r = Inr (s', at, w', q')" "s2mm_pressed s w q (s', at, w', q')"
    using reach_invariant_safe [where I = "s2mm_pressed s w q", OF assms(1) start s2mm_pressed_act] by (metis prod_cases4)
  note p = r(2) [unfolded s2mm_pressed_def prod.case]
  let ?v = "le_word (take 4 (gp_data tr))" and ?s1 = "\<lambda>v. ad_set AXIDMA_R_LENGTH v (s'\<lparr>ad_copied := 0\<rparr>)"
  let ?t = "(ad_set AXIDMA_R_SR (ad_reg AXIDMA_R_SR (?s1 ?v) AND NOT AXIDMA_SR_IDLE) (?s1 ?v))\<lparr>ad_ev_irq := True, ad_ev_copy := False\<rparr>"
  have ev: "ad_ev_copy (ad_set i v x) = ad_ev_copy x" for i v x by (simp add: ad_set_def)
  have "reg_access_error tr = None" using assms(5-8) by (simp add: reg_access_error_def)
  then have "ad_b_transport tr 0 s' = Inr (tr\<lparr>gp_resp := TLM_OK_RESPONSE\<rparr>, 0,
      (ad_set AXIDMA_R_SR (ad_reg AXIDMA_R_SR (?s1 ?v) AND NOT AXIDMA_SR_IDLE) (?s1 ?v))\<lparr>ad_ev_copy := True, ad_ev_irq := True\<rparr>)"
    using assms(5,7,9) by (simp add: ad_b_transport_def Let_def)
  then have "s2mm_act ap (Sink_reg tr) (s', at, w, q') = Inr (?t, case at of Port_held p d \<Rightarrow> Port_awake p d | _ \<Rightarrow> at, w, q')"
    by (simp split: s2mm_at.splits)
  moreover have "ad_inv ?t" "\<not> ad_idle ?t" "\<not> ad_ev_copy ?t" "ad_copied ?t = 0" "ad_addr ?t = ad_addr s" "ad_reg AXIDMA_R_LENGTH ?t = ?v"
    using p by (simp_all add: ad_idle_def idle_bits ev)
  ultimately show ?thesis using r(1) p by (intro exI [of _ s'] exI [of _ at] exI [of _ q'] exI [of _ ?t]) auto
qed

text \<open>The surroundings of the witnesses: a channel after reset of its idle bit, or with room for 4096 bytes; a memory behind it.\<close>

definition sample_sink_ports :: "bytes_memory axi_ports" where
  "sample_sink_ports = \<lparr>ap_init = ram, ap_stream = ram, ap_attr = \<lparr>ga_master_id = 0, ga_eop = False\<rparr>, ap_use_memcpy = False,
     ap_host_read = (\<lambda>_ _ _. []), ap_host_write = (\<lambda>_ _ m. m)\<rparr>"

definition sample_sink :: "u32 \<Rightarrow> u32 \<Rightarrow> axidma" where
  "sample_sink sr len = \<lparr>ad_u32 = [0, sr, 0, 0, 0, 0, 0x2000, 0, 0, 0, len], ad_copied = 0, ad_irq = False,
     ad_ev_copy = False, ad_ev_irq = False\<rparr>"

lemma sample_sink_regs:
  "ad_inv (sample_sink sr len)" "ad_idle (sample_sink sr len) \<longleftrightarrow> sr AND AXIDMA_SR_IDLE \<noteq> 0" "\<not> ad_ev_copy (sample_sink sr len)"
  "ad_reg AXIDMA_R_LENGTH (sample_sink sr len) = len" "ad_addr (sample_sink sr len) = 0x2000" "ad_copied (sample_sink sr len) = 0"
  "memory_target (ap_init sample_sink_ports)" "\<not> ap_use_memcpy sample_sink_ports"
  by (simp_all add: sample_sink_def sample_sink_ports_def ad_inv_def ad_idle_def ad_reg_def ad_addr_def ram_memory)

theorem s2mm_back_pressure_witness:
  "\<exists>s' at q' t. run_acts (s2mm_act sample_sink_ports) [Port_step, Sink_irq, Port_step]
       (sample_sink 2 0, Port_free, (\<lambda>_. 0), [stream_gp ([1, 2], True)]) = Inr (s', at, (\<lambda>_. 0), q') \<and> ad_idle s' \<and>
     s2mm_act sample_sink_ports (Sink_reg (mk_gp TLM_WRITE_COMMAND 0x28 [8, 0, 0, 0] 4)) (s', at, (\<lambda>_. 0), q') =
       Inr (t, if at = Port_free then Port_free else Port_awake (stream_gp ([1, 2], True)) 0, (\<lambda>_. 0), q') \<and>
     \<not> ad_idle t"
proof -
  let ?tr = "mk_gp TLM_WRITE_COMMAND 0x28 [8, 0, 0, 0] 4" and ?m = "(\<lambda>_. 0) :: bytes_memory"
  let ?r = "run_acts (s2mm_act sample_sink_ports) [Port_step, Sink_irq, Port_step] (sample_sink 2 0, Port_free, ?m, [stream_gp ([1, 2], True)])"
  have r: "reach (s2mm_act sample_sink_ports) sink_poll (sample_sink 2 0, Port_free, ?m, [stream_gp ([1, 2], True)]) ?r"
    by (rule run_acts_reach) simp
  have i: "ad_idle (sample_sink 2 0)" by (simp add: sample_sink_regs(2) AXIDMA_SR_IDLE_def)
  have tr: "gp_cmd ?tr = TLM_WRITE_COMMAND" "gp_byte_en ?tr = None" "gp_len ?tr = 4" "4 \<le> gp_width ?tr" "drop_bit 2 (gp_addr ?tr) = 10"
    by (simp_all add: mk_gp_def)
  from s2mm_back_pressure [OF r sample_sink_regs(1) i sample_sink_regs(3) tr]
  show ?thesis by (simp only: list.sel) blast
qed

section \<open>A stream is stored\<close>

lemma s2mm_finish_regs:
  fixes e :: bool
  assumes "ad_inv s" "\<not> ad_idle s" "k \<le> unat (ad_reg AXIDMA_R_LENGTH s)"
  defines "t \<equiv> s2mm_finish (ad_addr s) (of_nat k) e s"
  shows "ad_inv t" "ad_addr t = ad_addr s + of_nat k" "ad_copied t = ad_copied s + of_nat k" "ad_ev_copy t = ad_ev_copy s"
    "ad_idle t \<longleftrightarrow> e \<or> k = unat (ad_reg AXIDMA_R_LENGTH s)"
    "ad_idle t \<Longrightarrow> ad_reg AXIDMA_R_LENGTH t = ad_copied s + of_nat k"
    "\<not> ad_idle t \<Longrightarrow> unat (ad_reg AXIDMA_R_LENGTH t) = unat (ad_reg AXIDMA_R_LENGTH s) - k"
proof -
  let ?len = "ad_reg AXIDMA_R_LENGTH s" and ?n = "of_nat k :: u32"
  have un: "unat ?n = k" using assms(3) unsigned_less [of ?len, where ?'a = nat] by (simp add: unat_of_nat)
  have un64: "(ucast ?n :: u64) = of_nat k" using un unsigned_less [of ?n, where ?'a = nat] by (simp add: word_unat_eq_iff unat_ucast32 unat_of_nat)
  have le: "?n \<le> ?len" using assms(3) un by (simp add: word_le_nat_alt)
  have z: "?len - ?n = 0 \<longleftrightarrow> k = unat ?len" using un right_minus_eq [of ?len ?n] word_unat_eq_iff [of ?len ?n] by auto
  have sub: "unat (?len - ?n) = unat ?len - k" using le un by (simp add: unat_sub)
  have ev: "ad_ev_copy (ad_set i v x) = ad_ev_copy x" "ad_ev_copy (ad_set_addr a x) = ad_ev_copy x" for i v x a
    by (simp_all add: ad_set_def ad_set_addr_def)
  define s2 where "s2 = ad_set_addr (ad_addr s + of_nat k) (ad_set AXIDMA_R_LENGTH (?len - ?n) (s\<lparr>ad_copied := ad_copied s + ?n\<rparr>))"
  have s2: "ad_inv s2" "ad_reg AXIDMA_R_LENGTH s2 = ?len - ?n" "ad_copied s2 = ad_copied s + ?n" "ad_addr s2 = ad_addr s + of_nat k"
    "ad_reg AXIDMA_R_SR s2 = ad_reg AXIDMA_R_SR s" "ad_ev_copy s2 = ad_ev_copy s"
    using assms(1) by (simp_all add: s2_def ev)
  have t: "t = (if ?len - ?n = 0 \<or> e
       then ad_set AXIDMA_R_LENGTH (ad_copied s2)
              (ad_set AXIDMA_R_SR (ad_reg AXIDMA_R_SR s2 OR AXIDMA_SR_IDLE OR AXIDMA_SR_IOC_IRQ) s2)
       else s2)\<lparr>ad_ev_irq := True\<rparr>"
    using assms(1) s2(2) unfolding t_def s2mm_finish_def Let_def un64 s2_def by simp
  show "ad_inv t" "ad_addr t = ad_addr s + of_nat k" "ad_copied t = ad_copied s + of_nat k" "ad_ev_copy t = ad_ev_copy s"
    using s2 by (simp_all add: t ev)
  have idle: "ad_idle t \<longleftrightarrow> ?len - ?n = 0 \<or> e"
    using assms(2) s2(1,5) idle_bits(2) [of "ad_reg AXIDMA_R_SR s2"] by (simp add: t ad_idle_def AXIDMA_SR_IDLE_def)
  then show "ad_idle t \<longleftrightarrow> e \<or> k = unat ?len" using z by auto
  show "ad_idle t \<Longrightarrow> ad_reg AXIDMA_R_LENGTH t = ad_copied s + of_nat k" using s2 idle by (simp add: t)
  show "\<not> ad_idle t \<Longrightarrow> unat (ad_reg AXIDMA_R_LENGTH t) = unat ?len - k" using s2 idle sub by (simp add: t)
qed

lemma stream_gp_simps [simp]:
  "gp_data (stream_gp p) = fst p" "gp_len (stream_gp p) = length (fst p)" "s2mm_eop (stream_gp p) = snd p"
  by (simp_all add: stream_gp_def s2mm_eop_def)

text \<open>The bytes of some packets.\<close>

abbreviation bytes_of :: "(u8 list \<times> bool) list \<Rightarrow> u8 list" where
  "bytes_of ps \<equiv> concat (map fst ps)"

text \<open>
  A stream the channel can store: only its last packet is marked, the packets before it leave
  room, it fits the length \<open>l\<close> and does not pass the end of the address space.
\<close>

definition stream_fits :: "(u8 list \<times> bool) list \<Rightarrow> u64 \<Rightarrow> nat \<Rightarrow> bool" where
  "stream_fits ps a l \<longleftrightarrow> ps \<noteq> [] \<and> map snd ps = replicate (length ps - 1) False @ [True] \<and>
     length (bytes_of (butlast ps)) < l \<and> length (bytes_of ps) \<le> l \<and> unat a + length (bytes_of ps) \<le> 2 ^ 64"

lemma stream_fits_front:
  assumes "stream_fits ps a l" "ps = before @ p # todo"
  shows "snd p \<longleftrightarrow> todo = []" "length (bytes_of before) + length (fst p) \<le> l"
    "unat a + length (bytes_of before) + length (fst p) \<le> 2 ^ 64"
    "todo \<noteq> [] \<Longrightarrow> length (bytes_of before) + length (fst p) < l"
proof -
  have "snd p = map snd ps ! length before" by (simp add: assms(2) nth_append)
  also have "\<dots> = (replicate (length ps - 1) False @ [True]) ! length before" using assms(1) by (simp add: stream_fits_def)
  finally show "snd p \<longleftrightarrow> todo = []" by (auto simp: assms(2) nth_append)
  show "length (bytes_of before) + length (fst p) \<le> l" "unat a + length (bytes_of before) + length (fst p) \<le> 2 ^ 64"
    using assms by (simp_all add: stream_fits_def)
  show "length (bytes_of before) + length (fst p) < l" if "todo \<noteq> []"
    using assms that by (simp add: stream_fits_def butlast_append)
qed

text \<open>\<open>ps\<close>: the stream; \<open>a\<close>, \<open>l\<close>: the address and length programmed; \<open>m\<close>: the memory before.\<close>

definition s2mm_front :: "u64 \<Rightarrow> nat \<Rightarrow> (u8 list \<times> bool) list \<Rightarrow> axidma \<Rightarrow> bool" where
  "s2mm_front a l before s \<longleftrightarrow> ad_inv s \<and> \<not> ad_ev_copy s \<and> \<not> ad_idle s \<and> ad_addr s = a + of_nat (length (bytes_of before)) \<and>
     unat (ad_reg AXIDMA_R_LENGTH s) = l - length (bytes_of before) \<and> ad_copied s = of_nat (length (bytes_of before))"

definition s2mm_place ::
  "bytes_memory \<Rightarrow> u8 list \<times> bool \<Rightarrow> (u8 list \<times> bool) list \<Rightarrow> u64 \<Rightarrow> s2mm_at \<Rightarrow> bytes_memory \<Rightarrow> gp list \<Rightarrow> bool" where
  "s2mm_place mem p todo addr0 at w q \<longleftrightarrow>
     (case at of
        Port_free \<Rightarrow> q = map stream_gp (p # todo) \<and> w = mem
      | Port_held tr d \<Rightarrow> False
      | Port_awake tr d \<Rightarrow> tr = stream_gp p \<and> q = map stream_gp todo \<and> w = mem
      | Port_write tr d addr n \<Rightarrow> tr = stream_gp p \<and> addr = addr0 \<and> n = of_nat (length (fst p)) \<and> q = map stream_gp todo \<and> w = mem
      | Port_written addr n eop \<Rightarrow> addr = addr0 \<and> n = of_nat (length (fst p)) \<and> eop = snd p \<and>
          q = map stream_gp todo \<and> w = mem_write mem addr0 (fst p))"

fun s2mm_stored ::
  "(u8 list \<times> bool) list \<Rightarrow> u64 \<Rightarrow> nat \<Rightarrow> bytes_memory \<Rightarrow> axidma \<times> s2mm_at \<times> bytes_memory \<times> gp list \<Rightarrow> bool" where
  "s2mm_stored ps a l m (s, at, w, q) \<longleftrightarrow>
     (if ad_idle s then at = Port_free \<and> q = [] \<and> ad_inv s \<and> \<not> ad_ev_copy s \<and> w = mem_write m a (bytes_of ps) \<and>
        ad_reg AXIDMA_R_LENGTH s = of_nat (length (bytes_of ps)) \<and> ad_addr s = a + of_nat (length (bytes_of ps))
      else \<exists>before p todo. ps = before @ p # todo \<and> s2mm_front a l before s \<and>
        s2mm_place (mem_write m a (bytes_of before)) p todo (ad_addr s) at w q)"

lemma s2mm_storedI:
  "\<not> ad_idle s \<Longrightarrow> ps = before @ p # todo \<Longrightarrow> s2mm_front a l before s \<Longrightarrow>
     s2mm_place (mem_write m a (bytes_of before)) p todo (ad_addr s) at w q \<Longrightarrow> s2mm_stored ps a l m (s, at, w, q)"
  unfolding s2mm_stored.simps if_not_P by blast

lemma s2mm_stored_regs:
  assumes "s2mm_stored ps a l m (s, at, w, q)" "ad_inv t" "\<not> ad_ev_copy t" "ad_reg AXIDMA_R_LENGTH t = ad_reg AXIDMA_R_LENGTH s"
    and "ad_addr t = ad_addr s" "ad_idle t = ad_idle s" "ad_copied t = ad_copied s"
  shows "s2mm_stored ps a l m (t, at, w, q)"
  using assms by (auto simp: s2mm_front_def split: if_splits)

text \<open>The steps the process still has to take: three for a packet.\<close>

fun s2mm_steps_left :: "axidma \<times> s2mm_at \<times> bytes_memory \<times> gp list \<Rightarrow> nat" where
  "s2mm_steps_left (s, at, w, q) = 3 * length q +
     (case at of Port_free \<Rightarrow> 0 | Port_held tr d \<Rightarrow> 3 | Port_awake tr d \<Rightarrow> 3 | Port_write tr d addr n \<Rightarrow> 2 | Port_written addr n eop \<Rightarrow> 1)"

lemma s2mm_begin_write:
  assumes "\<not> ap_use_memcpy ap" "length (fst p) \<le> unat (ad_reg AXIDMA_R_LENGTH s)"
  shows "s2mm_begin ap (stream_gp p) d s w = (s, Port_write (stream_gp p) d (ad_addr s) (of_nat (length (fst p))), w)"
proof -
  have "unat (of_nat (length (fst p)) :: u32) = length (fst p)"
    using assms(2) unsigned_less [of "ad_reg AXIDMA_R_LENGTH s", where ?'a = nat] by (simp add: unat_of_nat)
  then show ?thesis using assms by (simp add: s2mm_begin_def Let_def word_le_nat_alt)
qed

lemma s2mm_stored_process:
  assumes "memory_target (ap_init ap)" "\<not> ap_use_memcpy ap" "stream_fits ps a l" "s2mm_stored ps a l m st"
  shows "\<exists>st'. s2mm_process ap st = Inr st' \<and> s2mm_stored ps a l m st' \<and> s2mm_steps_left st' \<le> s2mm_steps_left st - 1"
proof -
  obtain s at w q where st: "st = (s, at, w, q)" by (cases st)
  note inv = assms(4) [unfolded st]
  show ?thesis
  proof (cases "ad_idle s")
    case True
    then show ?thesis using inv st by auto
  next
    case False
    obtain before p todo where f: "ps = before @ p # todo" "s2mm_front a l before s"
      "s2mm_place (mem_write m a (bytes_of before)) p todo (ad_addr s) at w q" using inv False by auto
    note fit = stream_fits_front [OF assms(3) f(1)] and fr = f(2) [unfolded s2mm_front_def] and pl = f(3) [unfolded s2mm_place_def]
    have len: "length (fst p) \<le> unat (ad_reg AXIDMA_R_LENGTH s)" using fr fit(2) by simp
    have same: "s2mm_stored ps a l m (s, at', w', q')"
      if "s2mm_place (mem_write m a (bytes_of before)) p todo (ad_addr s) at' w' q'" for at' w' q' by (rule s2mm_storedI [OF False f(1,2) that])
    have beg: "s2mm_begin ap (stream_gp p) d s w = (s, Port_write (stream_gp p) d (ad_addr s) (of_nat (length (fst p))), w)" for d
      by (rule s2mm_begin_write [OF assms(2) len])
    show ?thesis
    proof (cases at)
      case Port_free
      have "s2mm_stored ps a l m (s, Port_write (stream_gp p) 0 (ad_addr s) (of_nat (length (fst p))), w, map stream_gp todo)"
        by (rule same) (use pl Port_free in \<open>simp add: s2mm_place_def\<close>)
      then show ?thesis using pl Port_free False st beg by (auto simp del: s2mm_stored.simps)
    next
      case (Port_held tr d)
      then show ?thesis using pl by simp
    next
      case (Port_awake tr d)
      have "s2mm_stored ps a l m (s, Port_write (stream_gp p) d (ad_addr s) (of_nat (length (fst p))), w, q)"
        by (rule same) (use pl Port_awake in \<open>simp add: s2mm_place_def\<close>)
      then show ?thesis using pl Port_awake False st beg by (auto simp del: s2mm_stored.simps)
    next
      case (Port_write tr d addr n)
      have un: "unat (of_nat (length (fst p)) :: u32) = length (fst p)"
        using len unsigned_less [of "ad_reg AXIDMA_R_LENGTH s", where ?'a = nat] by (simp add: unat_of_nat)
      have "ad_dma_trans (ap_init ap) TLM_WRITE_COMMAND (fst p) (ad_addr s) (length (fst p)) d w = Inr (fst p, d, mem_write w (ad_addr s) (fst p))"
        using assms(1) by (simp add: ad_dma_trans_def memory_target_def)
      moreover have "s2mm_stored ps a l m (s, Port_written (ad_addr s) (of_nat (length (fst p))) (snd p), mem_write w (ad_addr s) (fst p), q)"
        by (rule same) (use pl Port_write in \<open>simp add: s2mm_place_def\<close>)
      ultimately show ?thesis using pl Port_write st un by (simp del: s2mm_stored.simps)
    next
      case (Port_written addr n eop)
      let ?t = "s2mm_finish (ad_addr s) (of_nat (length (fst p))) (snd p) s"
      note t = s2mm_finish_regs [where e = "snd p", OF conjunct1 [OF fr] False len]
      have w: "w = mem_write m a (bytes_of (before @ [p]))"
        using pl Port_written fr mem_write_append [of a "bytes_of before" "fst p" m] fit(3) by simp
      have "s2mm_stored ps a l m (?t, Port_free, w, q)"
      proof (cases "todo = []")
        case True
        then show ?thesis using t fr w pl Port_written fit(1) f(1) by (simp add: add.assoc)
      next
        case more: False
        obtain p' todo' where td: "todo = p' # todo'" using more by (cases todo) auto
        have idle: "\<not> ad_idle ?t" using t(5) fit(1,4) more fr by auto
        have "s2mm_front a l (before @ [p]) ?t" using t(1-4,7) fr idle by (simp add: s2mm_front_def add.assoc)
        moreover have "s2mm_place (mem_write m a (bytes_of (before @ [p]))) p' todo' (ad_addr ?t) Port_free w q"
          using w pl Port_written td by (simp add: s2mm_place_def)
        moreover have "ps = (before @ [p]) @ p' # todo'" using f(1) td by simp
        ultimately show ?thesis by (intro s2mm_storedI [OF idle])
      qed
      then show ?thesis using pl Port_written st by (simp del: s2mm_stored.simps)
    qed
  qed
qed

lemma s2mm_stored_act:
  assumes "memory_target (ap_init ap)" "\<not> ap_use_memcpy ap" "stream_fits ps a l" "s2mm_stored ps a l m st" "sink_poll act"
  shows "\<exists>st'. s2mm_act ap act st = Inr st' \<and> s2mm_stored ps a l m st' \<and>
    s2mm_steps_left st' \<le> s2mm_steps_left st - (if act = Port_step then 1 else 0)"
proof -
  obtain s at w q where st: "st = (s, at, w, q)" by (cases st)
  note inv = assms(4) [unfolded st]
  have reg: "ad_inv s" "\<not> ad_ev_copy s" using inv by (auto simp: s2mm_front_def split: if_splits)
  show ?thesis
  proof (cases act)
    case (Sink_reg tr)
    obtain tr' d' t where b: "ad_b_transport tr 0 s = Inr (tr', d', t)" "ad_inv t" "ad_ev_copy t = ad_ev_copy s"
      "ad_reg AXIDMA_R_LENGTH t = ad_reg AXIDMA_R_LENGTH s" "ad_addr t = ad_addr s" "ad_idle t = ad_idle s" "ad_copied t = ad_copied s"
      using ad_b_transport_poll [of tr s 0] assms(5) Sink_reg reg by auto
    have "s2mm_stored ps a l m (t\<lparr>ad_ev_copy := False\<rparr>, at, w, q)"
      by (rule s2mm_stored_regs [OF inv]) (use b in simp_all)
    moreover have "s2mm_act ap act st = Inr (t\<lparr>ad_ev_copy := False\<rparr>, at, w, q)"
      using Sink_reg st b(1,3) reg by (simp split: s2mm_at.splits)
    ultimately show ?thesis using Sink_reg st by simp
  next
    case Sink_irq
    have "s2mm_stored ps a l m (ad_update_irqs s, at, w, q)" by (rule s2mm_stored_regs [OF inv]) (use reg in simp_all)
    then show ?thesis using Sink_irq st inv by (simp del: s2mm_stored.simps)
  next
    case Port_step
    then show ?thesis using s2mm_stored_process [OF assms(1-4)] by simp
  qed
qed

text \<open>What the invariant says of the memory at every moment.\<close>

lemma s2mm_stored_memory:
  assumes "stream_fits ps a l" "s2mm_stored ps a l m (s, at, w, q)"
  shows "\<exists>front rest. ps = front @ rest \<and> w = mem_write m a (bytes_of front) \<and> (ad_idle s \<longrightarrow> rest = [])"
proof (cases "ad_idle s")
  case True
  then show ?thesis using assms(2) by (intro exI [of _ ps] exI [of _ "[]"]) simp
next
  case False
  obtain before p todo where f: "ps = before @ p # todo" "s2mm_front a l before s"
    "s2mm_place (mem_write m a (bytes_of before)) p todo (ad_addr s) at w q" using assms(2) False by auto
  have "w = mem_write m a (bytes_of before) \<or> w = mem_write m a (bytes_of (before @ [p]))"
    using f(2,3) mem_write_append [of a "bytes_of before" "fst p" m] stream_fits_front(3) [OF assms(1) f(1)]
    by (auto simp: s2mm_place_def s2mm_front_def split: s2mm_at.splits)
  then show ?thesis
  proof
    assume "w = mem_write m a (bytes_of before)"
    then show ?thesis using f(1) False by blast
  next
    assume "w = mem_write m a (bytes_of (before @ [p]))"
    moreover have "ps = (before @ [p]) @ todo" using f(1) by simp
    ultimately show ?thesis using False by blast
  qed
qed

text \<open>
  A host that has written the length register and then polls, a stream that fits: under every interleaving of
  the host, the interrupt method and the process in the port, however long its memory accesses take, nothing fails
  and memory holds a front part of the packets at the address programmed, otherwise it is untouched; once the idle
  bit is set, it holds the whole stream, the length register the number of its bytes, and no packet is left.  The
  idle bit is set once the process has been given three steps for each packet.
\<close>

lemma s2mm_polled_stream:
  assumes "\<forall>act \<in> set as. sink_poll act" "memory_target (ap_init ap)" "\<not> ap_use_memcpy ap"
    and "ad_inv s" "\<not> ad_idle s" "\<not> ad_ev_copy s" "ad_copied s = 0"
    and "stream_fits ps (ad_addr s) (unat (ad_reg AXIDMA_R_LENGTH s))"
    and "at = Port_free \<and> q = map stream_gp ps \<or> at = Port_awake (stream_gp (hd ps)) d \<and> q = map stream_gp (tl ps)"
  shows "\<exists>s' at' q' front rest. run_acts (s2mm_act ap) as (s, at, m, q) =
      Inr (s', at', mem_write m (ad_addr s) (bytes_of front), q') \<and> ps = front @ rest \<and>
    (ad_idle s' \<longrightarrow> rest = [] \<and> q' = [] \<and> at' = Port_free \<and> unat (ad_reg AXIDMA_R_LENGTH s') = length (bytes_of ps) \<and>
       ad_addr s' = ad_addr s + of_nat (length (bytes_of ps))) \<and>
    (3 * length ps \<le> length (filter (\<lambda>act. act = Port_step) as) \<longrightarrow> ad_idle s')"
proof -
  let ?l = "unat (ad_reg AXIDMA_R_LENGTH s)" and ?a = "ad_addr s"
  have ne: "ps = [] @ hd ps # tl ps" using assms(8) by (simp add: stream_fits_def)
  have start: "s2mm_stored ps ?a ?l m (s, at, m, q)"
    by (rule s2mm_storedI [OF assms(5) ne])
      (use assms(4-7,9) ne in \<open>auto simp: s2mm_front_def s2mm_place_def\<close>)
  obtain s' at' w' q' where r: "run_acts (s2mm_act ap) as (s, at, m, q) = Inr (s', at', w', q')"
    "s2mm_stored ps ?a ?l m (s', at', w', q')"
    "s2mm_steps_left (s', at', w', q') \<le> s2mm_steps_left (s, at, m, q) - length (filter (\<lambda>act. act = Port_step) as)"
    using run_acts_progress [where step = "s2mm_act ap" and A = sink_poll,
        OF s2mm_stored_act [OF assms(2,3,8)] start assms(1)] by (metis prod_cases4)
  obtain front rest where f: "ps = front @ rest" "w' = mem_write m ?a (bytes_of front)" "ad_idle s' \<longrightarrow> rest = []"
    using s2mm_stored_memory [OF assms(8) r(2)] by blast
  have "length (bytes_of ps) < 2 ^ 32"
    using assms(8) unsigned_less [of "ad_reg AXIDMA_R_LENGTH s", where ?'a = nat] by (simp add: stream_fits_def)
  then have len: "unat (of_nat (length (bytes_of ps)) :: u32) = length (bytes_of ps)" by (simp add: unat_of_nat)
  have "s2mm_steps_left (s, at, m, q) = 3 * length ps" using assms(9) ne by (cases ps) auto
  moreover have "\<not> ad_idle s' \<longrightarrow> 0 < s2mm_steps_left (s', at', w', q')"
    using r(2) by (auto simp: s2mm_place_def split: s2mm_at.splits)
  ultimately have "3 * length ps \<le> length (filter (\<lambda>act. act = Port_step) as) \<longrightarrow> ad_idle s'"
    using r(3) by (auto simp del: s2mm_steps_left.simps)
  moreover have "ad_idle s' \<longrightarrow> rest = [] \<and> q' = [] \<and> at' = Port_free \<and> unat (ad_reg AXIDMA_R_LENGTH s') = length (bytes_of ps) \<and>
      ad_addr s' = ?a + of_nat (length (bytes_of ps))"
  proof
    assume i: "ad_idle s'"
    have "q' = [] \<and> at' = Port_free \<and> ad_reg AXIDMA_R_LENGTH s' = of_nat (length (bytes_of ps)) \<and>
        ad_addr s' = ?a + of_nat (length (bytes_of ps))" using r(2) i by (simp only: s2mm_stored.simps if_True simp_thms)
    then show "rest = [] \<and> q' = [] \<and> at' = Port_free \<and> unat (ad_reg AXIDMA_R_LENGTH s') = length (bytes_of ps) \<and>
      ad_addr s' = ?a + of_nat (length (bytes_of ps))" using f(3) i len by simp
  qed
  ultimately show ?thesis
    using r(1) f(1) unfolding f(2) by (intro exI [of _ s'] exI [of _ at'] exI [of _ q'] exI [of _ front] exI [of _ rest]) blast
qed

section \<open>From memory to memory\<close>

lemma packets_fit:
  assumes "0 < n" "n \<le> l" "unat b + n \<le> 2 ^ 64" "0 < k"
  shows "stream_fits (packets k m a n) b l"
proof -
  let ?ps = "packets k m a n"
  have ne: "?ps \<noteq> []" using packets_shape [of k m a n] by simp
  have total: "bytes_of ?ps = mem_read m a n" by (rule packets_concat)
  have "fst (last ?ps) \<noteq> []" using assms(1,4)
  proof (induction k m a n rule: packets.induct)
    case (1 k m a n)
    show ?case
    proof (cases "n \<le> k \<or> k = 0")
      case True
      then show ?thesis using 1(2) by (simp add: packets_last mem_read_def)
    next
      case False
      then show ?thesis using 1 packets_shape [of k m "a + of_nat k" "n - k"] by (simp add: packets_more)
    qed
  qed
  moreover have "bytes_of ?ps = bytes_of (butlast ?ps) @ fst (last ?ps)"
  proof -
    have "bytes_of (butlast ?ps @ [last ?ps]) = bytes_of (butlast ?ps) @ fst (last ?ps)" by simp
    then show ?thesis by (simp only: append_butlast_last_id [OF ne])
  qed
  ultimately have "length (bytes_of (butlast ?ps)) < length (bytes_of ?ps)" by simp
  then show ?thesis using assms ne total packets_marks [of k m a n] by (simp add: stream_fits_def)
qed

text \<open>
  Property C4: the two channels of the AXI DMA copy memory.  The memory-to-stream channel is told to send the \<open>n\<close>
  bytes at its address, the link records the packets in order; when the channel says it is done, the stream-to-memory
  channel, programmed with room for \<open>n\<close> bytes, is fed the packets recorded.  Under every interleaving of each
  channel with its polling host, that channel writes nothing but a front part of the range, has written exactly the \<open>n\<close> bytes once
  it says it is done too, with \<open>n\<close> in its length register, and says so after at most three steps of its process for each started 2 KB.
\<close>

theorem axi_dma_copies_memory:
  assumes "reach (mm2s_act ap) mm2s_poll (s, at, w) (Inr (s', at', w'))" "ad_idle s'"
    and "reads_memory (ap_init ap) mem" "takes_packets (ap_stream ap) put" "\<not> ap_use_memcpy ap"
    and "\<And>b e w. mem (put b e w) = mem w" "\<And>b e w. wire (put b e w) = wire w @ [(b, e)]" "wire w = []"
    and "ad_inv s" "\<not> ad_idle s" "\<not> ad_ev_copy s" "at = At_head \<or> at = At_awake"
    and "n = unat (ad_reg AXIDMA_R_LENGTH s)" "0 < n"
    and "\<forall>act \<in> set as. sink_poll act" "memory_target (ap_init ap2)" "\<not> ap_use_memcpy ap2"
    and "ad_inv t" "\<not> ad_idle t" "\<not> ad_ev_copy t" "ad_copied t = 0"
    and "n \<le> unat (ad_reg AXIDMA_R_LENGTH t)" "unat (ad_addr t) + n \<le> 2 ^ 64"
  shows "\<exists>t' pt k q. run_acts (s2mm_act ap2) as (t, Port_free, m, map stream_gp (wire w')) =
      Inr (t', pt, mem_write m (ad_addr t) (take k (mem_read (mem w) (ad_addr s) n)), q) \<and>
    (ad_idle t' \<longrightarrow> k = n \<and> unat (ad_reg AXIDMA_R_LENGTH t') = n) \<and>
    (3 * ((n + 2047) div 2048) \<le> length (filter (\<lambda>act. act = Port_step) as) \<longrightarrow> ad_idle t')"
proof -
  let ?ps = "packets 2048 (mem w) (ad_addr s) n" and ?bs = "mem_read (mem w) (ad_addr s) n"
  have sent: "mem (put b e x) = mem x" for b e x by (rule assms(6))
  have "w' = fold (\<lambda>(b, e). put b e) ?ps w"
    using mm2s_sent_reach [where put = put, OF assms(1,3-5) sent assms(9-12,13,14) refl] assms(2) by auto
  moreover have "wire (fold (\<lambda>(b, e). put b e) ps x) = wire x @ ps" for ps x
    by (induction ps arbitrary: x) (auto simp: assms(7))
  ultimately have wire: "wire w' = ?ps" by (simp add: assms(8))
  have fit: "stream_fits ?ps (ad_addr t) (unat (ad_reg AXIDMA_R_LENGTH t))"
    by (rule packets_fit) (use assms(14,22,23) in simp_all)
  have bytes: "bytes_of ?ps = ?bs" by (rule packets_concat)
  have "1 \<le> (n + 2047) div 2048" using assms(14) by (simp add: div_greater_zero_iff Suc_le_eq)
  then have steps: "length ?ps = (n + 2047) div 2048" using length_packets [of 2048 "mem w" "ad_addr s" n] by (simp add: max_absorb2)
  obtain t' pt q front rest where r: "run_acts (s2mm_act ap2) as (t, Port_free, m, map stream_gp ?ps) =
      Inr (t', pt, mem_write m (ad_addr t) (bytes_of front), q)" "?ps = front @ rest"
    "ad_idle t' \<longrightarrow> rest = [] \<and> unat (ad_reg AXIDMA_R_LENGTH t') = length (bytes_of ?ps)"
    "3 * length ?ps \<le> length (filter (\<lambda>act. act = Port_step) as) \<longrightarrow> ad_idle t'"
    using s2mm_polled_stream [OF assms(15-21) fit disjI1 [OF conjI [OF refl refl]]] by blast
  have front: "bytes_of front = take (length (bytes_of front)) ?bs" using r(2) bytes by (metis append_eq_conv_conj concat_append map_append)
  show ?thesis
    using r front bytes unfolding wire steps
    by (intro exI [of _ t'] exI [of _ pt] exI [of _ "length (bytes_of front)"] exI [of _ q]) auto
qed

theorem axi_dma_copies_memory_witness:
  "\<exists>s' at' w' t' pt k q.
     run_acts (mm2s_act sample_ports) (replicate 7 (Thread_step (replicate 2048 0))) (sample_axidma, At_awake, (\<lambda>a. ucast a, [])) =
       Inr (s', at', w') \<and>
     run_acts (s2mm_act sample_sink_ports) (replicate 6 Port_step) (sample_sink 0 4096, Port_free, (\<lambda>_. 0), map stream_gp (snd w')) =
       Inr (t', pt, mem_write (\<lambda>_. 0) 0x2000 (take k (mem_read (\<lambda>a. ucast a) 0x1000 3000)), q) \<and> ad_idle t' \<and> k = 3000"
proof -
  let ?as = "replicate 7 (Thread_step (replicate 2048 0))" and ?w = "(\<lambda>a. ucast a, []) :: bytes_memory \<times> (u8 list \<times> bool) list"
  let ?bs = "replicate 6 Port_step" and ?t = "sample_sink 0 4096"
  have n: "(3000 :: nat) = unat (ad_reg AXIDMA_R_LENGTH sample_axidma)" "0 < (3000 :: nat)"
    by (simp_all add: sample_axidma_regs(4))
  have poll: "\<forall>a \<in> set ?as. mm2s_poll a" "3 * ((3000 + 2047) div 2048) + 1 \<le> thread_steps ?as"
    by (simp_all add: thread_steps_def)
  obtain s' at' w' where r: "run_acts (mm2s_act sample_ports) ?as (sample_axidma, At_awake, ?w) = Inr (s', at', w')" "ad_idle s'"
    using mm2s_transfer_ends [where put = sample_put and mem = fst and w = ?w, OF poll sample_surroundings(1-4)
        sample_axidma_regs(1-3) disjI2 [OF refl] n] by blast
  note reached = run_acts_reach [where step = "mm2s_act sample_ports", OF poll(1), of "(sample_axidma, At_awake, ?w)", unfolded r(1)]
  have wire: "snd (sample_put b e w) = snd w @ [(b, e)]" "snd ?w = []" for b e w by (simp_all add: sample_put_def)
  have t: "\<forall>act \<in> set ?bs. sink_poll act" "\<not> ad_idle ?t" "3000 \<le> unat (ad_reg AXIDMA_R_LENGTH ?t)" "unat (ad_addr ?t) + 3000 \<le> 2 ^ 64"
    by (simp_all add: sample_sink_regs)
  obtain t' pt k q where "run_acts (s2mm_act sample_sink_ports) ?bs (?t, Port_free, (\<lambda>_. 0), map stream_gp (snd w')) =
      Inr (t', pt, mem_write (\<lambda>_. 0) (ad_addr ?t) (take k (mem_read (fst ?w) (ad_addr sample_axidma) 3000)), q)"
    "ad_idle t' \<longrightarrow> k = 3000" "3 * ((3000 + 2047) div 2048) \<le> length (filter (\<lambda>act. act = Port_step) ?bs) \<longrightarrow> ad_idle t'"
    using axi_dma_copies_memory [where put = sample_put and mem = fst and wire = snd and m = "\<lambda>_. 0", OF reached r(2) sample_surroundings(1-4) wire
        sample_axidma_regs(1-3) disjI2 [OF refl] n t(1) sample_sink_regs(7,8,1) t(2) sample_sink_regs(3,6) t(3,4)] by blast
  then show ?thesis using r(1) unfolding sample_axidma_regs(5) sample_sink_regs(5) fst_conv
    by (intro exI [of _ s'] exI [of _ at'] exI [of _ w'] exI [of _ t'] exI [of _ pt] exI [of _ k] exI [of _ q]) simp
qed

end
