(* ===== verification/Demo_Maps.thy ===== *)
theory Demo_Maps
  imports Iconnect
begin

text \<open>
  The address maps of the demo programs.  Every \<open>Top\<close> constructor adds its regions to the
  interconnect with \<open>memmap\<close>, relative and with \<open>idx = -1\<close>; a map is the list of those calls.
  The theory has one list per demo, the bus they build, and what that bus decodes, whatever the
  memory of the map held before.
\<close>

section \<open>Building a bus from a list of regions\<close>

type_synonym 't map_row = "u64 \<times> u64 \<times> 't"

primrec map_rows :: "'t map_row list \<Rightarrow> 't iconnect \<Rightarrow> 't iconnect res" where
  "map_rows [] ic = Inr ic"
| "map_rows (r # rs) ic =
     (case r of (base, sz, t) \<Rightarrow>
        res_bind (memmap base sz ADDRMODE_RELATIVE (-1) t ic) (\<lambda>(_, ic'). map_rows rs ic'))"

definition demo_bus :: "nat \<Rightarrow> memmap_entry list \<Rightarrow> u64 list \<Rightarrow> 't map_row list \<Rightarrow> 't iconnect res" where
  "demo_bus n raw_map raw_offset rows = res_bind (iconnect_new n raw_map raw_offset) (map_rows rows)"

text \<open>The decoder a map describes: the first region, bounds included, that holds the address.\<close>

fun rows_decode :: "'t map_row list \<Rightarrow> u64 \<Rightarrow> ('t \<times> u64) option" where
  "rows_decode [] a = None"
| "rows_decode ((base, sz, t) # rs) a =
     (if base \<le> a \<and> a \<le> base + sz then Some (t, a - base) else rows_decode rs a)"

definition row_entry :: "nat \<times> 't map_row \<Rightarrow> memmap_entry" where
  "row_entry = (\<lambda>(i, base, sz, t).
     \<lparr>me_addr = base, me_size = sz, me_mode = ADDRMODE_RELATIVE, me_sk = int i\<rparr>)"

definition row_target :: "'t map_row \<Rightarrow> 't" where
  "row_target = (\<lambda>(base, sz, t). t)"

text \<open>The bus after the constructor and \<open>rows\<close>.\<close>

definition mapped_bus :: "nat \<Rightarrow> memmap_entry list \<Rightarrow> u64 list \<Rightarrow> 't map_row list \<Rightarrow> 't iconnect" where
  "mapped_bus n raw_map raw_offset rows =
     \<lparr>ic_map = map row_entry (enumerate 0 rows)
        @ drop (length rows) (map (\<lambda>e. e\<lparr>me_size := 0\<rparr>) (take n raw_map)) @ drop n raw_map,
      ic_offset = raw_offset[0 := 0],
      ic_isk = map (Some \<circ> row_target) rows @ replicate (n - length rows) None\<rparr>"

lemma find_free_append:
  "\<forall>e \<in> set es. me_size e \<noteq> 0 \<Longrightarrow> me_size e = 0 \<Longrightarrow> find_free (es @ e # fs) = Some (length es)"
  by (induction es) auto

lemma row_entry_size: "\<forall>(base, sz, t) \<in> set rows. sz \<noteq> 0 \<Longrightarrow>
    \<forall>e \<in> set (map row_entry (enumerate k rows)). me_size e \<noteq> 0"
  by (induction rows arbitrary: k) (auto simp: row_entry_def)

lemma memmap_mapped_bus:
  assumes "length raw_map = 4 * n" "length rows < n" "\<forall>(base, sz, t) \<in> set rows. sz \<noteq> 0"
  shows "memmap base sz ADDRMODE_RELATIVE (-1) t (mapped_bus n raw_map raw_offset rows) =
    Inr (length rows, mapped_bus n raw_map raw_offset (rows @ [(base, sz, t)]))"
proof -
  let ?k = "length rows"
  let ?free = "map (\<lambda>e. e\<lparr>me_size := 0\<rparr>) (take n raw_map)"
  have k: "?k < length ?free" using assms(1,2) by simp
  have d: "drop ?k ?free = ?free ! ?k # drop (Suc ?k) ?free" by (rule Cons_nth_drop_Suc [OF k, symmetric])
  have z: "me_size (?free ! ?k) = 0" using k by simp
  have ff: "find_free (ic_map (mapped_bus n raw_map raw_offset rows)) = Some ?k"
    using find_free_append [OF row_entry_size [OF assms(3), of 0] z] d
    by (simp add: mapped_bus_def)
  have m: "(ic_map (mapped_bus n raw_map raw_offset rows))[?k :=
      \<lparr>me_addr = base, me_size = sz, me_mode = ADDRMODE_RELATIVE, me_sk = int ?k\<rparr>] =
      ic_map (mapped_bus n raw_map raw_offset (rows @ [(base, sz, t)]))"
    using d by (simp add: mapped_bus_def list_update_append enumerate_append_eq row_entry_def)
  have r: "replicate (n - ?k) (None :: 'a option) = None # replicate (n - Suc ?k) None"
    using assms(2) by (simp add: Suc_diff_Suc flip: replicate_Suc)
  have s: "(ic_isk (mapped_bus n raw_map raw_offset rows))[?k := Some t] =
      ic_isk (mapped_bus n raw_map raw_offset (rows @ [(base, sz, t)]))"
    using assms(2) by (simp add: mapped_bus_def list_update_append r row_target_def)
  have o: "ic_offset (mapped_bus n raw_map raw_offset rows) =
      ic_offset (mapped_bus n raw_map raw_offset (rows @ [(base, sz, t)]))"
    by (simp add: mapped_bus_def)
  have f: "ic_isk (mapped_bus n raw_map raw_offset rows) ! ?k = None" "?k < length (ic_isk (mapped_bus n raw_map raw_offset rows))"
    using assms(2) by (simp_all add: mapped_bus_def nth_append)
  show ?thesis
    using ff f by (simp add: memmap_def Let_def m s o)
qed

lemma map_rows_append: "map_rows (rs @ rs') ic = res_bind (map_rows rs ic) (map_rows rs')"
proof (induction rs arbitrary: ic)
  case (Cons r rs)
  then show ?case by (cases r; cases "memmap (fst r) (fst (snd r)) ADDRMODE_RELATIVE (-1) (snd (snd r)) ic") auto
qed simp

lemma demo_bus_eq:
  assumes "length raw_map = 4 * n" "raw_offset \<noteq> []" "length rows \<le> n" "\<forall>(base, sz, t) \<in> set rows. sz \<noteq> 0"
  shows "demo_bus n raw_map raw_offset rows = Inr (mapped_bus n raw_map raw_offset rows)"
  using assms(3,4)
proof (induction rows rule: rev_induct)
  case Nil
  then show ?case
    using assms(1,2) by (simp add: demo_bus_def iconnect_new_def set_target_offset_def mapped_bus_def)
next
  case (snoc r rows)
  obtain base sz t where r: "r = (base, sz, t)" by (cases r)
  have "demo_bus n raw_map raw_offset rows = Inr (mapped_bus n raw_map raw_offset rows)" using snoc by simp
  moreover have "demo_bus n raw_map raw_offset (rows @ [r]) =
      res_bind (demo_bus n raw_map raw_offset rows) (map_rows [r])"
    using assms(2) by (cases "iconnect_new n raw_map raw_offset :: 'a iconnect res") (simp_all add: demo_bus_def map_rows_append)
  moreover have "length rows < n" "\<forall>(base, sz, t) \<in> set rows. sz \<noteq> 0" using snoc.prems by auto
  note memmap_mapped_bus [OF assms(1) this, of base sz t raw_offset]
  ultimately show ?case using r by simp
qed

lemma map_address_rows:
  assumes "rows_decode rows a = Some (t, off)" "\<forall>(base, sz, t) \<in> set rows. sz \<noteq> 0"
  shows "\<exists>i < length rows. row_target (rows ! i) = t \<and>
    map_address_loop (map row_entry (enumerate k rows) @ rest) a = Some (int (k + i), off)"
  using assms
proof (induction rows arbitrary: k)
  case (Cons r rows)
  obtain base sz u where r: "r = (base, sz, u)" by (cases r)
  show ?case
  proof (cases "base \<le> a \<and> a \<le> base + sz")
    case True
    then show ?thesis using Cons.prems r by (intro exI [of _ 0]) (auto simp: row_entry_def row_target_def)
  next
    case False
    with Cons.prems r obtain i where "i < length rows" "row_target (rows ! i) = t"
      "map_address_loop (map row_entry (enumerate (Suc k) rows) @ rest) a = Some (int (Suc k + i), off)"
      using Cons.IH [of "Suc k"] by auto
    with False r show ?thesis by (intro exI [of _ "Suc i"]) (auto simp: row_entry_def)
  qed
qed simp

text \<open>
  The constructor and the \<open>memmap\<close> calls of a demo whose regions are not empty and
  no more than its devices succeed, whatever the memory of the map held before; and an address in
  one of the regions is routed to the device of the first region that holds it, at its offset
  in the region.
\<close>

lemma demo_bus_routes:
  assumes "length raw_map = 4 * n" "n < 2 ^ 31" "ini < length raw_offset" "length rows \<le> n"
    and "\<forall>(base, sz, t) \<in> set rows. sz \<noteq> 0"
    and "rows_decode rows (a + (raw_offset[0 := 0]) ! ini) = Some (t, off)"
  shows "\<exists>ic nr. demo_bus n raw_map raw_offset rows = Inr ic \<and> nr < length rows \<and>
     route ic ini a = Inr (nr, t, off, a + (raw_offset[0 := 0]) ! ini)"
proof -
  let ?ic = "mapped_bus n raw_map raw_offset rows" and ?a = "a + (raw_offset[0 := 0]) ! ini"
  have b: "demo_bus n raw_map raw_offset rows = Inr ?ic"
    using assms(3) by (intro demo_bus_eq [OF assms(1) _ assms(4,5)]) auto
  obtain i where i: "i < length rows" "row_target (rows ! i) = t"
    "map_address_loop (ic_map ?ic) ?a = Some (int i, off)"
    using map_address_rows [OF assms(6,5), of 0] by (auto simp: mapped_bus_def)
  have nr: "target_nr_of (int i) = i"
    using i(1) assms(2,4) by (simp add: target_nr_of_def unat_of_nat)
  have "ic_offset ?ic ! ini = (raw_offset[0 := 0]) ! ini" "length (ic_offset ?ic) = length raw_offset"
    "length (ic_isk ?ic) = n" "ic_isk ?ic ! i = Some t"
    using i assms(4) by (simp_all add: mapped_bus_def nth_append)
  then have "route ?ic ini a = Inr (i, t, off, ?a)"
    using i assms(3,4) nr by (simp add: route_def Let_def map_address_def)
  with b i(1) show ?thesis by blast
qed

section \<open>The maps of the demos\<close>

datatype demo_target = T_debug | T_demodma nat | T_apb | T_axilite | T_axifull | T_tlm2axi
  | T_mem | T_mem_lpd | T_mem_me | T_ddr | T_mm2s | T_s2mm | T_mac | T_mcdma | T_gt nat | T_gt_pll
  | T_cdma nat | T_counter | T_mem_n nat | T_catapult | T_sbi | T_ps

definition zynq_map :: "demo_target map_row list" where
  "zynq_map = [(0x40000000, 0x100 - 1, T_debug)]"

definition zynqmp_map :: "demo_target map_row list" where
  "zynqmp_map =
     (0xa0000000, 0x100 - 1, T_debug)
     # map (\<lambda>i. (0xa0010000 + 0x100 * of_nat i, 0x18 - 1, T_demodma i)) [0..<4]
     @ [(0xa0020000, 0x10 - 1, T_apb), (0xa0450000, 0x10 - 1, T_axilite), (0xa0460000, 0x400 - 1, T_axifull),
        (0xa0800000, 64 * 1024 - 1, T_mem), (0, 0xffffffff - 1, T_ps)]"

definition MM_TOP_ME :: u64 where "MM_TOP_ME = 0x200000000"
definition MM_DDR_SIZE :: u64 where "MM_DDR_SIZE = 0x80000000"

text \<open>The Boolean is the compile-time switch \<open>DDR_IN_SYSTEMC\<close>.\<close>

definition versal_map :: "bool \<Rightarrow> demo_target map_row list" where
  "versal_map ddr =
     [(0x80000000, 0x100 - 1, T_debug), (0x80010000, 0x10 - 1, T_demodma 0), (MM_TOP_ME, 32 * 1024 - 1, T_mem_me),
      (0x80020000, 0x10 - 1, T_apb), (0xa0450000, 0x10 - 1, T_axilite), (0xa0460000, 0x400 - 1, T_axifull),
      (0xa0800000, 64 * 1024 - 1, T_mem), (0xff4e0000, 1024 * 1024 - 1, T_mem_lpd)]
     @ (if ddr then [(0, MM_DDR_SIZE - 1, T_ddr), (MM_DDR_SIZE, 0xffffffff - 1, T_ps)]
        else [(0, 0xffffffff - 1, T_ps)])"

definition mrmac_map :: "demo_target map_row list" where
  "mrmac_map = (let base = 0xa4000000 in
     [(base + 0x10000, 0x10000 - 1, T_mac), (base + 0x20000, 0x1000 - 1, T_mcdma),
      (base + 0x60000, 0x100 - 1, T_gt 0), (base + 0x70000, 0x100 - 1, T_gt 1),
      (base + 0x80000, 0x100 - 1, T_gt 2), (base + 0x90000, 0x100 - 1, T_gt 3),
      (base + 0xa0000, 0x100 - 1, T_gt_pll), (0, 0xffffffff - 1, T_ps)])"

text \<open>The same code for the two LMAC demos, and for RISC-V with another base.\<close>

definition lmac_map :: "u64 \<Rightarrow> demo_target map_row list" where
  "lmac_map base =
     [(base + 0x30000, 0x4000 - 1, T_apb), (base + 0x34000, 0x100 - 1, T_mm2s),
      (base + 0x35000, 0x100 - 1, T_s2mm), (0, 0xffffffff - 1, T_ps)]"

definition vcs_map :: "demo_target map_row list" where
  "vcs_map = (let base = 0xa0000000 in
     [(base, 0x100 - 1, T_debug), (base + 0x10000, 0x10 - 1, T_demodma 0),
      (base + 0x20000, 0x10 - 1, T_tlm2axi), (0, 0xffffffff - 1, T_ps)])"

definition RAM_SIZE :: u64 where "RAM_SIZE = 2 * 1024 * 1024"

definition cdx_map :: "demo_target map_row list" where
  "cdx_map =
     [(0xe4000000, 0x100 - 1, T_debug), (0xe4020000, 0x100 - 1, T_cdma 0), (0xe4030000, 0x100 - 1, T_cdma 1),
      (0xe4040000, 0x100 - 1, T_counter), (0xe4100000, RAM_SIZE - 1, T_mem_n 0), (0xe4300000, RAM_SIZE - 1, T_mem_n 1),
      (0, 0xffffffffffffffff, T_ps)]"

text \<open>The size of the device is \<open>CatapultDevice::mmio_size\<close>.\<close>

definition bedrock_map :: "demo_target map_row list" where
  "bedrock_map = [(0xe4000000, 0x1000000 - 1, T_catapult), (0, 0xffffffffffffffff, T_ps)]"

definition qdma_map :: "demo_target map_row list" where
  "qdma_map = [(0x102100000, 0x1000 - 1, T_sbi)]"

text \<open>The number of devices of each interconnect and its map.\<close>

definition demo_maps :: "(nat \<times> demo_target map_row list) list" where
  "demo_maps = [(1, zynq_map), (6 + 4, zynqmp_map), (9, versal_map False), (10, versal_map True), (8, mrmac_map),
     (4, lmac_map 0xa0000000), (4, lmac_map 0x28000000), (4, vcs_map), (7, cdx_map), (2, bedrock_map), (1, qdma_map)]"

lemmas demo_map_defs = zynq_map_def zynqmp_map_def versal_map_def mrmac_map_def lmac_map_def vcs_map_def
  cdx_map_def bedrock_map_def qdma_map_def MM_TOP_ME_def MM_DDR_SIZE_def RAM_SIZE_def

section \<open>No region hides another\<close>

fun rows_apart :: "'t map_row list \<Rightarrow> bool" where
  "rows_apart [] \<longleftrightarrow> True"
| "rows_apart ((base, sz, t) # rs) \<longleftrightarrow> base \<le> base + sz \<and>
     list_all (\<lambda>(base', sz', t'). base + sz < base' \<or> base' + sz' < base) rs \<and> rows_apart rs"

lemma row_offset_bound: "off \<le> sz \<Longrightarrow> base \<le> base + sz \<Longrightarrow> base \<le> base + off \<and> base + off \<le> base + (sz :: u64)"
  by (simp add: word_plus_mono_right2 word_plus_mono_right)

lemma rows_decode_apart:
  assumes "rows_apart devs" "(base, sz, t) \<in> set devs" "off \<le> sz"
  shows "rows_decode (devs @ rest) (base + off) = Some (t, off)"
  using assms
proof (induction devs)
  case (Cons r devs)
  obtain b z u where r: "r = (b, z, u)" by (cases r)
  show ?case
  proof (cases "(base, sz, t) = r")
    case True
    with Cons.prems r row_offset_bound [of off sz base] show ?thesis by simp
  next
    case False
    then have "(base, sz, t) \<in> set devs" "rows_apart devs" using Cons.prems r by auto
    moreover from this have le: "base \<le> base + sz"
      by (induction devs rule: rows_apart.induct) auto
    moreover have "b + z < base \<or> base + sz < b"
      using Cons.prems(1) r \<open>(base, sz, t) \<in> set devs\<close> by (auto simp: list_all_iff)
    ultimately have "\<not> (b \<le> base + off \<and> base + off \<le> b + z)" "rows_decode (devs @ rest) (base + off) = Some (t, off)"
      using row_offset_bound [OF Cons.prems(3) le] Cons.IH Cons.prems(3) by auto
    with r show ?thesis by auto
  qed
qed simp

text \<open>The regions of a map other than the one of the processor system, which is the last.\<close>

definition map_devices :: "demo_target map_row list \<Rightarrow> demo_target map_row list" where
  "map_devices rows = filter (\<lambda>(_, _, t). t \<noteq> T_ps) rows"

lemma demo_maps_checked:
  "list_all (\<lambda>(n, rows). length rows \<le> n \<and> list_all (\<lambda>(_, sz, _). sz \<noteq> 0) rows \<and> rows_apart (map_devices rows)
     \<and> take (length (map_devices rows)) rows = map_devices rows) demo_maps"
  by (simp add: demo_maps_def demo_map_defs map_devices_def upt_conv_Cons Let_def)

lemma demo_device_decode:
  assumes "(n, rows) \<in> set demo_maps" "(base, sz, t) \<in> set rows" "t \<noteq> T_ps" "off \<le> sz"
  shows "rows_decode rows (base + off) = Some (t, off)"
proof -
  have c: "rows_apart (map_devices rows)" "take (length (map_devices rows)) rows = map_devices rows"
    using demo_maps_checked assms(1) by (auto simp: list_all_iff)
  have "(base, sz, t) \<in> set (map_devices rows)" using assms(2,3) by (simp add: map_devices_def)
  from rows_decode_apart [OF c(1) this assms(4), of "drop (length (map_devices rows)) rows"]
  show ?thesis using c(2) append_take_drop_id [of "length (map_devices rows)" rows] by simp
qed

lemma demo_device_route:
  assumes "(n, rows) \<in> set demo_maps" "length raw_map = 4 * n" "raw_offset \<noteq> []"
    and "(base, sz, t) \<in> set rows" "t \<noteq> T_ps" "off \<le> sz"
  shows "\<exists>ic nr. demo_bus n raw_map raw_offset rows = Inr ic \<and> route ic 0 (base + off) = Inr (nr, t, off, base + off)"
proof -
  have c: "length rows \<le> n" "\<forall>(base, sz, t) \<in> set rows. sz \<noteq> 0"
    using demo_maps_checked assms(1) by (auto simp: list_all_iff)
  have d: "rows_decode rows (base + off) = Some (t, off)" by (rule demo_device_decode [OF assms(1,4-6)])
  have "n < 2 ^ 31" using assms(1) by (auto simp: demo_maps_def)
  from demo_bus_routes [OF assms(2) this _ c, of 0 raw_offset "base + off" t off] assms(3) d
  show ?thesis by (cases raw_offset) auto
qed

text \<open>
  In every demo the regions fit the interconnect and none is empty, so that the
  set-up succeeds, and none hides a part of another: every device answers at every
  offset of its region.
\<close>

theorem demo_devices_reachable:
  assumes "(n, rows) \<in> set demo_maps" "length raw_map = 4 * n" "raw_offset \<noteq> []"
    and "(base, sz, t) \<in> set rows" "t \<noteq> T_ps" "off \<le> sz"
  shows "\<exists>ic nr. demo_bus n raw_map raw_offset rows = Inr ic \<and> route ic 0 (base + off) = Inr (nr, t, off, base + off)"
  using assms by (rule demo_device_route)

theorem demo_devices_reachable_witness:
  "\<exists>ic nr. demo_bus 7 (replicate 28 \<lparr>me_addr = 0, me_size = 5, me_mode = ADDRMODE_ABSOLUTE, me_sk = 3\<rparr>) [9, 9, 9] cdx_map = Inr ic \<and>
     route ic 0 0xe4040000 = Inr (nr, T_counter, 0, 0xe4040000)"
proof -
  have "(7, cdx_map) \<in> set demo_maps" "(0xe4040000, 0x100 - 1, T_counter) \<in> set cdx_map"
    by (simp_all add: demo_maps_def cdx_map_def)
  from demo_devices_reachable [OF this(1) _ _ this(2), of "replicate 28 \<lparr>me_addr = 0, me_size = 5, me_mode = ADDRMODE_ABSOLUTE, me_sk = 3\<rparr>" "[9, 9, 9]" 0]
  show ?thesis by simp
qed

section \<open>Direct memory pointers\<close>

lemma demo_targets_distinct: "list_all (\<lambda>(n, rows). distinct (map row_target rows)) demo_maps"
  by (simp add: demo_maps_def demo_map_defs row_target_def upt_conv_Cons Let_def)

lemma same_target_same_row:
  "distinct (map row_target rows) \<Longrightarrow> i < length rows \<Longrightarrow> r \<in> set rows \<Longrightarrow> row_target (rows ! i) = row_target r \<Longrightarrow>
     rows ! i = r"
  by (metis inj_onD distinct_map nth_mem)

lemma route_socket:
  "route ic ini a = Inr (nr, t, off, b) \<Longrightarrow> nr < length (ic_isk ic) \<and> ic_isk ic ! nr = Some t"
  by (auto simp: route_def Let_def split: if_splits prod.splits option.splits)

lemma unmap_mapped_bus:
  assumes "i < length rows" "length rows \<le> n" "length raw_map = 4 * n" "rows ! i = (base, sz, t)"
  shows "unmap_offset (mapped_bus n raw_map raw_offset rows) i off = (if sz \<le> off then Inl Sc_fatal else Inr (base + off))"
proof -
  have "ic_map (mapped_bus n raw_map raw_offset rows) ! i = row_entry (i, rows ! i)"
    using assms(1) by (simp add: mapped_bus_def nth_append nth_enumerate_eq)
  then show ?thesis
    using assms by (simp add: unmap_offset_def row_entry_def mapped_bus_def Let_def)
qed

text \<open>
  Property C25: in every demo a request for a direct memory pointer to a device, made at port 0 of the bus (the one whose
  offset the constructor clears), reaches the device,
  and what the device answers comes back in the addresses of the bus when both its ends lie
  below the size given to \<open>memmap\<close>.  That size is the last offset of the region, so an answer that
  covers the region up to its end stops the simulation with a fatal error; so does the answer of
  a device without such pointers, a refusal for the range from 0 to the last address.
\<close>

theorem demo_dmi_requests:
  assumes "(n, rows) \<in> set demo_maps" "length raw_map = 4 * n" "raw_offset \<noteq> []"
    and "(base, sz, t) \<in> set rows" "t \<noteq> T_ps" "off \<le> sz" "gp_addr tr = base + off"
    and "deliver t (tr\<lparr>gp_addr := off\<rparr>) dmi s = Inr (r, tr', dmi', s')"
  shows "\<exists>ic. demo_bus n raw_map raw_offset rows = Inr ic \<and>
    ic_get_direct_mem_ptr deliver ic 0 tr dmi s =
      (if dmi_start dmi' < sz \<and> dmi_end dmi' < sz
       then Inr (r, tr', dmi'\<lparr>dmi_start := base + dmi_start dmi', dmi_end := base + dmi_end dmi'\<rparr>, s')
       else Inl Sc_fatal)"
proof -
  have c: "length rows \<le> n" "\<forall>(base, sz, t) \<in> set rows. sz \<noteq> 0"
    using demo_maps_checked assms(1) by (auto simp: list_all_iff)
  have dt: "distinct (map row_target rows)" using demo_targets_distinct assms(1) by (auto simp: list_all_iff)
  let ?ic = "mapped_bus n raw_map raw_offset rows"
  have b: "demo_bus n raw_map raw_offset rows = Inr ?ic" by (rule demo_bus_eq [OF assms(2,3) c])
  obtain nr where rt: "route ?ic 0 (base + off) = Inr (nr, t, off, base + off)"
    using demo_device_route [OF assms(1-6)] b by auto
  have nr: "nr < length rows" "row_target (rows ! nr) = t"
    using route_socket [OF rt] by (auto simp: mapped_bus_def nth_append split: if_splits)
  have row: "rows ! nr = (base, sz, t)"
    using same_target_same_row [OF dt nr(1) assms(4)] nr(2) by (simp add: row_target_def)
  show ?thesis
    using b rt assms(7,8) unmap_mapped_bus [OF nr(1) c(1) assms(2) row]
    by (intro exI [of _ ?ic]) (auto simp: ic_get_direct_mem_ptr_def not_less)
qed

theorem demo_dmi_requests_witness:
  "\<exists>ic. demo_bus 7 (replicate 28 \<lparr>me_addr = 0, me_size = 5, me_mode = ADDRMODE_ABSOLUTE, me_sk = 3\<rparr>) [9, 9, 9] cdx_map = Inr ic \<and>
     ic_get_direct_mem_ptr (\<lambda>_ tr dmi s. Inr (False, tr, \<lparr>dmi_start = 0, dmi_end = -1\<rparr>, s)) ic 0
       (mk_gp TLM_READ_COMMAND (0xe4040000 + 4) [] 0) \<lparr>dmi_start = 0, dmi_end = 0\<rparr> () = Inl Sc_fatal \<and>
     ic_get_direct_mem_ptr (\<lambda>_ tr dmi s. Inr (True, tr, \<lparr>dmi_start = 0, dmi_end = 0xfe\<rparr>, s)) ic 0
       (mk_gp TLM_READ_COMMAND (0xe4040000 + 4) [] 0) \<lparr>dmi_start = 0, dmi_end = 0\<rparr> () =
       Inr (True, (mk_gp TLM_READ_COMMAND (0xe4040000 + 4) [] 0)\<lparr>gp_addr := 4\<rparr>,
            \<lparr>dmi_start = 0xe4040000, dmi_end = 0xe40400fe\<rparr>, ())"
proof -
  let ?raw = "replicate 28 \<lparr>me_addr = 0, me_size = 5, me_mode = ADDRMODE_ABSOLUTE, me_sk = 3\<rparr>"
  let ?tr = "mk_gp TLM_READ_COMMAND (0xe4040000 + 4) [] 0"
  have h: "(7, cdx_map) \<in> set demo_maps" "length ?raw = 4 * 7" "[9, 9, 9 :: u64] \<noteq> []"
    "(0xe4040000, 0x100 - 1, T_counter) \<in> set cdx_map" "T_counter \<noteq> T_ps" "(4 :: u64) \<le> 0x100 - 1" "gp_addr ?tr = 0xe4040000 + 4"
    by (simp_all add: demo_maps_def cdx_map_def)
  note f = demo_dmi_requests [OF h, where dmi = "\<lparr>dmi_start = 0, dmi_end = 0\<rparr>" and s = "()" and tr' = "?tr\<lparr>gp_addr := 4\<rparr>" and s' = "()"]
  show ?thesis
    using f [where deliver = "\<lambda>_ tr dmi s. Inr (False, tr, \<lparr>dmi_start = 0, dmi_end = -1\<rparr>, s)" and r = False and dmi' = "\<lparr>dmi_start = 0, dmi_end = -1\<rparr>"]
      f [where deliver = "\<lambda>_ tr dmi s. Inr (True, tr, \<lparr>dmi_start = 0, dmi_end = 0xfe\<rparr>, s)" and r = True and dmi' = "\<lparr>dmi_start = 0, dmi_end = 0xfe\<rparr>"]
    by auto
qed

section \<open>The region of the processor system\<close>

lemma rows_decode_row:
  "rows_decode rows a = Some (t, off) \<Longrightarrow> \<exists>base sz. (base, sz, t) \<in> set rows \<and> off = a - base"
  by (induction rows a rule: rows_decode.induct) (auto split: if_splits)

definition ps_base :: "demo_target map_row list \<Rightarrow> u64" where
  "ps_base rows = (if rows = versal_map True then MM_DDR_SIZE else 0)"

lemma ps_rows_checked:
  "list_all (\<lambda>(n, rows). list_all (\<lambda>(base, _, t). t = T_ps \<longrightarrow> base = ps_base rows) rows) demo_maps"
  by (simp add: demo_maps_def ps_base_def demo_map_defs upt_conv_Cons Let_def)

text \<open>
  An address the demos leave to the processor system reaches it unchanged, except
  in the Versal demo with \<open>DDR_IN_SYSTEMC\<close>, where the system sees the address less 2 GB although
  QEMU needs absolute addresses.  The maps that give it \<open>0xffffffff - 1\<close> as its size leave the last
  address below 4 GB to nobody, while the CDX and Bedrock maps decode every address.
\<close>

theorem ps_region:
  assumes "(n, rows) \<in> set demo_maps"
  shows "(\<forall>a off. rows_decode rows a = Some (T_ps, off) \<longrightarrow>
      off = (if rows = versal_map True then a - 0x80000000 else a)) \<and>
    (rows \<in> {zynqmp_map, versal_map False, mrmac_map, lmac_map 0xa0000000, lmac_map 0x28000000, vcs_map} \<longrightarrow>
      rows_decode rows 0xffffffff = None \<and> rows_decode rows 0xfffffffe = Some (T_ps, 0xfffffffe)) \<and>
    (rows \<in> {cdx_map, bedrock_map} \<longrightarrow> (\<forall>a. rows_decode rows a \<noteq> None))"
proof (intro conjI allI impI)
  fix a off assume "rows_decode rows a = Some (T_ps, off)"
  from rows_decode_row [OF this] obtain base sz where "(base, sz, T_ps) \<in> set rows" "off = a - base" by blast
  moreover from this have "base = ps_base rows"
    using ps_rows_checked assms by (fastforce simp: list_all_iff)
  ultimately show "off = (if rows = versal_map True then a - 0x80000000 else a)"
    by (simp add: ps_base_def MM_DDR_SIZE_def)
next
  assume r: "rows \<in> {zynqmp_map, versal_map False, mrmac_map, lmac_map 0xa0000000, lmac_map 0x28000000, vcs_map}"
  then show "rows_decode rows 0xffffffff = None"
    by (auto simp: demo_map_defs upt_conv_Cons Let_def)
  from r show "rows_decode rows 0xfffffffe = Some (T_ps, 0xfffffffe)"
    by (auto simp: demo_map_defs upt_conv_Cons Let_def)
next
  fix a :: u64 assume "rows \<in> {cdx_map, bedrock_map}"
  moreover have "a \<le> 0xffffffffffffffff" using unsigned_less [of a, where ?'a = nat] by (simp add: word_le_nat_alt)
  ultimately show "rows_decode rows a \<noteq> None" by (auto simp: demo_map_defs)
qed

theorem ps_region_witness:
  "rows_decode zynqmp_map 0xffffffff = None \<and> rows_decode (versal_map True) 0x80010010 = Some (T_ps, 0x10010) \<and>
     (\<forall>a. rows_decode bedrock_map a \<noteq> None)"
proof -
  have m: "(10, zynqmp_map) \<in> set demo_maps" "(10, versal_map True) \<in> set demo_maps" "(2, bedrock_map) \<in> set demo_maps"
    by (simp_all add: demo_maps_def)
  obtain off where d: "rows_decode (versal_map True) 0x80010010 = Some (T_ps, off)" by (simp add: demo_map_defs)
  from ps_region [OF m(2), THEN conjunct1, rule_format, OF d] have "off = 0x10010" by simp
  moreover have "rows_decode zynqmp_map 0xffffffff = None" using ps_region [OF m(1)] by (elim conjE) simp
  moreover have "\<forall>a. rows_decode bedrock_map a \<noteq> None" using ps_region [OF m(3)] by (elim conjE) simp
  ultimately show ?thesis using d by simp
qed

end
