(* ===== verification/Debug_Dev.thy ===== *)
theory Debug_Dev
  imports Tlm
begin

text \<open>
  The debug device of \<open>debugdev.h\<close> and \<open>debugdev.cc\<close>: a register port that prints traces,
  drives an interrupt line, reads clocks, ends the simulation, and answers two addresses with
  errors so that software can test its error paths.
\<close>

section \<open>State\<close>

text \<open>What a write shows on the console, and the end of the simulation.\<close>

datatype dbg_output = Dbg_trace u32 sc_time u64 | Dbg_char u32

text \<open>
  The interrupt line, the time of the last write (a static variable of \<open>b_transport\<close>), the
  console.
\<close>

record debugdev =
  dv_irq :: bool
  dv_old_ts :: sc_time
  dv_out :: "dbg_output list"

definition debugdev_new :: debugdev where
  "debugdev_new = \<lparr>dv_irq = False, dv_old_ts = 0, dv_out = []\<rparr>"

text \<open>
  The surroundings: \<open>sc_time_stamp()\<close>, \<open>clock()\<close>, and the conversion of a time into
  nanoseconds, which goes through a \<open>double\<close> and is undefined (\<open>None\<close>) when the number does
  not fit into 32 bits.
\<close>

record dbg_env =
  de_stamp :: sc_time
  de_clock :: u32
  de_nanoseconds :: "sc_time \<Rightarrow> u32 option"

section \<open>Transactions\<close>

definition dbg_read :: "dbg_env \<Rightarrow> u64 \<Rightarrow> sc_time \<Rightarrow> debugdev \<Rightarrow> (u32 \<times> tlm_response) res" where
  "dbg_read env addr now s =
     (if addr = 0 then (case de_nanoseconds env now of
                          None \<Rightarrow> Inl Indeterminate
                        | Some v \<Rightarrow> Inr (v, TLM_OK_RESPONSE))
      else if addr = 0xc then Inr (if dv_irq s then 1 else 0, TLM_OK_RESPONSE)
      else if addr = 0x10 then Inr (de_clock env, TLM_OK_RESPONSE)
      else if addr = 0xf0 then Inr (0, TLM_ADDRESS_ERROR_RESPONSE)
      else if addr = 0xf4 then Inr (0, TLM_GENERIC_ERROR_RESPONSE)
      else Inr (0, TLM_OK_RESPONSE))"

text \<open>
  A write of addresses 0, 4 and 8 reads a 32-bit word from the buffer, whatever the length of
  the transaction.  The write to 8 ends the program.
\<close>

definition dbg_write :: "u64 \<Rightarrow> u8 list \<Rightarrow> sc_time \<Rightarrow> debugdev \<Rightarrow> (tlm_response \<times> debugdev) res" where
  "dbg_write addr data now s =
     (let ok = (\<lambda>t. Inr (TLM_OK_RESPONSE, t\<lparr>dv_old_ts := now\<rparr>));
          word = (if length data < 4 then Inl Out_of_range else Inr (le_word (take 4 data))) in
      if addr = 0 then res_bind word (\<lambda>v. ok (s\<lparr>dv_out :=
          dv_out s @ [Dbg_trace v now (of_nat now - of_nat (dv_old_ts s))]\<rparr>))
      else if addr = 4 then res_bind word (\<lambda>v. ok (s\<lparr>dv_out := dv_out s @ [Dbg_char v]\<rparr>))
      else if addr = 8 then res_bind word (\<lambda>_. Inl Aborted)
      else if addr = 0xc then
        (case data of [] \<Rightarrow> Inl Out_of_range | b # _ \<Rightarrow> ok (s\<lparr>dv_irq := b AND 1 \<noteq> 0\<rparr>))
      else if addr = 0xf0 then Inr (TLM_ADDRESS_ERROR_RESPONSE, s\<lparr>dv_old_ts := now\<rparr>)
      else if addr = 0xf4 then Inr (TLM_GENERIC_ERROR_RESPONSE, s\<lparr>dv_old_ts := now\<rparr>)
      else ok s)"

definition dbg_b_transport :: "dbg_env \<Rightarrow> debugdev target" where
  "dbg_b_transport env tr d s =
     (case reg_access_error tr of
        Some e \<Rightarrow> Inr (tr\<lparr>gp_resp := e\<rparr>, d, s)
      | None \<Rightarrow>
          (let d' = d + SC_US; now = de_stamp env + d' in
           case gp_cmd tr of
             TLM_READ_COMMAND \<Rightarrow>
               res_bind (dbg_read env (gp_addr tr) now s) (\<lambda>(v, r).
               Inr (tr\<lparr>gp_data := poke (gp_len tr) (le_bytes 4 v) (gp_data tr), gp_resp := r\<rparr>, d', s))
           | TLM_WRITE_COMMAND \<Rightarrow>
               res_bind (dbg_write (gp_addr tr) (gp_data tr) now s) (\<lambda>(r, s').
               Inr (tr\<lparr>gp_resp := r\<rparr>, d', s'))
           | TLM_IGNORE_COMMAND \<Rightarrow> Inr (tr\<lparr>gp_resp := TLM_OK_RESPONSE\<rparr>, d', s)))"

definition dbg_transport_dbg :: "gp \<Rightarrow> debugdev \<Rightarrow> (nat \<times> gp \<times> debugdev) res" where
  "dbg_transport_dbg tr s = Inr (gp_len tr, tr, s)"

section \<open>The contract of a target\<close>

lemma dbg_frame:
  assumes "gp_ok tr" "dbg_b_transport env tr d s = Inr (tr', d', s')"
  shows "gp_frame tr tr' \<and> (gp_cmd tr \<noteq> TLM_READ_COMMAND \<longrightarrow> gp_data tr' = gp_data tr)"
proof (cases "reg_access_error tr")
  case None
  note len = reg_access_error_None [OF None]
  with None assms show ?thesis
    by (auto simp: dbg_b_transport_def Let_def gp_ok_def res_bind_eq_Inr split: tlm_command.splits)
next
  case (Some e)
  with assms show ?thesis by (auto simp: dbg_b_transport_def)
qed

interpretation debug_port: tlm_target "dbg_b_transport env" for env
  by unfold_locales (metis dbg_frame tlm_command.distinct(1))+

section \<open>Responses and the interrupt line\<close>

definition dbg_response :: "u64 \<Rightarrow> tlm_response" where
  "dbg_response addr =
     (if addr = 0xf0 then TLM_ADDRESS_ERROR_RESPONSE
      else if addr = 0xf4 then TLM_GENERIC_ERROR_RESPONSE else TLM_OK_RESPONSE)"

text \<open>The interrupt line after an access, as the software sees it.\<close>

definition irq_after :: "gp \<Rightarrow> bool \<Rightarrow> bool" where
  "irq_after tr line =
     (if reg_access_error tr = None \<and> gp_cmd tr = TLM_WRITE_COMMAND \<and> gp_addr tr = 0xc
      then bit (hd (gp_data tr)) 0 else line)"

lemma dbg_read_response: "dbg_read env a now s = Inr (v, r) \<Longrightarrow> r = dbg_response a"
  by (auto simp: dbg_read_def dbg_response_def split: if_splits option.splits)

lemma and_1_bit: "(b AND 1 \<noteq> 0) = bit (b :: u8) 0"
  by (simp add: and_one_eq bit_0 odd_iff_mod_2_eq_one)

lemma dbg_write_result:
  "dbg_write a data now s = Inr (r, s') \<Longrightarrow>
     r = dbg_response a \<and> dv_irq s' = (if a = 0xc then bit (hd data) 0 else dv_irq s)"
  by (auto simp: dbg_write_def dbg_response_def Let_def res_bind_eq_Inr and_1_bit
      split: if_splits list.splits)

lemma dbg_step:
  assumes "dbg_b_transport env tr d s = Inr (tr', d', s')"
  shows "dv_irq s' = irq_after tr (dv_irq s) \<and>
    (reg_access_error tr = None \<longrightarrow> d' = d + SC_US) \<and>
    gp_resp tr' = (case reg_access_error tr of Some e \<Rightarrow> e
       | None \<Rightarrow> if gp_cmd tr = TLM_IGNORE_COMMAND then TLM_OK_RESPONSE else dbg_response (gp_addr tr))"
  using assms
  by (auto simp: dbg_b_transport_def irq_after_def Let_def res_bind_eq_Inr
      split: option.splits tlm_command.splits dest: dbg_read_response dbg_write_result)



end
