(* ===== verification/Cdx_System.thy ===== *)
theory Cdx_System
  imports Demo_Maps Debug_Dev
begin

text \<open>
  The Versal Net CDX stub of \<open>versal_net_cdx_stub.cc\<close> (and the bus of \<open>zynq_demo.cc\<close>): the counter
  device, the device that stamps a stream id on the accesses of a DMA engine, and the system they
  form with the interconnect.  The DMA engines, the memories and the processor system are modules of
  \<open>libsystemctlm-soc\<close>; as targets they are an argument \<open>ext\<close>.
\<close>

section \<open>Devices\<close>

text \<open>\<open>CounterDev\<close>: an access that passes the checks leaves the response as it was.\<close>

definition counter_b_transport :: "u32 target" where
  "counter_b_transport tr d c =
     (if gp_len tr \<noteq> 4 \<or> gp_byte_en tr \<noteq> None \<or> gp_addr tr \<noteq> 0
      then Inr (tr\<lparr>gp_resp := TLM_GENERIC_ERROR_RESPONSE\<rparr>, d, c)
      else case gp_cmd tr of
        TLM_READ_COMMAND \<Rightarrow>
          if length (gp_data tr) < 4 then Inl Out_of_range
          else Inr (tr\<lparr>gp_data := poke 4 (le_bytes 4 c) (gp_data tr)\<rparr>, d, c + 1)
      | TLM_WRITE_COMMAND \<Rightarrow>
          if length (gp_data tr) < 4 then Inl Out_of_range
          else Inr (tr, d, le_word (take 4 (gp_data tr)))
      | TLM_IGNORE_COMMAND \<Rightarrow> Inr (tr, d, c))"

text \<open>\<open>SMIDdev\<close>; \<open>g0\<close> is the state of a fresh \<open>genattr_extension\<close>.\<close>

definition smid_b_transport :: "genattr \<Rightarrow> u32 \<Rightarrow> 'w target \<Rightarrow> 'w target" where
  "smid_b_transport g0 smid sk tr d w =
     (let g = (case gp_genattr tr of Some g \<Rightarrow> g | None \<Rightarrow> g0) in
      sk (tr\<lparr>gp_genattr := Some (g\<lparr>ga_master_id := smid\<rparr>)\<rparr>) d w)"

lemma counter_frame:
  "gp_ok tr \<Longrightarrow> counter_b_transport tr d c = Inr (tr', d', c') \<Longrightarrow>
     gp_frame tr tr' \<and> (gp_cmd tr \<noteq> TLM_READ_COMMAND \<longrightarrow> gp_data tr' = gp_data tr)"
  by (auto simp: counter_b_transport_def gp_ok_def split: if_splits tlm_command.splits)

interpretation counter_port: tlm_target counter_b_transport
  by unfold_locales (metis counter_frame tlm_command.distinct(1))+

lemma smid_target:
  assumes "tlm_target sk"
  shows "tlm_target (smid_b_transport g0 smid sk)"
proof
  fix tr :: gp and d s tr' d' s'
  let ?tr = "tr\<lparr>gp_genattr := Some ((case gp_genattr tr of Some g \<Rightarrow> g | None \<Rightarrow> g0)\<lparr>ga_master_id := smid\<rparr>)\<rparr>"
  assume a: "gp_ok tr" "smid_b_transport g0 smid sk tr d s = Inr (tr', d', s')"
  then have ok: "gp_ok ?tr" and r: "sk ?tr d s = Inr (tr', d', s')"
    by (simp_all add: gp_ok_def smid_b_transport_def)
  from tlm_target.bt_frame [OF assms ok r] show "gp_frame tr tr'" by (simp add: gp_frame_def)
  from tlm_target.bt_write_data [OF assms ok r]
  show "gp_cmd tr = TLM_WRITE_COMMAND \<Longrightarrow> gp_data tr' = gp_data tr" by simp
qed

lemma counter_reads:
  assumes "\<forall>tr \<in> set trs. gp_cmd tr = TLM_READ_COMMAND \<and> gp_len tr = 4 \<and> gp_addr tr = 0 \<and>
      gp_byte_en tr = None \<and> length (gp_data tr) = 4"
  shows "\<exists>trs'. counter_port.bt_all trs d c = Inr (trs', d, c + of_nat (length trs)) \<and>
     map (\<lambda>tr. le_word (gp_data tr)) trs' = map (\<lambda>i. c + of_nat i) [0..<length trs]"
  using assms
proof (induction trs arbitrary: c)
  case (Cons tr trs)
  have one: "counter_b_transport tr d c = Inr (tr\<lparr>gp_data := le_bytes 4 c\<rparr>, d, c + 1)"
    using Cons.prems by (simp add: counter_b_transport_def poke_def)
  have p: "\<forall>tr \<in> set trs. gp_cmd tr = TLM_READ_COMMAND \<and> gp_len tr = 4 \<and> gp_addr tr = 0 \<and>
      gp_byte_en tr = None \<and> length (gp_data tr) = 4" using Cons.prems by simp
  obtain trs' where r: "counter_port.bt_all trs d (c + 1) = Inr (trs', d, c + 1 + of_nat (length trs))"
    "map (\<lambda>tr. le_word (gp_data tr)) trs' = map (\<lambda>i. c + 1 + of_nat i) [0..<length trs]"
    using Cons.IH [OF p, of "c + 1"] by blast
  have "[0..<Suc n] = 0 # map Suc [0..<n]" for n by (simp add: map_Suc_upt upt_conv_Cons del: upt_Suc)
  then have m: "map (\<lambda>i. c + of_nat i) [0..<Suc (length trs)] = c # map (\<lambda>i. c + 1 + of_nat i) [0..<length trs]"
    by (simp only: list.map map_map) (simp add: add.assoc)
  have "counter_port.bt_all (tr # trs) d c =
      Inr (tr\<lparr>gp_data := le_bytes 4 c\<rparr> # trs', d, c + of_nat (length (tr # trs)))"
    using r(1) one by (simp add: add.assoc)
  moreover have "map (\<lambda>tr. le_word (gp_data tr)) (tr\<lparr>gp_data := le_bytes 4 c\<rparr> # trs') =
      map (\<lambda>i. c + of_nat i) [0..<length (tr # trs)]"
    using r(2) m by simp
  ultimately show ?case by blast
qed simp

text \<open>
  After a write of \<open>v\<close> the reads of the counter return \<open>v\<close>, \<open>v + 1\<close> and so on, modulo
  \<open>2 ^ 32\<close>, one step per read.
\<close>

theorem counter_counts:
  assumes "\<forall>tr \<in> set trs. gp_cmd tr = TLM_READ_COMMAND \<and> gp_len tr = 4 \<and> gp_addr tr = 0 \<and>
      gp_byte_en tr = None \<and> length (gp_data tr) = 4"
  shows "\<exists>w' trs'. counter_port.bt_all (mk_gp TLM_WRITE_COMMAND 0 (le_bytes 4 v) 4 # trs) d c =
      Inr (w' # trs', d, v + of_nat (length trs)) \<and>
     map (\<lambda>tr. le_word (gp_data tr)) trs' = map (\<lambda>i. v + of_nat i) [0..<length trs]"
proof -
  have "counter_b_transport (mk_gp TLM_WRITE_COMMAND 0 (le_bytes 4 v) 4) d c =
      Inr (mk_gp TLM_WRITE_COMMAND 0 (le_bytes 4 v) 4, d, v)"
    by (simp add: counter_b_transport_def)
  moreover obtain trs' where "counter_port.bt_all trs d v = Inr (trs', d, v + of_nat (length trs))"
    "map (\<lambda>tr. le_word (gp_data tr)) trs' = map (\<lambda>i. v + of_nat i) [0..<length trs]"
    using counter_reads [OF assms, of d v] by blast
  ultimately show ?thesis by simp
qed

theorem counter_counts_witness:
  "\<exists>w' trs'. counter_port.bt_all [mk_gp TLM_WRITE_COMMAND 0 (le_bytes 4 (0xffffffff :: u32)) 4,
      mk_gp TLM_READ_COMMAND 0 [0, 0, 0, 0] 4, mk_gp TLM_READ_COMMAND 0 [0, 0, 0, 0] 4] 0 5 =
      Inr (w' # trs', 0, 1) \<and> map (\<lambda>tr. le_word (gp_data tr)) trs' = [0xffffffff :: u32, 0]"
proof -
  let ?trs = "[mk_gp TLM_READ_COMMAND 0 [0, 0, 0, 0] 4, mk_gp TLM_READ_COMMAND 0 [0, 0, 0, 0] 4]"
  have "\<forall>tr \<in> set ?trs. gp_cmd tr = TLM_READ_COMMAND \<and> gp_len tr = 4 \<and> gp_addr tr = 0 \<and>
      gp_byte_en tr = None \<and> length (gp_data tr) = 4" by simp
  from counter_counts [OF this, where v = "0xffffffff" and d = "0" and c = "5"]
  have "\<exists>w' trs'. counter_port.bt_all (mk_gp TLM_WRITE_COMMAND 0 (le_bytes 4 (0xffffffff :: u32)) 4 # ?trs) 0 5 =
      Inr (w' # trs', 0, 4294967297) \<and> map (\<lambda>tr. le_word (gp_data tr)) trs' = [0xffffffff :: u32, 4294967296]"
    by (simp add: numeral_2_eq_2 del: counter_port.bt_all.simps)
  moreover have "(4294967297 :: u32) = 1" "(4294967296 :: u32) = 0" by simp_all
  ultimately show ?thesis by (simp only:)
qed

section \<open>The system\<close>

text \<open>The states of the two devices modelled here, and of everything else.\<close>

record 'w cdx_system =
  cx_debug :: debugdev
  cx_counter :: u32
  cx_rest :: 'w

text \<open>A target that is a part of a bigger system.\<close>

definition on_part :: "'a target \<Rightarrow> ('s \<Rightarrow> 'a) \<Rightarrow> ('a \<Rightarrow> 's \<Rightarrow> 's) \<Rightarrow> 's target" where
  "on_part bt get put tr d s =
     res_bind (bt tr d (get s)) (\<lambda>(tr', d', x). Inr (tr', d', put x s))"

lemma on_part_target: "tlm_target bt \<Longrightarrow> tlm_target (on_part bt get put)"
  unfolding tlm_target_def by (auto simp: on_part_def res_bind_eq_Inr)

definition cdx_deliver :: "dbg_env \<Rightarrow> (demo_target \<Rightarrow> 'w target) \<Rightarrow> demo_target \<Rightarrow> 'w cdx_system target" where
  "cdx_deliver env ext t =
     (case t of
        T_debug \<Rightarrow> on_part (dbg_b_transport env) cx_debug (\<lambda>x s. s\<lparr>cx_debug := x\<rparr>)
      | T_counter \<Rightarrow> on_part counter_b_transport cx_counter (\<lambda>x s. s\<lparr>cx_counter := x\<rparr>)
      | _ \<Rightarrow> on_part (ext t) cx_rest (\<lambda>x s. s\<lparr>cx_rest := x\<rparr>))"

text \<open>The bus of \<open>Top\<close>, and an access of a DMA engine, which goes through its \<open>SMIDdev\<close>.\<close>

definition cdx_bus :: "memmap_entry list \<Rightarrow> u64 list \<Rightarrow> demo_target iconnect res" where
  "cdx_bus raw_map raw_offset = demo_bus 7 raw_map raw_offset cdx_map"

definition cdma_access ::
  "genattr \<Rightarrow> dbg_env \<Rightarrow> (demo_target \<Rightarrow> 'w target) \<Rightarrow> demo_target iconnect \<Rightarrow> nat \<Rightarrow> 'w cdx_system target" where
  "cdma_access g0 env ext bus k =
     smid_b_transport g0 (if k = 0 then 0x250 else 0x251) (ic_b_transport (cdx_deliver env ext) bus (1 + k))"

text \<open>
  The bus of \<open>zynq_demo.cc\<close> has one target, a debug device; with targets that keep the contract of
  the other modules the bus of the CDX stub keeps it too.
\<close>

interpretation zynq_bus: bus_targets "\<lambda>_ :: demo_target. dbg_b_transport env" for env
  by unfold_locales

lemma cdx_deliver_targets:
  assumes "\<And>t. tlm_target (ext t)"
  shows "bus_targets (cdx_deliver env ext)"
proof (rule bus_targets.intro)
  show "tlm_target (cdx_deliver env ext t)" for t
    by (cases t) (simp_all add: cdx_deliver_def on_part_target assms debug_port.tlm_target_axioms counter_port.tlm_target_axioms)
qed

lemma cdma_access_target:
  assumes "\<And>t. tlm_target (ext t)" "1 + k < length (ic_offset bus)" "ic_offset bus ! (1 + k) = 0"
  shows "tlm_target (cdma_access g0 env ext bus k)"
  unfolding cdma_access_def
  by (intro smid_target bus_targets.bus_is_target [OF cdx_deliver_targets [OF assms(1)]] assms(2,3))

text \<open>
  Property C23: provided that the offset of its initiator port is 0, which the constructor does not ensure, an access of DMA engine \<open>k\<close>
  of the CDX stub to an address of a device arrives there at its offset in the device, with the
  stream id \<open>0x250 + k\<close> and any other attribute it carried, and the engine gets the device's
  answer with the address it sent.
\<close>

theorem cdma_access_arrives:
  assumes "length raw_map = 28" "length raw_offset = 3" "k < 2" "raw_offset ! (1 + k) = 0"
    and "(base, sz, t) \<in> set cdx_map" "t \<noteq> T_ps" "off \<le> sz" "gp_addr tr = base + off"
  shows "\<exists>bus. cdx_bus raw_map raw_offset = Inr bus \<and>
     cdma_access g0 env ext bus k tr d s =
       res_bind (cdx_deliver env ext t
           (tr\<lparr>gp_genattr := Some ((case gp_genattr tr of Some g \<Rightarrow> g | None \<Rightarrow> g0)\<lparr>ga_master_id := 0x250 + of_nat k\<rparr>),
               gp_addr := off\<rparr>) d s)
         (\<lambda>(tr', d', s'). Inr (tr'\<lparr>gp_addr := base + off\<rparr>, d', s'))"
proof -
  have m: "(7, cdx_map) \<in> set demo_maps" by (simp add: demo_maps_def)
  have c: "length cdx_map \<le> 7" "\<forall>(base, sz, t) \<in> set cdx_map. sz \<noteq> 0" "rows_apart (map_devices cdx_map)"
    "take (length (map_devices cdx_map)) cdx_map = map_devices cdx_map"
    using demo_maps_checked m by (auto simp: list_all_iff)
  have "(base, sz, t) \<in> set (map_devices cdx_map)" using assms(5,6) by (simp add: map_devices_def)
  from rows_decode_apart [OF c(3) this assms(7), of "drop (length (map_devices cdx_map)) cdx_map"]
  have d: "rows_decode cdx_map (base + off) = Some (t, off)"
    using c(4) append_take_drop_id [of "length (map_devices cdx_map)" cdx_map] by simp
  have z: "(raw_offset[0 := 0]) ! (1 + k) = 0" using assms(4) by simp
  have "length raw_map = 4 * 7" "(7 :: nat) < 2 ^ 31" "1 + k < length raw_offset" using assms(1-3) by simp_all
  from demo_bus_routes [OF this c(1,2), of "base + off" t off] d z
  obtain bus nr where b: "cdx_bus raw_map raw_offset = Inr bus" "route bus (1 + k) (base + off) = Inr (nr, t, off, base + off)"
    by (auto simp: cdx_bus_def)
  have "(if k = 0 then 0x250 else 0x251) = (0x250 + of_nat k :: u32)" using assms(3) by (cases k) auto
  with b assms(8) show ?thesis
    by (intro exI [of _ bus]) (simp add: cdma_access_def smid_b_transport_def ic_b_transport_def Let_def)
qed

theorem cdma_access_arrives_witness:
  "\<exists>bus tr' s'. cdx_bus (replicate 28 \<lparr>me_addr = 0, me_size = 5, me_mode = ADDRMODE_ABSOLUTE, me_sk = 3\<rparr>) [9, 0, 0] = Inr bus \<and>
     cdma_access \<lparr>ga_master_id = 0, ga_eop = False\<rparr> \<lparr>de_stamp = 0, de_clock = 0, de_nanoseconds = (\<lambda>_. None)\<rparr>
       (\<lambda>_ tr d w. Inr (tr, d, w)) bus 1 (mk_gp TLM_READ_COMMAND 0xe4040000 [0, 0, 0, 0] 4) 0
       \<lparr>cx_debug = debugdev_new, cx_counter = 0x01020304, cx_rest = (0 :: nat)\<rparr> = Inr (tr', 0, s') \<and>
     gp_data tr' = [4, 3, 2, 1] \<and> cx_counter s' = 0x01020305 \<and> gp_addr tr' = 0xe4040000 \<and>
     map_option ga_master_id (gp_genattr tr') = Some 0x251"
proof -
  let ?raw = "replicate 28 \<lparr>me_addr = 0, me_size = 5, me_mode = ADDRMODE_ABSOLUTE, me_sk = 3\<rparr>"
  let ?tr = "mk_gp TLM_READ_COMMAND 0xe4040000 [0, 0, 0, 0] 4"
  have h: "length ?raw = 28" "length [9, 0, 0 :: u64] = 3" "(1 :: nat) < 2" "[9, 0, 0 :: u64] ! (1 + 1) = 0"
    "(0xe4040000, 0x100 - 1, T_counter) \<in> set cdx_map" "T_counter \<noteq> T_ps" "(0 :: u64) \<le> 0x100 - 1"
    "gp_addr ?tr = 0xe4040000 + 0"
    by (simp_all add: cdx_map_def)
  from cdma_access_arrives [OF h, of "\<lparr>ga_master_id = 0, ga_eop = False\<rparr>"
      "\<lparr>de_stamp = 0, de_clock = 0, de_nanoseconds = (\<lambda>_. None)\<rparr>" "\<lambda>_ tr d w. Inr (tr, d, w)" 0
      "\<lparr>cx_debug = debugdev_new, cx_counter = 0x01020304, cx_rest = (0 :: nat)\<rparr>"]
  show ?thesis
    by (auto simp: cdx_deliver_def on_part_def counter_b_transport_def poke_def bytes_simps)
qed

end
