(* ===== verification/Bedrock.thy ===== *)
theory Bedrock
  imports Cdx_System Catapult_Device
begin

text \<open>
  The Bedrock demo of \<open>bedrock_cdx.cc\<close>: the Catapult device on a bus with the processor system,
  its DMA requests stamped with a stream id on their way to the same bus, and the command line
  of the program.
\<close>

section \<open>The system\<close>

record ('r, 'w) bedrock =
  bk_device :: "'r cat_state"
  bk_rest :: 'w

definition bedrock_deliver :: "'r role_ops \<Rightarrow> 'w target \<Rightarrow> demo_target \<Rightarrow> ('r, 'w) bedrock target" where
  "bedrock_deliver ops ps t =
     (if t = T_catapult then on_part (cat_b_transport ops) bk_device (\<lambda>x s. s\<lparr>bk_device := x\<rparr>)
      else on_part ps bk_rest (\<lambda>x s. s\<lparr>bk_rest := x\<rparr>))"

definition bedrock_bus :: "memmap_entry list \<Rightarrow> u64 list \<Rightarrow> demo_target iconnect res" where
  "bedrock_bus raw_map raw_offset = demo_bus 2 raw_map raw_offset bedrock_map"

text \<open>An access of the host, and the socket behind the initiator socket of the device.\<close>

definition bedrock_host_access ::
  "'r role_ops \<Rightarrow> 'w target \<Rightarrow> demo_target iconnect \<Rightarrow> ('r, 'w) bedrock target" where
  "bedrock_host_access ops ps bus = ic_b_transport (bedrock_deliver ops ps) bus 0"

definition bedrock_dma_socket ::
  "genattr \<Rightarrow> 'r role_ops \<Rightarrow> 'w target \<Rightarrow> demo_target iconnect \<Rightarrow> ('r, 'w) bedrock target" where
  "bedrock_dma_socket g0 ops ps bus =
     smid_b_transport g0 0x250 (ic_b_transport (bedrock_deliver ops ps) bus 1)"

lemma bedrock_targets:
  assumes "tlm_target ps"
  shows "bus_targets (bedrock_deliver ops ps)"
  by (rule bus_targets.intro)
    (simp add: bedrock_deliver_def on_part_target assms catapult.tlm_target_axioms)

lemma bedrock_route:
  assumes "length raw_map = 8" "ini < length raw_offset" "(raw_offset[0 := 0]) ! ini = 0"
    and "rows_decode bedrock_map a = Some (t, off)"
  shows "\<exists>bus nr. bedrock_bus raw_map raw_offset = Inr bus \<and> route bus ini a = Inr (nr, t, off, a)"
proof -
  have m: "length bedrock_map \<le> 2" "\<forall>(base, sz, t) \<in> set bedrock_map. sz \<noteq> 0" by (simp_all add: bedrock_map_def)
  from demo_bus_routes [OF _ _ assms(2) m, of raw_map a t off] assms(1,3,4) show ?thesis
    by (auto simp: bedrock_bus_def)
qed

lemma all_addresses: "(a :: u64) \<le> 0xffffffffffffffff"
  using unsigned_less [of a, where ?'a = nat] by (simp add: word_le_nat_alt)

lemma bedrock_decode:
  "off \<le> 0xffffff \<Longrightarrow> rows_decode bedrock_map (0xe4000000 + off) = Some (T_catapult, off)"
  "\<not> (0xe4000000 \<le> a \<and> a \<le> 0xe4ffffff) \<Longrightarrow> rows_decode bedrock_map a = Some (T_ps, a)"
  using row_offset_bound [of off "0xffffff" "0xe4000000"]
  by (auto simp: bedrock_map_def all_addresses)

text \<open>
  An access of the host to the 16 MB at \<open>0xe4000000\<close> is an access of the Catapult
  device at the offset, answered with the address the host sent; and, provided that the second
  initiator port of the bus starts with offset 0, which the constructor does not ensure, a DMA
  request of the device for an address outside that window reads the processor system at that
  address, with stream id \<open>0x250\<close>, and the request for one inside comes back to the device's
  own registers.
\<close>

theorem bedrock_paths:
  assumes "length raw_map = 8" "length raw_offset = 2" "raw_offset ! 1 = 0"
  shows "\<exists>bus. bedrock_bus raw_map raw_offset = Inr bus \<and>
    (gp_addr tr = 0xe4000000 + off \<and> off \<le> 0xffffff \<longrightarrow>
      bedrock_host_access ops ps bus tr d s =
        res_bind (cat_b_transport ops (tr\<lparr>gp_addr := off\<rparr>) d (bk_device s)) (\<lambda>(tr', d', x).
          Inr (tr'\<lparr>gp_addr := 0xe4000000 + off\<rparr>, d', s\<lparr>bk_device := x\<rparr>))) \<and>
    (\<not> (0xe4000000 \<le> a \<and> a \<le> 0xe4ffffff) \<longrightarrow>
      dma_read_from_host (bedrock_dma_socket g0 ops ps bus) a buf n s =
        res_bind (ps ((mk_gp TLM_READ_COMMAND a buf (unat (ucast n :: u32)))\<lparr>gp_genattr := Some (g0\<lparr>ga_master_id := 0x250\<rparr>)\<rparr>) 0 (bk_rest s))
          (\<lambda>(tr', _, x). Inr (gp_data tr', s\<lparr>bk_rest := x\<rparr>))) \<and>
    (off \<le> 0xffffff \<longrightarrow>
      dma_read_from_host (bedrock_dma_socket g0 ops ps bus) (0xe4000000 + off) buf n s =
        res_bind (cat_b_transport ops ((mk_gp TLM_READ_COMMAND off buf (unat (ucast n :: u32)))\<lparr>gp_genattr := Some (g0\<lparr>ga_master_id := 0x250\<rparr>)\<rparr>)
            0 (bk_device s))
          (\<lambda>(tr', _, x). Inr (gp_data tr', s\<lparr>bk_device := x\<rparr>)))"
proof -
  obtain bus where bus: "bedrock_bus raw_map raw_offset = Inr bus"
    using bedrock_route [OF assms(1) _ _ bedrock_decode(1) [of 0], of 0 raw_offset] assms(2) by (cases raw_offset) auto
  have port: "0 < length raw_offset" "(raw_offset[0 := 0]) ! 0 = 0" "1 < length raw_offset" "(raw_offset[0 := 0]) ! 1 = 0"
    using assms(2,3) by (cases raw_offset; simp)+
  have r0: "off \<le> 0xffffff \<Longrightarrow> \<exists>nr. route bus 0 (0xe4000000 + off) = Inr (nr, T_catapult, off, 0xe4000000 + off)" for off
    using bedrock_route [OF assms(1) port(1,2) bedrock_decode(1)] bus by auto
  have r1: "off \<le> 0xffffff \<Longrightarrow> \<exists>nr. route bus 1 (0xe4000000 + off) = Inr (nr, T_catapult, off, 0xe4000000 + off)" for off
    using bedrock_route [OF assms(1) port(3,4) bedrock_decode(1)] bus by auto
  have r2: "\<not> (0xe4000000 \<le> a \<and> a \<le> 0xe4ffffff) \<Longrightarrow> \<exists>nr. route bus 1 a = Inr (nr, T_ps, a, a)" for a
    using bedrock_route [OF assms(1) port(3,4) bedrock_decode(2)] bus by auto
  note defs = bedrock_host_access_def bedrock_dma_socket_def smid_b_transport_def ic_b_transport_def bedrock_deliver_def
    on_part_def dma_read_from_host_def Let_def res_bind_def mk_gp_def
  show ?thesis
  proof (intro exI [of _ bus] conjI impI)
    show "bedrock_bus raw_map raw_offset = Inr bus" by (rule bus)
    show "bedrock_host_access ops ps bus tr d s =
        res_bind (cat_b_transport ops (tr\<lparr>gp_addr := off\<rparr>) d (bk_device s)) (\<lambda>(tr', d', x).
          Inr (tr'\<lparr>gp_addr := 0xe4000000 + off\<rparr>, d', s\<lparr>bk_device := x\<rparr>))"
      if "gp_addr tr = 0xe4000000 + off \<and> off \<le> 0xffffff"
      using r0 [of off] that by (auto simp: defs split: sum.splits)
    show "dma_read_from_host (bedrock_dma_socket g0 ops ps bus) a buf n s =
        res_bind (ps ((mk_gp TLM_READ_COMMAND a buf (unat (ucast n :: u32)))\<lparr>gp_genattr := Some (g0\<lparr>ga_master_id := 0x250\<rparr>)\<rparr>) 0 (bk_rest s))
          (\<lambda>(tr', _, x). Inr (gp_data tr', s\<lparr>bk_rest := x\<rparr>))"
      if "\<not> (0xe4000000 \<le> a \<and> a \<le> 0xe4ffffff)"
      using r2 [OF that] by (auto simp: defs split: sum.splits)
    show "dma_read_from_host (bedrock_dma_socket g0 ops ps bus) (0xe4000000 + off) buf n s =
        res_bind (cat_b_transport ops ((mk_gp TLM_READ_COMMAND off buf (unat (ucast n :: u32)))\<lparr>gp_genattr := Some (g0\<lparr>ga_master_id := 0x250\<rparr>)\<rparr>)
            0 (bk_device s))
          (\<lambda>(tr', _, x). Inr (gp_data tr', s\<lparr>bk_device := x\<rparr>))"
      if "off \<le> 0xffffff"
      using r1 [OF that] by (auto simp: defs split: sum.splits)
  qed
qed

definition ex_bedrock_ps :: "(u64 \<times> u32 option) list target" where
  "ex_bedrock_ps tr d w = Inr (tr\<lparr>gp_data := [7, 7]\<rparr>, d, w @ [(gp_addr tr, map_option ga_master_id (gp_genattr tr))])"

definition ex_bedrock_ops :: "unit role_ops" where
  "ex_bedrock_ops = \<lparr>ro_reset = (\<lambda>r. r), ro_read = (\<lambda>a v r. Inr (True, v, r)), ro_write = (\<lambda>a v r. Inr (True, r))\<rparr>"

theorem bedrock_paths_witness:
  "\<exists>bus. bedrock_bus (replicate 8 \<lparr>me_addr = 0, me_size = 5, me_mode = ADDRMODE_ABSOLUTE, me_sk = 3\<rparr>) [9, 0] = Inr bus \<and>
     dma_read_from_host (bedrock_dma_socket \<lparr>ga_master_id = 0, ga_eop = False\<rparr> ex_bedrock_ops ex_bedrock_ps bus) 0x1000 [0, 0] 2
       \<lparr>bk_device = (\<lparr>cd_shell = [], cd_adapter = \<lparr>wa_addr = -1, wa_data = 0\<rparr>, cd_role = None\<rparr>,
          \<lparr>env_usec = 0, env_build_info = 0\<rparr>), bk_rest = []\<rparr> =
     Inr ([7, 7], \<lparr>bk_device = (\<lparr>cd_shell = [], cd_adapter = \<lparr>wa_addr = -1, wa_data = 0\<rparr>, cd_role = None\<rparr>,
          \<lparr>env_usec = 0, env_build_info = 0\<rparr>), bk_rest = [(0x1000, Some 0x250)]\<rparr>)"
proof -
  let ?raw = "replicate 8 \<lparr>me_addr = 0, me_size = 5, me_mode = ADDRMODE_ABSOLUTE, me_sk = 3\<rparr>"
  let ?s = "\<lparr>bk_device = (\<lparr>cd_shell = [], cd_adapter = \<lparr>wa_addr = -1, wa_data = 0\<rparr>, cd_role = None\<rparr>,
          \<lparr>env_usec = 0, env_build_info = 0\<rparr>), bk_rest = []\<rparr>"
  have h: "length ?raw = 8" "length [9, 0 :: u64] = 2" "[9, 0 :: u64] ! 1 = 0" by simp_all
  have a: "\<not> ((0xe4000000 :: u64) \<le> 0x1000 \<and> (0x1000 :: u64) \<le> 0xe4ffffff)" by simp
  show ?thesis
  proof (rule ex_forward [OF bedrock_paths [OF h, where a = "0x1000" and n = 2 and buf = "[0, 0]" and s = ?s and tr = "mk_gp TLM_READ_COMMAND 0 [] 0" and d = 0 and off = 0 and
        ops = ex_bedrock_ops and ps = ex_bedrock_ps and ?g0.0 = "\<lparr>ga_master_id = 0, ga_eop = False\<rparr>"]], elim conjE, goal_cases)
    case (1 bus)
    from 1(3) [rule_format, OF a] 1(1) show ?case by (simp add: ex_bedrock_ps_def)
  qed
qed

section \<open>The command line\<close>

record catapult_options =
  enable_slots_dma :: bool
  dump_regs :: bool

text \<open>What is printed while the arguments are read, the usage text as one item.\<close>

datatype cli_message = Usage | Dup_socket_path | Dup_quantum | Unrecognized string | Disabling_slots | Dumping_registers
  | No_socket_path

text \<open>
  The two ways out of \<open>sc_main\<close>: a return before the system is built, and the system built with the
  descriptor, the quantum in nanoseconds and the options, then either simulated or, after a
  picosecond, given up with the usage and a failure.
\<close>

datatype cli_end = Return_minus_1 | Simulate string u64 catapult_options | Built_then_exit string u64 catapult_options

record cli_state =
  cl_positional :: nat
  cl_socket_path :: "string option"
  cl_quantum :: "string option"
  cl_opts :: catapult_options
  cl_out :: "cli_message list"

definition cli_start :: cli_state where
  "cli_start = \<lparr>cl_positional = 1, cl_socket_path = None, cl_quantum = None,
     cl_opts = \<lparr>enable_slots_dma = True, dump_regs = False\<rparr>, cl_out = []\<rparr>"

text \<open>The character \<open>i\<close> of a C string, the terminating 0 included; \<open>strcasecmp (x, y) == 0\<close>.\<close>

definition c_char :: "string \<Rightarrow> nat \<Rightarrow> char" where
  "c_char x i = (if i < length x then x ! i else CHR 0x00)"

definition to_lower :: "char \<Rightarrow> char" where
  "to_lower c = (let n = of_char c :: nat in if 65 \<le> n \<and> n \<le> 90 then char_of (n + 32) else c)"

definition strcaseeq :: "string \<Rightarrow> string \<Rightarrow> bool" where
  "strcaseeq x y \<longleftrightarrow> map to_lower x = map to_lower y"

text \<open>The body of the loop: the state to go on with, or the output of the early return.\<close>

definition cli_arg :: "string \<Rightarrow> cli_state \<Rightarrow> cli_message list + cli_state" where
  "cli_arg a s =
     (if a = ''--help'' \<or> a = ''-h'' \<or> a = ''-?'' then Inl (cl_out s @ [Usage])
      else if c_char a 0 \<noteq> CHR ''-'' then
        (if cl_positional s = 1 then
           (if cl_socket_path s \<noteq> None then Inl (cl_out s @ [Dup_socket_path, Usage])
            else Inr (s\<lparr>cl_socket_path := Some a, cl_positional := cl_positional s + 1\<rparr>))
         else if cl_positional s = 2 then
           (if cl_quantum s \<noteq> None then Inl (cl_out s @ [Dup_quantum, Usage])
            else Inr (s\<lparr>cl_quantum := Some a, cl_positional := cl_positional s + 1\<rparr>))
         else Inl (cl_out s @ [Unrecognized a, Usage]))
      else if c_char a 1 = CHR ''1'' \<and> c_char a 2 = CHR 0x00 then Inr s
      else
        (let b = drop (if c_char a 1 = CHR ''-'' then 2 else 1) a;
             s1 = (if strcaseeq ''noslots'' b
                   then s\<lparr>cl_opts := (cl_opts s)\<lparr>enable_slots_dma := False\<rparr>, cl_out := cl_out s @ [Disabling_slots]\<rparr> else s);
             s2 = (if strcaseeq ''printregs'' b
                   then s1\<lparr>cl_opts := (cl_opts s1)\<lparr>dump_regs := True\<rparr>, cl_out := cl_out s1 @ [Dumping_registers]\<rparr> else s1)
         in Inr s2))"

primrec cli_args :: "string list \<Rightarrow> cli_state \<Rightarrow> cli_message list + cli_state" where
  "cli_args [] s = Inr s"
| "cli_args (a # as) s = (case cli_arg a s of Inl out \<Rightarrow> Inl out | Inr s' \<Rightarrow> cli_args as s')"

text \<open>
  \<open>strtoull (x, NULL, 10)\<close>: white space, a sign, digits; the largest number when the value does not
  fit, 0 when there is no digit.
\<close>

definition strtoull10 :: "string \<Rightarrow> u64" where
  "strtoull10 x =
     (let y = dropWhile (\<lambda>c. of_char c = (32 :: nat) \<or> 9 \<le> (of_char c :: nat) \<and> of_char c \<le> (13 :: nat)) x;
          z = (case y of c # cs \<Rightarrow> if c = CHR ''-'' \<or> c = CHR ''+'' then cs else y | [] \<Rightarrow> []);
          ds = takeWhile (\<lambda>c. 48 \<le> (of_char c :: nat) \<and> of_char c \<le> (57 :: nat)) z;
          n = foldl (\<lambda>n c. 10 * n + (of_char c - 48)) (0 :: nat) ds in
      if 2 ^ 64 \<le> n then -1 else if c_char y 0 = CHR ''-'' then - of_nat n else of_nat n)"

text \<open>
  \<open>argv\<close> starts with the name of the program; the descriptor the system is built with is
  \<open>argv[1]\<close>.
\<close>

definition bedrock_main :: "string list \<Rightarrow> cli_message list \<times> cli_end" where
  "bedrock_main argv =
     (case cli_args (drop 1 argv) cli_start of
        Inl out \<Rightarrow> (out, Return_minus_1)
      | Inr s \<Rightarrow>
          (case cl_socket_path s of
             None \<Rightarrow> (cl_out s @ [No_socket_path, Usage], Return_minus_1)
           | Some _ \<Rightarrow>
               (let q = (case cl_quantum s of None \<Rightarrow> 10000 | Some x \<Rightarrow> strtoull10 x) in
                if length argv < 3 then (cl_out s @ [Usage], Built_then_exit (argv ! 1) q (cl_opts s))
                else (cl_out s, Simulate (argv ! 1) q (cl_opts s)))))"

text \<open>What the arguments mean: the help options, the positional arguments, an option by its name.\<close>

definition is_help :: "string \<Rightarrow> bool" where
  "is_help a \<longleftrightarrow> a = ''--help'' \<or> a = ''-h'' \<or> a = ''-?''"

definition positional_args :: "string list \<Rightarrow> string list" where
  "positional_args = filter (\<lambda>a. c_char a 0 \<noteq> CHR ''-'')"

definition names_option :: "string \<Rightarrow> string \<Rightarrow> bool" where
  "names_option n a \<longleftrightarrow> c_char a 0 = CHR ''-'' \<and> strcaseeq n (drop (if c_char a 1 = CHR ''-'' then 2 else 1) a)"

definition cli_holds :: "string list \<Rightarrow> cli_state \<Rightarrow> bool" where
  "cli_holds qs s \<longleftrightarrow> length qs \<le> 2 \<and> cl_positional s = 1 + length qs \<and>
     cl_socket_path s = (if qs = [] then None else Some (qs ! 0)) \<and>
     cl_quantum s = (if length qs < 2 then None else Some (qs ! 1)) \<and> Usage \<notin> set (cl_out s)"

lemma ignored_names_nothing:
  assumes "c_char a 1 = CHR ''1''" "c_char a 2 = CHR 0x00" "n = ''noslots'' \<or> n = ''printregs''"
  shows "\<not> names_option n a"
proof
  assume "names_option n a"
  then have "strcaseeq n (drop 1 a)" using assms(1) by (simp add: names_option_def)
  then have l: "map to_lower n = map to_lower (drop 1 a)" by (simp add: strcaseeq_def)
  have "to_lower (CHR ''1'') = CHR ''1''" by (simp add: to_lower_def)
  moreover have "drop 1 a \<noteq> []" using l assms(3) by auto
  then have "1 < length a" by simp
  then have "hd (drop 1 a) = CHR ''1''" using assms(1) by (simp add: hd_drop_conv_nth c_char_def)
  ultimately have "hd (map to_lower n) = CHR ''1''" using l \<open>drop 1 a \<noteq> []\<close> by (metis hd_map)
  then show False using assms(3) by (auto simp: to_lower_def)
qed

lemma cli_arg_result:
  assumes "cli_holds qs s"
  shows "if is_help a \<or> 2 < length (qs @ positional_args [a])
    then \<exists>out. cli_arg a s = Inl out \<and> Usage \<in> set out
    else \<exists>s'. cli_arg a s = Inr s' \<and> cli_holds (qs @ positional_args [a]) s' \<and>
      cl_opts s' = \<lparr>enable_slots_dma = enable_slots_dma (cl_opts s) \<and> \<not> names_option ''noslots'' a,
                    dump_regs = dump_regs (cl_opts s) \<or> names_option ''printregs'' a\<rparr>"
proof (cases "is_help a \<or> c_char a 0 \<noteq> CHR ''-'' \<or> c_char a 1 = CHR ''1'' \<and> c_char a 2 = CHR 0x00")
  case True
  consider "is_help a" | "\<not> is_help a" "c_char a 0 \<noteq> CHR ''-''"
    | "\<not> is_help a" "c_char a 0 = CHR ''-''" "c_char a 1 = CHR ''1''" "c_char a 2 = CHR 0x00" using True by blast
  then show ?thesis
  proof cases
    case 1
    then show ?thesis by (auto simp: cli_arg_def is_help_def)
  next
    case 2
    have "length qs \<le> 2" using assms by (simp add: cli_holds_def)
    then consider "qs = []" | x where "qs = [x]" | x y where "qs = [x, y]" by (cases qs; cases "tl qs") auto
    then show ?thesis
      by cases (use 2 assms in \<open>cases s; cases "cl_opts s";
        auto simp: cli_arg_def is_help_def cli_holds_def positional_args_def names_option_def\<close>)+
  next
    case 3
    then show ?thesis
      using assms ignored_names_nothing [OF 3(3,4)] by (cases s; cases "cl_opts s")
        (auto simp: cli_arg_def is_help_def cli_holds_def positional_args_def)
  qed
next
  case False
  then show ?thesis
    using assms by (cases s; cases "cl_opts s")
      (auto simp: cli_arg_def is_help_def cli_holds_def positional_args_def names_option_def Let_def)
qed

lemma cli_args_result:
  assumes "cli_holds qs s"
  shows "if (\<exists>a \<in> set as. is_help a) \<or> 2 < length (qs @ positional_args as)
    then \<exists>out. cli_args as s = Inl out \<and> Usage \<in> set out
    else \<exists>s'. cli_args as s = Inr s' \<and> cli_holds (qs @ positional_args as) s' \<and>
      cl_opts s' = \<lparr>enable_slots_dma = enable_slots_dma (cl_opts s) \<and> (\<forall>a \<in> set as. \<not> names_option ''noslots'' a),
                    dump_regs = dump_regs (cl_opts s) \<or> (\<exists>a \<in> set as. names_option ''printregs'' a)\<rparr>"
  using assms
proof (induction as arbitrary: qs s)
  case Nil
  then show ?case by (simp add: positional_args_def cli_holds_def)
next
  case (Cons a as)
  have p: "positional_args (a # as) = positional_args [a] @ positional_args as" by (simp add: positional_args_def)
  show ?case
  proof (cases "is_help a \<or> 2 < length (qs @ positional_args [a])")
    case True
    then obtain out where "cli_arg a s = Inl out" "Usage \<in> set out" using cli_arg_result [OF Cons.prems, of a] by auto
    moreover have "(\<exists>x \<in> set (a # as). is_help x) \<or> 2 < length (qs @ positional_args (a # as))" using True p by auto
    ultimately show ?thesis by simp
  next
    case False
    then obtain s1 where s1: "cli_arg a s = Inr s1" "cli_holds (qs @ positional_args [a]) s1"
      "cl_opts s1 = \<lparr>enable_slots_dma = enable_slots_dma (cl_opts s) \<and> \<not> names_option ''noslots'' a,
                    dump_regs = dump_regs (cl_opts s) \<or> names_option ''printregs'' a\<rparr>"
      using cli_arg_result [OF Cons.prems, of a] by auto
    let ?stop = "(\<exists>x \<in> set as. is_help x) \<or> 2 < length ((qs @ positional_args [a]) @ positional_args as)"
    have stop: "(\<exists>x \<in> set (a # as). is_help x) \<or> 2 < length (qs @ positional_args (a # as)) \<longleftrightarrow> ?stop"
      using False by (auto simp: p)
    show ?thesis
    proof (cases ?stop)
      case True
      with Cons.IH [OF s1(2)] have "\<exists>out. cli_args as s1 = Inl out \<and> Usage \<in> set out" by simp
      then show ?thesis unfolding if_P [OF True [folded stop]] by (simp add: s1(1))
    next
      case ns: False
      with Cons.IH [OF s1(2)] obtain s' where "cli_args as s1 = Inr s'" "cli_holds ((qs @ positional_args [a]) @ positional_args as) s'"
        "cl_opts s' = \<lparr>enable_slots_dma = enable_slots_dma (cl_opts s1) \<and> (\<forall>a \<in> set as. \<not> names_option ''noslots'' a),
                    dump_regs = dump_regs (cl_opts s1) \<or> (\<exists>a \<in> set as. names_option ''printregs'' a)\<rparr>" by auto
      then show ?thesis unfolding if_not_P [OF ns [folded stop]] using s1 by (auto simp: p)
    qed
  qed
qed

text \<open>
  Property C33: the Bedrock program gives up before building the system exactly when a help option
  is given or the number of positional arguments is not one or two; otherwise the options it
  runs with are those named, whatever their case and whether written with one dash or
  two, and the quantum is the second positional argument or 10000.  But the system is built with the first argument
  as its descriptor, also when that is an option and not the socket path, and with a socket path alone the
  program ends with the usage text although the quantum is optional.
\<close>

theorem bedrock_command_line:
  "\<exists>out. bedrock_main (prog # args) = (out,
     (let ps = positional_args args;
          opts = \<lparr>enable_slots_dma = (\<forall>a \<in> set args. \<not> names_option ''noslots'' a),
                  dump_regs = (\<exists>a \<in> set args. names_option ''printregs'' a)\<rparr> in
      if (\<exists>a \<in> set args. is_help a) \<or> length ps \<notin> {1, 2} then Return_minus_1
      else if length args = 1 then Built_then_exit (hd args) 10000 opts
      else Simulate (hd args) (if length ps = 2 then strtoull10 (ps ! 1) else 10000) opts)) \<and>
   (Usage \<in> set out \<longleftrightarrow> (\<exists>a \<in> set args. is_help a) \<or> length (positional_args args) \<notin> {1, 2} \<or> length args = 1)"
proof -
  let ?ps = "positional_args args"
  have start: "cli_holds [] cli_start" by (simp add: cli_holds_def cli_start_def)
  note r = cli_args_result [OF start, of args]
  have len: "length ?ps \<le> length args" by (simp add: positional_args_def)
  show ?thesis
  proof (cases "(\<exists>a \<in> set args. is_help a) \<or> 2 < length ?ps")
    case True
    with r obtain out where "cli_args args cli_start = Inl out" "Usage \<in> set out" by auto
    moreover from True have "(\<exists>a \<in> set args. is_help a) \<or> length ?ps \<notin> {1, 2}" by auto
    ultimately show ?thesis by (auto simp: bedrock_main_def Let_def)
  next
    case False
    with r obtain s where s: "cli_args args cli_start = Inr s" "cli_holds ?ps s"
      "cl_opts s = \<lparr>enable_slots_dma = (\<forall>a \<in> set args. \<not> names_option ''noslots'' a),
                   dump_regs = (\<exists>a \<in> set args. names_option ''printregs'' a)\<rparr>"
      by (auto simp: cli_start_def)
    show ?thesis
    proof (cases "?ps = []")
      case True
      with s False show ?thesis by (simp add: bedrock_main_def cli_holds_def Let_def)
    next
      case ne: False
      then have "0 < length ?ps" "length ?ps \<le> 2" using False by auto
      then have ps: "length ?ps = 1 \<or> length ?ps = 2" "args \<noteq> []" using len by (linarith, auto)
      then have a: "(prog # args) ! 1 = hd args" by (simp add: hd_conv_nth)
      have one: "length args = 1 \<longleftrightarrow> length (prog # args) < 3" using ps(2) by (cases args) auto
      have q: "length args = 1 \<Longrightarrow> length ?ps = 1" using len ps(1) by auto
      from s(1,2) ne ps(1) False a one q show ?thesis
        by (auto simp: bedrock_main_def cli_holds_def Let_def s(3) split: if_splits)
    qed
  qed
qed

theorem bedrock_command_line_witness:
  "\<exists>out. bedrock_main [''prog'', ''--NoSlots'', ''unix:sock'', ''250''] =
     (out, Simulate ''--NoSlots'' 250 \<lparr>enable_slots_dma = False, dump_regs = False\<rparr>) \<and> Usage \<notin> set out"
proof -
  let ?args = "[''--NoSlots'', ''unix:sock'', ''250'']"
  have p: "positional_args ?args = [''unix:sock'', ''250'']" by (simp add: positional_args_def c_char_def)
  have n: "names_option ''noslots'' ''--NoSlots''" "\<not> names_option ''printregs'' ''--NoSlots''"
    "\<not> names_option n ''unix:sock''" "\<not> names_option n ''250''" for n
  proof -
    have "map to_lower ''NoSlots'' = ''noslots''" "map to_lower ''noslots'' = ''noslots''"
      "map to_lower ''printregs'' = ''printregs''" by code_simp+
    then show "names_option ''noslots'' ''--NoSlots''" "\<not> names_option ''printregs'' ''--NoSlots''"
      by (simp_all add: names_option_def c_char_def strcaseeq_def del: list.map)
  qed (simp_all add: names_option_def c_char_def)
  have q: "strtoull10 ''250'' = 250" by (simp add: strtoull10_def c_char_def Let_def)
  have h: "\<forall>a \<in> set ?args. \<not> is_help a" by (simp add: is_help_def)
  obtain out where o: "bedrock_main (''prog'' # ?args) =
     (out, Simulate ''--NoSlots'' 250 \<lparr>enable_slots_dma = False, dump_regs = False\<rparr>)" "Usage \<notin> set out"
    using bedrock_command_line [of "''prog''" ?args] h by (auto simp: p n q Let_def)
  then show ?thesis by blast
qed

end
