(* ===== verification/Apb_Bridge.thy ===== *)
theory Apb_Bridge
  imports Tlm
begin

text \<open>
  The bridge from TLM to APB of \<open>src/tlm2apb-bridge.h\<close> with a clocked slave, and the slave of the
  repository, the timer of \<open>apb_timer.v\<close>.  No file includes this header: the demos include
  \<open>tlm-bridges/tlm2apb-bridge.h\<close> of \<open>libsystemctlm-soc\<close>, a class of the same name whose code is not part of the repository.  What is shown
  here is about the header as it stands in the repository, not about the bridge of the demos.  A clock cycle is its rising edge: there the bridge
  samples \<open>pready\<close> and \<open>prdata\<close> and the slave takes its step on the same signals; what either of
  them drives at the edge is seen by the other at the next one.
\<close>

section \<open>The bridge\<close>

record ('a, 'd) apb_sig =
  as_psel :: bool
  as_penable :: bool
  as_pwrite :: bool
  as_paddr :: 'a
  as_pwdata :: 'd

text \<open>The slave: its step at an edge, and its outputs.\<close>

record ('a, 'd, 's) apb_slave_ops =
  sl_step :: "('a, 'd) apb_sig \<Rightarrow> 's \<Rightarrow> 's"
  sl_ready :: "'s \<Rightarrow> bool"
  sl_rdata :: "'s \<Rightarrow> 'd"

text \<open>The \<open>do\<close> loop of the access phase; it does not end if the slave is never ready.\<close>

partial_function (option) apb_access ::
  "('a::len word, 'd::len word, 's) apb_slave_ops \<Rightarrow> tlm_command \<Rightarrow> u8 list \<Rightarrow> ('a word, 'd word) apb_sig \<Rightarrow> 's
     \<Rightarrow> (u8 list \<times> ('a word, 'd word) apb_sig \<times> 's) option" where
  "apb_access sl cmd data sig s =
     (let data' = (if cmd = TLM_READ_COMMAND then poke 4 (le_bytes 4 (ucast (sl_rdata sl s) :: u32)) data else data);
          sig' = sig\<lparr>as_psel := \<not> sl_ready sl s, as_penable := \<not> sl_ready sl s\<rparr>;
          s' = sl_step sl sig s in
      if sl_ready sl s then Some (data', sig', s') else apb_access sl cmd data' sig' s')"

text \<open>
  \<open>edges d\<close> is the number of rising edges that pass during \<open>wait(delay)\<close>; \<open>None\<close> means that the
  call does not return.
\<close>

definition apb_b_transport ::
  "('a::len word, 'd::len word, 's) apb_slave_ops \<Rightarrow> (sc_time \<Rightarrow> nat) \<Rightarrow> gp \<Rightarrow> sc_time \<Rightarrow> ('a word, 'd word) apb_sig \<times> 's
     \<Rightarrow> (gp \<times> sc_time \<times> ('a word, 'd word) apb_sig \<times> 's) res option" where
  "apb_b_transport sl edges tr d = (\<lambda>(sig, s).
     if gp_byte_en tr \<noteq> None then Some (Inr (tr\<lparr>gp_resp := TLM_BYTE_ENABLE_ERROR_RESPONSE\<rparr>, d, sig, s))
     else if gp_len tr \<noteq> 4 \<or> gp_width tr < gp_len tr
       then Some (Inr (tr\<lparr>gp_resp := TLM_BURST_ERROR_RESPONSE\<rparr>, d, sig, s))
     else if gp_cmd tr \<noteq> TLM_IGNORE_COMMAND \<and> length (gp_data tr) < 4 then Some (Inl Out_of_range)
     else let wr = (gp_cmd tr = TLM_WRITE_COMMAND);
              tpwdata = (if wr then le_word (take 4 (gp_data tr)) else 0) :: u32;
              setup = sig\<lparr>as_psel := True, as_paddr := ucast (drop_bit 2 (gp_addr tr)), as_pwrite := wr,
                          as_pwdata := ucast tpwdata\<rparr>;
              s1 = (sl_step sl setup ^^ edges d) s;
              s2 = sl_step sl setup s1 in
          Option.bind (apb_access sl (gp_cmd tr) (gp_data tr) (setup\<lparr>as_penable := True\<rparr>) s2)
            (\<lambda>(data, sig', s'). Some (Inr (tr\<lparr>gp_data := data, gp_resp := TLM_OK_RESPONSE\<rparr>, 0, sig', s'))))"

section \<open>A slave with registered outputs\<close>

text \<open>
  The contract the bridge relies on: a slave that has seen an edge of the setup phase is
  not ready, and one that has seen an edge of the access phase is.
\<close>

locale apb_slave =
  fixes sl :: "('a::len word, 'd::len word, 's) apb_slave_ops"
  assumes setup_not_ready: "as_psel sig \<Longrightarrow> \<not> as_penable sig \<Longrightarrow> \<not> sl_ready sl (sl_step sl sig s)"
    and access_ready: "as_psel sig \<Longrightarrow> as_penable sig \<Longrightarrow> sl_ready sl (sl_step sl sig s)"
begin

lemma access_two_edges:
  assumes "\<not> sl_ready sl s" "as_psel sig" "as_penable sig" "length data = 4"
  shows "apb_access sl cmd data sig s =
    Some (if cmd = TLM_READ_COMMAND then le_bytes 4 (ucast (sl_rdata sl (sl_step sl sig s)) :: u32) else data,
          sig\<lparr>as_psel := False, as_penable := False\<rparr>, sl_step sl sig (sl_step sl sig s))"
proof -
  let ?data = "if cmd = TLM_READ_COMMAND then poke 4 (le_bytes 4 (ucast (sl_rdata sl s) :: u32)) data else data"
  have sig: "sig\<lparr>as_psel := True, as_penable := True\<rparr> = sig" using assms(2,3) by (cases sig) simp
  have "apb_access sl cmd data sig s = apb_access sl cmd ?data sig (sl_step sl sig s)"
    using assms(1) sig by (subst apb_access.simps) (simp add: Let_def)
  also have "\<dots> = Some (if cmd = TLM_READ_COMMAND then le_bytes 4 (ucast (sl_rdata sl (sl_step sl sig s)) :: u32) else ?data,
      sig\<lparr>as_psel := False, as_penable := False\<rparr>, sl_step sl sig (sl_step sl sig s))"
    using access_ready [OF assms(2,3), of s] assms(4)
    by (subst apb_access.simps) (simp add: Let_def poke_def)
  finally show ?thesis by simp
qed

text \<open>
  So a transfer ends after the setup edge and two edges of the access phase; the slave sees the
  access twice, and the data read is what it drives after the first.
\<close>

lemma transfer_two_edges:
  fixes sig :: "('a word, 'd word) apb_sig" and s :: 's and edges :: "sc_time \<Rightarrow> nat" and d :: sc_time
  assumes "gp_byte_en tr = None" "gp_len tr = 4" "4 \<le> gp_width tr" "length (gp_data tr) = 4" "\<not> as_penable sig"
  defines "setup \<equiv> sig\<lparr>as_psel := True, as_paddr := ucast (drop_bit 2 (gp_addr tr)),
      as_pwrite := (gp_cmd tr = TLM_WRITE_COMMAND),
      as_pwdata := ucast ((if gp_cmd tr = TLM_WRITE_COMMAND then le_word (gp_data tr) else 0) :: u32)\<rparr>"
  defines "s2 \<equiv> (sl_step sl setup ^^ Suc (edges d)) s" and "acc \<equiv> setup\<lparr>as_penable := True\<rparr>"
  shows "apb_b_transport sl edges tr d (sig, s) = Some (Inr
    (tr\<lparr>gp_data := (if gp_cmd tr = TLM_READ_COMMAND
                     then le_bytes 4 (ucast (sl_rdata sl (sl_step sl acc s2)) :: u32) else gp_data tr),
        gp_resp := TLM_OK_RESPONSE\<rparr>, 0, acc\<lparr>as_psel := False, as_penable := False\<rparr>,
     sl_step sl acc (sl_step sl acc s2)))"
proof -
  have "as_psel setup" "\<not> as_penable setup" using assms(5) by (simp_all add: setup_def)
  then have nr: "\<not> sl_ready sl s2" unfolding s2_def using setup_not_ready by simp
  have "as_psel acc" "as_penable acc" by (simp_all add: acc_def setup_def)
  note a = access_two_edges [OF nr this assms(4), of "gp_cmd tr"]
  have "apb_b_transport sl edges tr d (sig, s) =
    Option.bind (apb_access sl (gp_cmd tr) (gp_data tr) acc s2)
      (\<lambda>(data, sig', s'). Some (Inr (tr\<lparr>gp_data := data, gp_resp := TLM_OK_RESPONSE\<rparr>, 0, sig', s')))"
    using assms(1-4) by (simp add: apb_b_transport_def Let_def setup_def acc_def s2_def)
  with a show ?thesis by simp
qed

end

section \<open>The timer\<close>

text \<open>\<open>tm_cfg\<close>: bit 0 enables the count, bit 1 is the pending interrupt.\<close>

record apb_timer =
  tm_cfg :: "2 word"
  tm_cnt :: u32
  tm_div :: u32
  tm_free_cnt :: u32
  tm_prdata :: u32
  tm_pready :: bool

definition timer_reg :: "(16 word, u32) apb_sig \<Rightarrow> nat" where
  "timer_reg sig = unat (drop_bit 2 (as_paddr sig))"

definition timer_write :: "nat \<Rightarrow> (16 word, u32) apb_sig \<Rightarrow> bool" where
  "timer_write r sig \<longleftrightarrow> as_psel sig \<and> as_penable sig \<and> as_pwrite sig \<and> timer_reg sig = r"

text \<open>\<open>x\<close> is what the undefined value \<open>'bx\<close> is on the simulator.\<close>

definition timer_read :: "u32 \<Rightarrow> nat \<Rightarrow> apb_timer \<Rightarrow> u32" where
  "timer_read x r t =
     (if r = 0 then (x AND NOT 3) OR ucast (tm_cfg t) else if r = 1 then tm_cnt t
      else if r = 2 then tm_div t else if r = 3 then tm_free_cnt t else x)"

definition timer_step :: "u32 \<Rightarrow> bool \<Rightarrow> (16 word, u32) apb_sig \<Rightarrow> apb_timer \<Rightarrow> apb_timer" where
  "timer_step x rst sig t =
     (let on = bit (tm_cfg t) 0; hit = (on \<and> tm_cnt t = 0); v = as_pwdata sig;
          prdata = (if as_psel sig then timer_read x (timer_reg sig) t else x);
          pready = (as_psel sig \<and> as_penable sig) in
      if rst then \<lparr>tm_cfg = 0, tm_cnt = 0, tm_div = 0, tm_free_cnt = 0, tm_prdata = prdata, tm_pready = pready\<rparr>
      else
        \<lparr>tm_cfg = (if timer_write 0 sig then ucast v else if hit then tm_cfg t OR 2 else tm_cfg t),
         tm_cnt = (if timer_write 0 sig \<and> bit v 0 \<and> \<not> on then tm_div t
                   else if timer_write 1 sig then v
                   else if hit then tm_div t else if on then tm_cnt t - 1 else tm_cnt t),
         tm_div = (if timer_write 2 sig then v else tm_div t),
         tm_free_cnt = (if timer_write 3 sig then v else tm_free_cnt t + 1),
         tm_prdata = prdata, tm_pready = pready\<rparr>)"

definition timer_slave :: "u32 \<Rightarrow> (16 word, u32, apb_timer) apb_slave_ops" where
  "timer_slave x = \<lparr>sl_step = timer_step x False, sl_ready = tm_pready, sl_rdata = tm_prdata\<rparr>"

interpretation timer: apb_slave "timer_slave x" for x
  by unfold_locales (simp_all add: timer_slave_def timer_step_def Let_def)


section \<open>The timer behind the bridge\<close>

lemma timer_setup_frame:
  assumes "as_psel sig" "\<not> as_penable sig"
  shows "tm_div ((timer_step x False sig ^^ k) t) = tm_div t"
    and "bit (tm_cfg ((timer_step x False sig ^^ k) t)) 0 = bit (tm_cfg t) 0"
    and "\<not> bit (tm_cfg t) 0 \<Longrightarrow> tm_cfg ((timer_step x False sig ^^ k) t) = tm_cfg t"
proof -
  have b: "bit (c OR 2) 0 = bit (c :: 2 word) 0" for c by (simp add: bit_simps)
  show "tm_div ((timer_step x False sig ^^ k) t) = tm_div t"
    "bit (tm_cfg ((timer_step x False sig ^^ k) t)) 0 = bit (tm_cfg t) 0"
    using assms by (induction k) (simp_all add: timer_step_def timer_write_def Let_def b)
  show "tm_cfg ((timer_step x False sig ^^ k) t) = tm_cfg t" if "\<not> bit (tm_cfg t) 0"
    using assms that by (induction k) (simp_all add: timer_step_def timer_write_def Let_def)
qed

lemma timer_acc_div:
  "tm_div (timer_step x False sig t) = (if timer_write 2 sig then as_pwdata sig else tm_div t)"
  "as_psel sig \<Longrightarrow> tm_prdata (timer_step x False sig t) = timer_read x (timer_reg sig) t"
  "timer_write 0 sig \<Longrightarrow> tm_cfg (timer_step x False sig t) = ucast (as_pwdata sig)"
  by (simp_all add: timer_step_def Let_def)

text \<open>The register a transaction reaches: the bridge and the timer both drop two address bits.\<close>

lemma timer_reg_of: "unat (drop_bit 2 (ucast (drop_bit 2 (a :: u64)) :: 16 word)) = unat a div 16 mod 2 ^ 14"
proof -
  have "(m mod (4 * 16384)) div 4 = m div 4 mod 16384" for m :: nat
    unfolding mod_mult2_eq by simp
  from this [of "unat a div 4"] have "unat a div 4 mod 65536 div 4 = unat a div 16 mod 16384" by (simp flip: div_mult2_eq)
  moreover have "unat (ucast (drop_bit 2 a) :: 16 word) = unat a div 4 mod 65536"
    by (simp add: unsigned_ucast_eq unat_drop_bit_eq take_bit_nat_def drop_bit_eq_div [where ?'a = nat])
  ultimately show ?thesis by (simp add: unat_drop_bit_eq drop_bit_eq_div [where ?'a = nat])
qed

text \<open>The counter that is not stopped counts the edges.\<close>

lemma timer_free_setup:
  assumes "\<not> as_penable sig"
  shows "tm_free_cnt ((timer_step x False sig ^^ k) t) = tm_free_cnt t + of_nat k"
  using assms by (induction k) (simp_all add: timer_step_def timer_write_def Let_def)

lemma timer_free_step:
  "tm_free_cnt (timer_step x False sig t) = (if timer_write 3 sig then as_pwdata sig else tm_free_cnt t + 1)"
  by (simp add: timer_step_def Let_def)

text \<open>
  Property C31: a 4-byte transaction through the bridge of this header, at any address, reaches the register of the timer
  whose number is the address divided by 16, of which the APB address keeps 14 bits.  It returns, successful, with the bus idle again, at the
  third edge after those that pass during its delay (one of the setup phase and two of the access phase): the free-running counter, unless it is the
  register written, has counted exactly these.  A read returns the divisor, the free-running counter at the end of the setup phase, or
  the enable bit (the whole configuration, if the timer does not run), and the undefined value for a register that does not
  exist; a write is stored in the configuration, the divisor or the free-running counter.  No other access changes the divisor.
\<close>

theorem apb_register_access:
  assumes "gp_byte_en tr = None" "gp_len tr = 4" "4 \<le> gp_width tr" "length (gp_data tr) = 4" "\<not> as_penable sig"
    and "r = unat (gp_addr tr) div 16 mod 2 ^ 14" "v = (le_word (gp_data tr) :: u32)"
  shows "\<exists>tr' sig' t'. apb_b_transport (timer_slave x) edges tr d (sig, t) = Some (Inr (tr', 0, sig', t')) \<and>
     gp_resp tr' = TLM_OK_RESPONSE \<and> \<not> as_psel sig' \<and> \<not> as_penable sig' \<and>
     tm_free_cnt t' = (if gp_cmd tr = TLM_WRITE_COMMAND \<and> r = 3 then v else tm_free_cnt t + of_nat (edges d + 3)) \<and>
     tm_div t' = (if gp_cmd tr = TLM_WRITE_COMMAND \<and> r = 2 then v else tm_div t) \<and>
     (gp_cmd tr = TLM_WRITE_COMMAND \<and> r = 0 \<longrightarrow> tm_cfg t' = ucast v) \<and>
     (gp_cmd tr = TLM_READ_COMMAND \<longrightarrow>
        (r = 0 \<longrightarrow> bit (le_word (gp_data tr') :: u32) 0 = bit (tm_cfg t) 0 \<and>
           (\<not> bit (tm_cfg t) 0 \<longrightarrow> le_word (gp_data tr') = (x AND NOT 3) OR ucast (tm_cfg t))) \<and>
        (r = 2 \<longrightarrow> le_word (gp_data tr') = tm_div t) \<and>
        (r = 3 \<longrightarrow> le_word (gp_data tr') = tm_free_cnt t + of_nat (edges d + 1)) \<and>
        (4 \<le> r \<longrightarrow> le_word (gp_data tr') = x))"
proof -
  define su :: "(16 word, u32) apb_sig" where "su = sig\<lparr>as_psel := True, as_paddr := ucast (drop_bit 2 (gp_addr tr)),
      as_pwrite := (gp_cmd tr = TLM_WRITE_COMMAND),
      as_pwdata := ucast ((if gp_cmd tr = TLM_WRITE_COMMAND then le_word (gp_data tr) else 0) :: u32)\<rparr>"
  define acc where "acc = su\<lparr>as_penable := True\<rparr>"
  define s2 where "s2 = (timer_step x False su ^^ Suc (edges d)) t"
  define s3 where "s3 = timer_step x False acc s2"
  define s4 where "s4 = timer_step x False acc s3"
  have sl: "sl_step (timer_slave x) = timer_step x False" "sl_rdata (timer_slave x) = tm_prdata"
    by (simp_all add: timer_slave_def)
  have r: "timer_reg acc = r"
    using timer_reg_of [of "gp_addr tr"] assms(6) by (simp add: timer_reg_def acc_def su_def)
  have p: "as_psel acc" "timer_write j acc \<longleftrightarrow> gp_cmd tr = TLM_WRITE_COMMAND \<and> j = r" for j
    using r by (auto simp: acc_def su_def timer_write_def)
  have v: "gp_cmd tr = TLM_WRITE_COMMAND \<Longrightarrow> as_pwdata acc = v" by (simp add: acc_def su_def assms(7))
  have su: "as_psel su" "\<not> as_penable su" using assms(5) by (simp_all add: su_def)
  note frame = timer_setup_frame [OF su, where k = "Suc (edges d)" and t = t and x = x, folded s2_def]
  have free: "tm_free_cnt s2 = tm_free_cnt t + of_nat (edges d + 1)"
    using timer_free_setup [OF su(2), where x = x and k = "Suc (edges d)" and t = t] by (simp add: s2_def del: funpow.simps)
  have div: "tm_div s4 = (if gp_cmd tr = TLM_WRITE_COMMAND \<and> r = 2 then v else tm_div t)"
    using p(2) v frame(1) by (auto simp: s3_def s4_def timer_acc_div(1))
  have cnt: "tm_free_cnt s4 = (if gp_cmd tr = TLM_WRITE_COMMAND \<and> r = 3 then v else tm_free_cnt t + of_nat (edges d + 3))"
    using p(2) v free by (auto simp: s3_def s4_def timer_free_step)
  have cfg: "gp_cmd tr = TLM_WRITE_COMMAND \<and> r = 0 \<longrightarrow> tm_cfg s4 = ucast v"
    using p(2) v by (auto simp: s4_def timer_acc_div(3))
  have rd: "tm_prdata s3 = timer_read x r s2" using p(1) r by (simp add: s3_def timer_acc_div(2))
  have b0: "bit ((x AND NOT 3) OR ucast (c :: 2 word)) 0 = bit c 0" for c by (simp add: bit_simps)
  note tr = timer.transfer_two_edges [OF assms(1-5), where x = x and edges = edges and d = d and s = t, folded su_def, folded acc_def, unfolded sl, folded s2_def,
      folded s3_def, folded s4_def]
  show ?thesis unfolding tr
    using frame free div cnt cfg b0 rd assms(4) by (auto simp: timer_read_def acc_def)
qed

theorem apb_register_access_witness:
  "\<exists>tr' sig' t'. apb_b_transport (timer_slave 0xffffffff) (\<lambda>_. 3) (mk_gp TLM_WRITE_COMMAND 0x28 [7, 0, 0, 0] 4) 5
      (\<lparr>as_psel = False, as_penable = False, as_pwrite = False, as_paddr = 0, as_pwdata = 0\<rparr>,
       \<lparr>tm_cfg = 0, tm_cnt = 9, tm_div = 10, tm_free_cnt = 0, tm_prdata = 0, tm_pready = False\<rparr>) = Some (Inr (tr', 0, sig', t')) \<and>
     tm_div t' = 7 \<and> tm_free_cnt t' = 6"
proof -
  let ?tr = "mk_gp TLM_WRITE_COMMAND 0x28 [7, 0, 0, 0] 4"
  let ?sig = "\<lparr>as_psel = False, as_penable = False, as_pwrite = False, as_paddr = 0, as_pwdata = 0\<rparr> :: (16 word, u32) apb_sig"
  have h: "gp_byte_en ?tr = None" "gp_len ?tr = 4" "4 \<le> gp_width ?tr" "length (gp_data ?tr) = 4" "\<not> as_penable ?sig"
    "2 = unat (gp_addr ?tr) div 16 mod 2 ^ 14" "7 = (le_word (gp_data ?tr) :: u32)" by simp_all
  show ?thesis
    using apb_register_access [OF h, where x = "0xffffffff" and edges = "\<lambda>_. 3" and d = "5" and t =
      "\<lparr>tm_cfg = 0, tm_cnt = 9, tm_div = 10, tm_free_cnt = 0, tm_prdata = 0, tm_pready = False\<rparr>"] by auto
qed

end
