(* ===== verification/Pcie_Coherent.thy ===== *)
theory Pcie_Coherent
  imports Pcie_Threads
begin

text \<open>
  The accelerator together with a translation agent that serves pages of one page table.  The
  cache then stays coherent with the table, whatever it holds at the start, and the threads work
  on the bytes the table shows, also when translations are fetched while they run.
\<close>

section \<open>Page tables\<close>

text \<open>
  The address a table gives, and what is asked of an agent and of the state of the rest of the
  system: every request is answered with the 4 KB page of the table, readable and writable; translating
  changes neither the memory nor the table.
\<close>

definition page_phys :: "(u64 \<Rightarrow> u64) \<Rightarrow> u64 \<Rightarrow> u64" where
  "page_phys pt a = pt (a AND NOT (mask 12)) OR (a AND mask 12)"

definition serves_pages ::
  "ats_attrs \<Rightarrow> 'w ats_agent \<Rightarrow> ('w \<Rightarrow> bytes_memory) \<Rightarrow> ('w \<Rightarrow> u64 \<Rightarrow> u64) \<Rightarrow> bool" where
  "serves_pages at ats mem pt \<longleftrightarrow> page_agent ats \<and>
     (\<forall>v x w. ar_addr (fst (ats v x w)) = pt w (v AND NOT (mask 12)) \<and>
        ar_attr (fst (ats v x w)) AND ATTR_READ at \<noteq> 0 \<and>
        ar_attr (fst (ats v x w)) AND ATTR_WRITE at \<noteq> 0 \<and>
        mem (snd (ats v x w)) = mem w \<and> pt (snd (ats v x w)) = pt w)"

definition from_table :: "ats_attrs \<Rightarrow> (u64 \<Rightarrow> u64) \<Rightarrow> region \<Rightarrow> bool" where
  "from_table at pt r \<longleftrightarrow> rg_phys r = pt (rg_virt r) \<and> rg_attr r AND ATTR_READ at \<noteq> 0 \<and>
     rg_attr r AND ATTR_WRITE at \<noteq> 0"

definition coherent :: "ats_attrs \<Rightarrow> (u64 \<Rightarrow> u64) \<Rightarrow> region list \<Rightarrow> bool" where
  "coherent at pt rs \<longleftrightarrow> (\<forall>r \<in> set rs. page_region r \<and> from_table at pt r)"

lemma coherent_Nil [simp]: "coherent at pt []"
  by (simp add: coherent_def)

lemma coherent_append [simp]: "coherent at pt (rs @ ss) \<longleftrightarrow> coherent at pt rs \<and> coherent at pt ss"
  by (auto simp: coherent_def)

lemma coherent_pages: "coherent at pt rs \<Longrightarrow> \<forall>r \<in> set rs. page_region r"
  by (simp add: coherent_def)

lemma coherent_lookup:
  assumes "coherent at pt rs" "atc_contains rs a"
  shows "atc_virt_to_phys rs a = page_phys pt a"
    "atc_test_attr rs a (ATTR_READ at)" "atc_test_attr rs a (ATTR_WRITE at)"
proof -
  obtain r where f: "atc_find rs a = Some r" using assms(2) by (auto simp: atc_contains_def)
  with assms(1) atc_find_Some [OF f] have r: "page_region r" "rg_phys r = pt (rg_virt r)"
    "rg_attr r AND ATTR_READ at \<noteq> 0" "rg_attr r AND ATTR_WRITE at \<noteq> 0" "rg_contains r a" by (auto simp: coherent_def from_table_def)
  then have "unat a div 4096 = unat (rg_virt r) div 4096" "unat (rg_virt r) mod 4096 = 0"
    "rg_length r - 1 = mask 12"
    by (simp_all add: page_region_contains page_region_def page_mask)
  then have "unat (a AND NOT (mask 12)) = unat (rg_virt r)"
    by (simp add: unat_page_base minus_mod_eq_mult_div) (metis add.right_neutral mult_div_mod_eq)
  then have "a AND NOT (mask 12) = rg_virt r" by (simp add: word_unat_eq_iff)
  with f r \<open>rg_length r - 1 = mask 12\<close> show "atc_virt_to_phys rs a = page_phys pt a"
    "atc_test_attr rs a (ATTR_READ at)" "atc_test_attr rs a (ATTR_WRITE at)"
    by (simp_all add: atc_virt_to_phys_def rg_virt_to_phys_def page_phys_def atc_test_attr_def)
qed

section \<open>Translations fetched from the agent\<close>

lemma ats_loop_from_table:
  assumes "serves_pages at ats mem pt" "ats_loop at ats v len rs w = Some (rs', w')"
    and "unat v mod 4096 = 0" "\<forall>r \<in> set rs. from_table at (pt w) r"
  shows "(\<forall>r \<in> set rs'. from_table at (pt w) r) \<and> mem w' = mem w \<and> pt w' = pt w"
proof -
  let ?good = "\<lambda>w rs. \<forall>r \<in> set rs. from_table at (pt w) r"
  have "at = at \<and> ats = ats \<and> unat v mod 4096 = 0 \<and> ?good w rs \<longrightarrow>
      ?good w (fst (rs', w')) \<and> mem (snd (rs', w')) = mem w \<and> pt (snd (rs', w')) = pt w"
  proof (rule ats_loop.raw_induct [where P = "\<lambda>at' ats' v len rs w y. at' = at \<and> ats' = ats \<and> unat v mod 4096 = 0 \<and>
        ?good w rs \<longrightarrow> ?good w (fst y) \<and> mem (snd y) = mem w \<and> pt (snd y) = pt w", OF _ assms(2)],
      intro impI, elim conjE, goal_cases)
    case (1 f at1 ats1 v1 len1 rs1 w1 y1)
    obtain r w2 where r: "ats v1 (ATTR_WRITE at OR ATTR_READ at OR ATTR_EXEC at) w1 = (r, w2)" by force
    have ok: "ar_resp r = TLM_OK_RESPONSE" "ar_result_ok r" "ar_length r = SZ_4K"
      "ar_addr r = pt w1 (v1 AND NOT (mask 12))" "ar_attr r AND ATTR_READ at \<noteq> 0"
      "mem w2 = mem w1" "pt w2 = pt w1" "ar_attr r AND ATTR_WRITE at \<noteq> 0"
      using assms(1) r unfolding serves_pages_def page_agent_def by (metis fst_conv snd_conv)+
    have base: "v1 AND NOT (SZ_4K - 1) = v1" "v1 AND NOT (mask 12) = v1"
      using 1(5) by (simp_all add: page_mask page_base_same)
    let ?rs = "rs1 @ [\<lparr>rg_virt = v1, rg_phys = ar_addr r, rg_length = SZ_4K, rg_attr = ar_attr r\<rparr>]"
    have good: "?good w2 ?rs" using 1(6) ok base by (simp add: from_table_def)
    have al: "unat (v1 + SZ_4K) mod 4096 = 0"
      using 1(5) by (simp add: SZ_4K_def unat_word_ariths mod_add_eq mod_mod_cancel)
    have step: "(if len1 = 0 then Some (rs1, w1) else if len1 < SZ_4K then Some (?rs, w2)
        else f at ats (v1 + SZ_4K) (len1 - SZ_4K) ?rs w2) = Some y1"
      using 1(2) unfolding 1(3,4) r by (cases "len1 = 0"; cases "len1 < SZ_4K") (simp_all add: ok(1-3) base(1) Let_def)
    show ?case
    proof (cases "len1 = 0 \<or> len1 < SZ_4K")
      case True
      then have "y1 = (rs1, w1) \<or> y1 = (?rs, w2)" using step by (cases "len1 = 0") simp_all
      then show ?thesis
      proof
        assume "y1 = (rs1, w1)"
        then show ?thesis using 1(6) by simp
      next
        assume y: "y1 = (?rs, w2)"
        show ?thesis using good unfolding y fst_conv snd_conv ok(6,7) by simp
      qed
    next
      case False
      then have "f at ats (v1 + SZ_4K) (len1 - SZ_4K) ?rs w2 = Some y1" using step by simp
      from 1(1) [OF this] good al show ?thesis unfolding ok(6,7) by simp
    qed
  qed
  then show ?thesis using assms by simp
qed

lemma do_ats_req_coherent:
  assumes "serves_pages at ats mem pt" "coherent at (pt w) rs" "unat v + unat len < 2 ^ 64 - 8192"
  shows "\<exists>rs' w'. do_ats_req at ats v len rs w = Some (rs', w') \<and> coherent at (pt w) rs' \<and>
     mem w' = mem w \<and> pt w' = pt w \<and>
     (\<forall>a. unat v \<le> unat a \<and> unat a < unat v + unat len \<longrightarrow> atc_contains rs' a)"
proof -
  have "page_agent ats" using assms(1) by (simp add: serves_pages_def)
  from do_ats_req_pages [OF this assms(3), of at rs w] obtain new w' where
    d: "do_ats_req at ats v len rs w = Some (rs @ new, w')" "\<forall>r \<in> set new. page_region r"
    "\<forall>a. unat v \<le> unat a \<and> unat a < unat v + unat len \<longrightarrow> atc_contains new a" by (elim exE conjE)
  have al: "unat (v AND NOT (SZ_4K - 1)) mod 4096 = 0"
    by (simp add: page_mask unat_page_base minus_mod_eq_mult_div)
  have "ats_loop at ats (v AND NOT (SZ_4K - 1)) (len + (v AND (SZ_4K - 1))) rs w = Some (rs @ new, w')"
    using d(1) by (simp add: do_ats_req_def)
  from ats_loop_from_table [OF assms(1) this al] assms(2)
  have "\<forall>r \<in> set (rs @ new). from_table at (pt w) r" "mem w' = mem w" "pt w' = pt w"
    by (auto simp: coherent_def)
  with d assms(2) show ?thesis by (intro exI [of _ "rs @ new"] exI [of _ w']) (auto simp: coherent_def)
qed

lemma translate_coherent:
  assumes "serves_pages at ats mem pt" "coherent at (pt w) rs" "unat v + unat len < 2 ^ 64 - 8192" "len \<noteq> 0"
  shows "\<exists>rs' w'. translate at ats v len rs w = Some (rs', w') \<and> coherent at (pt w) rs' \<and>
     mem w' = mem w \<and> pt w' = pt w \<and> atc_contains rs' v"
proof (cases "atc_contains rs v")
  case True
  with assms(2) show ?thesis by (simp add: translate_def)
next
  case False
  moreover have "0 < unat len" using assms(4) by (simp add: unat_gt_0)
  ultimately show ?thesis
    using do_ats_req_coherent [OF assms(1-3)] unfolding translate_def by fastforce
qed

section \<open>The MD5 thread\<close>

text \<open>The bytes an address range shows through the table.\<close>

definition page_bytes :: "(u64 \<Rightarrow> u64) \<Rightarrow> bytes_memory \<Rightarrow> u64 \<Rightarrow> nat \<Rightarrow> u8 list" where
  "page_bytes pt m v n = map (\<lambda>i. m (page_phys pt (v + of_nat i))) [0..<n]"

lemma page_bytes_append:
  "page_bytes pt m v (k + n) = page_bytes pt m v k @ page_bytes pt m (v + of_nat k) n"
proof -
  have "map f [0..<k + n] = map f [0..<k] @ map (\<lambda>i. f (k + i)) [0..<n]" for f :: "nat \<Rightarrow> u8"
    by (induction n) simp_all
  then show ?thesis by (simp add: page_bytes_def add.assoc)
qed

lemma virt_bytes_page:
  assumes "coherent at pt rs" "atc_contains rs v" "unat v mod 4096 + n \<le> 4096" "unat v + n < 2 ^ 64"
  shows "virt_bytes rs m v n = page_bytes pt m v n"
proof -
  have "atc_contains rs (v + of_nat i)" if i: "i < n" for i
  proof -
    have "unat (v + of_nat i) = unat v + i" using assms(4) i by (intro unat_add_of_nat) simp
    moreover have "(unat v + i) div 4096 = unat v div 4096" using same_page [of "unat v" i] assms(3) i by simp
    ultimately show ?thesis
      using page_contains_all [OF coherent_pages [OF assms(1)] assms(2)] by simp
  qed
  then show ?thesis
    by (simp add: virt_bytes_def page_bytes_def coherent_lookup(1) [OF assms(1)])
qed

lemma md5_loop_translated:
  assumes "translate at ats v len rs w = Some (rs1, w1)" "atc_contains rs1 v" "len \<noteq> 0"
  shows "md5_loop at x0 ats dma ops v len ctx buf rs w = md5_loop at x0 ats dma ops v len ctx buf rs1 w1"
proof -
  have "translate at ats v len rs1 w1 = Some (rs1, w1)" using assms(2) by (simp add: translate_def)
  then show ?thesis using assms(1,3) by (simp add: md5_loop.simps [of _ _ _ _ _ v])
qed

lemma md5_loop_coherent:
  assumes "serves_pages at ats mem pt" "reads_memory dma mem" "hashes_in_pieces ops"
    and "coherent at (pt w) rs" "unat v + unat len < 2 ^ 64 - 8192" "length buf = 4096"
    and "unat v mod 4096 = 0 \<or> 4096 \<le> unat len \<or> len = 0"
  shows "\<exists>rs' w'. md5_loop at x0 ats dma ops v len ctx buf rs w =
      Some (Inr (0, md5_update ops ctx (page_bytes (pt w) (mem w) v (unat len)), rs', w')) \<and>
    coherent at (pt w) rs' \<and> mem w' = mem w \<and> pt w' = pt w"
  using assms(4-7)
proof (induction "unat len" arbitrary: v len ctx buf rs w rule: less_induct)
  case less
  show ?case
  proof (cases "len = 0")
    case True
    then show ?thesis
      using assms(3) less.prems(1) by (subst md5_loop.simps) (simp add: page_bytes_def hashes_in_pieces_def)
  next
    case False
    then have pos: "0 < unat len" by (simp add: unat_gt_0)
    have m: "unat v mod 4096 < 4096" by simp
    have pre: "unat v mod 4096 \<le> min (unat len) 4096" using less.prems(4) m False by auto
    obtain rs1 w1 where t: "translate at ats v len rs w = Some (rs1, w1)" "coherent at (pt w) rs1"
      "mem w1 = mem w" "pt w1 = pt w" "atc_contains rs1 v"
      using translate_coherent [OF assms(1) less.prems(1,2) False] by blast
    have lt: "unat v + unat len < 2 ^ 64" using less.prems(2) by simp
    obtain n buf' where n: "unat n = min (unat len) 4096 - unat v mod 4096" "length buf' = 4096"
      "md5_loop at x0 ats dma ops v len ctx buf rs1 w1 =
        md5_loop at x0 ats dma ops (v + n) (len - n)
          (md5_update ops ctx (virt_bytes rs1 (mem w1) v (unat n))) buf' rs1 w1"
      using md5_loop_turn [OF coherent_pages [OF t(2)] assms(2) coherent_lookup(2) [OF t(2,5)] less.prems(3) False pre lt,
          of x0 ats ops ctx w1] by blast
    have npos: "0 < unat n" "unat n \<le> unat len" using n(1) less.prems(4) pos m by (auto simp: min_def)
    have vb: "virt_bytes rs1 (mem w1) v (unat n) = page_bytes (pt w) (mem w) v (unat n)"
      unfolding t(3) by (rule virt_bytes_page [OF t(2,5)]) (use n(1) pre npos lt in linarith)+
    have ul: "unat (len - n) = unat len - unat n" using npos by (simp add: unat_sub word_le_nat_alt)
    have uv: "unat (v + n) = unat v + unat n" using lt npos by (simp add: unat_word_ariths)
    have al: "unat (v + n) mod 4096 = 0 \<or> unat len - unat n = 0"
    proof (cases "unat len < 4096")
      case True
      then show ?thesis using n(1) less.prems(4) False by (auto simp: min_def)
    next
      case ge: False
      have "unat v + (4096 - unat v mod 4096) = 4096 * (unat v div 4096 + 1)"
        using m by (simp add: minus_mod_eq_mult_div [symmetric])
      then show ?thesis using n(1) ge uv by (simp add: min_def)
    qed
    obtain rs' w' where r: "md5_loop at x0 ats dma ops (v + n) (len - n)
          (md5_update ops ctx (page_bytes (pt w) (mem w) v (unat n))) buf' rs1 w1 =
        Some (Inr (0, md5_update ops (md5_update ops ctx (page_bytes (pt w) (mem w) v (unat n)))
           (page_bytes (pt w) (mem w) (v + n) (unat len - unat n)), rs', w'))"
      "coherent at (pt w) rs'" "mem w' = mem w" "pt w' = pt w"
      using less.hyps [of "len - n" w1 rs1 "v + n" buf' "md5_update ops ctx (page_bytes (pt w) (mem w) v (unat n))"]
        npos pos ul uv n(2) al less.prems(2) t(2-4) by (auto simp: unat_eq_0)
    have "page_bytes (pt w) (mem w) v (unat len) =
        page_bytes (pt w) (mem w) v (unat n) @ page_bytes (pt w) (mem w) (v + n) (unat len - unat n)"
      using page_bytes_append [of "pt w" "mem w" v "unat n" "unat len - unat n"] npos(2) by simp
    then have "md5_loop at x0 ats dma ops v len ctx buf rs w =
      Some (Inr (0, md5_update ops ctx (page_bytes (pt w) (mem w) v (unat len)), rs', w'))"
      using md5_loop_translated [OF t(1,5) False, of x0 dma ops ctx buf] n(3) vb r(1) assms(3)
      by (simp add: hashes_in_pieces_def)
    with r(2-4) show ?thesis by blast
  qed
qed

text \<open>The thread, the single accesses and the translation thread, from any coherent cache.\<close>

lemma md5_run_coherent:
  assumes "serves_pages at ats mem pt" "reads_memory dma mem" "hashes_in_pieces ops" "md5_init ops = Some c0"
    and "coherent at (pt w) (ac_atc s)" "v = acc_virt_addr (ac_regs s)" "n = unat (ar_len (ac_regs s))"
    and "unat v + n < 2 ^ 64 - 8192" "unat v mod 4096 = 0 \<or> 4096 \<le> n \<or> n = 0"
  shows "\<exists>rs' w'. md5_run at x0 ats dma ops (s, w) = Some (Inr (set_status R_STATUS_DONE
      (set_md5_result (md5_final ops (md5_update ops c0 (page_bytes (pt w) (mem w) v n))) (s\<lparr>ac_atc := rs'\<rparr>)), w')) \<and>
    coherent at (pt w) rs' \<and> mem w' = mem w \<and> pt w' = pt w"
proof -
  let ?len = "ucast (ar_len (ac_regs s)) :: u64"
  have len: "unat ?len = n" using assms(7) by (simp add: unat_ucast32)
  then have "?len = 0 \<longleftrightarrow> n = 0" by (auto simp: unat_eq_0)
  then obtain rs' w' where "md5_loop at x0 ats dma ops v ?len c0 (replicate 4096 0) (ac_atc s) w =
      Some (Inr (0, md5_update ops c0 (page_bytes (pt w) (mem w) v n), rs', w'))"
    "coherent at (pt w) rs'" "mem w' = mem w" "pt w' = pt w"
    using md5_loop_coherent [OF assms(1-3,5), of v ?len "replicate 4096 0" x0 c0] assms(8,9) len by auto
  then show ?thesis using assms(4,6) by (intro exI [of _ rs'] exI [of _ w']) (simp add: md5_run_def Let_def)
qed

lemma page_4K: "unat SZ_4K = 4096" "SZ_4K \<noteq> 0"
  by (simp_all add: SZ_4K_def)

lemma read_run_coherent:
  assumes "serves_pages at ats mem pt" "reads_memory dma mem" "coherent at (pt w) (ac_atc s)"
    and "v = acc_virt_addr (ac_regs s)" "unat v < 2 ^ 64 - 16384"
  shows "\<exists>rs' w'. read_run at x0 ats dma (s, w) = Some (Inr (set_status R_STATUS_DONE
      (s\<lparr>ac_atc := rs', ac_regs := (ac_regs s)\<lparr>ar_value := le_word (mem_read (mem w) (page_phys (pt w) v) 4)\<rparr>\<rparr>), w')) \<and>
    coherent at (pt w) rs' \<and> mem w' = mem w \<and> pt w' = pt w"
proof -
  have "unat v + unat SZ_4K < 2 ^ 64 - 8192" using assms(5) by (simp add: page_4K)
  from translate_coherent [OF assms(1,3) this page_4K(2)] obtain rs' w' where
    t: "translate at ats v SZ_4K (ac_atc s) w = Some (rs', w')" "coherent at (pt w) rs'"
    "mem w' = mem w" "pt w' = pt w" "atc_contains rs' v" by blast
  note l = coherent_lookup [OF t(2,5)]
  have "phys_read at x0 dma (page_phys (pt w) v) (replicate 4 0) 4 w' =
      Inr (mem_read (mem w) (page_phys (pt w) v) 4, w')"
    using phys_read_memory [OF assms(2), of 4 "replicate 4 0"] t(3) by (simp add: mem_read_def poke_all)
  then have "phys_read32 at x0 dma (page_phys (pt w) v) (s\<lparr>ac_atc := rs'\<rparr>, w') =
      Inr (s\<lparr>ac_atc := rs', ac_regs := (ac_regs s)\<lparr>ar_value := le_word (mem_read (mem w) (page_phys (pt w) v) 4)\<rparr>\<rparr>, w')"
    by (simp add: phys_read32_def)
  then show ?thesis
    using t l assms(4) by (intro exI [of _ rs'] exI [of _ w']) (simp add: read_run_def Let_def)
qed

text \<open>A target whose writes store the bytes and leave the table.\<close>

definition stores_memory :: "'w target \<Rightarrow> ('w \<Rightarrow> bytes_memory) \<Rightarrow> ('w \<Rightarrow> u64 \<Rightarrow> u64) \<Rightarrow> bool" where
  "stores_memory dma mem pt \<longleftrightarrow> (\<forall>tr d w. gp_cmd tr = TLM_WRITE_COMMAND \<and> gp_byte_en tr = None \<longrightarrow>
     (\<exists>w'. dma tr d w = Inr (tr\<lparr>gp_resp := TLM_OK_RESPONSE\<rparr>, d, w') \<and> pt w' = pt w \<and>
        mem w' = mem_write (mem w) (gp_addr tr) (take (gp_len tr) (gp_data tr))))"

lemma write_run_coherent:
  assumes "serves_pages at ats mem pt" "stores_memory dma mem pt" "coherent at (pt w) (ac_atc s)"
    and "v = acc_virt_addr (ac_regs s)" "unat v < 2 ^ 64 - 16384"
  shows "\<exists>rs' w'. write_run at x0 ats dma (s, w) =
      Some (Inr (set_status R_STATUS_DONE (s\<lparr>ac_atc := rs'\<rparr>), w')) \<and> coherent at (pt w) rs' \<and>
    mem w' = mem_write (mem w) (page_phys (pt w) v) (le_bytes 4 (ar_value (ac_regs s))) \<and> pt w' = pt w"
proof -
  have "unat v + unat SZ_4K < 2 ^ 64 - 8192" using assms(5) by (simp add: page_4K)
  from translate_coherent [OF assms(1,3) this page_4K(2)] obtain rs' w1 where
    t: "translate at ats v SZ_4K (ac_atc s) w = Some (rs', w1)" "coherent at (pt w) rs'"
    "mem w1 = mem w" "pt w1 = pt w" "atc_contains rs' v" by blast
  note l = coherent_lookup [OF t(2,5)]
  let ?tr = "phys_gp at x0 TLM_WRITE_COMMAND (page_phys (pt w) v) (le_bytes 4 (ar_value (ac_regs s))) 4"
  have tr: "gp_cmd ?tr = TLM_WRITE_COMMAND" "gp_byte_en ?tr = None" by (simp_all add: phys_gp_def)
  obtain w' where w': "dma ?tr 0 w1 = Inr (?tr\<lparr>gp_resp := TLM_OK_RESPONSE\<rparr>, 0, w')" "pt w' = pt w1"
      "mem w' = mem_write (mem w1) (gp_addr ?tr) (take (gp_len ?tr) (gp_data ?tr))"
    using assms(2) tr unfolding stores_memory_def by blast
  then have "phys_write32 at x0 dma (page_phys (pt w) v) (s\<lparr>ac_atc := rs'\<rparr>, w1) = Inr (s\<lparr>ac_atc := rs'\<rparr>, w')"
    by (simp add: phys_write32_def)
  moreover have "mem w' = mem_write (mem w) (page_phys (pt w) v) (le_bytes 4 (ar_value (ac_regs s)))"
    using w'(3) t(3) by (simp add: phys_gp_def)
  ultimately show ?thesis
    using t l assms(4) w'(2) by (intro exI [of _ rs'] exI [of _ w']) (simp add: write_run_def Let_def)
qed

lemma ats_req_loop_coherent:
  assumes "serves_pages at ats mem pt" "coherent at (pt w) rs" "unat v + unat len < 2 ^ 64 - 16384"
  shows "\<exists>rs' w'. ats_req_loop at ats v len rs w = Some (rs', w') \<and> coherent at (pt w) rs' \<and>
     mem w' = mem w \<and> pt w' = pt w"
  using assms(2,3)
proof (induction "unat len" arbitrary: v len rs w rule: less_induct)
  case less
  show ?case
  proof (cases "len = 0")
    case True
    then show ?thesis using less.prems(1) by (simp add: ats_req_loop.simps)
  next
    case False
    have "unat v + unat SZ_4K < 2 ^ 64 - 8192" using less.prems(2) by (simp add: page_4K)
    from translate_coherent [OF assms(1) less.prems(1) this page_4K(2)] obtain rs1 w1 where
      t: "translate at ats v SZ_4K rs w = Some (rs1, w1)" "coherent at (pt w) rs1" "mem w1 = mem w" "pt w1 = pt w"
      by blast
    show ?thesis
    proof (cases "len < SZ_4K")
      case True
      then show ?thesis using False t by (simp add: ats_req_loop.simps [of _ _ v len])
    next
      case ge: False
      then have l: "4096 \<le> unat len" by (simp add: word_le_nat_alt not_less page_4K)
      then have ul: "unat (len - SZ_4K) = unat len - 4096" using ge by (simp add: unat_sub not_less page_4K)
      have uv: "unat (v + SZ_4K) = unat v + 4096"
        using less.prems(2) by (simp add: unat_word_ariths page_4K)
      obtain rs' w' where "ats_req_loop at ats (v + SZ_4K) (len - SZ_4K) rs1 w1 = Some (rs', w')"
        "coherent at (pt w) rs'" "mem w' = mem w" "pt w' = pt w"
        using less.hyps [of "len - SZ_4K" w1 rs1 "v + SZ_4K"] l ul uv t(2-4) less.prems(2) by auto
      then show ?thesis using False ge t(1) by (simp add: ats_req_loop.simps [of _ _ v len])
    qed
  qed
qed

section \<open>Surroundings for the witnesses\<close>

text \<open>An identity table, a memory that holds its own addresses, and one that is written.\<close>

definition ex_at :: ats_attrs where
  "ex_at = \<lparr>ATTR_EXEC = 1, ATTR_READ = 2, ATTR_WRITE = 4, ATTR_PHYS_ADDR = 8\<rparr>"

definition ex_x0 :: atsattr where
  "ex_x0 = \<lparr>ats_attributes = 0, ats_length = 0, ats_result_ok = False\<rparr>"

definition ex_agent :: "nat ats_agent" where
  "ex_agent v x w = (\<lparr>ar_resp = TLM_OK_RESPONSE, ar_result_ok = True, ar_addr = v AND NOT (mask 12),
     ar_length = SZ_4K, ar_attr = 6\<rparr>, w + 1)"

lemma ex_page_phys: "page_phys (\<lambda>a. a) v = v"
  unfolding page_phys_def by (rule bit_word_eqI) (auto simp: bit_simps)

lemma ex_serves: "serves_pages ex_at ex_agent (\<lambda>w a. ucast a) (\<lambda>w a. a)"
  by (simp add: serves_pages_def page_agent_def ex_agent_def ex_at_def unat_page_base minus_mod_eq_mult_div)

definition ex_ram :: "bytes_memory target" where
  "ex_ram tr d m = (if gp_cmd tr = TLM_READ_COMMAND
     then Inr (tr\<lparr>gp_data := poke (gp_len tr) (mem_read m (gp_addr tr) (gp_len tr)) (gp_data tr),
                  gp_resp := TLM_OK_RESPONSE\<rparr>, d, m)
     else Inr (tr\<lparr>gp_resp := TLM_OK_RESPONSE\<rparr>, d, mem_write m (gp_addr tr) (take (gp_len tr) (gp_data tr))))"

definition ex_ram_agent :: "bytes_memory ats_agent" where
  "ex_ram_agent v x m = (\<lparr>ar_resp = TLM_OK_RESPONSE, ar_result_ok = True, ar_addr = v AND NOT (mask 12),
     ar_length = SZ_4K, ar_attr = 6\<rparr>, m)"

lemma ex_ram_surroundings:
  "serves_pages ex_at ex_ram_agent (\<lambda>m. m) (\<lambda>_ a. a)"
  "reads_memory ex_ram (\<lambda>m. m)"
  "stores_memory ex_ram (\<lambda>m. m) (\<lambda>_ a. a)"
  by (simp_all add: serves_pages_def page_agent_def ex_ram_agent_def ex_at_def unat_page_base minus_mod_eq_mult_div
      reads_memory_def stores_memory_def ex_ram_def)

end
