(* ===== verification/Pcie_Steps.thy ===== *)
theory Pcie_Steps
  imports Pcie_Coherent Interleaving
begin

text \<open>
  The four threads of the PCIe accelerator step by step.  A thread gives up control where it waits
  for its event and inside the blocking calls of the ATS socket and the DMA socket, whose other
  ends may wait; everything between two such places runs without interruption.  A thread that is
  inside a call is a program counter with the local variables that are used after the call.  The
  host, the invalidation port and the other threads take their turns in between.
\<close>

section \<open>Program counters\<close>

text \<open>
  Where \<open>do_ats_req\<close> and the DMA access return to, with the local variables of the thread:
  \<open>addr\<close> and \<open>length\<close> of \<open>ats_req_thread\<close>, \<open>virt_addr\<close>, and \<open>virt_addr\<close>, \<open>len\<close>, \<open>ctx\<close>, \<open>data\<close> and
  \<open>md5_len\<close> of \<open>md5_thread\<close>.
\<close>

datatype 'c after_ats =
    Aa_loop u64 u64
  | Aa_read u64
  | Aa_write u64
  | Aa_md5 u64 u64 'c "u8 list"

datatype 'c after_dma =
    Ad_read
  | Ad_write
  | Ad_md5 u64 u64 'c u64

text \<open>
  \<open>In_ats\<close> and \<open>In_dma\<close>: in the call, which has not reached the other end yet; \<open>Ats_back\<close> and
  \<open>Dma_back\<close>: the other end has answered and the call has not returned yet.  The first two
  arguments of the ATS states are \<open>virt_addr\<close> and \<open>length\<close> of \<open>do_ats_req\<close>.
\<close>

datatype 'c pc =
    Idle
  | In_ats u64 u64 "'c after_ats"
  | Ats_back ats_reply u64 u64 "'c after_ats"
  | In_dma gp "'c after_dma"
  | Dma_back gp "'c after_dma"

type_synonym 'c seg = "(acc \<times> 'c pc) res"

section \<open>From one call to the next\<close>

definition finish :: "u32 \<Rightarrow> acc \<Rightarrow> acc \<times> 'c pc" where
  "finish v s = (set_status v s, Idle)"

text \<open>
  The loop of \<open>ats_req_thread\<close> up to the next request; \<open>do_ats_req\<close> makes none when the length
  it works with is 0.
\<close>

function ats_req_seg :: "u64 \<Rightarrow> u64 \<Rightarrow> acc \<Rightarrow> acc \<times> 'c pc" where
  "ats_req_seg addr len s =
     (if len = 0 then finish R_STATUS_DONE s
      else if \<not> atc_contains (ac_atc s) addr \<and> SZ_4K + (addr AND (SZ_4K - 1)) \<noteq> 0 then
        (s, In_ats (addr AND NOT (SZ_4K - 1)) (SZ_4K + (addr AND (SZ_4K - 1))) (Aa_loop addr len))
      else if len < SZ_4K then finish R_STATUS_DONE s
      else ats_req_seg (addr + SZ_4K) (len - SZ_4K) s)"
  by auto
termination
  by (relation "measure (\<lambda>(a, n, s). unat n)") (auto simp: SZ_4K_def word_less_nat_alt unat_sub word_le_nat_alt not_less)

declare ats_req_seg.simps [simp del]

definition md5_read_seg ::
  "ats_attrs \<Rightarrow> atsattr \<Rightarrow> 'c md5_ops \<Rightarrow> u64 \<Rightarrow> u64 \<Rightarrow> 'c \<Rightarrow> u8 list \<Rightarrow> acc \<Rightarrow> 'c seg" where
  "md5_read_seg at x0 ops v len ctx buf s =
     (if \<not> atc_test_attr (ac_atc s) v (ATTR_READ at) then
        Inr (if len \<noteq> 0 then finish (R_STATUS_ERR OR R_STATUS_DONE) s
             else finish R_STATUS_DONE (set_md5_result (md5_final ops ctx) s))
      else let phys = atc_virt_to_phys (ac_atc s) v; n = md5_chunk len phys in
        if length buf < unat n then Inl Out_of_range
        else Inr (s, In_dma (phys_gp at x0 TLM_READ_COMMAND phys buf (unat (ucast n :: u32))) (Ad_md5 v len ctx n)))"

text \<open>The code after \<open>do_ats_req\<close>.\<close>

fun ats_resume :: "ats_attrs \<Rightarrow> atsattr \<Rightarrow> 'c md5_ops \<Rightarrow> 'c after_ats \<Rightarrow> acc \<Rightarrow> 'c seg" where
  "ats_resume at x0 ops (Aa_loop addr len) s =
     Inr (if len < SZ_4K then finish R_STATUS_DONE s else ats_req_seg (addr + SZ_4K) (len - SZ_4K) s)"
| "ats_resume at x0 ops (Aa_read v) s =
     Inr (if atc_test_attr (ac_atc s) v (ATTR_READ at)
          then (s, In_dma (phys_gp at x0 TLM_READ_COMMAND (atc_virt_to_phys (ac_atc s) v) (replicate 4 0) 4) Ad_read)
          else finish R_STATUS_DONE s)"
| "ats_resume at x0 ops (Aa_write v) s =
     Inr (if atc_test_attr (ac_atc s) v (ATTR_WRITE at)
          then (s, In_dma (phys_gp at x0 TLM_WRITE_COMMAND (atc_virt_to_phys (ac_atc s) v)
                             (le_bytes 4 (ar_value (ac_regs s))) 4) Ad_write)
          else finish R_STATUS_DONE s)"
| "ats_resume at x0 ops (Aa_md5 v len ctx buf) s = md5_read_seg at x0 ops v len ctx buf s"

text \<open>The head of the \<open>while (length)\<close> loop of \<open>do_ats_req\<close>, and \<open>if (!contains) do_ats_req\<close>.\<close>

definition ats_head ::
  "ats_attrs \<Rightarrow> atsattr \<Rightarrow> 'c md5_ops \<Rightarrow> u64 \<Rightarrow> u64 \<Rightarrow> 'c after_ats \<Rightarrow> acc \<Rightarrow> 'c seg" where
  "ats_head at x0 ops v len k s =
     (if len = 0 then ats_resume at x0 ops k s else Inr (s, In_ats v len k))"

definition ats_call ::
  "ats_attrs \<Rightarrow> atsattr \<Rightarrow> 'c md5_ops \<Rightarrow> u64 \<Rightarrow> u64 \<Rightarrow> 'c after_ats \<Rightarrow> acc \<Rightarrow> 'c seg" where
  "ats_call at x0 ops v len k s =
     (if atc_contains (ac_atc s) v then ats_resume at x0 ops k s
      else ats_head at x0 ops (v AND NOT (SZ_4K - 1)) (len + (v AND (SZ_4K - 1))) k s)"

text \<open>A request of \<open>do_ats_req\<close> returns with the reply \<open>r\<close>.\<close>

definition ats_return ::
  "ats_attrs \<Rightarrow> atsattr \<Rightarrow> 'c md5_ops \<Rightarrow> ats_reply \<Rightarrow> u64 \<Rightarrow> u64 \<Rightarrow> 'c after_ats \<Rightarrow> acc \<Rightarrow> 'c seg" where
  "ats_return at x0 ops r v len k s =
     (if ar_resp r = TLM_OK_RESPONSE \<and> ar_result_ok r then
        let v' = v AND NOT (ar_length r - 1);
            s' = s\<lparr>ac_atc := ac_atc s @ [\<lparr>rg_virt = v', rg_phys = ar_addr r, rg_length = ar_length r, rg_attr = ar_attr r\<rparr>]\<rparr>
        in if len < ar_length r then ats_resume at x0 ops k s'
           else ats_head at x0 ops (v' + ar_length r) (len - ar_length r) k s'
      else ats_head at x0 ops v len k s)"

text \<open>The head of the \<open>while (len)\<close> loop of \<open>md5_thread\<close>.\<close>

definition md5_head ::
  "ats_attrs \<Rightarrow> atsattr \<Rightarrow> 'c md5_ops \<Rightarrow> u64 \<Rightarrow> u64 \<Rightarrow> 'c \<Rightarrow> u8 list \<Rightarrow> acc \<Rightarrow> 'c seg" where
  "md5_head at x0 ops v len ctx buf s =
     (if len = 0 then Inr (finish R_STATUS_DONE (set_md5_result (md5_final ops ctx) s))
      else ats_call at x0 ops v len (Aa_md5 v len ctx buf) s)"

text \<open>A DMA access returns.\<close>

definition dma_return ::
  "ats_attrs \<Rightarrow> atsattr \<Rightarrow> 'c md5_ops \<Rightarrow> gp \<Rightarrow> 'c after_dma \<Rightarrow> acc \<Rightarrow> 'c seg" where
  "dma_return at x0 ops tr k s =
     (if gp_resp tr \<noteq> TLM_OK_RESPONSE then Inl Assertion_failed
      else case k of
        Ad_read \<Rightarrow> Inr (finish R_STATUS_DONE (s\<lparr>ac_regs := (ac_regs s)\<lparr>ar_value := le_word (take 4 (gp_data tr))\<rparr>\<rparr>))
      | Ad_write \<Rightarrow> Inr (finish R_STATUS_DONE s)
      | Ad_md5 v len ctx n \<Rightarrow>
          md5_head at x0 ops (v + n) (len - n) (md5_update ops ctx (take (unat n) (gp_data tr))) (gp_data tr) s)"

text \<open>A notified thread leaves its \<open>wait\<close>.\<close>

fun start_seg :: "ats_attrs \<Rightarrow> atsattr \<Rightarrow> 'c md5_ops \<Rightarrow> acc_event \<Rightarrow> acc \<Rightarrow> 'c seg" where
  "start_seg at x0 ops Ats_req s = Inr (ats_req_seg (acc_virt_addr (ac_regs s)) (ucast (ar_len (ac_regs s))) s)"
| "start_seg at x0 ops Read_req s =
     ats_call at x0 ops (acc_virt_addr (ac_regs s)) SZ_4K (Aa_read (acc_virt_addr (ac_regs s))) s"
| "start_seg at x0 ops Write_req s =
     ats_call at x0 ops (acc_virt_addr (ac_regs s)) SZ_4K (Aa_write (acc_virt_addr (ac_regs s))) s"
| "start_seg at x0 ops Md5_req s =
     (case md5_init ops of
        None \<Rightarrow> Inr (finish (R_STATUS_ERR OR R_STATUS_DONE) s)
      | Some ctx \<Rightarrow> md5_head at x0 ops (acc_virt_addr (ac_regs s)) (ucast (ar_len (ac_regs s))) ctx (replicate 4096 0) s)"

section \<open>Steps\<close>

text \<open>
  One step of a thread inside a call: the other end answers, or the call returns.
\<close>

fun busy_step ::
  "ats_attrs \<Rightarrow> atsattr \<Rightarrow> 'w ats_agent \<Rightarrow> 'w target \<Rightarrow> 'c md5_ops \<Rightarrow> 'c pc \<Rightarrow> acc \<times> 'w \<Rightarrow> (acc \<times> 'c pc \<times> 'w) res" where
  "busy_step at x0 ats dma ops Idle (s, w) = Inr (s, Idle, w)"
| "busy_step at x0 ats dma ops (In_ats v len k) (s, w) =
     (let (r, w') = ats v (ATTR_WRITE at OR ATTR_READ at OR ATTR_EXEC at) w in Inr (s, Ats_back r v len k, w'))"
| "busy_step at x0 ats dma ops (Ats_back r v len k) (s, w) =
     res_bind (ats_return at x0 ops r v len k s) (\<lambda>(s', p). Inr (s', p, w))"
| "busy_step at x0 ats dma ops (In_dma tr k) (s, w) =
     res_bind (dma tr 0 w) (\<lambda>(tr', _, w'). Inr (s, Dma_back tr' k, w'))"
| "busy_step at x0 ats dma ops (Dma_back tr k) (s, w) =
     res_bind (dma_return at x0 ops tr k s) (\<lambda>(s', p). Inr (s', p, w))"

text \<open>
  The accelerator in its surroundings: the program counters of the threads beside registers,
  cache and notified threads.  A thread inside a call does not wait for its event and misses a
  notification.
\<close>

type_synonym 'c threads = "acc_event \<Rightarrow> 'c pc"

definition drop_missed :: "'c threads \<Rightarrow> acc \<Rightarrow> acc" where
  "drop_missed p s = s\<lparr>ac_events := filter (\<lambda>e. p e = Idle) (ac_events s)\<rparr>"

datatype act = Host nat gp | Inval gp | Thread acc_event

fun sys_step ::
  "ats_attrs \<Rightarrow> atsattr \<Rightarrow> 'w ats_agent \<Rightarrow> 'w target \<Rightarrow> 'c md5_ops \<Rightarrow> act
     \<Rightarrow> acc \<times> 'c threads \<times> 'w \<Rightarrow> (acc \<times> 'c threads \<times> 'w) res" where
  "sys_step at x0 ats dma ops (Host n tr) (s, p, w) =
     res_bind (bar_b_transport n tr 0 s) (\<lambda>(_, _, s'). Inr (drop_missed p s', p, w))"
| "sys_step at x0 ats dma ops (Inval tr) (s, p, w) =
     res_bind (b_transport_ats_inv tr 0 s) (\<lambda>(_, _, s'). Inr (s', p, w))"
| "sys_step at x0 ats dma ops (Thread e) (s, p, w) =
     (if p e \<noteq> Idle then res_bind (busy_step at x0 ats dma ops (p e) (s, w)) (\<lambda>(s', q, w'). Inr (s', p(e := q), w'))
      else if e \<in> set (ac_events s) then
        res_bind (start_seg at x0 ops e (s\<lparr>ac_events := removeAll e (ac_events s)\<rparr>)) (\<lambda>(s', q). Inr (s', p(e := q), w))
      else Inr (s, p, w))"

text \<open>What the actions lead to, in any order and along a given sequence.\<close>

abbreviation reaches ::
  "ats_attrs \<Rightarrow> atsattr \<Rightarrow> 'w ats_agent \<Rightarrow> 'w target \<Rightarrow> 'c md5_ops \<Rightarrow> (act \<Rightarrow> bool)
     \<Rightarrow> acc \<times> 'c threads \<times> 'w \<Rightarrow> (acc \<times> 'c threads \<times> 'w) res \<Rightarrow> bool" where
  "reaches at x0 ats dma ops \<equiv> reach (sys_step at x0 ats dma ops)"

abbreviation sys_run ::
  "ats_attrs \<Rightarrow> atsattr \<Rightarrow> 'w ats_agent \<Rightarrow> 'w target \<Rightarrow> 'c md5_ops \<Rightarrow> act list
     \<Rightarrow> acc \<times> 'c threads \<times> 'w \<Rightarrow> (acc \<times> 'c threads \<times> 'w) res" where
  "sys_run at x0 ats dma ops \<equiv> run_acts (sys_step at x0 ats dma ops)"

text \<open>The steps of a thread, for evaluation.\<close>

lemmas step_simps = ats_call_def ats_head_def ats_return_def md5_head_def md5_read_seg_def md5_chunk_def dma_return_def
  finish_def set_status_def Let_def acc_virt_addr_def atc_contains_def atc_test_attr_def SZ_4K_def rg_contains_def
  R_STATUS_DONE_def acc_new_def ex_ram_agent_def ex_at_def phys_gp_def ex_ram_def
  atc_virt_to_phys_def rg_virt_to_phys_def

lemmas host_simps = bar_b_transport_def acc_write_def drop_missed_def mk_gp_def

end
