(* ===== verification/Pcie_Rest.thy ===== *)
theory Pcie_Rest
  imports Pcie_Steps
begin

text \<open>
  What is left of a command when its thread is inside a call, and that the steps of the thread do
  not change it: the steps of a thread nobody disturbs are the thread as a whole.
\<close>

section \<open>The rest of a command\<close>

definition finish_run :: "acc \<Rightarrow> 'w \<Rightarrow> (acc \<times> 'w) res option" where
  "finish_run s w = Some (Inr (set_status R_STATUS_DONE s, w))"

definition md5_end :: "'c md5_ops \<Rightarrow> acc \<Rightarrow> u64 \<times> 'c \<times> region list \<times> 'w \<Rightarrow> (acc \<times> 'w) res" where
  "md5_end ops s = (\<lambda>(left, ctx, rs, w).
     if left \<noteq> 0 then Inr (set_status (R_STATUS_ERR OR R_STATUS_DONE) (s\<lparr>ac_atc := rs\<rparr>), w)
     else Inr (set_status R_STATUS_DONE (set_md5_result (md5_final ops ctx) (s\<lparr>ac_atc := rs\<rparr>)), w))"

lemma md5_end_atc [simp]: "md5_end ops (s\<lparr>ac_atc := rs\<rparr>) = md5_end ops s"
  by (rule ext) (auto simp: md5_end_def)

definition md5_rest ::
  "ats_attrs \<Rightarrow> atsattr \<Rightarrow> 'w ats_agent \<Rightarrow> 'w target \<Rightarrow> 'c md5_ops \<Rightarrow> u64 \<Rightarrow> u64 \<Rightarrow> 'c \<Rightarrow> u8 list \<Rightarrow> acc \<Rightarrow> 'w
     \<Rightarrow> (acc \<times> 'w) res option" where
  "md5_rest at x0 ats dma ops v len ctx buf s w =
     Option.bind (md5_loop at x0 ats dma ops v len ctx buf (ac_atc s) w) (\<lambda>r. Some (res_bind r (md5_end ops s)))"

definition ats_rest ::
  "ats_attrs \<Rightarrow> 'w ats_agent \<Rightarrow> u64 \<Rightarrow> u64 \<Rightarrow> acc \<Rightarrow> 'w \<Rightarrow> (acc \<times> 'w) res option" where
  "ats_rest at ats addr len s w =
     Option.bind (ats_req_loop at ats addr len (ac_atc s) w) (\<lambda>(rs, w'). finish_run (s\<lparr>ac_atc := rs\<rparr>) w')"

fun rest_dma_back ::
  "ats_attrs \<Rightarrow> atsattr \<Rightarrow> 'w ats_agent \<Rightarrow> 'w target \<Rightarrow> 'c md5_ops \<Rightarrow> gp \<Rightarrow> 'c after_dma \<Rightarrow> acc \<Rightarrow> 'w
     \<Rightarrow> (acc \<times> 'w) res option" where
  "rest_dma_back at x0 ats dma ops tr k s w =
     (if gp_resp tr \<noteq> TLM_OK_RESPONSE then Some (Inl Assertion_failed)
      else case k of
        Ad_read \<Rightarrow> finish_run (s\<lparr>ac_regs := (ac_regs s)\<lparr>ar_value := le_word (take 4 (gp_data tr))\<rparr>\<rparr>) w
      | Ad_write \<Rightarrow> finish_run s w
      | Ad_md5 v len ctx n \<Rightarrow>
          md5_rest at x0 ats dma ops (v + n) (len - n) (md5_update ops ctx (take (unat n) (gp_data tr))) (gp_data tr) s w)"

definition rest_in_dma ::
  "ats_attrs \<Rightarrow> atsattr \<Rightarrow> 'w ats_agent \<Rightarrow> 'w target \<Rightarrow> 'c md5_ops \<Rightarrow> gp \<Rightarrow> 'c after_dma \<Rightarrow> acc \<Rightarrow> 'w
     \<Rightarrow> (acc \<times> 'w) res option" where
  "rest_in_dma at x0 ats dma ops tr k s w =
     (case dma tr 0 w of Inl e \<Rightarrow> Some (Inl e) | Inr (tr', _, w') \<Rightarrow> rest_dma_back at x0 ats dma ops tr' k s w')"

fun rest_after ::
  "ats_attrs \<Rightarrow> atsattr \<Rightarrow> 'w ats_agent \<Rightarrow> 'w target \<Rightarrow> 'c md5_ops \<Rightarrow> 'c after_ats \<Rightarrow> acc \<Rightarrow> 'w
     \<Rightarrow> (acc \<times> 'w) res option" where
  "rest_after at x0 ats dma ops (Aa_loop addr len) s w =
     (if len < SZ_4K then finish_run s w else ats_rest at ats (addr + SZ_4K) (len - SZ_4K) s w)"
| "rest_after at x0 ats dma ops (Aa_read v) s w =
     (if atc_test_attr (ac_atc s) v (ATTR_READ at)
      then rest_in_dma at x0 ats dma ops (phys_gp at x0 TLM_READ_COMMAND (atc_virt_to_phys (ac_atc s) v) (replicate 4 0) 4) Ad_read s w
      else finish_run s w)"
| "rest_after at x0 ats dma ops (Aa_write v) s w =
     (if atc_test_attr (ac_atc s) v (ATTR_WRITE at)
      then rest_in_dma at x0 ats dma ops (phys_gp at x0 TLM_WRITE_COMMAND (atc_virt_to_phys (ac_atc s) v)
             (le_bytes 4 (ar_value (ac_regs s))) 4) Ad_write s w
      else finish_run s w)"
| "rest_after at x0 ats dma ops (Aa_md5 v len ctx buf) s w =
     (if \<not> atc_test_attr (ac_atc s) v (ATTR_READ at) then Some (md5_end ops s (len, ctx, ac_atc s, w))
      else let phys = atc_virt_to_phys (ac_atc s) v; n = md5_chunk len phys in
        if length buf < unat n then Some (Inl Out_of_range)
        else rest_in_dma at x0 ats dma ops (phys_gp at x0 TLM_READ_COMMAND phys buf (unat (ucast n :: u32))) (Ad_md5 v len ctx n) s w)"

definition rest_loop ::
  "ats_attrs \<Rightarrow> atsattr \<Rightarrow> 'w ats_agent \<Rightarrow> 'w target \<Rightarrow> 'c md5_ops \<Rightarrow> u64 \<Rightarrow> u64 \<Rightarrow> 'c after_ats \<Rightarrow> acc \<Rightarrow> 'w
     \<Rightarrow> (acc \<times> 'w) res option" where
  "rest_loop at x0 ats dma ops v len k s w =
     Option.bind (ats_loop at ats v len (ac_atc s) w) (\<lambda>(rs, w'). rest_after at x0 ats dma ops k (s\<lparr>ac_atc := rs\<rparr>) w')"

definition rest_ats_back ::
  "ats_attrs \<Rightarrow> atsattr \<Rightarrow> 'w ats_agent \<Rightarrow> 'w target \<Rightarrow> 'c md5_ops \<Rightarrow> ats_reply \<Rightarrow> u64 \<Rightarrow> u64 \<Rightarrow> 'c after_ats \<Rightarrow> acc \<Rightarrow> 'w
     \<Rightarrow> (acc \<times> 'w) res option" where
  "rest_ats_back at x0 ats dma ops r v len k s w =
     (if ar_resp r = TLM_OK_RESPONSE \<and> ar_result_ok r then
        let v' = v AND NOT (ar_length r - 1);
            s' = s\<lparr>ac_atc := ac_atc s @ [\<lparr>rg_virt = v', rg_phys = ar_addr r, rg_length = ar_length r, rg_attr = ar_attr r\<rparr>]\<rparr>
        in if len < ar_length r then rest_after at x0 ats dma ops k s' w
           else rest_loop at x0 ats dma ops (v' + ar_length r) (len - ar_length r) k s' w
      else rest_loop at x0 ats dma ops v len k s w)"

fun rest_pc ::
  "ats_attrs \<Rightarrow> atsattr \<Rightarrow> 'w ats_agent \<Rightarrow> 'w target \<Rightarrow> 'c md5_ops \<Rightarrow> 'c pc \<Rightarrow> acc \<Rightarrow> 'w \<Rightarrow> (acc \<times> 'w) res option" where
  "rest_pc at x0 ats dma ops Idle s w = Some (Inr (s, w))"
| "rest_pc at x0 ats dma ops (In_ats v len k) s w =
     (let (r, w') = ats v (ATTR_WRITE at OR ATTR_READ at OR ATTR_EXEC at) w in rest_ats_back at x0 ats dma ops r v len k s w')"
| "rest_pc at x0 ats dma ops (Ats_back r v len k) s w = rest_ats_back at x0 ats dma ops r v len k s w"
| "rest_pc at x0 ats dma ops (In_dma tr k) s w = rest_in_dma at x0 ats dma ops tr k s w"
| "rest_pc at x0 ats dma ops (Dma_back tr k) s w = rest_dma_back at x0 ats dma ops tr k s w"

definition rest_seg ::
  "ats_attrs \<Rightarrow> atsattr \<Rightarrow> 'w ats_agent \<Rightarrow> 'w target \<Rightarrow> 'c md5_ops \<Rightarrow> 'c seg \<Rightarrow> 'w \<Rightarrow> (acc \<times> 'w) res option" where
  "rest_seg at x0 ats dma ops g w = (case g of Inl e \<Rightarrow> Some (Inl e) | Inr (s, p) \<Rightarrow> rest_pc at x0 ats dma ops p s w)"

lemma rest_seg_simps [simp]:
  "rest_seg at x0 ats dma ops (Inl e) w = Some (Inl e)"
  "rest_seg at x0 ats dma ops (Inr (s, p)) w = rest_pc at x0 ats dma ops p s w"
  "rest_seg at x0 ats dma ops (Inr (finish R_STATUS_DONE s)) w = finish_run s w"
  by (simp_all add: rest_seg_def finish_def finish_run_def)

section \<open>Segments\<close>

lemma ats_loop_rest:
  "len \<noteq> 0 \<Longrightarrow> rest_pc at x0 ats dma ops (In_ats v len k) s w = rest_loop at x0 ats dma ops v len k s w"
  by (cases "ats v (ATTR_WRITE at OR ATTR_READ at OR ATTR_EXEC at) w")
    (simp add: rest_loop_def rest_ats_back_def ats_loop.simps [of at ats v len "ac_atc s" w] Let_def)

lemma rest_ats_req_seg:
  fixes ops :: "'c md5_ops"
  shows "rest_seg at x0 ats dma ops (Inr (ats_req_seg addr len s)) w = ats_rest at ats addr len s w"
proof (induction "unat len" arbitrary: addr len s rule: less_induct)
  case less
  let ?l = "SZ_4K + (addr AND (SZ_4K - 1))" and ?v = "addr AND NOT (SZ_4K - 1)"
  show ?case
  proof (cases "len = 0")
    case True
    then show ?thesis by (simp add: ats_req_seg.simps ats_rest_def ats_req_loop.simps)
  next
    case False
    have rec: "rest_seg at x0 ats dma ops (Inr (ats_req_seg (addr + SZ_4K) (len - SZ_4K) s)) w =
        ats_rest at ats (addr + SZ_4K) (len - SZ_4K) s w" if "\<not> len < SZ_4K"
    proof (rule less.hyps)
      show "unat (len - SZ_4K) < unat len"
        using that by (simp add: not_less unat_sub page_4K word_le_nat_alt)
    qed
    show ?thesis
    proof (cases "atc_contains (ac_atc s) addr \<or> ?l = 0")
      case True
      then have "translate at ats addr SZ_4K (ac_atc s) w = Some (ac_atc s, w)"
        by (auto simp: translate_def do_ats_req_def ats_loop.simps)
      then have "ats_rest at ats addr len s w =
          (if len < SZ_4K then finish_run s w else ats_rest at ats (addr + SZ_4K) (len - SZ_4K) s w)"
        using False by (simp add: ats_rest_def ats_req_loop.simps [of at ats addr len])
      moreover have "(ats_req_seg addr len s :: acc \<times> 'c pc) =
          (if len < SZ_4K then finish R_STATUS_DONE s else ats_req_seg (addr + SZ_4K) (len - SZ_4K) s)"
        using False True by (subst ats_req_seg.simps) auto
      ultimately show ?thesis using rec by simp
    next
      case notin: False
      then have "(ats_req_seg addr len s :: acc \<times> 'c pc) = (s, In_ats ?v ?l (Aa_loop addr len))"
        using False by (subst ats_req_seg.simps) auto
      moreover have "ats_rest at ats addr len s w = rest_loop at x0 ats dma ops ?v ?l (Aa_loop addr len) s w"
        using False notin
        by (auto simp: ats_rest_def ats_req_loop.simps [of at ats addr len] rest_loop_def translate_def do_ats_req_def
            split: Option.bind_split intro!: bind_option_cong)
      ultimately show ?thesis using notin by (simp add: ats_loop_rest del: rest_pc.simps)
    qed
  qed
qed

lemma rest_ats_resume: "rest_seg at x0 ats dma ops (ats_resume at x0 ops k s) w = rest_after at x0 ats dma ops k s w"
proof (cases k)
  case (Aa_md5 v len ctx buf)
  then show ?thesis
    by (auto simp: md5_read_seg_def md5_end_def finish_def rest_seg_def set_status_def Let_def)
qed (auto simp: rest_ats_req_seg)

lemma rest_ats_head: "rest_seg at x0 ats dma ops (ats_head at x0 ops v len k s) w = rest_loop at x0 ats dma ops v len k s w"
proof (cases "len = 0")
  case True
  then show ?thesis by (simp add: ats_head_def rest_ats_resume rest_loop_def ats_loop.simps)
next
  case False
  then show ?thesis by (simp add: ats_head_def ats_loop_rest del: rest_pc.simps)
qed

lemma rest_ats_call: "rest_seg at x0 ats dma ops (ats_call at x0 ops v len k s) w =
    Option.bind (translate at ats v len (ac_atc s) w) (\<lambda>(rs, w'). rest_after at x0 ats dma ops k (s\<lparr>ac_atc := rs\<rparr>) w')"
  by (simp add: ats_call_def rest_ats_resume rest_ats_head translate_def do_ats_req_def rest_loop_def)

lemma rest_md5_head:
  "rest_seg at x0 ats dma ops (md5_head at x0 ops v len ctx buf s) w = md5_rest at x0 ats dma ops v len ctx buf s w"
proof (cases "len = 0")
  case True
  then show ?thesis by (simp add: md5_head_def md5_rest_def md5_loop.simps md5_end_def finish_run_def)
next
  case False
  show ?thesis
  proof (cases "translate at ats v len (ac_atc s) w")
    case None
    then show ?thesis using False by (simp add: md5_head_def rest_ats_call md5_rest_def md5_loop.simps [of _ _ _ _ _ v])
  next
    case (Some rw)
    obtain rs w' where rw: "rw = (rs, w')" by force
    let ?phys = "atc_virt_to_phys rs v" and ?n = "md5_chunk len (atc_virt_to_phys rs v)"
    show ?thesis
      using False Some unfolding rw
      by (cases "dma (phys_gp at x0 TLM_READ_COMMAND ?phys buf (unat (ucast ?n :: u32))) 0 w'")
        (auto simp: md5_head_def rest_ats_call md5_rest_def md5_loop.simps [of _ _ _ _ _ v] Let_def phys_read_def
          rest_in_dma_def)
  qed
qed

lemma rest_ats_return:
  "rest_seg at x0 ats dma ops (ats_return at x0 ops r v len k s) w = rest_ats_back at x0 ats dma ops r v len k s w"
  by (simp add: ats_return_def rest_ats_back_def rest_ats_resume rest_ats_head Let_def)

lemma rest_dma_return:
  "rest_seg at x0 ats dma ops (dma_return at x0 ops tr k s) w = rest_dma_back at x0 ats dma ops tr k s w"
  by (cases k) (auto simp: dma_return_def rest_md5_head)

text \<open>A thread as a whole.\<close>

definition run_thread ::
  "ats_attrs \<Rightarrow> atsattr \<Rightarrow> 'w ats_agent \<Rightarrow> 'w target \<Rightarrow> 'c md5_ops \<Rightarrow> acc_event \<Rightarrow> acc \<times> 'w \<Rightarrow> (acc \<times> 'w) res option" where
  "run_thread at x0 ats dma ops e sw =
     (case e of
        Ats_req \<Rightarrow> map_option Inr (ats_req_run at ats sw)
      | Read_req \<Rightarrow> read_run at x0 ats dma sw
      | Write_req \<Rightarrow> write_run at x0 ats dma sw
      | Md5_req \<Rightarrow> md5_run at x0 ats dma ops sw)"

lemma rest_start_seg:
  "rest_seg at x0 ats dma ops (start_seg at x0 ops e s) w = run_thread at x0 ats dma ops e (s, w)"
proof (cases e)
  case Ats_req
  then show ?thesis
    by (auto simp: run_thread_def rest_ats_req_seg ats_rest_def ats_req_run_def finish_run_def split: Option.bind_split)
next
  case Read_req
  then show ?thesis
    by (auto simp: run_thread_def rest_ats_call read_run_def Let_def finish_run_def rest_in_dma_def phys_read32_def
        phys_read_def res_bind_def intro!: bind_option_cong split: sum.split)
next
  case Write_req
  then show ?thesis
    by (auto simp: run_thread_def rest_ats_call write_run_def Let_def finish_run_def rest_in_dma_def phys_write32_def
        res_bind_def intro!: bind_option_cong split: sum.split)
next
  case Md5_req
  then show ?thesis
    by (auto simp: run_thread_def rest_md5_head md5_rest_def md5_run_def finish_def md5_end_def [abs_def] split_def Let_def
        split: option.split)
qed

text \<open>A step of a thread inside a call leaves the rest of its command as it is.\<close>

lemma rest_busy_step:
  "rest_pc at x0 ats dma ops p s w =
     (case busy_step at x0 ats dma ops p (s, w) of Inl e \<Rightarrow> Some (Inl e) | Inr (s', p', w') \<Rightarrow> rest_pc at x0 ats dma ops p' s' w')"
proof (cases p)
  case (Ats_back r v len k)
  then show ?thesis
    using rest_ats_return [of at x0 ats dma ops r v len k s w, symmetric]
    by (cases "ats_return at x0 ops r v len k s") auto
next
  case (Dma_back tr k)
  then show ?thesis
    using rest_dma_return [of at x0 ats dma ops tr k s w, symmetric]
    by (cases "dma_return at x0 ops tr k s") (auto simp del: rest_dma_back.simps)
next
  case (In_dma tr k)
  then show ?thesis by (cases "dma tr 0 w") (auto simp: rest_in_dma_def simp del: rest_dma_back.simps)
qed (auto split: prod.split)

end
