(* ===== verification/Pcie_Schedules.thy ===== *)
theory Pcie_Schedules
  imports Pcie_Rest
begin

text \<open>
  Commands under every schedule of the simulator: what a host that polls the accelerator can see,
  and that a command ends.
\<close>

section \<open>Registers between the start and the end of a command\<close>

text \<open>
  A thread that gives up control inside a call has not touched the registers; one that is back at
  its \<open>wait\<close> has set the status.
\<close>

definition keeps_regs :: "acc \<Rightarrow> 'c seg \<Rightarrow> bool" where
  "keeps_regs s g \<longleftrightarrow> (\<forall>s' q. g = Inr (s', q) \<longrightarrow> ac_events s' = ac_events s \<and>
     (if q = Idle then ar_status (ac_regs s') \<noteq> 0 else ac_regs s' = ac_regs s))"

lemma keeps_regs_simps [simp]:
  "keeps_regs s (Inl e)"
  "q \<noteq> Idle \<Longrightarrow> keeps_regs s (Inr (s', q)) \<longleftrightarrow> ac_events s' = ac_events s \<and> ac_regs s' = ac_regs s"
  "keeps_regs s (Inr (s', Idle)) \<longleftrightarrow> ac_events s' = ac_events s \<and> ar_status (ac_regs s') \<noteq> 0"
  by (auto simp: keeps_regs_def)

lemma status_not_0 [simp]: "R_STATUS_DONE \<noteq> 0" "R_STATUS_ERR OR R_STATUS_DONE \<noteq> 0"
  by (simp_all add: R_STATUS_DONE_def R_STATUS_ERR_def)

lemma keeps_regs_finish [simp]:
  "ac_events s' = ac_events s \<Longrightarrow> keeps_regs s (Inr (finish R_STATUS_DONE s'))"
  "ac_events s' = ac_events s \<Longrightarrow> keeps_regs s (Inr (finish (R_STATUS_ERR OR R_STATUS_DONE) s'))"
  by (simp_all add: finish_def set_status_def)

lemma keeps_regs_same:
  "ac_regs s1 = ac_regs s \<Longrightarrow> ac_events s1 = ac_events s \<Longrightarrow> keeps_regs s1 g \<Longrightarrow> keeps_regs s g"
  unfolding keeps_regs_def by metis

lemma keeps_ats_req_seg: "keeps_regs s (Inr (ats_req_seg addr len s) :: 'c seg)"
proof (induction "unat len" arbitrary: addr len rule: less_induct)
  case less
  have "keeps_regs s (Inr (ats_req_seg (addr + SZ_4K) (len - SZ_4K) s) :: 'c seg)" if "\<not> len < SZ_4K"
  proof (rule less.hyps)
    show "unat (len - SZ_4K) < unat len"
      using that by (simp add: not_less unat_sub page_4K word_le_nat_alt)
  qed
  then show ?case by (subst ats_req_seg.simps) simp
qed

lemma keeps_ats_resume: "keeps_regs s (ats_resume at x0 ops k s)"
  by (cases k) (auto simp: keeps_ats_req_seg md5_read_seg_def Let_def set_md5_result_def)

lemma keeps_ats_head: "keeps_regs s (ats_head at x0 ops v len k s)"
  by (simp add: ats_head_def keeps_ats_resume)

lemma keeps_ats_call: "keeps_regs s (ats_call at x0 ops v len k s)"
  by (simp add: ats_call_def keeps_ats_resume keeps_ats_head)

lemma keeps_md5_head: "keeps_regs s (md5_head at x0 ops v len ctx buf s)"
  by (simp add: md5_head_def keeps_ats_call set_md5_result_def)

lemma keeps_ats_return: "keeps_regs s (ats_return at x0 ops r v len k s)"
  unfolding ats_return_def Let_def
  by (auto intro: keeps_ats_head keeps_regs_same [OF _ _ keeps_ats_resume] keeps_regs_same [OF _ _ keeps_ats_head])

lemma keeps_dma_return: "keeps_regs s (dma_return at x0 ops tr k s)"
  by (cases k) (auto simp: dma_return_def keeps_md5_head)

lemma keeps_start_seg: "keeps_regs s (start_seg at x0 ops e s)"
  by (cases e) (auto simp: keeps_ats_req_seg keeps_ats_call keeps_md5_head split: option.split)

lemma keeps_busy_step:
  assumes "busy_step at x0 ats dma ops p (s, w) = Inr (s', q, w')" "p \<noteq> Idle"
  shows "keeps_regs s (Inr (s', q))"
proof (cases p)
  case (Ats_back r v len k)
  then have "ats_return at x0 ops r v len k s = Inr (s', q)"
    using assms(1) by (auto simp: res_bind_eq_Inr)
  then show ?thesis using keeps_ats_return [of s at x0 ops r v len k] by simp
next
  case (Dma_back tr k)
  then have "dma_return at x0 ops tr k s = Inr (s', q)"
    using assms(1) by (auto simp: res_bind_eq_Inr)
  then show ?thesis using keeps_dma_return [of s at x0 ops tr k] by simp
qed (use assms in \<open>auto simp: res_bind_eq_Inr split: prod.splits\<close>)

section \<open>One command, seen by a host that polls\<close>

text \<open>The host reads registers, the threads run; no translation is invalidated.\<close>

fun host_reads :: "act \<Rightarrow> bool" where
  "host_reads (Host n tr) \<longleftrightarrow> gp_cmd tr \<noteq> TLM_WRITE_COMMAND"
| "host_reads (Inval tr) \<longleftrightarrow> False"
| "host_reads (Thread e) \<longleftrightarrow> True"

lemma bar_read_same:
  "gp_cmd tr \<noteq> TLM_WRITE_COMMAND \<Longrightarrow> \<exists>tr'. bar_b_transport n tr d s = Inr (tr', d, s)"
  by (cases "gp_cmd tr") (auto simp: bar_b_transport_def)

text \<open>
  A command is pending, running or over: where it stands, with \<open>s\<close> and \<open>w\<close> the state in which the
  host has notified the thread \<open>e\<close>.
\<close>

fun stands ::
  "ats_attrs \<Rightarrow> atsattr \<Rightarrow> 'w ats_agent \<Rightarrow> 'w target \<Rightarrow> 'c md5_ops \<Rightarrow> acc_event \<Rightarrow> acc \<Rightarrow> 'w
     \<Rightarrow> (acc \<times> 'c threads \<times> 'w) res \<Rightarrow> bool" where
  "stands at x0 ats dma ops e s w (Inl err) \<longleftrightarrow>
     run_thread at x0 ats dma ops e (s\<lparr>ac_events := []\<rparr>, w) = Some (Inl err)"
| "stands at x0 ats dma ops e s w (Inr (s', p, w')) \<longleftrightarrow>
     (\<forall>e'. e' \<noteq> e \<longrightarrow> p e' = Idle) \<and>
     (if ac_events s' = [e] then s' = s \<and> w' = w \<and> p e = Idle
      else ac_events s' = [] \<and> (if p e = Idle then ar_status (ac_regs s') \<noteq> 0 else ac_regs s' = ac_regs s) \<and>
        rest_pc at x0 ats dma ops (p e) s' w' = run_thread at x0 ats dma ops e (s\<lparr>ac_events := []\<rparr>, w))"

lemma stands_step:
  assumes "stands at x0 ats dma ops e s w (Inr (s1, p, w1))" "ac_events s = [e]" "host_reads a"
  shows "stands at x0 ats dma ops e s w (sys_step at x0 ats dma ops a (s1, p, w1))"
proof (cases a)
  case (Host n tr)
  then obtain tr' where "bar_b_transport n tr 0 s1 = Inr (tr', 0, s1)" using bar_read_same assms(3) by fastforce
  moreover have "drop_missed p s1 = s1" using assms(1) by (auto simp: drop_missed_def split: if_splits)
  ultimately show ?thesis using Host assms(1) by simp
next
  case (Thread e')
  show ?thesis
  proof (cases "p e' = Idle")
    case True
    show ?thesis
    proof (cases "e' \<in> set (ac_events s1)")
      case notified: True
      then have e: "e' = e" "ac_events s1 = [e]" "s1 = s" "w1 = w" "p e = Idle"
        using assms(1) by (auto split: if_splits)
      let ?s = "s\<lparr>ac_events := []\<rparr>"
      have r: "rest_seg at x0 ats dma ops (start_seg at x0 ops e ?s) w = run_thread at x0 ats dma ops e (?s, w)"
        by (rule rest_start_seg)
      have k: "keeps_regs ?s (start_seg at x0 ops e ?s)" by (rule keeps_start_seg)
      show ?thesis
      proof (cases "start_seg at x0 ops e ?s")
        case (Inl err)
        then show ?thesis using Thread e r by simp
      next
        case (Inr sq)
        obtain s' q where sq: "sq = (s', q)" by force
        have "ac_events s' = []" using k unfolding Inr sq by (simp add: keeps_regs_def)
        moreover have "if q = Idle then ar_status (ac_regs s') \<noteq> 0 else ac_regs s' = ac_regs s"
          using k unfolding Inr sq by (auto simp: keeps_regs_def)
        ultimately show ?thesis using Thread e r Inr sq assms(1) by simp
      qed
    next
      case False
      then show ?thesis using Thread True assms(1) by simp
    qed
  next
    case False
    then have e: "e' = e" "ac_events s1 = []" "ac_regs s1 = ac_regs s"
      "rest_pc at x0 ats dma ops (p e) s1 w1 = run_thread at x0 ats dma ops e (s\<lparr>ac_events := []\<rparr>, w)"
      using assms(1) by (auto split: if_splits)
    note r = rest_busy_step [of at x0 ats dma ops "p e" s1 w1]
    show ?thesis
    proof (cases "busy_step at x0 ats dma ops (p e) (s1, w1)")
      case (Inl err)
      then show ?thesis using Thread e r False by simp
    next
      case (Inr sq)
      obtain s' q w' where sq: "sq = (s', q, w')" by (cases sq)
      have k: "keeps_regs s1 (Inr (s', q))"
        using keeps_busy_step [of at x0 ats dma ops "p e" s1 w1 s' q w'] Inr sq False e(1) by simp
      then show ?thesis using Thread e r Inr sq False assms(1) by (auto simp: keeps_regs_def)
    qed
  qed
qed (use assms in simp)

lemma stands_start: "ac_events s = [e] \<Longrightarrow> stands at x0 ats dma ops e s w (Inr (s, \<lambda>_. Idle, w))"
  by simp

lemma stands_reaches:
  assumes "reaches at x0 ats dma ops host_reads (s, \<lambda>_. Idle, w) r" "ac_events s = [e]"
  shows "stands at x0 ats dma ops e s w r"
proof (rule reach_invariant [where I = "stands at x0 ats dma ops e s w", OF assms(1) stands_start [OF assms(2)]])
  show "stands at x0 ats dma ops e s w (sys_step at x0 ats dma ops a st)"
    if "stands at x0 ats dma ops e s w (Inr st)" "host_reads a" for st a
    using that by (cases st) (simp only: stands_step [OF _ assms(2)])
qed

text \<open>
  Property C3: a command that the host has given to the accelerator at rest, with a cleared status, and then
  only polls: whatever order the simulator runs the threads in and however long the calls take,
  the status stays 0 and the registers stay as the host has left them until the command is over;
  and once the host reads another status, the accelerator is at rest again and its registers,
  its cache and the rest of the system are those the command as a whole gives.  A failed assertion
  is one of the command as a whole.
\<close>

theorem polled_command_is_atomic:
  assumes "reaches at x0 ats dma ops host_reads (s, \<lambda>_. Idle, w) r"
    and "ac_events s = [e]" "ar_status (ac_regs s) = 0"
  shows "case r of
     Inl err \<Rightarrow> run_thread at x0 ats dma ops e (s\<lparr>ac_events := []\<rparr>, w) = Some (Inl err)
   | Inr (s', p, w') \<Rightarrow>
       if ar_status (ac_regs s') = 0 then ac_regs s' = ac_regs s
       else p = (\<lambda>_. Idle) \<and> ac_events s' = [] \<and>
         run_thread at x0 ats dma ops e (s\<lparr>ac_events := []\<rparr>, w) = Some (Inr (s', w'))"
proof (cases r)
  case (Inl err)
  then show ?thesis using stands_reaches [OF assms(1,2)] by simp
next
  case (Inr spw)
  obtain s' p w' where "spw = (s', p, w')" by (cases spw)
  then have st: "stands at x0 ats dma ops e s w (Inr (s', p, w'))"
    using stands_reaches [OF assms(1,2)] Inr by simp
  show ?thesis
  proof (cases "ac_events s' = [e] \<or> p e \<noteq> Idle")
    case True
    then show ?thesis using st assms(3) Inr \<open>spw = _\<close> by (auto split: if_splits)
  next
    case False
    then have "p e' = Idle" for e' using st by (cases "e' = e") simp_all
    then have "p = (\<lambda>_. Idle)" by blast
    then show ?thesis using st False Inr \<open>spw = _\<close> by simp
  qed
qed

theorem polled_command_is_atomic_witness:
  "\<exists>s' w'. ar_status (ac_regs s') = R_STATUS_DONE \<and>
     run_thread ex_at ex_x0 ex_ram_agent ex_ram \<lparr>md5_init = Some [], md5_update = (@), md5_final = (\<lambda>c. c)\<rparr> Read_req
       (acc_new\<lparr>ac_events := [Read_req], ac_events := []\<rparr>, \<lambda>_. 0) = Some (Inr (s', w'))"
proof -
  let ?ops = "\<lparr>md5_init = Some [], md5_update = (@), md5_final = (\<lambda>c. c)\<rparr> :: u8 list md5_ops"
  let ?s = "acc_new\<lparr>ac_events := [Read_req]\<rparr>" and ?T = "Thread Read_req"
  have "\<exists>s' P w'. sys_run ex_at ex_x0 ex_ram_agent ex_ram ?ops [?T, ?T, ?T, ?T, ?T] (?s, \<lambda>_. Idle, \<lambda>_. 0) = Inr (s', P, w') \<and>
      ar_status (ac_regs s') = R_STATUS_DONE"
    by (simp add: step_simps)
  then obtain s' P w' where r: "sys_run ex_at ex_x0 ex_ram_agent ex_ram ?ops [?T, ?T, ?T, ?T, ?T] (?s, \<lambda>_. Idle, \<lambda>_. 0) =
      Inr (s', P, w')" "ar_status (ac_regs s') = R_STATUS_DONE" by blast
  have "reaches ex_at ex_x0 ex_ram_agent ex_ram ?ops host_reads (?s, \<lambda>_. Idle, \<lambda>_. 0) (Inr (s', P, w'))"
    unfolding r(1) [symmetric] by (rule run_acts_reach) simp
  from polled_command_is_atomic [OF this, of Read_req] r(2) show ?thesis by (auto simp: acc_new_def)
qed

section \<open>A command ends\<close>

text \<open>\<open>settles n p s w r\<close>: the thread at \<open>p\<close> is back at its \<open>wait\<close>, or has failed, within \<open>n\<close> steps of its own.\<close>

inductive settles ::
  "ats_attrs \<Rightarrow> atsattr \<Rightarrow> 'w ats_agent \<Rightarrow> 'w target \<Rightarrow> 'c md5_ops \<Rightarrow> nat \<Rightarrow> 'c pc \<Rightarrow> acc \<Rightarrow> 'w
     \<Rightarrow> (acc \<times> 'w) res \<Rightarrow> bool"
  for at x0 ats dma ops where
  settles_idle: "settles at x0 ats dma ops n Idle s w (Inr (s, w))"
| settles_fail: "p \<noteq> Idle \<Longrightarrow> busy_step at x0 ats dma ops p (s, w) = Inl e \<Longrightarrow>
     settles at x0 ats dma ops (Suc n) p s w (Inl e)"
| settles_step: "p \<noteq> Idle \<Longrightarrow> busy_step at x0 ats dma ops p (s, w) = Inr (s', p', w') \<Longrightarrow>
     settles at x0 ats dma ops n p' s' w' r \<Longrightarrow> settles at x0 ats dma ops (Suc n) p s w r"

text \<open>The same of the result of a segment.\<close>

definition seg_settles ::
  "ats_attrs \<Rightarrow> atsattr \<Rightarrow> 'w ats_agent \<Rightarrow> 'w target \<Rightarrow> 'c md5_ops \<Rightarrow> 'c seg \<Rightarrow> 'w \<Rightarrow> (acc \<times> 'w) res \<Rightarrow> bool" where
  "seg_settles at x0 ats dma ops g w r \<longleftrightarrow>
     (case g of Inl e \<Rightarrow> r = Inl e | Inr (s, p) \<Rightarrow> \<exists>n. settles at x0 ats dma ops n p s w r)"

lemma seg_settles_simps [simp]:
  "seg_settles at x0 ats dma ops (Inl e) w r \<longleftrightarrow> r = Inl e"
  "seg_settles at x0 ats dma ops (Inr (s, p)) w r \<longleftrightarrow> (\<exists>n. settles at x0 ats dma ops n p s w r)"
  by (simp_all add: seg_settles_def)

lemma settles_finish: "finish_run s w = Some r \<Longrightarrow> seg_settles at x0 ats dma ops (Inr (finish R_STATUS_DONE s)) w r"
  by (auto simp: finish_run_def finish_def intro: settles_idle)

lemma settles_busy:
  assumes "p \<noteq> Idle" "busy_step at x0 ats dma ops p (s, w) = res_bind g (\<lambda>(s', q). Inr (s', q, w'))"
    and "seg_settles at x0 ats dma ops g w' r"
  shows "\<exists>n. settles at x0 ats dma ops n p s w r"
proof (cases g)
  case (Inl e)
  then show ?thesis using assms settles_fail [of p at x0 ats dma ops s w e 0] by auto
next
  case (Inr sq)
  obtain s' q where sq: "sq = (s', q)" by force
  then obtain n where "settles at x0 ats dma ops n q s' w' r" using assms(3) Inr by auto
  then have "settles at x0 ats dma ops (Suc n) p s w r"
    by (rule settles_step [OF assms(1), rotated]) (use assms(2) Inr sq in simp)
  then show ?thesis by blast
qed

text \<open>An access to the DMA socket.\<close>

lemma settles_in_dma:
  assumes "\<And>tr' w' d. dma tr 0 w = Inr (tr', d, w') \<Longrightarrow> seg_settles at x0 ats dma ops (dma_return at x0 ops tr' k s) w' r"
    and "\<And>e. dma tr 0 w = Inl e \<Longrightarrow> r = Inl e"
  shows "seg_settles at x0 ats dma ops (Inr (s, In_dma tr k)) w r"
proof (cases "dma tr 0 w")
  case (Inl e)
  then show ?thesis using assms(2) [OF Inl] settles_fail [of "In_dma tr k" at x0 ats dma ops s w e 0] by auto
next
  case (Inr tdw)
  obtain tr' d w' where tdw: "tdw = (tr', d, w')" by (cases tdw)
  have "seg_settles at x0 ats dma ops (dma_return at x0 ops tr' k s) w' r" using assms(1) Inr tdw by blast
  then obtain n where "settles at x0 ats dma ops n (Dma_back tr' k) s w' r"
    using settles_busy [of "Dma_back tr' k" at x0 ats dma ops s w' "dma_return at x0 ops tr' k s" w' r] by auto
  then have "settles at x0 ats dma ops (Suc n) (In_dma tr k) s w r"
    by (rule settles_step [rotated 2]) (use Inr tdw in simp_all)
  then show ?thesis by auto
qed

text \<open>The loop of \<open>do_ats_req\<close>.\<close>

lemma settles_ats_head:
  assumes "ats_loop at ats v len (ac_atc s) w = Some (rs', w')"
    and "seg_settles at x0 ats dma ops (ats_resume at x0 ops k (s\<lparr>ac_atc := rs'\<rparr>)) w' r"
  shows "seg_settles at x0 ats dma ops (ats_head at x0 ops v len k s) w r"
proof -
  have "\<forall>s. at = at \<and> ats = ats \<and> ac_atc s = ac_atc s0 \<and>
      seg_settles at x0 ats dma ops (ats_resume at x0 ops k (s\<lparr>ac_atc := fst (rs', w')\<rparr>)) (snd (rs', w')) r \<longrightarrow>
      seg_settles at x0 ats dma ops (ats_head at x0 ops v len k s) w r"
    if "ats_loop at ats v len (ac_atc s0) w = Some (rs', w')" for s0
  proof (rule ats_loop.raw_induct [where P = "\<lambda>at' ats' v len rs w y. \<forall>s. at' = at \<and> ats' = ats \<and> ac_atc s = rs \<and>
      seg_settles at x0 ats dma ops (ats_resume at x0 ops k (s\<lparr>ac_atc := fst y\<rparr>)) (snd y) r \<longrightarrow>
      seg_settles at x0 ats dma ops (ats_head at x0 ops v len k s) w r", OF _ that],
      intro allI impI, elim conjE, goal_cases)
    case (1 f at1 ats1 v1 len1 rs1 w1 y1 s)
    show ?case
    proof (cases "len1 = 0")
      case True
      then have "y1 = (rs1, w1)" using 1(2) by simp
      then show ?thesis using True 1(6) 1(5) [symmetric] by (simp add: ats_head_def)
    next
      case False
      obtain rp w2 where rp: "ats v1 (ATTR_WRITE at OR ATTR_READ at OR ATTR_EXEC at) w1 = (rp, w2)" by force
      have ret: "seg_settles at x0 ats dma ops (ats_return at x0 ops rp v1 len1 k s) w2 r"
      proof (cases "ar_resp rp = TLM_OK_RESPONSE \<and> ar_result_ok rp")
        case ok: True
        let ?v = "v1 AND NOT (ar_length rp - 1)"
        let ?rs = "rs1 @ [\<lparr>rg_virt = ?v, rg_phys = ar_addr rp, rg_length = ar_length rp, rg_attr = ar_attr rp\<rparr>]"
        have y: "(if len1 < ar_length rp then Some (?rs, w2)
            else f at ats (?v + ar_length rp) (len1 - ar_length rp) ?rs w2) = Some y1"
          using 1(2) False ok unfolding 1(3,4) rp by (simp add: Let_def)
        show ?thesis
        proof (cases "len1 < ar_length rp")
          case True
          then have "y1 = (?rs, w2)" using y by simp
          then show ?thesis using True ok 1(5,6) by (simp add: ats_return_def Let_def)
        next
          case False
          then have "f at ats (?v + ar_length rp) (len1 - ar_length rp) ?rs w2 = Some y1" using y by simp
          from 1(1) [OF this, THEN spec, of "s\<lparr>ac_atc := ?rs\<rparr>"] show ?thesis
            using False ok 1(5,6) by (simp add: ats_return_def Let_def)
        qed
      next
        case notok: False
        have "f at ats v1 len1 rs1 w2 = Some y1"
          using 1(2) False notok unfolding 1(3,4) rp by auto
        from 1(1) [OF this, THEN spec, of s] show ?thesis
          using notok 1(5,6) by (auto simp: ats_return_def)
      qed
      have "\<exists>n. settles at x0 ats dma ops n (Ats_back rp v1 len1 k) s w2 r"
        by (rule settles_busy [OF _ _ ret]) simp_all
      then obtain n where "settles at x0 ats dma ops n (Ats_back rp v1 len1 k) s w2 r" by blast
      then have "settles at x0 ats dma ops (Suc n) (In_ats v1 len1 k) s w1 r"
        by (rule settles_step [rotated 2]) (simp_all add: rp)
      then show ?thesis using False by (auto simp: ats_head_def)
    qed
  qed
  then show ?thesis using assms by auto
qed

lemma settles_ats_call:
  assumes "translate at ats v len (ac_atc s) w = Some (rs', w')"
    and "seg_settles at x0 ats dma ops (ats_resume at x0 ops k (s\<lparr>ac_atc := rs'\<rparr>)) w' r"
  shows "seg_settles at x0 ats dma ops (ats_call at x0 ops v len k s) w r"
  using assms by (auto simp: ats_call_def translate_def do_ats_req_def intro: settles_ats_head split: if_splits)

text \<open>The loop of \<open>ats_req_thread\<close>.\<close>

lemma settles_ats_req_seg:
  fixes ops :: "'c md5_ops"
  assumes "ats_rest at ats addr len s w = Some r"
  shows "seg_settles at x0 ats dma ops (Inr (ats_req_seg addr len s)) w r"
  using assms
proof (induction "unat len" arbitrary: addr len s w rule: less_induct)
  case less
  let ?l = "SZ_4K + (addr AND (SZ_4K - 1))" and ?v = "addr AND NOT (SZ_4K - 1)"
  show ?case
  proof (cases "len = 0")
    case True
    then show ?thesis using less.prems
      by (simp add: ats_req_seg.simps ats_rest_def ats_req_loop.simps settles_finish)
  next
    case False
    from less.prems False obtain rs' w' where t: "translate at ats addr SZ_4K (ac_atc s) w = Some (rs', w')"
      and next_turn: "(if len < SZ_4K then finish_run (s\<lparr>ac_atc := rs'\<rparr>) w'
        else ats_rest at ats (addr + SZ_4K) (len - SZ_4K) (s\<lparr>ac_atc := rs'\<rparr>) w') = Some r"
      by (auto simp: ats_rest_def ats_req_loop.simps [of at ats addr len] Option.bind_eq_Some_conv split: if_splits)
    have rec: "seg_settles at x0 ats dma ops (Inr (ats_req_seg (addr + SZ_4K) (len - SZ_4K) (s\<lparr>ac_atc := rs'\<rparr>))) w' r"
      if "\<not> len < SZ_4K"
    proof (rule less.hyps)
      show "unat (len - SZ_4K) < unat len" using that by (simp add: not_less unat_sub page_4K word_le_nat_alt)
    qed (use next_turn that in simp)
    then have res: "seg_settles at x0 ats dma ops (ats_resume at x0 ops (Aa_loop addr len) (s\<lparr>ac_atc := rs'\<rparr>)) w' r"
      using next_turn by (auto simp: settles_finish split: if_splits)
    show ?thesis
    proof (cases "atc_contains (ac_atc s) addr \<or> ?l = 0")
      case True
      then have "rs' = ac_atc s" "w' = w" using t by (auto simp: translate_def do_ats_req_def ats_loop.simps split: if_splits)
      moreover have "Inr (ats_req_seg addr len s) = ats_resume at x0 ops (Aa_loop addr len) s"
        using False True by (subst ats_req_seg.simps) auto
      ultimately show ?thesis using res by simp
    next
      case notin: False
      then have "Inr (ats_req_seg addr len s) = ats_call at x0 ops addr SZ_4K (Aa_loop addr len) s"
        using False by (subst ats_req_seg.simps) (auto simp: ats_call_def ats_head_def)
      then show ?thesis using settles_ats_call [OF t res] by simp
    qed
  qed
qed

text \<open>A single access.\<close>

lemma settles_access:
  assumes "rest_in_dma at x0 ats dma ops tr k s w = Some r" "k = Ad_read \<or> k = Ad_write"
  shows "seg_settles at x0 ats dma ops (Inr (s, In_dma tr k)) w r"
proof (rule settles_in_dma)
  show "seg_settles at x0 ats dma ops (dma_return at x0 ops tr' k s) w' r" if "dma tr 0 w = Inr (tr', d, w')" for tr' w' d
    using assms that by (auto simp: rest_in_dma_def dma_return_def intro: settles_finish simp del: seg_settles_simps(2) split: if_splits)
  show "r = Inl e" if "dma tr 0 w = Inl e" for e
    using assms(1) that by (simp add: rest_in_dma_def)
qed

lemma settles_resume:
  assumes "rest_after at x0 ats dma ops k s w = Some r" "\<forall>v len ctx buf. k \<noteq> Aa_md5 v len ctx buf"
  shows "seg_settles at x0 ats dma ops (ats_resume at x0 ops k s) w r"
proof (cases k)
  case (Aa_loop addr len)
  then show ?thesis using assms(1) by (auto intro: settles_finish settles_ats_req_seg simp del: seg_settles_simps(2) split: if_splits)
qed (use assms in \<open>auto intro: settles_finish settles_access simp del: seg_settles_simps(2) split: if_splits\<close>)

text \<open>The loop of \<open>md5_thread\<close>.\<close>

lemma settles_md5_head:
  assumes "md5_loop at x0 ats dma ops v len ctx buf (ac_atc s) w = Some y"
  shows "seg_settles at x0 ats dma ops (md5_head at x0 ops v len ctx buf s) w (res_bind y (md5_end ops s))"
proof -
  have "\<forall>s. at = at \<and> x0 = x0 \<and> ats = ats \<and> dma = dma \<and> ops = ops \<and> ac_atc s = ac_atc s0 \<longrightarrow>
      seg_settles at x0 ats dma ops (md5_head at x0 ops v len ctx buf s) w (res_bind y (md5_end ops s))"
    if "md5_loop at x0 ats dma ops v len ctx buf (ac_atc s0) w = Some y" for s0
  proof (rule md5_loop.raw_induct [where P = "\<lambda>at' x0' ats' dma' ops' v len ctx buf rs w y. \<forall>s.
        at' = at \<and> x0' = x0 \<and> ats' = ats \<and> dma' = dma \<and> ops' = ops \<and> ac_atc s = rs \<longrightarrow>
        seg_settles at x0 ats dma ops (md5_head at x0 ops v len ctx buf s) w (res_bind y (md5_end ops s))", OF _ that],
      intro allI impI, elim conjE, goal_cases)
    case (1 f at1 x1 ats1 dma1 ops1 v1 len1 ctx1 buf1 rs1 w1 y1 s)
    show ?case
    proof (cases "len1 = 0")
      case True
      then have "y1 = Inr (len1, ctx1, rs1, w1)" using 1(2) by simp
      then show ?thesis
        using True settles_finish [of "set_md5_result (md5_final ops ctx1) s" w1 _ at x0 ats dma ops] 1(8) [symmetric]
        by (simp add: md5_head_def md5_end_def finish_run_def)
    next
      case False
      from 1(2) False obtain rs' w' where t: "translate at ats v1 len1 rs1 w1 = Some (rs', w')"
        and turn: "(if \<not> atc_test_attr rs' v1 (ATTR_READ at) then Some (Inr (len1, ctx1, rs', w'))
          else let phys = atc_virt_to_phys rs' v1; n = md5_chunk len1 phys in
            (case phys_read at x0 dma phys buf1 n w' of Inl e \<Rightarrow> Some (Inl e)
             | Inr (buf', w'') \<Rightarrow> f at x0 ats dma ops (v1 + n) (len1 - n)
                 (md5_update ops ctx1 (take (unat n) buf')) buf' rs' w'')) = Some y1"
        unfolding 1(3-7) by (auto simp: Option.bind_eq_Some_conv)
      let ?s = "s\<lparr>ac_atc := rs'\<rparr>" and ?phys = "atc_virt_to_phys rs' v1" and ?n = "md5_chunk len1 (atc_virt_to_phys rs' v1)"
      let ?r = "res_bind y1 (md5_end ops s)"
      have "seg_settles at x0 ats dma ops (md5_read_seg at x0 ops v1 len1 ctx1 buf1 ?s) w' ?r"
      proof (cases "atc_test_attr rs' v1 (ATTR_READ at)")
        case no: False
        then show ?thesis using turn False
          by (auto simp: md5_read_seg_def finish_def md5_end_def intro!: exI settles_idle)
      next
        case yes: True
        show ?thesis
        proof (cases "length buf1 < unat ?n")
          case True
          then show ?thesis using turn yes by (auto simp: md5_read_seg_def Let_def phys_read_def)
        next
          case fits: False
          let ?tr = "phys_gp at x0 TLM_READ_COMMAND ?phys buf1 (unat (ucast ?n :: u32))"
          have "seg_settles at x0 ats dma ops (Inr (?s, In_dma ?tr (Ad_md5 v1 len1 ctx1 ?n))) w' ?r"
          proof (rule settles_in_dma)
            fix tr' w'' d assume d: "dma ?tr 0 w' = Inr (tr', d, w'')"
            show "seg_settles at x0 ats dma ops (dma_return at x0 ops tr' (Ad_md5 v1 len1 ctx1 ?n) ?s) w'' ?r"
            proof (cases "gp_resp tr' = TLM_OK_RESPONSE")
              case True
              then have "f at x0 ats dma ops (v1 + ?n) (len1 - ?n) (md5_update ops ctx1 (take (unat ?n) (gp_data tr')))
                  (gp_data tr') rs' w'' = Some y1"
                using turn yes fits d by (simp add: Let_def phys_read_def)
              from 1(1) [OF this, THEN spec, of ?s] show ?thesis using True by (simp add: dma_return_def)
            next
              case False
              then show ?thesis using turn yes fits d by (auto simp: Let_def phys_read_def dma_return_def)
            qed
          next
            show "?r = Inl e" if "dma ?tr 0 w' = Inl e" for e
              using turn yes fits that by (auto simp: Let_def phys_read_def)
          qed
          then show ?thesis using yes fits by (simp add: md5_read_seg_def Let_def)
        qed
      qed
      then show ?thesis
        using settles_ats_call [of at ats v1 len1 s w1 rs' w' x0 dma ops "Aa_md5 v1 len1 ctx1 buf1" ?r] t 1(8) False
        by (simp add: md5_head_def)
    qed
  qed
  then show ?thesis using assms by auto
qed

lemma settles_start:
  assumes "run_thread at x0 ats dma ops e (s, w) = Some r"
  shows "seg_settles at x0 ats dma ops (start_seg at x0 ops e s) w r"
proof (cases "e = Md5_req")
  case True
  show ?thesis
  proof (cases "md5_init ops")
    case None
    then show ?thesis using assms True by (auto simp: run_thread_def md5_run_def finish_def intro: settles_idle)
  next
    case (Some ctx)
    have "md5_rest at x0 ats dma ops (acc_virt_addr (ac_regs s)) (ucast (ar_len (ac_regs s))) ctx (replicate 4096 0) s w = Some r"
      using assms True Some rest_start_seg [of at x0 ats dma ops Md5_req s w]
      by (simp add: rest_md5_head)
    then show ?thesis
      using True Some settles_md5_head [of at x0 ats dma ops _ _ ctx _ s w] by (auto simp: md5_rest_def Option.bind_eq_Some_conv)
  qed
next
  case False
  have r: "rest_seg at x0 ats dma ops (start_seg at x0 ops e s) w = Some r"
    using assms by (simp add: rest_start_seg)
  show ?thesis
  proof (cases e)
    case Ats_req
    then show ?thesis using r by (auto simp: rest_ats_req_seg intro: settles_ats_req_seg simp del: seg_settles_simps(2))
  qed (use r False in \<open>auto simp: rest_ats_call Option.bind_eq_Some_conv intro!: settles_ats_call settles_resume simp del: seg_settles_simps(2)\<close>)
qed

text \<open>A run of the system that gives a thread enough turns.\<close>

inductive_cases settles_IdleE: "settles at x0 ats dma ops n Idle s w r"
inductive_cases settlesE: "settles at x0 ats dma ops n p s w r"

definition turns :: "acc_event \<Rightarrow> act list \<Rightarrow> nat" where
  "turns e as = length (filter (\<lambda>a. a = Thread e) as)"

lemma turns_simps [simp]:
  "turns e [] = 0" "turns e (Thread e # as) = Suc (turns e as)" "a \<noteq> Thread e \<Longrightarrow> turns e (a # as) = turns e as"
  by (simp_all add: turns_def)

definition at_rest :: "(acc \<times> 'w) res \<Rightarrow> (acc \<times> 'c threads \<times> 'w) res" where
  "at_rest r = (case r of Inl err \<Rightarrow> Inl err | Inr (s, w) \<Rightarrow> Inr (s, \<lambda>_. Idle, w))"

text \<open>What does not concern the thread leaves the system as it is.\<close>

lemma other_step:
  assumes "host_reads a" "a \<noteq> Thread e" "\<forall>e'. e' \<noteq> e \<longrightarrow> p e' = Idle" "set (ac_events s) \<subseteq> {e}" "p e \<noteq> Idle \<longrightarrow> ac_events s = []"
  shows "sys_step at x0 ats dma ops a (s, p, w) = Inr (s, p, w)"
proof (cases a)
  case (Host n tr)
  then obtain tr' where "bar_b_transport n tr 0 s = Inr (tr', 0, s)" using bar_read_same assms(1) by fastforce
  moreover have "drop_missed p s = s"
    using assms(3-5) by (cases "p e = Idle") (auto simp: drop_missed_def intro!: acc.equality filter_True)
  ultimately show ?thesis using Host by simp
next
  case (Thread e')
  then show ?thesis using assms by auto
qed (use assms in simp)

lemma settles_run:
  assumes "settles at x0 ats dma ops n (p e) s w r" "ac_events s = []" "\<forall>e'. e' \<noteq> e \<longrightarrow> p e' = Idle"
    and "\<forall>a \<in> set as. host_reads a" "n \<le> turns e as"
  shows "sys_run at x0 ats dma ops as (s, p, w) = at_rest r"
  using assms
proof (induction as arbitrary: n p s w)
  case Nil
  then have "p e = Idle" "r = Inr (s, w)" by (auto elim: settlesE)
  moreover have "p = (\<lambda>_. Idle)" using Nil(3) calculation(1) by (metis ext)
  ultimately show ?case by (simp add: at_rest_def)
next
  case (Cons a as)
  show ?case
  proof (cases "a = Thread e \<and> p e \<noteq> Idle")
    case False
    have "sys_step at x0 ats dma ops a (s, p, w) = Inr (s, p, w)"
    proof (cases "a = Thread e")
      case True
      then show ?thesis using False Cons.prems(2) by simp
    next
      case no: False
      show ?thesis by (rule other_step [OF _ no Cons.prems(3)]) (use Cons.prems in simp_all)
    qed
    moreover have "sys_run at x0 ats dma ops as (s, p, w) = at_rest r"
    proof (cases "a = Thread e")
      case True
      then have "settles at x0 ats dma ops 0 (p e) s w r"
        using False Cons.prems(1) by (auto elim!: settles_IdleE intro: settles_idle)
      then show ?thesis using Cons.IH Cons.prems by simp
    next
      case no: False
      then show ?thesis using Cons.IH [OF Cons.prems(1-3)] Cons.prems(4,5) by simp
    qed
    ultimately show ?thesis by simp
  next
    case True
    from Cons.prems(1) show ?thesis
    proof (cases rule: settles.cases)
      case (settles_step s' p' w' n')
      have "ac_events s' = []"
        using keeps_busy_step [OF settles_step(3)] True Cons.prems(2) by (simp add: keeps_regs_def)
      moreover have "settles at x0 ats dma ops n' ((p(e := p')) e) s' w' r" using settles_step by simp
      ultimately have "sys_run at x0 ats dma ops as (s', p(e := p'), w') = at_rest r"
        using Cons.IH Cons.prems True settles_step(1) by simp
      then show ?thesis using True settles_step by simp
    qed (use True in \<open>simp_all add: at_rest_def\<close>)
  qed
qed

text \<open>
  Property C7: a command that ends at all ends under every schedule that gives its thread enough
  turns, whatever the other threads and a polling host do in between, and ends the same way:
  with the accelerator at rest and the registers, the cache and the rest of the system the
  command as a whole gives, or with its failure.
\<close>

theorem command_ends_under_every_schedule:
  assumes "run_thread at x0 ats dma ops e (s\<lparr>ac_events := []\<rparr>, w) = Some r" "ac_events s = [e]"
  shows "\<exists>n. \<forall>as. (\<forall>a \<in> set as. host_reads a) \<and> n \<le> turns e as \<longrightarrow>
    sys_run at x0 ats dma ops as (s, \<lambda>_. Idle, w) = at_rest r"
proof -
  let ?s = "s\<lparr>ac_events := []\<rparr>"
  have seg: "seg_settles at x0 ats dma ops (start_seg at x0 ops e ?s) w r" using assms(1) by (rule settles_start)
  have "\<exists>n. \<forall>as. (\<forall>a \<in> set as. host_reads a) \<and> n \<le> turns e as \<longrightarrow>
    res_bind (start_seg at x0 ops e ?s) (\<lambda>(s', q). sys_run at x0 ats dma ops as (s', (\<lambda>_. Idle)(e := q), w)) = at_rest r"
  proof (cases "start_seg at x0 ops e ?s")
    case (Inl err)
    then show ?thesis using seg by (simp add: at_rest_def)
  next
    case (Inr sq)
    obtain s' q where sq: "sq = (s', q)" by force
    then obtain n where n: "settles at x0 ats dma ops n q s' w r" using seg Inr by auto
    have "ac_events s' = []" using keeps_start_seg [of ?s at x0 ops e] Inr sq by (simp add: keeps_regs_def)
    then have "sys_run at x0 ats dma ops as (s', (\<lambda>_. Idle)(e := q), w) = at_rest r"
      if "\<forall>a \<in> set as. host_reads a" "n \<le> turns e as" for as
      using that n by (intro settles_run [where e = e]) simp_all
    then show ?thesis using Inr sq by auto
  qed
  then obtain n where n: "\<And>as. (\<forall>a \<in> set as. host_reads a) \<Longrightarrow> n \<le> turns e as \<Longrightarrow>
    res_bind (start_seg at x0 ops e ?s) (\<lambda>(s', q). sys_run at x0 ats dma ops as (s', (\<lambda>_. Idle)(e := q), w)) = at_rest r"
    by blast
  have "sys_run at x0 ats dma ops as (s, \<lambda>_. Idle, w) = at_rest r"
    if "\<forall>a \<in> set as. host_reads a" "Suc n \<le> turns e as" for as
    using that
  proof (induction as)
    case (Cons a as)
    show ?case
    proof (cases "a = Thread e")
      case True
      have "sys_run at x0 ats dma ops (a # as) (s, \<lambda>_. Idle, w) =
          res_bind (start_seg at x0 ops e ?s) (\<lambda>(s', q). sys_run at x0 ats dma ops as (s', (\<lambda>_. Idle)(e := q), w))"
        using True assms(2) by (cases "start_seg at x0 ops e ?s") auto
      then show ?thesis using n [of as] Cons.prems True by simp
    next
      case False
      have "sys_step at x0 ats dma ops a (s, \<lambda>_. Idle, w) = Inr (s, \<lambda>_. Idle, w)"
        by (rule other_step [OF _ False]) (use Cons.prems assms(2) in simp_all)
      then show ?thesis using False Cons by simp
    qed
  qed simp
  then show ?thesis by blast
qed

theorem command_ends_under_every_schedule_witness:
  "\<exists>n s' w'. sys_run ex_at ex_x0 ex_ram_agent ex_ram \<lparr>md5_init = Some [], md5_update = (@), md5_final = (\<lambda>c. c)\<rparr>
      (replicate n (Thread Read_req)) (acc_new\<lparr>ac_events := [Read_req]\<rparr>, \<lambda>_. Idle, \<lambda>_. 0) = Inr (s', \<lambda>_. Idle, w') \<and>
    ar_status (ac_regs s') = R_STATUS_DONE"
proof -
  let ?ops = "\<lparr>md5_init = Some [], md5_update = (@), md5_final = (\<lambda>c. c)\<rparr> :: u8 list md5_ops"
  let ?s = "acc_new\<lparr>ac_events := [Read_req]\<rparr>"
  have a: "0 = acc_virt_addr (ac_regs (?s\<lparr>ac_events := []\<rparr>))" "coherent ex_at (\<lambda>a. a) (ac_atc (?s\<lparr>ac_events := []\<rparr>))"
    by (simp_all add: acc_virt_addr_def acc_new_def)
  obtain s' w' where
    run: "run_thread ex_at ex_x0 ex_ram_agent ex_ram ?ops Read_req (?s\<lparr>ac_events := []\<rparr>, \<lambda>_. 0) = Some (Inr (set_status R_STATUS_DONE s', w'))"
    using read_run_coherent [OF ex_ram_surroundings(1,2) a(2,1), where w = "\<lambda>_. 0" and ?x0.0 = ex_x0]
    by (auto simp: run_thread_def)
  have "ac_events ?s = [Read_req]" by simp
  from command_ends_under_every_schedule [OF run this] obtain n where
    n: "\<And>as. (\<forall>a \<in> set as. host_reads a) \<and> n \<le> turns Read_req as \<Longrightarrow>
      sys_run ex_at ex_x0 ex_ram_agent ex_ram ?ops as (?s, \<lambda>_. Idle, \<lambda>_. 0) = at_rest (Inr (set_status R_STATUS_DONE s', w'))"
    by blast
  show ?thesis using n [of "replicate n (Thread Read_req)"]
    by (intro exI [of _ n]) (simp add: turns_def at_rest_def set_status_def)
qed

end
