(* ===== verification/Vfio_Tests.thy ===== *)
theory Vfio_Tests
  imports Pcie_Schedules
begin

text \<open>
  The two programs that drive the PCIe accelerator through VFIO,
  \<open>pcie-ats-demo/test-pcie-ats-demo-vfio.cc\<close> and \<open>pcie-ats-demo/pcie-acc-md5sum-vfio.cc\<close>: their
  register accesses, the polling for completion, the four tests and the printed digest.  The
  operating system and the way an access takes to the device are arguments.
\<close>

section \<open>The surroundings of the programs\<close>

text \<open>
  The calls of the operating system: the size of the opened file (\<open>None\<close> when \<open>open\<close> or
  \<open>fstat\<close> fails), \<open>mmap\<close> of it (\<open>None\<close> for \<open>MAP_FAILED\<close>), \<open>mlock\<close> and \<open>munmap\<close>, the calls of the IOMMU with
  the virtual address, the I/O address and the size, and accesses to the shared mapping \<open>m_map\<close>.
  Then \<open>memcpy_to_io\<close> and \<open>memcpy_from_io\<close> on BAR 0, and \<open>vf_run\<close>, which lets the device take
  the next piece of work it has been given.
\<close>

record 's vfio_os =
  os_file_size :: "'s \<Rightarrow> u64 option"
  os_mmap :: "u64 \<Rightarrow> 's \<Rightarrow> (u64 \<times> 's) option"
  os_mlock :: "u64 \<Rightarrow> u64 \<Rightarrow> 's \<Rightarrow> 's"
  os_munmap :: "u64 \<Rightarrow> u64 \<Rightarrow> 's \<Rightarrow> 's"
  os_map_dma :: "u64 \<Rightarrow> u64 \<Rightarrow> u64 \<Rightarrow> 's \<Rightarrow> 's"
  os_unmap_dma :: "u64 \<Rightarrow> u64 \<Rightarrow> 's \<Rightarrow> 's"
  os_store :: "u32 \<Rightarrow> u8 list \<Rightarrow> 's \<Rightarrow> 's"
  os_load :: "u32 \<Rightarrow> nat \<Rightarrow> 's \<Rightarrow> u8 list"

record 's vfio = "'s vfio_os" +
  vf_write :: "u64 \<Rightarrow> u8 list \<Rightarrow> 's \<Rightarrow> 's res"
  vf_read :: "u64 \<Rightarrow> nat \<Rightarrow> 's \<Rightarrow> (u8 list \<times> 's) res"
  vf_run :: "'s \<Rightarrow> 's res option"

definition R_CTRL :: u32 where "R_CTRL = 0x0"
definition R_ADDR_LSB :: u32 where "R_ADDR_LSB = 0x4"
definition R_LENGTH :: u32 where "R_LENGTH = 0x8"
definition R_VAL :: u32 where "R_VAL = 0xC"
definition R_STATUS :: u32 where "R_STATUS = 0x10"
definition R_ADDR_MSB :: u32 where "R_ADDR_MSB = 0x14"
definition R_MD5_RESULT_0 :: u32 where "R_MD5_RESULT_0 = 0x18"
definition R_MD5_RESULT_3 :: u32 where "R_MD5_RESULT_3 = 0x24"
definition R_CTRL_TRANSLATE :: u32 where "R_CTRL_TRANSLATE = 1"
definition R_CTRL_READ :: u32 where "R_CTRL_READ = 2"
definition R_CTRL_WRITE :: u32 where "R_CTRL_WRITE = 4"
definition R_CTRL_MD5SUM :: u32 where "R_CTRL_MD5SUM = 8"
definition SZ_32K :: u32 where "SZ_32K = 32 * 1024"

lemmas vfio_consts = R_CTRL_def R_ADDR_LSB_def R_LENGTH_def R_VAL_def R_STATUS_def R_ADDR_MSB_def
  R_MD5_RESULT_0_def R_MD5_RESULT_3_def R_CTRL_TRANSLATE_def R_CTRL_READ_def R_CTRL_WRITE_def
  R_CTRL_MD5SUM_def SZ_32K_def

section \<open>Register accesses and polling\<close>

text \<open>A step that may stop the program, or never return.\<close>

definition run_bind :: "'a res option \<Rightarrow> ('a \<Rightarrow> 'b res option) \<Rightarrow> 'b res option" where
  "run_bind m f = Option.bind m (\<lambda>r. case r of Inl e \<Rightarrow> Some (Inl e) | Inr x \<Rightarrow> f x)"

lemma run_bind_simps [simp]:
  "run_bind None f = None"
  "run_bind (Some (Inl e)) f = Some (Inl e)"
  "run_bind (Some (Inr x)) f = f x"
  by (simp_all add: run_bind_def)

definition write32 :: "'s vfio \<Rightarrow> u32 \<Rightarrow> u32 \<Rightarrow> 's \<Rightarrow> 's res" where
  "write32 vf addr v s = vf_write vf (ucast addr) (le_bytes 4 v) s"

definition read32 :: "'s vfio \<Rightarrow> u32 \<Rightarrow> 's \<Rightarrow> (u32 \<times> 's) res" where
  "read32 vf addr s = res_bind (vf_read vf (ucast addr) 4 s) (\<lambda>(bs, s'). Inr (le_word bs, s'))"

text \<open>
  \<open>wait_for_done\<close>.  \<open>sched\<close> tells before which polls, counted by \<open>i\<close> over the whole program, the device gets to run; the
  loop need not end.
\<close>

partial_function (option) wait_for_done ::
  "'s vfio \<Rightarrow> (nat \<Rightarrow> bool) \<Rightarrow> nat \<Rightarrow> 's \<Rightarrow> (nat \<times> 's) res option" where
  "wait_for_done vf sched i s =
     Option.bind (if sched i then vf_run vf s else Some (Inr s)) (\<lambda>r.
       case r of Inl e \<Rightarrow> Some (Inl e)
       | Inr s1 \<Rightarrow>
           (case read32 vf R_STATUS s1 of Inl e \<Rightarrow> Some (Inl e)
            | Inr (v, s2) \<Rightarrow>
                if v = 0 then wait_for_done vf sched (Suc i) s2 else Some (Inr (Suc i, s2))))"

primrec write_all :: "'s vfio \<Rightarrow> (u32 \<times> u32) list \<Rightarrow> 's \<Rightarrow> 's res" where
  "write_all vf [] s = Inr s"
| "write_all vf (x # xs) s = res_bind (write32 vf (fst x) (snd x) s) (write_all vf xs)"

text \<open>A sequence of register writes, the last of which starts the device, and the wait.\<close>

definition command ::
  "'s vfio \<Rightarrow> (nat \<Rightarrow> bool) \<Rightarrow> (u32 \<times> u32) list \<Rightarrow> nat \<times> 's \<Rightarrow> (nat \<times> 's) res option" where
  "command vf sched ws = (\<lambda>(i, s). run_bind (Some (write_all vf ws s)) (wait_for_done vf sched i))"

section \<open>The tests\<close>

definition test_ATC_load :: "'s vfio \<Rightarrow> (nat \<Rightarrow> bool) \<Rightarrow> nat \<times> 's \<Rightarrow> (nat \<times> 's) res option" where
  "test_ATC_load vf sched =
     command vf sched [(R_ADDR_MSB, 0), (R_ADDR_LSB, 0), (R_LENGTH, SZ_32K), (R_STATUS, 0), (R_CTRL, R_CTRL_TRANSLATE)]"

text \<open>The addresses of the two loops: \<open>for (addr = 0; addr < SZ_32K; addr += 256)\<close>.\<close>

function test_addrs :: "u32 \<Rightarrow> u32 list" where
  "test_addrs addr = (if addr < SZ_32K then addr # test_addrs (addr + 256) else [])"
  by auto
termination
  by (relation "measure (\<lambda>a. 0x8000 - unat a)") (auto simp: SZ_32K_def word_less_nat_alt unat_word_ariths)

declare test_addrs.simps [simp del]

text \<open>The bodies of the loops; their results are the words printed, in order.\<close>

definition test_read_at :: "'s vfio \<Rightarrow> (nat \<Rightarrow> bool) \<Rightarrow> u32 \<Rightarrow> nat \<times> 's \<Rightarrow> (u32 \<times> nat \<times> 's) res option" where
  "test_read_at vf sched addr = (\<lambda>(i, s).
     run_bind (command vf sched
         [(R_ADDR_MSB, 0), (R_ADDR_LSB, addr), (R_LENGTH, 4), (R_STATUS, 0), (R_CTRL, R_CTRL_READ)]
         (i, os_store vf addr [0xAA, 0xBB, 0xCC, 0xDD] s))
       (\<lambda>(i', s'). Some (res_bind (read32 vf R_VAL s') (\<lambda>(v, s''). Inr (v, i', s'')))))"

definition test_write_at :: "'s vfio \<Rightarrow> (nat \<Rightarrow> bool) \<Rightarrow> u32 \<Rightarrow> nat \<times> 's \<Rightarrow> (u32 \<times> nat \<times> 's) res option" where
  "test_write_at vf sched addr st =
     run_bind (command vf sched
         [(R_ADDR_MSB, 0), (R_ADDR_LSB, addr), (R_LENGTH, 4), (R_STATUS, 0), (R_VAL, addr), (R_CTRL, R_CTRL_WRITE)] st)
       (\<lambda>(i', s'). Some (Inr (le_word (os_load vf addr 4 s'), i', s')))"

primrec run_each :: "(u32 \<Rightarrow> 's \<Rightarrow> (u32 \<times> 's) res option) \<Rightarrow> u32 list \<Rightarrow> 's \<Rightarrow> (u32 list \<times> 's) res option" where
  "run_each f [] s = Some (Inr ([], s))"
| "run_each f (a # as) s =
     run_bind (f a s) (\<lambda>(v, s'). run_bind (run_each f as s') (\<lambda>(vs, s''). Some (Inr (v # vs, s''))))"

definition test_read :: "'s vfio \<Rightarrow> (nat \<Rightarrow> bool) \<Rightarrow> nat \<times> 's \<Rightarrow> (u32 list \<times> nat \<times> 's) res option" where
  "test_read vf sched = run_each (test_read_at vf sched) (test_addrs 0)"

definition test_write :: "'s vfio \<Rightarrow> (nat \<Rightarrow> bool) \<Rightarrow> nat \<times> 's \<Rightarrow> (u32 list \<times> nat \<times> 's) res option" where
  "test_write vf sched = run_each (test_write_at vf sched) (test_addrs 0)"

section \<open>The digest of a file\<close>

definition map_size :: "u64 \<Rightarrow> u64" where
  "map_size n = (n div SZ_4K) * SZ_4K + (if n mod SZ_4K \<noteq> 0 then SZ_4K else 0)"

text \<open>
  A number below 256 on a stream set to \<open>hex\<close>, and the four of a result word.  \<open>setw\<close> holds for the
  next output only, so the width of two digits is asked for the first byte and not for the others.
\<close>

definition hex_digit :: "nat \<Rightarrow> char" where
  "hex_digit n = ''0123456789abcdef'' ! n"

definition hex_out :: "u8 \<Rightarrow> string" where
  "hex_out b = (if unat b < 16 then [hex_digit (unat b)] else [hex_digit (unat b div 16), hex_digit (unat b mod 16)])"

definition hex_out_w2 :: "u8 \<Rightarrow> string" where
  "hex_out_w2 b = replicate (2 - length (hex_out b)) (CHR ''0'') @ hex_out b"

definition print_word :: "u32 \<Rightarrow> string" where
  "print_word r = hex_out_w2 (ucast r) @ hex_out (ucast (drop_bit 8 r)) @ hex_out (ucast (drop_bit 16 r))
     @ hex_out (ucast (drop_bit 24 r))"

text \<open>The loop over the result registers; its result is what it prints.\<close>

function print_results :: "'s vfio \<Rightarrow> u32 \<Rightarrow> 's \<Rightarrow> (string \<times> 's) res" where
  "print_results vf addr s =
     (if addr \<le> R_MD5_RESULT_3 then
        res_bind (read32 vf addr s) (\<lambda>(r, s').
        res_bind (print_results vf (addr + 4) s') (\<lambda>(out, s''). Inr (print_word r @ out, s'')))
      else Inr ([], s))"
  by auto
termination
  by (relation "measure (\<lambda>(vf, a, s). 0x25 - unat a)")
    (auto simp: R_MD5_RESULT_3_def word_le_nat_alt unat_word_ariths)

declare print_results.simps [simp del]

text \<open>\<open>run_md5\<close>; an error of the operating system ends the program.\<close>

definition run_md5 :: "'s vfio \<Rightarrow> (nat \<Rightarrow> bool) \<Rightarrow> nat \<times> 's \<Rightarrow> (string \<times> nat \<times> 's) res option" where
  "run_md5 vf sched = (\<lambda>(i, s).
     case os_file_size vf s of
       None \<Rightarrow> Some (Inl Aborted)
     | Some sz \<Rightarrow>
         (case os_mmap vf (map_size sz) s of
            None \<Rightarrow> Some (Inl Aborted)
          | Some (mbuf, s1) \<Rightarrow>
              run_bind (command vf sched
                  [(R_ADDR_MSB, 0), (R_ADDR_LSB, SZ_32K), (R_LENGTH, ucast sz), (R_STATUS, 0), (R_CTRL, R_CTRL_MD5SUM)]
                  (i, os_map_dma vf mbuf (ucast SZ_32K) (map_size sz) (os_mlock vf mbuf (map_size sz) s1)))
                (\<lambda>(i', s2). Some (res_bind (print_results vf R_MD5_RESULT_0 s2) (\<lambda>(out, s3).
                   Inr (out, i', os_munmap vf mbuf sz (os_unmap_dma vf (ucast SZ_32K) (map_size sz) s3)))))))"

text \<open>The other program has the same code in its \<open>test_md5\<close>.\<close>

definition test_md5 :: "'s vfio \<Rightarrow> (nat \<Rightarrow> bool) \<Rightarrow> nat \<times> 's \<Rightarrow> (string \<times> nat \<times> 's) res option" where
  "test_md5 = run_md5"

text \<open>All tests; the result is what they print: the words read, the words written, the digest.\<close>

definition run_tests :: "'s vfio \<Rightarrow> (nat \<Rightarrow> bool) \<Rightarrow> nat \<times> 's \<Rightarrow> (u32 list \<times> u32 list \<times> string \<times> nat \<times> 's) res option" where
  "run_tests vf sched st =
     run_bind (test_ATC_load vf sched st) (\<lambda>st1.
     run_bind (test_read vf sched st1) (\<lambda>(rs, st2).
     run_bind (test_write vf sched st2) (\<lambda>(ws, st3).
     run_bind (test_md5 vf sched st3) (\<lambda>(out, st4). Some (Inr (rs, ws, out, st4))))))"

section \<open>Polling a device\<close>

text \<open>All the loop needs of a device: the status register can be read, and reading it changes nothing.\<close>

locale vfio_device =
  fixes vf :: "'s vfio" and status :: "'s \<Rightarrow> u32"
  assumes read_status: "vf_read vf (ucast R_STATUS) 4 s = Inr (le_bytes 4 (status s), s)"
begin

lemma poll:
  "wait_for_done vf sched i s = run_bind (if sched i then vf_run vf s else Some (Inr s))
     (\<lambda>s1. if status s1 = 0 then wait_for_done vf sched (Suc i) s1 else Some (Inr (Suc i, s1)))"
proof -
  have r: "read32 vf R_STATUS s1 = Inr (status s1, s1)" for s1 by (simp add: read32_def read_status)
  show ?thesis
    by (subst wait_for_done.simps) (auto simp: run_bind_def r split: Option.bind_split sum.splits)
qed

text \<open>While the status is 0 the loop polls on until the device has its next turn.\<close>

lemma wait_to_turn:
  assumes "status s = 0" "\<exists>n \<ge> i. sched n"
  shows "\<exists>j. sched j \<and> wait_for_done vf sched i s = wait_for_done vf sched j s"
proof -
  obtain n where n: "i \<le> n" "sched n" using assms(2) by blast
  then show ?thesis
  proof (induction "n - i" arbitrary: i)
    case 0
    then show ?case by auto
  next
    case (Suc k)
    show ?case
    proof (cases "sched i")
      case False
      from Suc have "k = n - Suc i" "Suc i \<le> n" by simp_all
      with Suc.hyps(1) [of "Suc i"] Suc.prems(2) obtain j where
        "sched j" "wait_for_done vf sched (Suc i) s = wait_for_done vf sched j s" by blast
      moreover have "wait_for_done vf sched i s = wait_for_done vf sched (Suc i) s"
        using False by (subst poll) (simp add: assms(1))
      ultimately show ?thesis by auto
    qed auto
  qed
qed

text \<open>If the next piece of work ends with a status, the loop returns as soon as the device has run.\<close>

lemma wait_returns:
  assumes "status s = 0" "vf_run vf s = Some (Inr s1)" "status s1 \<noteq> 0" "\<exists>n \<ge> i. sched n"
  shows "\<exists>i'. wait_for_done vf sched i s = Some (Inr (i', s1))"
proof -
  obtain j where j: "sched j" "wait_for_done vf sched i s = wait_for_done vf sched j s"
    using wait_to_turn [OF assms(1,4)] by blast
  then show ?thesis by (subst (asm) (2) poll) (simp add: assms(2,3))
qed

end

text \<open>The accelerator behind its BAR, in a system \<open>os\<close>.\<close>

definition acc_vfio ::
  "ats_attrs \<Rightarrow> atsattr \<Rightarrow> 'w ats_agent \<Rightarrow> 'w target \<Rightarrow> 'c md5_ops \<Rightarrow> 'w vfio_os \<Rightarrow> (acc \<times> 'w) vfio" where
  "acc_vfio at x0 ats dma ops os =
     \<lparr>os_file_size = (\<lambda>(s, w). os_file_size os w),
      os_mmap = (\<lambda>n (s, w). map_option (\<lambda>(p, w'). (p, s, w')) (os_mmap os n w)),
      os_mlock = (\<lambda>p n (s, w). (s, os_mlock os p n w)),
      os_munmap = (\<lambda>p n (s, w). (s, os_munmap os p n w)),
      os_map_dma = (\<lambda>p a n (s, w). (s, os_map_dma os p a n w)),
      os_unmap_dma = (\<lambda>a n (s, w). (s, os_unmap_dma os a n w)),
      os_store = (\<lambda>a bs (s, w). (s, os_store os a bs w)),
      os_load = (\<lambda>a n (s, w). os_load os a n w),
      vf_write = (\<lambda>a bs (s, w). res_bind (bar_b_transport 0 (mk_gp TLM_WRITE_COMMAND a bs (length bs)) 0 s)
        (\<lambda>(_, _, s'). Inr (s', w))),
      vf_read = (\<lambda>a n (s, w). res_bind (bar_b_transport 0 (mk_gp TLM_READ_COMMAND a (replicate n 0) n) 0 s)
        (\<lambda>(tr, _, s'). Inr (gp_data tr, s', w))),
      vf_run = acc_run at x0 ats dma ops\<rparr>"

lemma acc_vfio_write [simp]:
  "write32 (acc_vfio at x0 ats dma ops os) a v (s, w) = Inr (acc_write (ucast a) v s, w)"
  by (simp add: write32_def acc_vfio_def bar_b_transport_def)

lemma acc_vfio_read [simp]:
  "read32 (acc_vfio at x0 ats dma ops os) a (s, w) = Inr (acc_reg (ac_regs s) (ucast a), s, w)"
  by (simp add: read32_def acc_vfio_def bar_b_transport_def poke_all)

interpretation acc_dev: vfio_device "acc_vfio at x0 ats dma ops os" "\<lambda>(s, w). ar_status (ac_regs s)"
  for at x0 ats dma ops os
  by unfold_locales (auto simp: acc_vfio_def bar_b_transport_def poke_all acc_reg_def R_STATUS_def)

lemma acc_vfio_fields [simp]:
  "os_file_size (acc_vfio at x0 ats dma ops os) (s, w) = os_file_size os w"
  "os_mmap (acc_vfio at x0 ats dma ops os) n (s, w) = map_option (\<lambda>(p, w'). (p, s, w')) (os_mmap os n w)"
  "os_mlock (acc_vfio at x0 ats dma ops os) p n (s, w) = (s, os_mlock os p n w)"
  "os_munmap (acc_vfio at x0 ats dma ops os) p n (s, w) = (s, os_munmap os p n w)"
  "os_map_dma (acc_vfio at x0 ats dma ops os) p a n (s, w) = (s, os_map_dma os p a n w)"
  "os_unmap_dma (acc_vfio at x0 ats dma ops os) a n (s, w) = (s, os_unmap_dma os a n w)"
  "os_store (acc_vfio at x0 ats dma ops os) b bs (s, w) = (s, os_store os b bs w)"
  "os_load (acc_vfio at x0 ats dma ops os) b k (s, w) = os_load os b k w"
  "vf_run (acc_vfio at x0 ats dma ops os) = acc_run at x0 ats dma ops"
  by (simp_all add: acc_vfio_def)

section \<open>The accelerator step by step\<close>

text \<open>
  The same device with its threads as they run: a turn of the device is one step of a thread that
  has work, and the host's accesses fall between the steps.
\<close>

definition acc_turn ::
  "ats_attrs \<Rightarrow> atsattr \<Rightarrow> 'w ats_agent \<Rightarrow> 'w target \<Rightarrow> 'c md5_ops \<Rightarrow> acc \<times> 'c threads \<times> 'w
     \<Rightarrow> (acc \<times> 'c threads \<times> 'w) res option" where
  "acc_turn at x0 ats dma ops = (\<lambda>(s, p, w).
     case filter (\<lambda>e. p e \<noteq> Idle \<or> e \<in> set (ac_events s)) [Ats_req, Read_req, Write_req, Md5_req] of
       [] \<Rightarrow> Some (Inr (s, p, w))
     | e # es \<Rightarrow> Some (sys_step at x0 ats dma ops (Thread e) (s, p, w)))"

definition acc_steps ::
  "ats_attrs \<Rightarrow> atsattr \<Rightarrow> 'w ats_agent \<Rightarrow> 'w target \<Rightarrow> 'c md5_ops \<Rightarrow> 'w vfio_os \<Rightarrow> (acc \<times> 'c threads \<times> 'w) vfio" where
  "acc_steps at x0 ats dma ops os =
     \<lparr>os_file_size = (\<lambda>(s, p, w). os_file_size os w),
      os_mmap = (\<lambda>n (s, p, w). map_option (\<lambda>(b, w'). (b, s, p, w')) (os_mmap os n w)),
      os_mlock = (\<lambda>b n (s, p, w). (s, p, os_mlock os b n w)),
      os_munmap = (\<lambda>b n (s, p, w). (s, p, os_munmap os b n w)),
      os_map_dma = (\<lambda>b a n (s, p, w). (s, p, os_map_dma os b a n w)),
      os_unmap_dma = (\<lambda>a n (s, p, w). (s, p, os_unmap_dma os a n w)),
      os_store = (\<lambda>a bs (s, p, w). (s, p, os_store os a bs w)),
      os_load = (\<lambda>a n (s, p, w). os_load os a n w),
      vf_write = (\<lambda>a bs. sys_step at x0 ats dma ops (Host 0 (mk_gp TLM_WRITE_COMMAND a bs (length bs)))),
      vf_read = (\<lambda>a n (s, p, w). res_bind (bar_b_transport 0 (mk_gp TLM_READ_COMMAND a (replicate n 0) n) 0 s)
        (\<lambda>(tr, _, s'). Inr (gp_data tr, s', p, w))),
      vf_run = acc_turn at x0 ats dma ops\<rparr>"

interpretation steps_dev: vfio_device "acc_steps at x0 ats dma ops os" "\<lambda>(s, p, w). ar_status (ac_regs s)"
  for at x0 ats dma ops os
  by unfold_locales (auto simp: acc_steps_def bar_b_transport_def poke_all acc_reg_def R_STATUS_def)

text \<open>A turn goes to the one thread that has work.\<close>

lemma acc_turn_busy:
  assumes "\<forall>e'. e' \<noteq> e \<longrightarrow> p e' = Idle" "set (ac_events s) \<subseteq> {e}" "p e \<noteq> Idle \<or> e \<in> set (ac_events s)"
  shows "acc_turn at x0 ats dma ops (s, p, w) = Some (sys_step at x0 ats dma ops (Thread e) (s, p, w))"
proof -
  have "e' \<noteq> e \<Longrightarrow> p e' = Idle \<and> e' \<notin> set (ac_events s)" for e' using assms(1,2) by blast
  then have "filter (\<lambda>e. p e \<noteq> Idle \<or> e \<in> set (ac_events s)) [Ats_req, Read_req, Write_req, Md5_req] = [e]"
    using assms(3) by (cases e) simp_all
  then show ?thesis by (simp add: acc_turn_def del: sys_step.simps)
qed

lemma wait_settles:
  assumes "settles at x0 ats dma ops n (p e) s w (Inr (s1, w1))" "ac_events s = []" "\<forall>e'. e' \<noteq> e \<longrightarrow> p e' = Idle"
    and "p e \<noteq> Idle \<longrightarrow> ar_status (ac_regs s) = 0" "ar_status (ac_regs s1) \<noteq> 0" "\<forall>i. \<exists>k \<ge> i. sched k"
  shows "\<exists>i'. (if ar_status (ac_regs s) = 0 then wait_for_done (acc_steps at x0 ats dma ops os) sched i (s, p, w)
      else Some (Inr (i, s, p, w))) = Some (Inr (i', s1, \<lambda>_. Idle, w1))"
  using assms(1-4)
proof (induction n arbitrary: p s w i)
  case 0
  then have "p e = Idle" "s1 = s" "w1 = w" by (auto elim: settlesE)
  moreover have "p = (\<lambda>_. Idle)" using 0(3) calculation(1) by (metis ext)
  ultimately show ?case using assms(5) by simp
next
  case (Suc n)
  show ?case
  proof (cases "p e = Idle")
    case True
    then have "s1 = s" "w1 = w" using Suc.prems(1) by (auto elim: settles_IdleE)
    moreover have "p = (\<lambda>_. Idle)" using Suc.prems(3) True by (metis ext)
    ultimately show ?thesis using assms(5) by simp
  next
    case False
    then have st: "ar_status (ac_regs s) = 0" using Suc.prems(4) by simp
    from Suc.prems(1) False obtain s' p' w' where b: "busy_step at x0 ats dma ops (p e) (s, w) = Inr (s', p', w')"
      "settles at x0 ats dma ops n p' s' w' (Inr (s1, w1))" by (auto elim: settlesE)
    have k: "ac_events s' = []" "p' \<noteq> Idle \<longrightarrow> ac_regs s' = ac_regs s"
      using keeps_busy_step [OF b(1) False] Suc.prems(2) by (auto simp: keeps_regs_def)
    have turn: "vf_run (acc_steps at x0 ats dma ops os) (s, p, w) = Some (Inr (s', p(e := p'), w'))"
      using acc_turn_busy [of e p s at x0 ats dma ops w] Suc.prems(2,3) False b(1) by (simp add: acc_steps_def)
    have "\<exists>n \<ge> i. sched n" using assms(6) by blast
    from steps_dev.wait_to_turn [OF _ this, of "(s, p, w)" at x0 ats dma ops os] st obtain j where
      j: "sched j" "wait_for_done (acc_steps at x0 ats dma ops os) sched i (s, p, w) =
        wait_for_done (acc_steps at x0 ats dma ops os) sched j (s, p, w)" by auto
    have "wait_for_done (acc_steps at x0 ats dma ops os) sched j (s, p, w) =
      (if ar_status (ac_regs s') = 0 then wait_for_done (acc_steps at x0 ats dma ops os) sched (Suc j) (s', p(e := p'), w')
       else Some (Inr (Suc j, s', p(e := p'), w')))"
      by (subst steps_dev.poll) (simp add: j(1) turn)
    moreover have "\<exists>i'. (if ar_status (ac_regs s') = 0 then wait_for_done (acc_steps at x0 ats dma ops os) sched (Suc j) (s', p(e := p'), w')
      else Some (Inr (Suc j, s', p(e := p'), w'))) = Some (Inr (i', s1, \<lambda>_. Idle, w1))"
      by (rule Suc.IH) (use b(2) k Suc.prems(3) st in auto)
    ultimately show ?thesis using st j(2) by simp
  qed
qed

section \<open>A host in front of the accelerator\<close>

text \<open>
  All the programs need of the device, whichever way its threads run: the register accesses, the
  calls of the operating system, and that waiting for a command ends with what the command as a
  whole gives.  \<open>emb\<close> is the accelerator at rest in the rest of the system.
\<close>

locale acc_host =
  fixes at :: ats_attrs and x0 :: atsattr and ats :: "'w ats_agent" and dma :: "'w target" and ops :: "'c md5_ops"
    and os :: "'w vfio_os" and vf :: "'s vfio" and emb :: "acc \<Rightarrow> 'w \<Rightarrow> 's"
  assumes host_write [simp]: "write32 vf a v (emb s w) = Inr (emb (acc_write (ucast a) v s) w)"
    and host_read [simp]: "read32 vf a (emb s w) = Inr (acc_reg (ac_regs s) (ucast a), emb s w)"
    and host_calls [simp]: "os_file_size vf (emb s w) = os_file_size os w"
      "os_mmap vf n (emb s w) = map_option (\<lambda>(p, w'). (p, emb s w')) (os_mmap os n w)"
      "os_mlock vf p n (emb s w) = emb s (os_mlock os p n w)"
      "os_munmap vf p n (emb s w) = emb s (os_munmap os p n w)"
      "os_map_dma vf p a' n (emb s w) = emb s (os_map_dma os p a' n w)"
      "os_unmap_dma vf a' n (emb s w) = emb s (os_unmap_dma os a' n w)"
      "os_store vf b bs (emb s w) = emb s (os_store os b bs w)"
      "os_load vf b k (emb s w) = os_load os b k w"
    and host_wait: "ac_events s = [e] \<Longrightarrow> ar_status (ac_regs s) = 0 \<Longrightarrow>
      run_thread at x0 ats dma ops e (s\<lparr>ac_events := []\<rparr>, w) = Some (Inr (s1, w1)) \<Longrightarrow> ar_status (ac_regs s1) \<noteq> 0 \<Longrightarrow>
      \<forall>i. \<exists>k \<ge> i. sched k \<Longrightarrow> \<exists>i'. wait_for_done vf sched i (emb s w) = Some (Inr (i', emb s1 w1))"
begin

lemma command_returns:
  assumes "write_all vf ws (emb s w) = Inr (emb s0 w)" "ac_events s0 = [e]" "ar_status (ac_regs s0) = 0"
    and "run_thread at x0 ats dma ops e (s0\<lparr>ac_events := []\<rparr>, w) = Some (Inr (s1, w1))" "ar_status (ac_regs s1) \<noteq> 0"
    and "\<forall>i. \<exists>k \<ge> i. sched k"
  shows "\<exists>i'. command vf sched ws (i, emb s w) = Some (Inr (i', emb s1 w1))"
  using host_wait [OF assms(2-6), of i] by (simp add: command_def assms(1))

end

text \<open>Both devices are such a host: the one that runs a command in one piece, and the one that runs it step by step.\<close>

interpretation whole: acc_host at x0 ats dma ops os "acc_vfio at x0 ats dma ops os" Pair for at x0 ats dma ops os
proof unfold_locales
  fix s s1 :: acc and e :: acc_event and w w1 and sched :: "nat \<Rightarrow> bool" and i
  assume a: "ac_events s = [e]" "ar_status (ac_regs s) = 0"
    "run_thread at x0 ats dma ops e (s\<lparr>ac_events := []\<rparr>, w) = Some (Inr (s1, w1))" "ar_status (ac_regs s1) \<noteq> 0"
    "\<forall>i. \<exists>k \<ge> i. sched k"
  have "acc_run at x0 ats dma ops (s, w) = Some (Inr (s1, w1))"
    using a(1,3) by (cases e) (simp_all add: acc_run_def run_thread_def)
  moreover have "\<exists>n \<ge> i. sched n" using a(5) by blast
  ultimately show "\<exists>i'. wait_for_done (acc_vfio at x0 ats dma ops os) sched i (s, w) = Some (Inr (i', s1, w1))"
    using a(2,4) by (intro acc_dev.wait_returns) simp_all
qed simp_all

lemma drop_missed_idle [simp]: "drop_missed (\<lambda>_. Idle) s = s"
  by (simp add: drop_missed_def)

interpretation stepwise: acc_host at x0 ats dma ops os "acc_steps at x0 ats dma ops os" "\<lambda>s w. (s, \<lambda>_. Idle, w)"
  for at x0 ats dma ops os
proof unfold_locales
  fix s s1 :: acc and e :: acc_event and w w1 and sched :: "nat \<Rightarrow> bool" and i
  assume a: "ac_events s = [e]" "ar_status (ac_regs s) = 0"
    "run_thread at x0 ats dma ops e (s\<lparr>ac_events := []\<rparr>, w) = Some (Inr (s1, w1))" "ar_status (ac_regs s1) \<noteq> 0"
    "\<forall>i. \<exists>k \<ge> i. sched k"
  let ?vf = "acc_steps at x0 ats dma ops os" and ?s = "s\<lparr>ac_events := []\<rparr>"
  obtain s' q n where seg: "start_seg at x0 ops e ?s = Inr (s', q)" "settles at x0 ats dma ops n q s' w (Inr (s1, w1))"
    using settles_start [OF a(3)] by (cases "start_seg at x0 ops e ?s") auto
  have k: "ac_events s' = []" "q \<noteq> Idle \<longrightarrow> ar_status (ac_regs s') = 0"
    using keeps_start_seg [of ?s at x0 ops e] seg(1) a(2) by (auto simp: keeps_regs_def)
  have turn: "vf_run ?vf (s, \<lambda>_. Idle, w) = Some (Inr (s', (\<lambda>_. Idle)(e := q), w))"
    using acc_turn_busy [of e "\<lambda>_. Idle" s at x0 ats dma ops w] a(1) seg(1) by (simp add: acc_steps_def del: start_seg.simps)
  have "\<exists>n \<ge> i. sched n" using a(5) by blast
  from steps_dev.wait_to_turn [OF _ this, of "(s, \<lambda>_. Idle, w)" at x0 ats dma ops os] a(2) obtain j where
    j: "sched j" "wait_for_done ?vf sched i (s, \<lambda>_. Idle, w) = wait_for_done ?vf sched j (s, \<lambda>_. Idle, w)" by auto
  have "\<exists>i'. (if ar_status (ac_regs s') = 0 then wait_for_done ?vf sched (Suc j) (s', (\<lambda>_. Idle)(e := q), w)
      else Some (Inr (Suc j, s', (\<lambda>_. Idle)(e := q), w))) = Some (Inr (i', s1, \<lambda>_. Idle, w1))"
    by (rule wait_settles [where e = e and n = n]) (use seg(2) k a(4,5) in simp_all)
  then show "\<exists>i'. wait_for_done ?vf sched i (s, \<lambda>_. Idle, w) = Some (Inr (i', s1, \<lambda>_. Idle, w1))"
    unfolding j(2) by (subst steps_dev.poll) (simp add: j(1) turn)
qed (simp_all add: write32_def read32_def acc_steps_def bar_b_transport_def poke_all)

section \<open>The digest the programs print\<close>

fun digest_text :: "u8 list \<Rightarrow> string" where
  "digest_text (a # b # c # d # bs) = hex_out_w2 a @ hex_out b @ hex_out c @ hex_out d @ digest_text bs"
| "digest_text _ = []"

lemma print_word_bytes: "print_word (le_word [a, b, c, d]) = hex_out_w2 a @ hex_out b @ hex_out c @ hex_out d"
proof -
  have "le_bytes 4 (le_word [a, b, c, d] :: u32) = [a, b, c, d]" by (rule le_bytes32_word) simp
  then have "ucast (le_word [a, b, c, d] :: u32) = a" "ucast (drop_bit 8 (le_word [a, b, c, d] :: u32)) = b"
    "ucast (drop_bit 16 (le_word [a, b, c, d] :: u32)) = c" "ucast (drop_bit 24 (le_word [a, b, c, d] :: u32)) = d"
    by (simp_all add: bytes_simps del: le_word.simps)
  then show ?thesis by (simp add: print_word_def del: le_word.simps)
qed

lemma print_words_digest:
  assumes "length D = 16"
  shows "print_word (le_word (take 4 D)) @ print_word (le_word (take 4 (drop 4 D))) @
    print_word (le_word (take 4 (drop 8 D))) @ print_word (le_word (take 4 (drop 12 D))) = digest_text D"
proof -
  obtain a0 a1 a2 a3 b0 b1 b2 b3 c0 c1 c2 c3 d0 d1 d2 d3 where
    "D = [a0, a1, a2, a3, b0, b1, b2, b3, c0, c1, c2, c3, d0, d1, d2, d3]"
    using assms by (auto simp: numeral_eq_Suc length_Suc_conv)
  then show ?thesis by (simp add: print_word_bytes del: le_word.simps)
qed

text \<open>
  The format of the tool \<open>md5sum\<close>, two digits for every byte, and how far the text of the programs is from it: each of the
  bytes 1, 2 and 3 of a word that is below 16 costs a digit.
\<close>

definition md5sum_text :: "u8 list \<Rightarrow> string" where
  "md5sum_text D = concat (map hex_out_w2 D)"

lemma hex_digit_inj: "hex_digit m = hex_digit n \<Longrightarrow> m < 16 \<Longrightarrow> n < 16 \<Longrightarrow> m = n"
  unfolding hex_digit_def by (subst (asm) nth_eq_iff_index_eq) simp_all

lemma hex_out_length: "length (hex_out b) = (if unat b < 16 then 1 else 2)"
  by (simp add: hex_out_def)

lemma hex_out_inj:
  assumes "hex_out b = hex_out c"
  shows "b = c"
proof (cases "unat b < 16 \<or> unat c < 16")
  case True
  then show ?thesis
    using assms by (auto simp: hex_out_def word_unat_eq_iff dest: hex_digit_inj split: if_splits)
next
  case False
  have "unat b < 256" "unat c < 256"
    using unsigned_less [of b, where ?'a = nat] unsigned_less [of c, where ?'a = nat] by simp_all
  then have "unat b div 16 = unat c div 16" "unat b mod 16 = unat c mod 16"
    using False assms by (auto simp: hex_out_def intro: hex_digit_inj)
  then have "unat b = unat c" by (metis div_mult_mod_eq)
  then show ?thesis by (simp add: word_unat_eq_iff)
qed

lemma hex_out_w2_length [simp]: "length (hex_out_w2 b) = 2"
  by (simp add: hex_out_w2_def hex_out_length)

lemma hex_out_w2_inj: "hex_out_w2 b = hex_out_w2 c \<Longrightarrow> b = c"
proof -
  assume a: "hex_out_w2 b = hex_out_w2 c"
  have z: "hex_digit 0 = CHR ''0''" by (simp add: hex_digit_def)
  have w: "hex_out_w2 d = [hex_digit (unat d div 16), hex_digit (unat d mod 16)]" for d
    by (simp add: hex_out_w2_def hex_out_def z)
  have "unat d div 16 < 16" for d :: u8 using unsigned_less [of d, where ?'a = nat] by simp
  then have "unat b div 16 = unat c div 16" "unat b mod 16 = unat c mod 16"
    using a by (auto simp: w intro: hex_digit_inj)
  then have "unat b = unat c" by (metis div_mult_mod_eq)
  then show "b = c" by (simp add: word_unat_eq_iff)
qed

lemma hex_out_short: "length (hex_out b) + of_bool (unat b < 16) = 2"
  by (simp add: hex_out_length)

lemma hex_out_full: "\<not> unat b < 16 \<Longrightarrow> hex_out b = hex_out_w2 b"
  by (simp add: hex_out_w2_def hex_out_length)

lemma length_filter_of_bool: "length (filter P xs) = (\<Sum>x\<leftarrow>xs. of_bool (P x))"
  by (induction xs) simp_all

text \<open>The places of a digest, other than the first of a word, with a byte of one hexadecimal digit.\<close>

definition short_bytes :: "u8 list \<Rightarrow> nat list" where
  "short_bytes D = filter (\<lambda>i. i mod 4 \<noteq> 0 \<and> unat (D ! i) < 16) [0..<16]"

lemma digest_text_length:
  assumes "length D = 16"
  shows "length (digest_text D) + length (short_bytes D) = 32" "length (md5sum_text D) = 32"
proof -
  obtain a0 a1 a2 a3 b0 b1 b2 b3 c0 c1 c2 c3 d0 d1 d2 d3 where
    D: "D = [a0, a1, a2, a3, b0, b1, b2, b3, c0, c1, c2, c3, d0, d1, d2, d3]"
    using assms by (auto simp: numeral_eq_Suc length_Suc_conv)
  have u: "[0..<16] = [0, 1, 2, 3, 4, 5, 6, 7, 8, 9, 10, 11, 12, 13, 14, 15 :: nat]" by (simp add: upt_rec)
  show "length (digest_text D) + length (short_bytes D) = 32"
    unfolding short_bytes_def length_filter_of_bool u D
    using hex_out_short [of a1] hex_out_short [of a2] hex_out_short [of a3] hex_out_short [of b1] hex_out_short [of b2]
      hex_out_short [of b3] hex_out_short [of c1] hex_out_short [of c2] hex_out_short [of c3] hex_out_short [of d1]
      hex_out_short [of d2] hex_out_short [of d3] by simp
  show "length (md5sum_text D) = 32" by (simp add: D md5sum_text_def)
qed

lemma digest_text_md5sum:
  assumes "length D = 16"
  shows "digest_text D = md5sum_text D \<longleftrightarrow> short_bytes D = []"
proof
  assume "digest_text D = md5sum_text D"
  with digest_text_length [OF assms] show "short_bytes D = []" by simp
next
  assume s: "short_bytes D = []"
  have "\<not> unat (D ! i) < 16" if "i < 16" "i mod 4 \<noteq> 0" for i
    using s that unfolding short_bytes_def filter_empty_conv by (auto dest!: bspec [where x = i])
  then have f: "hex_out (D ! i) = hex_out_w2 (D ! i)" if "i < 16" "i mod 4 \<noteq> 0" for i
    using that by (simp add: hex_out_full)
  obtain a0 a1 a2 a3 b0 b1 b2 b3 c0 c1 c2 c3 d0 d1 d2 d3 where
    D: "D = [a0, a1, a2, a3, b0, b1, b2, b3, c0, c1, c2, c3, d0, d1, d2, d3]"
    using assms by (auto simp: numeral_eq_Suc length_Suc_conv)
  show "digest_text D = md5sum_text D"
    using f [of 1] f [of 2] f [of 3] f [of 5] f [of 6] f [of 7] f [of 9] f [of 10] f [of 11] f [of 13] f [of 14] f [of 15]
    by (simp add: D md5sum_text_def)
qed

context acc_host begin

lemma print_results_acc:
  "print_results vf R_MD5_RESULT_0 (emb s w) =
     Inr (print_word (ar_md5_0 (ac_regs s)) @ print_word (ar_md5_1 (ac_regs s)) @
          print_word (ar_md5_2 (ac_regs s)) @ print_word (ar_md5_3 (ac_regs s)), emb s w)"
  by (simp add: print_results.simps R_MD5_RESULT_0_def R_MD5_RESULT_3_def acc_reg_def)

lemma run_md5_writes:
  "write_all vf
     [(R_ADDR_MSB, 0), (R_ADDR_LSB, SZ_32K), (R_LENGTH, n), (R_STATUS, 0), (R_CTRL, R_CTRL_MD5SUM)] (emb s w) =
   Inr (emb (s\<lparr>ac_regs := (ac_regs s)\<lparr>ar_addr_msb := 0, ar_addr_lsb := 0x8000, ar_len := n, ar_status := 0\<rparr>,
          ac_events := acc_notify (ac_events s) [Md5_req]\<rparr>) w)"
  by (simp add: acc_write_def ctrl_event_def vfio_consts Let_def)

lemma run_md5_digest:
  assumes "serves_pages at ats mem pt" "reads_memory dma mem" "hashes_in_pieces ops" "md5_init ops = Some c0"
    and "\<forall>c. length (md5_final ops c) = 16"
    and "os_file_size os w = Some sz" "os_mmap os (map_size sz) w = Some (mbuf, w1)"
    and "w2 = os_map_dma os mbuf 0x8000 (map_size sz) (os_mlock os mbuf (map_size sz) w1)"
    and "length file = unat sz" "n = unat sz mod 2 ^ 32" "page_bytes (pt w2) (mem w2) 0x8000 n = take n file"
    and "ac_events s = []" "coherent at (pt w2) (ac_atc s)" "\<forall>i. \<exists>k \<ge> i. sched k"
  shows "\<exists>i' st'. run_md5 vf sched (i, emb s w) =
     Some (Inr (digest_text (md5_final ops (md5_update ops c0 (take n file))), i', st'))"
proof -
  let ?D = "md5_final ops (md5_update ops c0 (take n file))"
  let ?r = "(ac_regs s)\<lparr>ar_addr_msb := 0, ar_addr_lsb := 0x8000, ar_len := ucast sz, ar_status := 0\<rparr>"
  let ?s0 = "s\<lparr>ac_regs := ?r, ac_events := [Md5_req]\<rparr>" and ?s1 = "s\<lparr>ac_regs := ?r, ac_events := []\<rparr>"
  have n: "n = unat (ar_len (ac_regs ?s1))"
    using assms(10) by (simp add: unsigned_ucast_eq take_bit_eq_mod)
  have v: "0x8000 = acc_virt_addr (ac_regs ?s1)" by (simp add: acc_virt_addr_def)
  have "n < 2 ^ 32" using assms(10) by simp
  then have b: "unat (0x8000 :: u64) + n < 2 ^ 64 - 8192" "unat (0x8000 :: u64) mod 4096 = 0 \<or> 4096 \<le> n \<or> n = 0" by simp_all
  have c: "coherent at (pt w2) (ac_atc ?s1)" using assms(13) by simp
  obtain rs' w3 where "md5_run at x0 ats dma ops (?s1, w2) =
      Some (Inr (set_status R_STATUS_DONE (set_md5_result ?D (?s1\<lparr>ac_atc := rs'\<rparr>)), w3))"
    using md5_run_coherent [OF assms(1-4) c v n b, of x0] assms(11) by auto
  moreover define s3 where "s3 = set_status R_STATUS_DONE (set_md5_result ?D (?s1\<lparr>ac_atc := rs'\<rparr>))"
  ultimately have run: "run_thread at x0 ats dma ops Md5_req (?s0\<lparr>ac_events := []\<rparr>, w2) = Some (Inr (s3, w3))"
    by (simp add: run_thread_def)
  have st: "ar_status (ac_regs s3) \<noteq> 0" by (simp add: s3_def set_status_def R_STATUS_DONE_def)
  obtain i' where cmd: "command vf sched
      [(R_ADDR_MSB, 0), (R_ADDR_LSB, SZ_32K), (R_LENGTH, ucast sz), (R_STATUS, 0), (R_CTRL, R_CTRL_MD5SUM)] (i, emb s w2) =
      Some (Inr (i', emb s3 w3))"
    using command_returns [OF _ _ _ run st assms(14)] run_md5_writes assms(12) by fastforce
  have D: "print_results vf R_MD5_RESULT_0 (emb s3 w3) = Inr (digest_text ?D, emb s3 w3)"
    using print_words_digest [of ?D] assms(5) by (simp add: print_results_acc s3_def set_status_def set_md5_result_def)
  have "(ucast SZ_32K :: u64) = 0x8000" by (simp add: SZ_32K_def)
  with cmd D show ?thesis by (simp add: run_md5_def assms(6,7) flip: assms(8))
qed

end

text \<open>
  Property C2: run on an idle accelerator whose cache agrees with the translations in force once
  the file is mapped, against a memory and an agent that serve 4 KB pages, with MD5 operations that hash in pieces to 16 bytes, and
  under any schedule that gives the device turns again and again, each one step of its thread between two accesses of the program,
  the MD5 program returns.  What it prints comes from the digest of the right bytes: of all the bytes of the file when it is
  smaller than 4 GB, of the first \<open>size mod 2 ^ 32\<close> ones in general, because the length register has 32 bits.  It is not always the
  text of \<open>md5sum\<close> the documentation compares it with: \<open>setw(2)\<close> holds for the first byte of each of the four words only, so
  a byte below 16 at any other place is printed with one digit, the text has one digit less than 32 for each such byte, and it is the text of
  \<open>md5sum\<close> exactly when there is no such byte.
\<close>

theorem md5_program_prints_digest:
  assumes "serves_pages at ats mem pt" "reads_memory dma mem" "hashes_in_pieces ops" "md5_init ops = Some c0"
    and "\<forall>c. length (md5_final ops c) = 16"
    and "os_file_size os w = Some sz" "os_mmap os (map_size sz) w = Some (mbuf, w1)"
    and "w2 = os_map_dma os mbuf 0x8000 (map_size sz) (os_mlock os mbuf (map_size sz) w1)"
    and "length file = unat sz" "n = unat sz mod 2 ^ 32" "page_bytes (pt w2) (mem w2) 0x8000 n = take n file"
    and "ac_events s = []" "coherent at (pt w2) (ac_atc s)" "\<forall>i. \<exists>k \<ge> i. sched k"
    and "D = md5_final ops (md5_update ops c0 (take n file))"
  shows "\<exists>out i' st'. run_md5 (acc_steps at x0 ats dma ops os) sched (i, s, \<lambda>_. Idle, w) = Some (Inr (out, i', st')) \<and>
     out = digest_text D \<and>
     length out + length (short_bytes D) = 32 \<and> (out = md5sum_text D \<longleftrightarrow> short_bytes D = [])"
proof -
  have "length D = 16" using assms(5,15) by simp
  moreover obtain i' st' where "run_md5 (acc_steps at x0 ats dma ops os) sched (i, s, \<lambda>_. Idle, w) = Some (Inr (digest_text D, i', st'))"
    using stepwise.run_md5_digest [OF assms(1-14)] assms(15) by blast
  ultimately show ?thesis by (metis digest_text_md5sum digest_text_length(1))
qed

text \<open>Surroundings for the witnesses: a file of three bytes.\<close>

definition ex_os :: "nat vfio_os" where
  "ex_os = \<lparr>os_file_size = (\<lambda>_. Some 3), os_mmap = (\<lambda>n w. if n = 0 then None else Some (0x7000, w)),
     os_mlock = (\<lambda>_ _ w. w), os_munmap = (\<lambda>_ _ w. w), os_map_dma = (\<lambda>_ _ _ w. w), os_unmap_dma = (\<lambda>_ _ w. w),
     os_store = (\<lambda>_ _ w. w), os_load = (\<lambda>_ n _. replicate n 0)\<rparr>"

theorem md5_program_prints_digest_witness:
  "\<exists>out i' st'. run_md5 (acc_steps ex_at ex_x0 ex_agent
      (\<lambda>tr d w. Inr (tr\<lparr>gp_data := poke (gp_len tr) (map (\<lambda>i. ucast (gp_addr tr + of_nat i)) [0..<gp_len tr]) (gp_data tr),
         gp_resp := TLM_OK_RESPONSE\<rparr>, d, w))
      \<lparr>md5_init = Some [], md5_update = (@), md5_final = (\<lambda>c. take 16 (c @ replicate 16 0))\<rparr> ex_os) even (0, acc_new, \<lambda>_. Idle, 0) =
    Some (Inr (out, i', st')) \<and> out = ''00120'' @ ''00000'' @ ''00000'' @ ''00000'' \<and> 
     out \<noteq> md5sum_text [0, 1, 2, 0, 0, 0, 0, 0, 0, 0, 0, 0, 0, 0, 0, 0]"
proof -
  let ?ops = "\<lparr>md5_init = Some [], md5_update = (@), md5_final = (\<lambda>c. take 16 (c @ replicate 16 0))\<rparr> :: u8 list md5_ops"
  have p: "hashes_in_pieces ?ops" "md5_init ?ops = Some []" "\<forall>c. length (md5_final ?ops c) = 16"
    by (simp_all add: hashes_in_pieces_def min_def)
  have ms: "map_size 3 = 4096" by (simp add: map_size_def SZ_4K_def)
  have o: "os_file_size ex_os 0 = Some 3" "os_mmap ex_os (map_size 3) 0 = Some (0x7000, 0)"
    "0 = os_map_dma ex_os 0x7000 0x8000 (map_size 3) (os_mlock ex_os 0x7000 (map_size 3) 0)" "length [0, 1, 2 :: u8] = unat (3 :: u64)" "3 = unat (3 :: u64) mod 2 ^ 32"
    by (simp_all add: ex_os_def ms)
  have b: "page_bytes (\<lambda>a. a) (\<lambda>a. ucast a) 0x8000 3 = take 3 [0, 1, 2]"
    by (simp add: page_bytes_def ex_page_phys upt_conv_Cons)
  have i: "ac_events acc_new = []" "coherent ex_at (\<lambda>a. a) (ac_atc acc_new)" by (simp_all add: acc_new_def)
  have s: "\<forall>i. \<exists>k \<ge> i. even (k :: nat)" by (metis even_Suc le_SucI order_refl)
  let ?D = "[0, 1, 2, 0, 0, 0, 0, 0, 0, 0, 0, 0, 0, 0, 0, 0] :: u8 list"
  have D: "?D = md5_final ?ops (md5_update ?ops [] (take 3 [0, 1, 2]))" by (simp add: numeral_eq_Suc)
  have d: "digest_text ?D = ''00120'' @ ''00000'' @ ''00000'' @ ''00000''"
    by (simp add: hex_out_w2_def hex_out_def hex_digit_def)
  have n: "short_bytes ?D \<noteq> []"
    unfolding short_bytes_def filter_empty_conv by (rule notI) (drule bspec [where x = 1], simp_all)
  show ?thesis
    using md5_program_prints_digest [OF ex_serves example_memory p o b i s D, where i = 0] n unfolding d by metis
qed

section \<open>The size of the mapping and the printed text\<close>

text \<open>
  The size the programs map is the smallest multiple of 4096 that holds the file,
  for every size up to the last page below \<open>2 ^ 64\<close>; an empty file gives a mapping of no bytes.
\<close>

theorem map_size_least:
  assumes "unat n \<le> 2 ^ 64 - 4096"
  shows "unat n \<le> unat (map_size n) \<and> unat (map_size n) mod 4096 = 0 \<and> unat (map_size n) < unat n + 4096 \<and>
    (map_size n = 0 \<longleftrightarrow> n = 0)"
proof -
  let ?q = "unat n div 4096"
  have p: "unat (n div SZ_4K) = ?q" "unat (n mod SZ_4K) = unat n mod 4096"
    by (simp_all add: unat_div unat_mod SZ_4K_def)
  have e: "unat n = 4096 * ?q + unat n mod 4096" by simp
  have "unat (n div SZ_4K * SZ_4K) = 4096 * ?q"
    using e assms by (simp add: unat_word_ariths(2) p page_4K)
  moreover have "n mod SZ_4K = 0 \<longleftrightarrow> unat n mod 4096 = 0" using p(2) by (metis unat_eq_0)
  moreover have "unat (n div SZ_4K * SZ_4K + SZ_4K) = 4096 * ?q + 4096" if "unat n mod 4096 \<noteq> 0"
  proof -
    have "4096 * ?q + 4096 < 2 ^ 64" using that e assms by linarith
    then show ?thesis using calculation(1) by (simp add: unat_word_ariths(1) page_4K)
  qed
  ultimately have m: "unat (map_size n) = 4096 * ?q + (if unat n mod 4096 = 0 then 0 else 4096)"
    by (simp add: map_size_def)
  define q r where "q = ?q" and "r = unat n mod 4096"
  then have r: "unat n = 4096 * q + r" "r < 4096" "unat (map_size n) = 4096 * q + (if r = 0 then 0 else 4096)"
    using e m by simp_all
  then have "unat n \<le> unat (map_size n) \<and> unat (map_size n) < unat n + 4096" by auto
  moreover have "unat (map_size n) mod 4096 = 0" unfolding r(3) by simp
  moreover have "unat (map_size n) = 0 \<longleftrightarrow> unat n = 0" using r by auto
  then have "map_size n = 0 \<longleftrightarrow> n = 0" by (simp add: unat_eq_0)
  ultimately show ?thesis by blast
qed

text \<open>
  A word of the digest is printed with two digits for its first byte but one digit
  for any other byte below 16, so its text has eight digits exactly when there is no such byte.
  Two words with texts of eight digits are equal when the texts are, but different words can have
  the same shorter text, so the printed digest does not determine the digest.
\<close>

theorem printed_word_digits:
  "length (print_word (le_word [a, b, c, d])) = 8 - length (filter (\<lambda>x. unat x < 16) [b, c, d]) \<and>
   (length (print_word (le_word [a, b, c, d])) = 8 \<and> print_word (le_word [a, b, c, d]) = print_word (le_word [a', b', c', d'])
      \<longrightarrow> [a, b, c, d] = [a', b', c', d']) \<and>
   print_word (le_word [0, 0x01, 0x12, 0]) = print_word (le_word [0, 0x11, 0x02, 0])"
proof (intro conjI impI)
  show "length (print_word (le_word [a, b, c, d])) = 8 - length (filter (\<lambda>x. unat x < 16) [b, c, d])"
    by (simp add: print_word_bytes hex_out_length del: le_word.simps)
  show "print_word (le_word [0, 0x01, 0x12, 0]) = print_word (le_word [0, 0x11, 0x02, 0])"
    by (simp add: print_word_bytes hex_out_w2_def hex_out_def hex_digit_def del: le_word.simps)
next
  assume "length (print_word (le_word [a, b, c, d])) = 8 \<and>
    print_word (le_word [a, b, c, d]) = print_word (le_word [a', b', c', d'])"
  then have l: "length (print_word (le_word [a, b, c, d])) = 8"
    and e: "print_word (le_word [a, b, c, d]) = print_word (le_word [a', b', c', d'])" by blast+
  note l' = l [unfolded e]
  have f: "length (hex_out b) = 2" "length (hex_out c) = 2" "length (hex_out b') = 2" "length (hex_out c') = 2"
    using l l' by (simp_all add: print_word_bytes hex_out_length del: le_word.simps split: if_splits)
  have "hex_out_w2 a = hex_out_w2 a' \<and> hex_out b = hex_out b' \<and> hex_out c = hex_out c' \<and> hex_out d = hex_out d'"
    using e f by (simp add: print_word_bytes del: le_word.simps)
  then show "[a, b, c, d] = [a', b', c', d']" by (simp add: hex_out_w2_inj hex_out_inj)
qed

theorem printed_word_digits_witness:
  "print_word (le_word [0x1f, 0x20, 0x33, 0xff]) = ''1f2033ff'' \<and>
   print_word (le_word [0x1f, 0x20, 0x33, 0x7f]) \<noteq> ''1f2033ff''"
proof -
  have p: "print_word (le_word [0x1f, 0x20, 0x33, 0xff]) = ''1f2033ff''"
    by (simp add: print_word_bytes hex_out_w2_def hex_out_def hex_digit_def del: le_word.simps)
  moreover have "print_word (le_word [0x1f, 0x20, 0x33, 0x7f]) \<noteq> ''1f2033ff''"
  proof
    assume "print_word (le_word [0x1f, 0x20, 0x33, 0x7f]) = ''1f2033ff''"
    with printed_word_digits [THEN conjunct2, THEN conjunct1, rule_format, of "0x1f" "0x20" "0x33" "0xff" "0x1f" "0x20" "0x33" "0x7f"]
    show False unfolding p by simp
  qed
  ultimately show ?thesis by blast
qed

theorem map_size_least_witness:
  "unat (map_size 4097) mod 4096 = 0 \<and> 4097 \<le> unat (map_size 4097) \<and> unat (map_size 4097) < 8193"
proof -
  have "unat (4097 :: u64) \<le> 2 ^ 64 - 4096" by simp
  from map_size_least [OF this] show ?thesis by simp
qed

section \<open>The tests of the accelerator\<close>

lemma test_addrs_list: "k \<le> 128 \<Longrightarrow> test_addrs (256 * of_nat k) = map (\<lambda>j. 256 * of_nat j) [k..<128]"
proof (induction "128 - k" arbitrary: k)
  case 0
  then show ?case by (subst test_addrs.simps) (simp add: SZ_32K_def)
next
  case (Suc n)
  from Suc.hyps(2) have "n = 128 - Suc k" "k < 128" by simp_all
  with Suc.hyps(1) [of "Suc k"] have "test_addrs (256 * of_nat (Suc k)) = map (\<lambda>j. 256 * of_nat j) [Suc k..<128]"
    by (simp only: Suc_le_eq)
  moreover have "unat (256 * of_nat k :: u32) = 256 * k" using \<open>k < 128\<close> by (simp add: unat_word_ariths unat_of_nat)
  then have "(256 * of_nat k :: u32) < SZ_32K" using \<open>k < 128\<close> by (simp add: word_less_nat_alt SZ_32K_def)
  moreover have "(256 * of_nat k + 256 :: u32) = 256 * of_nat (Suc k)" by (simp add: algebra_simps)
  ultimately show ?case using \<open>k < 128\<close> by (subst test_addrs.simps) (simp add: upt_conv_Cons add.commute)
qed

lemma run_each_all:
  assumes "\<And>a s. a \<in> set as \<Longrightarrow> P s \<Longrightarrow> \<exists>s'. f a s = Some (Inr (g a, s')) \<and> P s'" "P s"
  shows "\<exists>s'. run_each f as s = Some (Inr (map g as, s')) \<and> P s'"
  using assms
proof (induction as arbitrary: s)
  case (Cons a as)
  obtain s1 where "f a s = Some (Inr (g a, s1))" "P s1" using Cons.prems(1) [of a s] Cons.prems(2) by auto
  moreover from this obtain s2 where "run_each f as s1 = Some (Inr (map g as, s2))" "P s2"
    using Cons.IH [of s1] Cons.prems(1) by auto
  ultimately show ?case by simp
qed simp

text \<open>
  The shared mapping: the program and the table see the same bytes, as long as an access
  stays in one page.
\<close>

definition shares_mapping :: "'w vfio_os \<Rightarrow> ('w \<Rightarrow> bytes_memory) \<Rightarrow> ('w \<Rightarrow> u64 \<Rightarrow> u64) \<Rightarrow> bool" where
  "shares_mapping os mem pt \<longleftrightarrow> (\<forall>a bs w. unat a mod 4096 + length bs \<le> 4096 \<longrightarrow>
      mem (os_store os a bs w) = mem_write (mem w) (page_phys (pt w) (ucast a)) bs \<and> pt (os_store os a bs w) = pt w) \<and>
    (\<forall>a n w. unat a mod 4096 + n \<le> 4096 \<longrightarrow> os_load os a n w = mem_read (mem w) (page_phys (pt w) (ucast a)) n)"

text \<open>An idle accelerator with a coherent cache, and the table it started with.\<close>

definition acc_idle ::
  "(acc \<Rightarrow> 'w \<Rightarrow> 's) \<Rightarrow> ats_attrs \<Rightarrow> ('w \<Rightarrow> u64 \<Rightarrow> u64) \<Rightarrow> (u64 \<Rightarrow> u64) \<Rightarrow> nat \<times> 's \<Rightarrow> bool" where
  "acc_idle emb at pt p st \<longleftrightarrow> (\<exists>i s w. st = (i, emb s w) \<and> ac_events s = [] \<and> coherent at (pt w) (ac_atc s) \<and> pt w = p)"

lemma acc_idleI:
  "ac_events s = [] \<Longrightarrow> coherent at (pt w) (ac_atc s) \<Longrightarrow> pt w = p \<Longrightarrow> acc_idle emb at pt p (i, emb s w)"
  by (auto simp: acc_idle_def)

lemma loop_addr:
  assumes "a \<in> set (test_addrs 0)"
  shows "unat a < 0x8000" "unat a mod 4096 + 4 \<le> 4096"
proof -
  have "test_addrs 0 = map (\<lambda>j. 256 * of_nat j) [0..<128]" using test_addrs_list [of 0] by simp
  with assms obtain j where j: "a = 256 * of_nat j" "j < 128" by auto
  then have u: "unat a = 256 * j" by (simp add: unat_word_ariths unat_of_nat)
  with j show "unat a < 0x8000" by simp
  have "256 * j mod 4096 = 256 * (j mod 16)" using mult_mod_right [of 256 j 16] by simp
  then show "unat a mod 4096 + 4 \<le> 4096" using u by simp
qed

lemma low_virt_addr: "unat a < 0x8000 \<Longrightarrow> ar_addr_msb r = 0 \<Longrightarrow> ar_addr_lsb r = a \<Longrightarrow>
    acc_virt_addr r = ucast a \<and> unat (ucast a :: u64) < 2 ^ 64 - 16384"
  by (simp add: acc_virt_addr_def unat_ucast32)

context acc_host begin

lemma access_writes:
  "write_all vf
     [(R_ADDR_MSB, 0), (R_ADDR_LSB, a), (R_LENGTH, n), (R_STATUS, 0), (R_CTRL, R_CTRL_READ)] (emb s w) =
   Inr (emb (s\<lparr>ac_regs := (ac_regs s)\<lparr>ar_addr_msb := 0, ar_addr_lsb := a, ar_len := n, ar_status := 0\<rparr>,
          ac_events := acc_notify (ac_events s) [Read_req]\<rparr>) w)"
  "write_all vf
     [(R_ADDR_MSB, 0), (R_ADDR_LSB, a), (R_LENGTH, n), (R_STATUS, 0), (R_VAL, v), (R_CTRL, R_CTRL_WRITE)] (emb s w) =
   Inr (emb (s\<lparr>ac_regs := (ac_regs s)\<lparr>ar_addr_msb := 0, ar_addr_lsb := a, ar_len := n, ar_status := 0, ar_value := v\<rparr>,
          ac_events := acc_notify (ac_events s) [Write_req]\<rparr>) w)"
  "write_all vf
     [(R_ADDR_MSB, 0), (R_ADDR_LSB, a), (R_LENGTH, n), (R_STATUS, 0), (R_CTRL, R_CTRL_TRANSLATE)] (emb s w) =
   Inr (emb (s\<lparr>ac_regs := (ac_regs s)\<lparr>ar_addr_msb := 0, ar_addr_lsb := a, ar_len := n, ar_status := 0\<rparr>,
          ac_events := acc_notify (ac_events s) [Ats_req]\<rparr>) w)"
  by (simp_all add: acc_write_def ctrl_event_def vfio_consts Let_def)

lemma test_read_at_result:
  assumes "serves_pages at ats mem pt" "reads_memory dma mem" "shares_mapping os mem pt" "\<forall>i. \<exists>k \<ge> i. sched k"
    and "unat a < 0x8000" "unat a mod 4096 + 4 \<le> 4096" "acc_idle emb at pt p st"
  shows "\<exists>st'. test_read_at vf sched a st = Some (Inr (0xDDCCBBAA, st')) \<and> acc_idle emb at pt p st'"
proof -
  obtain i s w where st: "st = (i, emb s w)" and idle: "ac_events s = []" "coherent at (pt w) (ac_atc s)" "pt w = p"
    using assms(7) by (auto simp: acc_idle_def)
    let ?bs = "[0xAA, 0xBB, 0xCC, 0xDD] :: u8 list"
  let ?r = "(ac_regs s)\<lparr>ar_addr_msb := 0, ar_addr_lsb := a, ar_len := 4, ar_status := 0\<rparr>"
  let ?s0 = "s\<lparr>ac_regs := ?r, ac_events := [Read_req]\<rparr>" and ?s1 = "s\<lparr>ac_regs := ?r, ac_events := []\<rparr>"
  define w1 where "w1 = os_store os a ?bs w"
  have w1: "mem w1 = mem_write (mem w) (page_phys (pt w) (ucast a)) ?bs" "pt w1 = pt w"
    using assms(3,6) by (simp_all add: shares_mapping_def w1_def)
  note va = low_virt_addr [OF assms(5), of ?r]
  have c: "coherent at (pt w1) (ac_atc ?s1)" using idle w1 by simp
  have v: "ucast a = acc_virt_addr (ac_regs ?s1)" "unat (ucast a :: u64) < 2 ^ 64 - 16384" using va by simp_all
  have val: "le_word (mem_read (mem w1) (page_phys (pt w1) (ucast a)) 4) = (0xDDCCBBAA :: u32)"
  proof -
    have l: "length ?bs = 4" by simp
    have "mem_read (mem w1) (page_phys (pt w1) (ucast a)) (length ?bs) = ?bs"
      unfolding w1 by (rule mem_read_write_same) simp
    then have "mem_read (mem w1) (page_phys (pt w1) (ucast a)) 4 = ?bs" unfolding l .
    then show ?thesis by simp
  qed
  obtain rs' w2 where rr: "read_run at x0 ats dma (?s1, w1) = Some (Inr (set_status R_STATUS_DONE
      (?s1\<lparr>ac_atc := rs', ac_regs := (ac_regs ?s1)\<lparr>ar_value := 0xDDCCBBAA\<rparr>\<rparr>), w2))"
    "coherent at (pt w1) rs'" "pt w2 = pt w1"
    using read_run_coherent [OF assms(1,2) c v, of x0] unfolding val by blast
  define s3 where "s3 = set_status R_STATUS_DONE (?s1\<lparr>ac_atc := rs', ac_regs := (ac_regs ?s1)\<lparr>ar_value := 0xDDCCBBAA\<rparr>\<rparr>)"
  have run: "run_thread at x0 ats dma ops Read_req (?s0\<lparr>ac_events := []\<rparr>, w1) = Some (Inr (s3, w2))"
    using rr(1) by (simp add: run_thread_def s3_def)
  have s3: "ar_status (ac_regs s3) \<noteq> 0" "ac_events s3 = []" "ac_atc s3 = rs'" "ar_value (ac_regs s3) = 0xDDCCBBAA"
    by (simp_all add: s3_def set_status_def R_STATUS_DONE_def)
  obtain i' where cmd: "command vf sched
      [(R_ADDR_MSB, 0), (R_ADDR_LSB, a), (R_LENGTH, 4), (R_STATUS, 0), (R_CTRL, R_CTRL_READ)] (i, emb s w1) =
      Some (Inr (i', emb s3 w2))"
    using command_returns [OF _ _ _ run s3(1) assms(4)] access_writes(1) idle(1) by fastforce
  then have "test_read_at vf sched a st = Some (Inr (0xDDCCBBAA, i', emb s3 w2))"
    by (simp add: test_read_at_def st s3(4) acc_reg_def R_VAL_def flip: w1_def)
  moreover have "acc_idle emb at pt p (i', emb s3 w2)"
    using s3 rr(2,3) w1(2) idle(3) by (intro acc_idleI) simp_all
  ultimately show ?thesis by blast
qed

lemma test_write_at_result:
  assumes "serves_pages at ats mem pt" "stores_memory dma mem pt" "shares_mapping os mem pt" "\<forall>i. \<exists>k \<ge> i. sched k"
    and "unat a < 0x8000" "unat a mod 4096 + 4 \<le> 4096" "acc_idle emb at pt p st"
  shows "\<exists>st'. test_write_at vf sched a st = Some (Inr (a, st')) \<and> acc_idle emb at pt p st'"
proof -
  obtain i s w where st: "st = (i, emb s w)" and idle: "ac_events s = []" "coherent at (pt w) (ac_atc s)" "pt w = p"
    using assms(7) by (auto simp: acc_idle_def)
    let ?r = "(ac_regs s)\<lparr>ar_addr_msb := 0, ar_addr_lsb := a, ar_len := 4, ar_status := 0, ar_value := a\<rparr>"
  let ?s0 = "s\<lparr>ac_regs := ?r, ac_events := [Write_req]\<rparr>" and ?s1 = "s\<lparr>ac_regs := ?r, ac_events := []\<rparr>"
  have c: "coherent at (pt w) (ac_atc ?s1)" using idle by simp
  have v: "ucast a = acc_virt_addr (ac_regs ?s1)" "unat (ucast a :: u64) < 2 ^ 64 - 16384"
    using low_virt_addr [OF assms(5), of ?r] by simp_all
  obtain rs' w2 where wr: "write_run at x0 ats dma (?s1, w) = Some (Inr (set_status R_STATUS_DONE (?s1\<lparr>ac_atc := rs'\<rparr>), w2))"
    "coherent at (pt w) rs'" "pt w2 = pt w" "mem w2 = mem_write (mem w) (page_phys (pt w) (ucast a)) (le_bytes 4 a)"
    using write_run_coherent [OF assms(1,2) c v, of x0] by auto
  define s3 where "s3 = set_status R_STATUS_DONE (?s1\<lparr>ac_atc := rs'\<rparr>)"
  have run: "run_thread at x0 ats dma ops Write_req (?s0\<lparr>ac_events := []\<rparr>, w) = Some (Inr (s3, w2))"
    using wr(1) by (simp add: run_thread_def s3_def)
  have s3: "ar_status (ac_regs s3) \<noteq> 0" "ac_events s3 = []" "ac_atc s3 = rs'"
    by (simp_all add: s3_def set_status_def R_STATUS_DONE_def)
  obtain i' where cmd: "command vf sched
      [(R_ADDR_MSB, 0), (R_ADDR_LSB, a), (R_LENGTH, 4), (R_STATUS, 0), (R_VAL, a), (R_CTRL, R_CTRL_WRITE)] (i, emb s w) =
      Some (Inr (i', emb s3 w2))"
    using command_returns [OF _ _ _ run s3(1) assms(4)] access_writes(2) idle(1) by fastforce
  have "os_load os a 4 w2 = le_bytes 4 a"
    using mem_read_write_same [of "le_bytes 4 a" "mem w" "page_phys (pt w) (ucast a)"] wr(3,4) assms(3,6)
    by (simp add: shares_mapping_def)
  with cmd have "test_write_at vf sched a st = Some (Inr (a, i', emb s3 w2))"
    by (simp add: test_write_at_def st)
  moreover have "acc_idle emb at pt p (i', emb s3 w2)" using s3 wr(2,3) idle(3) by (intro acc_idleI) simp_all
  ultimately show ?thesis by blast
qed

lemma test_ATC_load_result:
  assumes "serves_pages at ats mem pt" "\<forall>i. \<exists>k \<ge> i. sched k" "acc_idle emb at pt p st"
  shows "\<exists>st'. test_ATC_load vf sched st = Some (Inr st') \<and> acc_idle emb at pt p st'"
proof -
  obtain i s w where st: "st = (i, emb s w)" and idle: "ac_events s = []" "coherent at (pt w) (ac_atc s)" "pt w = p"
    using assms(3) by (auto simp: acc_idle_def)
    let ?r = "(ac_regs s)\<lparr>ar_addr_msb := 0, ar_addr_lsb := 0, ar_len := SZ_32K, ar_status := 0\<rparr>"
  let ?s0 = "s\<lparr>ac_regs := ?r, ac_events := [Ats_req]\<rparr>" and ?s1 = "s\<lparr>ac_regs := ?r, ac_events := []\<rparr>"
  have len: "unat (0 :: u64) + unat (ucast SZ_32K :: u64) < 2 ^ 64 - 16384" by (simp add: SZ_32K_def)
  obtain rs' w2 where l: "ats_req_loop at ats 0 (ucast SZ_32K) (ac_atc s) w = Some (rs', w2)"
    "coherent at (pt w) rs'" "pt w2 = pt w"
    using ats_req_loop_coherent [OF assms(1) idle(2) len] by blast
  define s3 where "s3 = set_status R_STATUS_DONE (?s1\<lparr>ac_atc := rs'\<rparr>)"
  have run: "run_thread at x0 ats dma ops Ats_req (?s0\<lparr>ac_events := []\<rparr>, w) = Some (Inr (s3, w2))"
    using l(1) by (simp add: run_thread_def ats_req_run_def acc_virt_addr_def s3_def)
  have s3: "ar_status (ac_regs s3) \<noteq> 0" "ac_events s3 = []" "ac_atc s3 = rs'"
    by (simp_all add: s3_def set_status_def R_STATUS_DONE_def)
  obtain i' where cmd: "command vf sched
      [(R_ADDR_MSB, 0), (R_ADDR_LSB, 0), (R_LENGTH, SZ_32K), (R_STATUS, 0), (R_CTRL, R_CTRL_TRANSLATE)] (i, emb s w) =
      Some (Inr (i', emb s3 w2))"
    using command_returns [OF _ _ _ run s3(1) assms(2)] access_writes(3) idle(1) by fastforce
  moreover have "acc_idle emb at pt p (i', emb s3 w2)" using s3 l(2,3) idle(3) by (intro acc_idleI) simp_all
  ultimately show ?thesis by (auto simp: test_ATC_load_def st)
qed

text \<open>
  Against a memory and an agent that serve 4 KB pages, with the mapping of the
  program in the same memory, and under any schedule that lets the device run again and again,
  the first three tests return; the read test reads \<open>0xDDCCBBAA\<close> at each of the 128 addresses and the
  write test finds at each address the address itself; and the MD5 test starts with the
  accelerator idle, its cache in agreement with the translations.
\<close>

lemma vfio_tests_pass:
  assumes "serves_pages at ats mem pt" "reads_memory dma mem" "stores_memory dma mem pt" "shares_mapping os mem pt"
    and "\<forall>i. \<exists>k \<ge> i. sched k" "ac_events s = []" "coherent at (pt w) (ac_atc s)"
  shows "\<exists>i' s' w'. run_tests vf sched (i, emb s w) =
      run_bind (test_md5 vf sched (i', emb s' w'))
        (\<lambda>(out, st). Some (Inr (replicate 128 0xDDCCBBAA, map (\<lambda>j. 256 * of_nat j) [0..<128], out, st))) \<and>
     ac_events s' = [] \<and> coherent at (pt w') (ac_atc s') \<and> pt w' = pt w"
proof -
  let ?P = "acc_idle emb at pt (pt w)"
  have addrs: "test_addrs 0 = map (\<lambda>j. 256 * of_nat j) [0..<128]" using test_addrs_list [of 0] by simp
  have P: "?P (i, emb s w)" using assms(6,7) by (intro acc_idleI) simp_all
  obtain st1 where t1: "test_ATC_load vf sched (i, emb s w) = Some (Inr st1)" "?P st1"
    using test_ATC_load_result [OF assms(1,5) P] by blast
  obtain st2 where t2: "test_read vf sched st1 = Some (Inr (map (\<lambda>_. 0xDDCCBBAA) (test_addrs 0), st2))" "?P st2"
    using run_each_all [where f = "test_read_at vf sched" and g = "\<lambda>_. 0xDDCCBBAA" and P = ?P and as = "test_addrs 0",
        OF test_read_at_result [OF assms(1,2,4,5) loop_addr] t1(2)] unfolding test_read_def by blast
  obtain st3 where t3: "test_write vf sched st2 = Some (Inr (map (\<lambda>a. a) (test_addrs 0), st3))" "?P st3"
    using run_each_all [where f = "test_write_at vf sched" and g = "\<lambda>a. a" and P = ?P and as = "test_addrs 0",
        OF test_write_at_result [OF assms(1,3,4,5) loop_addr] t2(2)] unfolding test_write_def by blast
  obtain i' s' w' where st3: "st3 = (i', emb s' w')"
      "ac_events s' = []" "coherent at (pt w') (ac_atc s')" "pt w' = pt w"
    using t3(2) by (auto simp: acc_idle_def)
  have "map (\<lambda>_. 0xDDCCBBAA) (test_addrs 0) = replicate 128 (0xDDCCBBAA :: u32)"
    by (simp add: addrs map_replicate_const)
  then have "run_tests vf sched (i, emb s w) = run_bind (test_md5 vf sched (i', emb s' w'))
        (\<lambda>(out, st). Some (Inr (replicate 128 0xDDCCBBAA, map (\<lambda>j. 256 * of_nat j) [0..<128], out, st)))"
    using t1(1) t2(1) t3(1) st3(1) by (simp add: run_tests_def addrs)
  with st3(2-4) show ?thesis by blast
qed

end

end
