(* ===== verification/Demo_Top.thy ===== *)
theory Demo_Top
  imports Bedrock
begin

text \<open>
  What starts a demo: \<open>sc_main\<close> of the programs, the reset signals of their \<open>Top\<close> modules, and the
  tracing of their signals (\<open>trace.cc\<close>).  Times are in picoseconds.  The blocks under
  \<open>VM_TRACE\<close>, a build option of Verilator, are left out.
\<close>

section \<open>\<open>sc_main\<close>\<close>

text \<open>
  The units of \<open>sc_time\<close>, and the calls \<open>sc_main\<close> makes, in their order.  \<open>New_Top\<close> holds the descriptor, \<open>None\<close> for a null pointer, the
  number of the quantum and its unit; \<open>Trace_Top\<close> whether there is a trace file.
\<close>

datatype time_unit = Fs | Ps | Ns | Us | Sec

primrec unit_fs :: "time_unit \<Rightarrow> nat" where
  "unit_fs Fs = 1"
| "unit_fs Ps = 1000"
| "unit_fs Ns = 1000000"
| "unit_fs Us = 1000000000"
| "unit_fs Sec = 1000000000000000"

datatype sim_call =
    Set_Time_Resolution time_unit
  | New_Top "string option" u64 time_unit
  | Start_For nat time_unit
  | Start
  | Stop
  | Call_Usage
  | Call_Info string string u64
  | Delete_Top
  | Create_Trace
  | Trace_Top bool
  | Close_Trace
  | Write_Rst bool
  | Write_Rst_N bool

datatype main_end = Return_0 | Exit_Failure

text \<open>\<open>argv[argc]\<close> is the null pointer.\<close>

definition argv_at :: "string list \<Rightarrow> nat \<Rightarrow> string option res" where
  "argv_at argv i =
     (if i < length argv then Inr (Some (argv ! i)) else if i = length argv then Inr None else Inl Out_of_range)"

definition quantum_arg :: "string list \<Rightarrow> u64" where
  "quantum_arg argv = (if length argv < 3 then 10000 else strtoull10 (argv ! 2))"

definition build_top :: "string list \<Rightarrow> sim_call list res" where
  "build_top argv = res_bind (argv_at argv 1)
     (\<lambda>sk. Inr [Set_Time_Resolution Ps, New_Top sk (quantum_arg argv) Ns])"

definition too_few_args :: "sim_call list" where
  "too_few_args = [Start_For 1 Ps, Stop, Call_Usage]"

type_synonym sc_main = "bool \<Rightarrow> string list \<Rightarrow> (sim_call list \<times> main_end) res"

text \<open>The Boolean argument tells whether \<open>sc_create_vcd_trace_file\<close> returned a file.\<close>

definition zynq_main :: sc_main where
  "zynq_main fp argv = res_bind (build_top argv) (\<lambda>top.
     if length argv < 3 then Inr (top @ too_few_args, Exit_Failure)
     else Inr (top @ [Create_Trace, Trace_Top fp, Start] @ (if fp then [Close_Trace] else []), Return_0))"

definition zynqmp_run :: "bool \<Rightarrow> sim_call list" where
  "zynqmp_run fp = Start # (if fp then [Close_Trace] else [])"

definition zynqmp_main :: sc_main where
  "zynqmp_main fp argv = res_bind (build_top argv) (\<lambda>top.
     if length argv < 3 then Inr (top @ too_few_args, Exit_Failure)
     else Inr (top @ [Create_Trace, Trace_Top fp] @ zynqmp_run fp, Return_0))"

definition cdx_stub_main :: sc_main where
  "cdx_stub_main fp argv = res_bind (build_top argv) (\<lambda>top.
     if length argv < 3 then Inr (top @ too_few_args, Exit_Failure)
     else Inr (top @ [Create_Trace, Trace_Top fp, Start] @ (if fp then [Close_Trace] else []), Return_0))"

definition versal_main :: sc_main where
  "versal_main fp argv = res_bind (build_top argv) (\<lambda>top.
     if length argv < 3 then Inr (top @ too_few_args, Exit_Failure)
     else Inr (top @ [Write_Rst True, Start_For 1 Us, Write_Rst False, Start], Return_0))"

definition mrmac_main :: sc_main where
  "mrmac_main fp argv = res_bind (build_top argv) (\<lambda>top.
     if length argv < 3 then Inr (top @ too_few_args @ [Delete_Top], Exit_Failure)
     else Inr (top @ [Start], Return_0))"

text \<open>The same code in the demos of both LMAC cores.\<close>

definition lmac_run :: "bool \<Rightarrow> sim_call list" where
  "lmac_run fp = [Write_Rst True, Start_For 1 Us, Write_Rst False, Start] @ (if fp then [Close_Trace] else [])"

definition lmac_main :: sc_main where
  "lmac_main fp argv = res_bind (build_top argv) (\<lambda>top.
     if length argv < 3 then Inr (top @ too_few_args, Exit_Failure)
     else Inr (top @ [Create_Trace, Trace_Top fp] @ lmac_run fp, Return_0))"

definition ats_main :: sc_main where
  "ats_main fp argv = res_bind (build_top argv) (\<lambda>top.
     if length argv < 3 then Inr (top @ too_few_args, Exit_Failure)
     else Inr (top @ [Create_Trace] @ (if fp then [Trace_Top fp] else []) @ [Start]
       @ (if fp then [Close_Trace] else []), Return_0))"

definition qdma_main :: sc_main where
  "qdma_main fp argv = res_bind (build_top argv) (\<lambda>top.
     if length argv < 3 then Inr (top @ too_few_args, Exit_Failure)
     else Inr (top @ [Create_Trace] @ (if fp then [Trace_Top fp] else []) @ [Start]
       @ (if fp then [Close_Trace] else []), Return_0))"

text \<open>This demo has defaults for both arguments, and runs for 10,000,000 seconds.\<close>

definition vcs_main :: sc_main where
  "vcs_main fp argv =
     (let socket_name = (if 2 \<le> length argv then argv ! 1 else ''unix:./qemu-rport-_amba@0_cosim@0'');
          sync_quantum = (if length argv = 3 then strtoull10 (argv ! 2) else 100000)
      in res_bind (argv_at argv 0) (\<lambda>prog. case prog of None \<Rightarrow> Inl Indeterminate | Some name \<Rightarrow>
        Inr ([Call_Info name socket_name sync_quantum, Set_Time_Resolution Fs, New_Top (Some socket_name) sync_quantum Ps,
          Write_Rst True, Write_Rst_N False, Start_For 1 Us, Write_Rst False, Write_Rst_N True,
          Start_For 10000000 Sec, Stop], Return_0)))"

datatype demo = Zynq | Zynqmp | Versal | Mrmac | Lmac | Vcs | Cdx_Stub | Ats | Qdma

primrec demo_main :: "demo \<Rightarrow> sc_main" where
  "demo_main Zynq = zynq_main"
| "demo_main Zynqmp = zynqmp_main"
| "demo_main Versal = versal_main"
| "demo_main Mrmac = mrmac_main"
| "demo_main Lmac = lmac_main"
| "demo_main Vcs = vcs_main"
| "demo_main Cdx_Stub = cdx_stub_main"
| "demo_main Ats = ats_main"
| "demo_main Qdma = qdma_main"

lemmas demo_main_defs = zynq_main_def zynqmp_main_def zynqmp_run_def versal_main_def mrmac_main_def lmac_main_def lmac_run_def
  vcs_main_def cdx_stub_main_def ats_main_def qdma_main_def build_top_def too_few_args_def argv_at_def quantum_arg_def

section \<open>Reset\<close>

text \<open>
  A reset is pulled by a thread of \<open>Top\<close> or by \<open>sc_main\<close> between two runs of the simulation; either
  way it is a list of writes to the signals and of pauses.
\<close>

datatype reset_stmt = Drive_Rst bool | Drive_Rst_N bool | Pause sc_time

definition pull_reset :: "reset_stmt list" where
  "pull_reset = [Drive_Rst True, Pause SC_US, Drive_Rst False]"

definition mrmac_pull_reset :: "reset_stmt list" where
  "mrmac_pull_reset = [Drive_Rst True, Pause (100 * SC_US), Drive_Rst False, Pause (100 * SC_US)]"

text \<open>What \<open>sc_main\<close> does to the reset signals, up to the run that never ends.\<close>

fun main_reset :: "sim_call list \<Rightarrow> reset_stmt list" where
  "main_reset [] = []"
| "main_reset (Write_Rst b # cs) = Drive_Rst b # main_reset cs"
| "main_reset (Write_Rst_N b # cs) = Drive_Rst_N b # main_reset cs"
| "main_reset (Start_For n u # cs) = Pause (n * unit_fs u div 1000) # main_reset cs"
| "main_reset (Start # cs) = []"
| "main_reset (Stop # cs) = []"
| "main_reset (_ # cs) = main_reset cs"

text \<open>
  The two signals with their current and next values, whether the method \<open>gen_rst_n\<close> is to run, and the
  rest of the program that pulls the reset with the time it goes on at.  \<open>rs_inverter\<close> tells whether the
  demo has that method.
\<close>

record reset_sys =
  rs_now :: sc_time
  rs_rst :: bool
  rs_rst_n :: bool
  rs_rst_next :: bool
  rs_rst_n_next :: bool
  rs_inverter :: bool
  rs_gen :: bool
  rs_prog :: "reset_stmt list"
  rs_wake :: "sc_time option"

text \<open>The program runs until it pauses or ends.\<close>

fun pull_turn :: "reset_stmt list \<Rightarrow> reset_sys \<Rightarrow> reset_sys" where
  "pull_turn [] s = s\<lparr>rs_prog := [], rs_wake := None\<rparr>"
| "pull_turn (Drive_Rst b # p) s = pull_turn p (s\<lparr>rs_rst_next := b\<rparr>)"
| "pull_turn (Drive_Rst_N b # p) s = pull_turn p (s\<lparr>rs_rst_n_next := b\<rparr>)"
| "pull_turn (Pause d # p) s = s\<lparr>rs_prog := p, rs_wake := Some (rs_now s + d)\<rparr>"

definition gen_rst_n :: "reset_sys \<Rightarrow> reset_sys" where
  "gen_rst_n s = s\<lparr>rs_rst_n_next := \<not> rs_rst s, rs_gen := False\<rparr>"

definition rs_update :: "reset_sys \<Rightarrow> reset_sys" where
  "rs_update s = s\<lparr>rs_rst := rs_rst_next s, rs_rst_n := rs_rst_n_next s,
     rs_gen := rs_gen s \<or> (rs_inverter s \<and> rs_rst s \<noteq> rs_rst_next s)\<rparr>"

definition pull_due :: "reset_sys \<Rightarrow> bool" where
  "pull_due s = (case rs_wake s of None \<Rightarrow> False | Some t \<Rightarrow> t \<le> rs_now s)"

definition reset_quiet :: "reset_sys \<Rightarrow> bool" where
  "reset_quiet s \<longleftrightarrow> \<not> pull_due s \<and> \<not> rs_gen s \<and> rs_rst s = rs_rst_next s \<and> rs_rst_n s = rs_rst_n_next s"

text \<open>Steps that take no time: a process runs, or, when none can, the signals change.\<close>

inductive reset_delta :: "reset_sys \<Rightarrow> reset_sys \<Rightarrow> bool" where
  pull: "pull_due s \<Longrightarrow> reset_delta s (pull_turn (rs_prog s) s)"
| gen: "rs_gen s \<Longrightarrow> reset_delta s (gen_rst_n s)"
| update: "\<not> pull_due s \<Longrightarrow> \<not> rs_gen s \<Longrightarrow> rs_rst s \<noteq> rs_rst_next s \<or> rs_rst_n s \<noteq> rs_rst_n_next s \<Longrightarrow>
    reset_delta s (rs_update s)"

text \<open>Time passes, at most to the time the program goes on at, when nothing is left to do.\<close>

inductive reset_step :: "reset_sys \<Rightarrow> reset_sys \<Rightarrow> bool" where
  delta: "reset_delta s s' \<Longrightarrow> reset_step s s'"
| time: "reset_quiet s \<Longrightarrow> rs_now s < t \<Longrightarrow> (\<And>w. rs_wake s = Some w \<Longrightarrow> t \<le> w) \<Longrightarrow> reset_step s (s\<lparr>rs_now := t\<rparr>)"

inductive reset_reachable :: "reset_sys \<Rightarrow> reset_sys \<Rightarrow> bool" for s0 where
  start: "reset_reachable s0 s0"
| step: "reset_reachable s0 s \<Longrightarrow> reset_step s s' \<Longrightarrow> reset_reachable s0 s'"

text \<open>
  The start of the simulation makes every process runnable.  What \<open>sc_main\<close> wrote before is
  on the signals by then.
\<close>

definition reset_start :: "bool \<Rightarrow> reset_stmt list \<Rightarrow> reset_sys" where
  "reset_start inverter prog = \<lparr>rs_now = 0, rs_rst = False, rs_rst_n = False, rs_rst_next = False, rs_rst_n_next = False,
     rs_inverter = inverter, rs_gen = inverter, rs_prog = prog, rs_wake = Some 0\<rparr>"

definition main_reset_start :: "bool \<Rightarrow> reset_stmt list \<Rightarrow> reset_sys" where
  "main_reset_start inverter prog = rs_update (pull_turn prog (reset_start inverter prog))"

primrec demo_reset :: "demo \<Rightarrow> sim_call list \<Rightarrow> reset_sys" where
  "demo_reset Zynq cs = reset_start False pull_reset"
| "demo_reset Zynqmp cs = reset_start True pull_reset"
| "demo_reset Versal cs = main_reset_start True (main_reset cs)"
| "demo_reset Mrmac cs = reset_start True mrmac_pull_reset"
| "demo_reset Lmac cs = main_reset_start True (main_reset cs)"
| "demo_reset Vcs cs = main_reset_start False (main_reset cs)"
| "demo_reset Cdx_Stub cs = reset_start False pull_reset"
| "demo_reset Ats cs = reset_start False pull_reset"
| "demo_reset Qdma cs = reset_start False pull_reset"

section \<open>What the reset signals do\<close>

text \<open>A pulse of length \<open>h\<close>, on one signal or on both, followed by pauses.\<close>

definition drive :: "bool \<Rightarrow> bool \<Rightarrow> reset_stmt list" where
  "drive both b = Drive_Rst b # (if both then [Drive_Rst_N (\<not> b)] else [])"

definition only_pauses :: "reset_stmt list \<Rightarrow> bool" where
  "only_pauses p \<longleftrightarrow> (\<forall>x \<in> set p. \<exists>d > 0. x = Pause d)"

text \<open>The three phases of the program, and what holds of the method.\<close>

inductive reset_phase :: "sc_time \<Rightarrow> bool \<Rightarrow> reset_sys \<Rightarrow> bool" for h both s where
  before: "only_pauses tail \<Longrightarrow> rs_prog s = drive both True @ Pause h # drive both False @ tail \<Longrightarrow>
    rs_wake s = Some 0 \<Longrightarrow> rs_now s = 0 \<Longrightarrow> reset_phase h both s"
| held: "only_pauses tail \<Longrightarrow> rs_prog s = drive both False @ tail \<Longrightarrow> rs_wake s = Some h \<Longrightarrow> rs_now s \<le> h \<Longrightarrow>
    rs_rst_next s \<Longrightarrow> (both \<Longrightarrow> \<not> rs_rst_n_next s) \<Longrightarrow> reset_phase h both s"
| released: "only_pauses (rs_prog s) \<Longrightarrow> h \<le> rs_now s \<Longrightarrow> \<not> rs_rst_next s \<Longrightarrow> (both \<Longrightarrow> rs_rst_n_next s) \<Longrightarrow>
    reset_phase h both s"

definition reset_inv :: "sc_time \<Rightarrow> bool \<Rightarrow> reset_sys \<Rightarrow> bool" where
  "reset_inv h both s \<longleftrightarrow> 0 < h \<and> (both \<longrightarrow> \<not> rs_inverter s) \<and> (rs_gen s \<longrightarrow> rs_inverter s) \<and>
     (rs_inverter s \<longrightarrow> rs_gen s \<or> rs_rst_n_next s = (\<not> rs_rst s)) \<and> reset_phase h both s"

lemma pull_turn_drive [simp]:
  "pull_turn (drive both b @ p) s =
     pull_turn p (s\<lparr>rs_rst_next := b, rs_rst_n_next := (if both then \<not> b else rs_rst_n_next s)\<rparr>)"
  by (simp add: drive_def)

lemma pull_turn_frame [simp]:
  "rs_now (pull_turn p s) = rs_now s" "rs_rst (pull_turn p s) = rs_rst s" "rs_rst_n (pull_turn p s) = rs_rst_n s"
  "rs_inverter (pull_turn p s) = rs_inverter s" "rs_gen (pull_turn p s) = rs_gen s"
  by (induction p s rule: pull_turn.induct) auto

lemma pull_turn_pauses:
  "only_pauses p \<Longrightarrow> only_pauses (rs_prog (pull_turn p s)) \<and> rs_rst_next (pull_turn p s) = rs_rst_next s
     \<and> rs_rst_n_next (pull_turn p s) = rs_rst_n_next s \<and> (\<forall>w. rs_wake (pull_turn p s) = Some w \<longrightarrow> rs_now s < w)"
  by (cases p) (auto simp: only_pauses_def)

lemma pull_due_gen [simp]: "pull_due (gen_rst_n s) = pull_due s"
  by (simp add: pull_due_def gen_rst_n_def split: option.split)

lemma pull_due_update [simp]: "pull_due (rs_update s) = pull_due s"
  by (simp add: pull_due_def rs_update_def split: option.split)

lemma reset_pull_phase:
  assumes "reset_phase h both s" "pull_due s" "0 < h"
  shows "reset_phase h both (pull_turn (rs_prog s) s) \<and> \<not> pull_due (pull_turn (rs_prog s) s)"
  using assms(1)
proof cases
  case (before tail)
  with assms(3) show ?thesis by (auto simp: pull_due_def intro: reset_phase.held)
next
  case (held tail)
  with assms(2) have "rs_now s = h" by (simp add: pull_due_def)
  with held(2) pull_turn_pauses [OF held(1)] show ?thesis
    by (force simp: pull_due_def intro: reset_phase.released split: option.splits)
next
  case released
  with pull_turn_pauses [OF released(1)] show ?thesis
    by (force simp: pull_due_def intro: reset_phase.released split: option.splits)
qed

lemma pull_turn_rst_n:
  assumes "reset_phase h False s"
  shows "rs_rst_n_next (pull_turn (rs_prog s) s) = rs_rst_n_next s"
  using assms
proof cases
  case (held tail)
  then show ?thesis using pull_turn_pauses [OF held(1)] by simp
qed (auto simp: pull_turn_pauses)

lemma reset_pull_inv:
  assumes "reset_inv h both s" "pull_due s"
  shows "reset_inv h both (pull_turn (rs_prog s) s) \<and> \<not> pull_due (pull_turn (rs_prog s) s)"
  using assms reset_pull_phase [of h both s] pull_turn_rst_n [of h s] by (cases both) (auto simp: reset_inv_def)

lemma gen_rst_n_inv:
  assumes "reset_inv h both s" "rs_gen s"
  shows "reset_inv h both (gen_rst_n s)"
proof -
  have "\<not> both" "reset_phase h both s" using assms by (auto simp: reset_inv_def)
  from this(2) this(1) have "reset_phase h both (gen_rst_n s)"
    by (cases rule: reset_phase.cases) (auto simp: gen_rst_n_def intro: reset_phase.intros)
  with assms show ?thesis by (auto simp: reset_inv_def gen_rst_n_def)
qed

lemma rs_update_inv:
  assumes "reset_inv h both s" "\<not> rs_gen s"
  shows "reset_inv h both (rs_update s)"
proof -
  have "reset_phase h both s" using assms by (auto simp: reset_inv_def)
  then have "reset_phase h both (rs_update s)"
    by (cases rule: reset_phase.cases) (auto simp: rs_update_def intro: reset_phase.intros)
  with assms show ?thesis by (auto simp: reset_inv_def rs_update_def)
qed

lemma reset_delta_inv: "reset_delta s s' \<Longrightarrow> reset_inv h both s \<Longrightarrow> reset_inv h both s'"
  by (erule reset_delta.cases) (simp_all add: reset_pull_inv gen_rst_n_inv rs_update_inv)

lemma reset_time_phase:
  assumes "reset_phase h both s" "reset_quiet s" "rs_now s < t" "\<And>w. rs_wake s = Some w \<Longrightarrow> t \<le> w"
  shows "reset_phase h both (s\<lparr>rs_now := t\<rparr>)"
  using assms(1)
proof cases
  case (before tail)
  with assms(2) show ?thesis by (simp add: reset_quiet_def pull_due_def)
next
  case (held tail)
  with assms(4) show ?thesis by (auto intro: reset_phase.held)
next
  case released
  with assms(3) show ?thesis by (auto intro: reset_phase.released)
qed

lemma reset_step_inv: "reset_step s s' \<Longrightarrow> reset_inv h both s \<Longrightarrow> reset_inv h both s'"
  by (induction rule: reset_step.induct) (auto simp: reset_inv_def reset_time_phase dest: reset_delta_inv [unfolded reset_inv_def])

lemma reset_reachable_inv: "reset_reachable s0 s \<Longrightarrow> reset_inv h both s0 \<Longrightarrow> reset_inv h both s"
  by (induction rule: reset_reachable.induct) (auto intro: reset_step_inv)

lemma reset_inv_quiet:
  assumes "reset_inv h both s" "reset_quiet s"
  shows "rs_rst s = (rs_now s < h) \<and> (rs_inverter s \<or> both \<longrightarrow> rs_rst_n s = (\<not> rs_rst s))"
proof -
  have p: "reset_phase h both s" using assms(1) by (simp add: reset_inv_def)
  from p have "rs_rst_next s = (rs_now s < h) \<and> (both \<longrightarrow> rs_rst_n_next s = (\<not> rs_rst_next s))"
    using assms(2) by cases (auto simp: reset_quiet_def pull_due_def)
  with assms show ?thesis by (auto simp: reset_inv_def reset_quiet_def)
qed

text \<open>The work left at the present time.\<close>

definition reset_work :: "reset_sys \<Rightarrow> nat" where
  "reset_work s = (if pull_due s then 10 else 0) + (if rs_rst s \<noteq> rs_rst_next s then 4 else 0)
     + (if rs_gen s then 2 else 0) + (if rs_rst_n s \<noteq> rs_rst_n_next s then 1 else 0)"

lemma reset_delta_work:
  assumes "reset_delta s s'" "reset_inv h both s"
  shows "reset_work s' < reset_work s"
  using assms(1)
proof (cases rule: reset_delta.cases)
  case pull
  with reset_pull_inv [OF assms(2)] have "\<not> pull_due s'" by simp
  with pull show ?thesis by (simp add: reset_work_def)
next
  case gen
  then have "pull_due s' = pull_due s" by simp
  with gen show ?thesis by (simp add: reset_work_def gen_rst_n_def)
next
  case update
  then have "pull_due s' = pull_due s" by simp
  with update show ?thesis by (auto simp: reset_work_def rs_update_def)
qed

lemma reset_delta_now: "reset_delta s s' \<Longrightarrow> rs_now s' = rs_now s"
  by (induction rule: reset_delta.induct) (simp_all add: gen_rst_n_def rs_update_def)

lemma reset_settles:
  "reset_inv h both s \<Longrightarrow> \<exists>s'. rtranclp reset_delta s s' \<and> reset_quiet s' \<and> rs_now s' = rs_now s"
proof (induction "reset_work s" arbitrary: s rule: less_induct)
  case less
  show ?case
  proof (cases "reset_quiet s")
    case False
    then have "\<exists>s'. reset_delta s s'"
      unfolding reset_quiet_def by (meson reset_delta.intros)
    then obtain s' where d: "reset_delta s s'" ..
    with less(1) [OF reset_delta_work [OF d less(2)] reset_delta_inv [OF d less(2)]] reset_delta_now [OF d]
    show ?thesis by (auto intro: converse_rtranclp_into_rtranclp)
  qed auto
qed

primrec demo_hold :: "demo \<Rightarrow> sc_time" where
  "demo_hold Zynq = SC_US"
| "demo_hold Zynqmp = SC_US"
| "demo_hold Versal = SC_US"
| "demo_hold Mrmac = 100 * SC_US"
| "demo_hold Lmac = SC_US"
| "demo_hold Vcs = SC_US"
| "demo_hold Cdx_Stub = SC_US"
| "demo_hold Ats = SC_US"
| "demo_hold Qdma = SC_US"

definition demo_has_rst_n :: "demo \<Rightarrow> bool" where
  "demo_has_rst_n d \<longleftrightarrow> d \<in> {Zynqmp, Versal, Mrmac, Lmac, Vcs}"

lemma reset_start_inv:
  assumes "0 < h" "only_pauses tail"
  shows "reset_inv h False (reset_start inverter (drive False True @ Pause h # drive False False @ tail))"
  using assms by (auto simp: reset_inv_def reset_start_def intro: reset_phase.before)

lemma main_reset_start_inv:
  assumes "0 < h" "only_pauses tail" "both \<longrightarrow> \<not> inverter"
  shows "reset_inv h both (main_reset_start inverter (drive both True @ Pause h # drive both False @ tail))"
  using assms by (auto simp: reset_inv_def main_reset_start_def reset_start_def rs_update_def intro: reset_phase.held)

lemma rs_inverter_start [simp]:
  "rs_inverter (reset_start inverter p) = inverter" "rs_inverter (main_reset_start inverter p) = inverter"
  by (simp_all add: reset_start_def main_reset_start_def rs_update_def)

lemma demo_reset_inv:
  assumes "demo_main d fp argv = Inr (cs, Return_0)"
  shows "reset_inv (demo_hold d) (d = Vcs) (demo_reset d cs) \<and>
    rs_inverter (demo_reset d cs) = (demo_has_rst_n d \<and> d \<noteq> Vcs)"
proof -
  have p: "only_pauses []" "only_pauses [Pause (100 * SC_US)]" "only_pauses [Pause 10000000000000000000]"
    "0 < SC_US" "0 < 100 * SC_US" by (simp_all add: only_pauses_def SC_US_def)
  have pulse: "d \<in> {Versal, Lmac} \<Longrightarrow> main_reset cs = drive False True @ Pause 1000000 # drive False False @ []"
    "d = Vcs \<Longrightarrow> main_reset cs = drive True True @ Pause 1000000 # drive True False @ [Pause 10000000000000000000]"
    using assms by (auto simp: demo_main_defs Let_def res_bind_eq_Inr drive_def split: if_splits)
  show ?thesis
    using reset_start_inv [OF p(4,1)] reset_start_inv [OF p(5,2)] main_reset_start_inv [OF p(4,1), of False]
      main_reset_start_inv [OF p(4,3), of True False] pulse
    by (cases d) (simp_all add: demo_has_rst_n_def pull_reset_def mrmac_pull_reset_def drive_def SC_US_def)
qed

lemma reset_reachable_inverter: "reset_reachable s0 s \<Longrightarrow> rs_inverter s = rs_inverter s0"
proof (induction rule: reset_reachable.induct)
  case (step s s')
  from step(2) have "rs_inverter s' = rs_inverter s"
    by (auto elim!: reset_step.cases reset_delta.cases simp: gen_rst_n_def rs_update_def)
  with step show ?case by simp
qed simp

text \<open>
  Property C26: in every demo but Bedrock, when it is started with enough arguments, whatever the order of the processes, the
  reset is active from the start for the time the demo holds it and never again: whenever nothing is left to do at the present
  time, \<open>rst\<close> is high exactly before that time, and the active-low \<open>rst_n\<close> of the demos that have one is
  its inverse.  And in every reachable state the work left at the present time ends.
\<close>

theorem demo_reset_pulse:
  assumes "demo_main d fp argv = Inr (cs, Return_0)"
    and "reset_reachable (demo_reset d cs) s"
  shows "(reset_quiet s \<longrightarrow> rs_rst s = (rs_now s < demo_hold d) \<and> (demo_has_rst_n d \<longrightarrow> rs_rst_n s = (\<not> rs_rst s))) \<and>
    (\<exists>s'. rtranclp reset_delta s s' \<and> reset_quiet s' \<and> rs_now s' = rs_now s)"
proof -
  note i = demo_reset_inv [OF assms(1)]
  have s: "reset_inv (demo_hold d) (d = Vcs) s" "rs_inverter s = (demo_has_rst_n d \<and> d \<noteq> Vcs)"
    using reset_reachable_inv [OF assms(2)] reset_reachable_inverter [OF assms(2)] i by auto
  with reset_inv_quiet [OF s(1)] reset_settles [OF s(1)] show ?thesis by blast
qed

theorem demo_reset_pulse_witness:
  "\<exists>s'. rtranclp reset_delta (demo_reset Zynqmp []) s' \<and> rs_rst s' \<and> \<not> rs_rst_n s'"
proof -
  obtain cs where m: "demo_main Zynqmp True [''demo'', ''unix:s'', ''7''] = Inr (cs, Return_0)"
    by (simp add: demo_main_defs)
  let ?s = "demo_reset Zynqmp cs"
  obtain s' where s': "rtranclp reset_delta ?s s'" "reset_quiet s'" "rs_now s' = rs_now ?s"
    using demo_reset_pulse [OF m reset_reachable.start] by blast
  have "reset_reachable ?s s'"
    using s'(1) by (induction rule: rtranclp_induct) (auto intro: reset_reachable.intros reset_step.delta)
  with demo_reset_pulse [OF m, of s'] s' show ?thesis
    by (intro exI [of _ s']) (simp add: demo_has_rst_n_def reset_start_def SC_US_def)
qed

section \<open>Command lines\<close>

primrec runs_for :: "sim_call \<Rightarrow> bool" where
  "runs_for (Set_Time_Resolution u) = False"
| "runs_for (New_Top sk q u) = False"
| "runs_for (Start_For n u) = True"
| "runs_for Start = True"
| "runs_for Stop = False"
| "runs_for Call_Usage = False"
| "runs_for (Call_Info a b q) = False"
| "runs_for Delete_Top = False"
| "runs_for Create_Trace = False"
| "runs_for (Trace_Top b) = False"
| "runs_for Close_Trace = False"
| "runs_for (Write_Rst b) = False"
| "runs_for (Write_Rst_N b) = False"

text \<open>The time a call asks for fits the 64 bits of \<open>sc_time\<close> at the given resolution.\<close>

definition time_fits :: "time_unit \<Rightarrow> sim_call \<Rightarrow> bool" where
  "time_fits res c = (case c of Start_For n u \<Rightarrow> n * unit_fs u < 2 ^ 64 * unit_fs res | _ \<Rightarrow> True)"

text \<open>
  Except for the VCS demo, a demo called without its two arguments builds the system,
  runs it for one picosecond, prints the usage and fails, and never opens a trace file; with them it builds the system
  with the socket path and the quantum that were given, ends with the run that has no time limit,
  and a trace file that was opened is closed at the end.  The VCS demo always runs, and it asks for a time that its
  resolution of one femtosecond cannot represent.
\<close>

theorem demo_main_outcomes:
  assumes "demo_main d fp argv = Inr (cs, e)"
  shows "if d = Vcs then e = Return_0 \<and> (\<exists>c \<in> set cs. \<not> time_fits Fs c)
    else argv \<noteq> [] \<and> (\<forall>c \<in> set cs. time_fits Ps c) \<and>
     (if length argv < 3 then e = Exit_Failure \<and> filter runs_for cs = [Start_For 1 Ps] \<and>
        Call_Usage \<in> set cs \<and> Create_Trace \<notin> set cs
      else e = Return_0 \<and> New_Top (Some (argv ! 1)) (strtoull10 (argv ! 2)) Ns \<in> set cs \<and>
        (\<exists>pre. cs = pre @ Start # (if fp \<and> Create_Trace \<in> set pre then [Close_Trace] else []) \<and> Start \<notin> set pre))"
proof (cases "d = Vcs")
  case True
  with assms show ?thesis
    by (auto simp: demo_main_defs Let_def res_bind_eq_Inr time_fits_def split: option.splits if_splits)
next
  case False
  then obtain b mid where d: "demo_main d fp argv = res_bind (build_top argv) (\<lambda>top.
      if length argv < 3 then Inr (top @ too_few_args @ (if b then [Delete_Top] else []), Exit_Failure)
      else Inr (top @ mid @ Start # (if fp \<and> Create_Trace \<in> set mid then [Close_Trace] else []), Return_0))"
    "Start \<notin> set mid" "\<forall>c \<in> set mid. time_fits Ps c"
  proof (cases d)
    case Versal
    show ?thesis
      by (rule that [of False "[Write_Rst True, Start_For 1 Us, Write_Rst False]"])
        (simp_all add: Versal versal_main_def time_fits_def cong: if_cong)
  next
    case Mrmac
    show ?thesis by (rule that [of True "[]"]) (simp_all add: Mrmac mrmac_main_def cong: if_cong)
  next
    case Lmac
    show ?thesis
      by (rule that [of False "[Create_Trace, Trace_Top fp, Write_Rst True, Start_For 1 Us, Write_Rst False]"])
        (simp_all add: Lmac lmac_main_def lmac_run_def time_fits_def cong: if_cong)
  next
    case Ats
    show ?thesis
      by (rule that [of False "Create_Trace # (if fp then [Trace_Top fp] else [])"]) (simp_all add: Ats ats_main_def time_fits_def cong: if_cong)
  next
    case Qdma
    show ?thesis
      by (rule that [of False "Create_Trace # (if fp then [Trace_Top fp] else [])"]) (simp_all add: Qdma qdma_main_def time_fits_def cong: if_cong)
  qed (rule that [of False "[Create_Trace, Trace_Top fp]"];
      simp add: zynq_main_def zynqmp_main_def zynqmp_run_def cdx_stub_main_def time_fits_def cong: if_cong)+
  from assms [unfolded d(1)] have ne: "argv \<noteq> []"
    by (auto simp: build_top_def argv_at_def res_bind_eq_Inr split: if_splits)
  show ?thesis
  proof (cases "length argv < 3")
    case True
    with assms [unfolded d(1)] False ne show ?thesis
      by (auto simp: build_top_def too_few_args_def res_bind_eq_Inr time_fits_def split: if_splits)
  next
    case long: False
    let ?pre = "Set_Time_Resolution Ps # New_Top (Some (argv ! 1)) (strtoull10 (argv ! 2)) Ns # mid"
    from assms [unfolded d(1)] long have c: "e = Return_0"
      "cs = ?pre @ Start # (if fp \<and> Create_Trace \<in> set ?pre then [Close_Trace] else [])"
      by (auto simp: build_top_def argv_at_def quantum_arg_def res_bind_eq_Inr)
    moreover have "Start \<notin> set ?pre" "\<forall>c \<in> set cs. time_fits Ps c" using d(2,3) by (auto simp: c(2) time_fits_def)
    moreover have "\<exists>pre. cs = pre @ Start # (if fp \<and> Create_Trace \<in> set pre then [Close_Trace] else []) \<and> Start \<notin> set pre"
      using c(2) calculation(3) by blast
    ultimately show ?thesis using False ne long by simp
  qed
qed

theorem demo_main_outcomes_witness:
  "\<exists>cs. demo_main Versal True [''demo''] = Inr (cs, Exit_Failure) \<and> filter runs_for cs = [Start_For 1 Ps]"
proof -
  obtain cs where m: "demo_main Versal True [''demo''] = Inr (cs, Exit_Failure)"
    by (simp add: demo_main_defs)
  with demo_main_outcomes [OF m] show ?thesis by simp
qed

section \<open>Tracing\<close>

text \<open>
  The objects of a simulation: their class, as far as \<open>trace.cc\<close> tells them apart, their name
  and what is below them.
\<close>

datatype sig_type = Sig_Bool | Sig_Bv nat

datatype obj_class = Sc_Signal sig_type | Sc_In sig_type | Sc_Out sig_type | Sc_Module | Sc_Other

datatype sc_object = Sc_Object (obj_class: obj_class) (obj_name: string) (obj_children: "sc_object list")

definition trace_template :: "obj_class \<Rightarrow> sc_object \<Rightarrow> (obj_class \<times> string) list" where
  "trace_template c obj = (if obj_class obj = c then [(c, obj_name obj)] else [])"

definition trace_type :: "sig_type \<Rightarrow> sc_object \<Rightarrow> (obj_class \<times> string) list" where
  "trace_type t obj = trace_template (Sc_Signal t) obj @ trace_template (Sc_In t) obj @ trace_template (Sc_Out t) obj"

definition trace_widths :: "nat list" where
  "trace_widths = [2, 3, 4, 5, 6, 7, 8, 9, 10, 16, 32, 64, 128, 256, 384, 512, 1024]"

text \<open>The calls of \<open>sc_trace\<close> for the objects below a module.\<close>

fun trace :: "sc_object \<Rightarrow> (obj_class \<times> string) list" where
  "trace (Sc_Object c name children) = concat (map (\<lambda>obj.
     trace_type Sig_Bool obj @ concat (map (\<lambda>n. trace_type (Sig_Bv n) obj) trace_widths) @
     (if obj_class obj = Sc_Module then trace obj else [])) children)"

text \<open>
  The reference: the objects below a module, and the types that are traced.
\<close>

inductive below :: "sc_object \<Rightarrow> sc_object \<Rightarrow> bool" for m where
  child: "obj \<in> set (obj_children m) \<Longrightarrow> below m obj"
| deeper: "below m sub \<Longrightarrow> obj_class sub = Sc_Module \<Longrightarrow> obj \<in> set (obj_children sub) \<Longrightarrow> below m obj"

definition traced_types :: "sig_type set" where
  "traced_types = insert Sig_Bool (Sig_Bv ` set trace_widths)"

definition traceable :: "obj_class \<Rightarrow> bool" where
  "traceable c \<longleftrightarrow> (\<exists>t \<in> traced_types. c = Sc_Signal t \<or> c = Sc_In t \<or> c = Sc_Out t)"

lemma traceable_simps [simp]:
  "traceable (Sc_Signal t) \<longleftrightarrow> t \<in> traced_types" "traceable (Sc_In t) \<longleftrightarrow> t \<in> traced_types"
  "traceable (Sc_Out t) \<longleftrightarrow> t \<in> traced_types" "\<not> traceable Sc_Module" "\<not> traceable Sc_Other"
  "Sig_Bool \<in> traced_types" "Sig_Bv n \<in> traced_types \<longleftrightarrow> n \<in> set trace_widths"
  by (auto simp: traceable_def traced_types_def)

text \<open>An object gives one entry when its type is one of those, none otherwise.\<close>

definition trace_object :: "sc_object \<Rightarrow> (obj_class \<times> string) list" where
  "trace_object obj = trace_type Sig_Bool obj @ concat (map (\<lambda>n. trace_type (Sig_Bv n) obj) trace_widths)"

lemma concat_map_one:
  "distinct xs \<Longrightarrow> concat (map (\<lambda>x. if x = a then [y] else []) xs) = (if a \<in> set xs then [y] else [])"
  by (induction xs) auto

lemma trace_object_eq: "trace_object obj = (if traceable (obj_class obj) then [(obj_class obj, obj_name obj)] else [])"
proof -
  have d: "distinct trace_widths" by (simp add: trace_widths_def)
  have *: "trace_type t obj = (if obj_class obj \<in> {Sc_Signal t, Sc_In t, Sc_Out t} then [(obj_class obj, obj_name obj)] else [])" for t
    by (auto simp: trace_type_def trace_template_def)
  show ?thesis
  proof (cases "\<exists>t. obj_class obj \<in> {Sc_Signal t, Sc_In t, Sc_Out t}")
    case True
    then obtain t where t: "obj_class obj \<in> {Sc_Signal t, Sc_In t, Sc_Out t}" by blast
    then have tt: "trace_type t' obj = (if t' = t then [(obj_class obj, obj_name obj)] else [])" for t'
      unfolding * by auto
    have tr: "traceable (obj_class obj) \<longleftrightarrow> t \<in> traced_types" using t by auto
    show ?thesis
      by (cases t) (simp_all add: trace_object_def tt tr concat_map_one [OF d])
  next
    case False
    then have "trace_type t' obj = []" for t' unfolding * by auto
    moreover have "\<not> traceable (obj_class obj)" using False by (auto simp: traceable_def)
    ultimately show ?thesis by (simp add: trace_object_def)
  qed
qed

text \<open>The objects below a module in the order \<open>trace\<close> visits them.\<close>

fun visited :: "sc_object \<Rightarrow> sc_object list" where
  "visited (Sc_Object c name children) =
     concat (map (\<lambda>obj. obj # (if obj_class obj = Sc_Module then visited obj else [])) children)"

lemma trace_visited: "trace m = map (\<lambda>obj. (obj_class obj, obj_name obj)) (filter (\<lambda>obj. traceable (obj_class obj)) (visited m))"
proof (induction m rule: trace.induct)
  case (1 c name children)
  have "trace_type Sig_Bool obj @ concat (map (\<lambda>n. trace_type (Sig_Bv n) obj) trace_widths) @ xs = trace_object obj @ xs" for obj xs
    by (simp add: trace_object_def)
  with 1 show ?case
    by (auto simp: map_concat filter_concat trace_object_eq intro!: arg_cong [of _ _ concat])
qed

lemma children_visited: "obj \<in> set (obj_children m) \<Longrightarrow> obj \<in> set (visited m)"
  by (cases m) auto

lemma visited_deeper:
  "sub \<in> set (visited m) \<Longrightarrow> obj_class sub = Sc_Module \<Longrightarrow> obj \<in> set (visited sub) \<Longrightarrow> obj \<in> set (visited m)"
proof (induction m rule: visited.induct)
  case (1 c name children)
  then show ?case by (auto split: if_splits)
qed

lemma below_deeper: "below sub obj \<Longrightarrow> below m sub \<Longrightarrow> obj_class sub = Sc_Module \<Longrightarrow> below m obj"
  by (induction rule: below.induct) (auto intro: below.deeper)

lemma below_visited: "below m obj \<longleftrightarrow> obj \<in> set (visited m)"
proof
  show "below m obj \<Longrightarrow> obj \<in> set (visited m)"
    by (induction rule: below.induct) (auto intro: children_visited visited_deeper)
  show "obj \<in> set (visited m) \<Longrightarrow> below m obj"
  proof (induction m rule: visited.induct)
    case (1 c name children)
    then obtain ch where ch: "ch \<in> set children" "obj = ch \<or> obj_class ch = Sc_Module \<and> obj \<in> set (visited ch)"
      by (auto split: if_splits)
    then have "below (Sc_Object c name children) ch" by (auto intro: below.child)
    with ch 1 show ?case by (auto intro: below_deeper)
  qed
qed

text \<open>
  Property C28: tracing a module records exactly the signals and ports of the listed types that
  are below it, through modules however deep, and when no two objects have the same name
  it records each of them once, although every object is tried against 54 types.
\<close>

theorem trace_records_signals:
  "set (trace m) = {(obj_class obj, obj_name obj) | obj. below m obj \<and> traceable (obj_class obj)} \<and>
   (distinct (map obj_name (visited m)) \<longrightarrow> distinct (map snd (trace m)))"
proof
  show "set (trace m) = {(obj_class obj, obj_name obj) | obj. below m obj \<and> traceable (obj_class obj)}"
    by (auto simp: trace_visited below_visited)
  show "distinct (map obj_name (visited m)) \<longrightarrow> distinct (map snd (trace m))"
    by (simp add: trace_visited comp_def distinct_map_filter)
qed

theorem trace_records_signals_witness:
  "\<exists>m. set (trace m) = {(Sc_Signal Sig_Bool, ''top.rst''), (Sc_In (Sig_Bv 32), ''top.dev.addr'')} \<and> distinct (map snd (trace m))"
proof -
  let ?dev = "Sc_Object Sc_Module ''top.dev'' [Sc_Object (Sc_In (Sig_Bv 32)) ''top.dev.addr'' [], Sc_Object (Sc_Out (Sig_Bv 12)) ''top.dev.x'' []]"
  let ?m = "Sc_Object Sc_Module ''top'' [Sc_Object (Sc_Signal Sig_Bool) ''top.rst'' [], ?dev]"
  have v: "set (visited ?m) = {Sc_Object (Sc_Signal Sig_Bool) ''top.rst'' [], ?dev,
      Sc_Object (Sc_In (Sig_Bv 32)) ''top.dev.addr'' [], Sc_Object (Sc_Out (Sig_Bv 12)) ''top.dev.x'' []}" by auto
  have d: "distinct (map obj_name (visited ?m))" by simp
  have "{(obj_class obj, obj_name obj) | obj. below ?m obj \<and> traceable (obj_class obj)} =
      {(Sc_Signal Sig_Bool, ''top.rst''), (Sc_In (Sig_Bv 32), ''top.dev.addr'')}"
    unfolding below_visited v by (auto simp: trace_widths_def conj_disj_distribL conj_disj_distribR ex_disj_distrib)
  with trace_records_signals [of ?m] d show ?thesis by (intro exI [of _ ?m]) simp
qed

end
