(* ===== verification/Vfio_Programs.thy ===== *)
theory Vfio_Programs
  imports Vfio_Tests Demo_Top Ostream
begin

text \<open>
  The two VFIO programs from \<open>sc_main\<close> on: their arguments, the mapping the test program shares with the
  accelerator for its whole life, and the order in which memory is given to the device and
  taken away again.  The last section prints the digest on the stream of \<open>Ostream\<close>.
\<close>

section \<open>The shared mapping\<close>

text \<open>
  \<open>map_mem\<close>: \<open>anon\<close> is the anonymous \<open>mmap\<close> (\<open>None\<close> for \<open>MAP_FAILED\<close>, whose report is an exception).
  \<open>top_destroy\<close> is the destructor of \<open>Top\<close>.
\<close>

type_synonym 's anon_mmap = "u64 \<Rightarrow> 's \<Rightarrow> (u64 \<times> 's) option"

definition map_mem :: "'s anon_mmap \<Rightarrow> 's vfio \<Rightarrow> u64 \<Rightarrow> 's \<Rightarrow> (u64 \<times> 's) res" where
  "map_mem anon vf m_map_size s =
     (case anon m_map_size s of
        None \<Rightarrow> Inl Thrown
      | Some (m, s1) \<Rightarrow> Inr (m, os_map_dma vf m 0 m_map_size (os_mlock vf m (m_map_size * 2) s1)))"

definition top_destroy :: "'s vfio \<Rightarrow> u64 \<Rightarrow> u64 \<Rightarrow> 's \<Rightarrow> 's" where
  "top_destroy vf m m_map_size s = os_munmap vf m m_map_size (os_unmap_dma vf 0 m_map_size s)"

section \<open>\<open>sc_main\<close>\<close>

text \<open>
  With too few arguments a program prints its name and exits; else it opens the device of the IOMMU
  group, an \<open>int\<close>, and returns 0 at the end of the simulation.  \<open>vf\<close> takes the name of the file.
\<close>

datatype 'o vfio_end = Usage_exit "string option" | Main_returned 'o

definition test_main ::
  "(string \<Rightarrow> u32 \<Rightarrow> 's \<Rightarrow> 's res) \<Rightarrow> 's anon_mmap \<Rightarrow> (string \<Rightarrow> 's vfio) \<Rightarrow> (nat \<Rightarrow> bool) \<Rightarrow>
     string list \<Rightarrow> 's \<Rightarrow> ((u32 list \<times> u32 list \<times> string) vfio_end \<times> 's) res option" where
  "test_main open_dev anon vf sched argv s =
     (if length argv < 4 then Some (res_bind (argv_at argv 0) (\<lambda>prog. Inr (Usage_exit prog, s)))
      else run_bind (Some (open_dev (argv ! 1) (ucast (strtoull10 (argv ! 2))) s)) (\<lambda>s1.
           run_bind (Some (map_mem anon (vf (argv ! 3)) (ucast SZ_32K) s1)) (\<lambda>(m, s2).
           run_bind (run_tests (vf (argv ! 3)) sched (0, s2)) (\<lambda>(rs, ws, out, i, s3).
             Some (Inr (Main_returned (rs, ws, out), top_destroy (vf (argv ! 3)) m (ucast SZ_32K) s3))))))"

definition md5_main ::
  "(string \<Rightarrow> u32 \<Rightarrow> 's \<Rightarrow> 's res) \<Rightarrow> (string \<Rightarrow> 's vfio) \<Rightarrow> (nat \<Rightarrow> bool) \<Rightarrow> string list \<Rightarrow> 's \<Rightarrow>
     (string vfio_end \<times> 's) res option" where
  "md5_main open_dev vf sched argv s =
     (if length argv < 4 then Some (res_bind (argv_at argv 0) (\<lambda>prog. Inr (Usage_exit prog, s)))
      else run_bind (Some (open_dev (argv ! 1) (ucast (strtoull10 (argv ! 2))) s)) (\<lambda>s1.
           run_bind (run_md5 (vf (argv ! 3)) sched (0, s1)) (\<lambda>(out, i, s2).
             Some (Inr (Main_returned out, s2)))))"

section \<open>The test program on the accelerator\<close>

text \<open>
  What the system does with the file: it has \<open>sz\<close> bytes, can be mapped, and the mapping shows the device the
  bytes of the file from 32 KB on and changes no translation.
\<close>

definition maps_file :: "'w vfio_os \<Rightarrow> ('w \<Rightarrow> bytes_memory) \<Rightarrow> ('w \<Rightarrow> u64 \<Rightarrow> u64) \<Rightarrow> u8 list \<Rightarrow> bool" where
  "maps_file os mem pt file \<longleftrightarrow> (\<forall>w. \<exists>sz mbuf w1. os_file_size os w = Some sz \<and> length file = unat sz \<and>
     os_mmap os (map_size sz) w = Some (mbuf, w1) \<and> pt (os_map_dma os mbuf 0x8000 (map_size sz) (os_mlock os mbuf (map_size sz) w1)) = pt w \<and>
     page_bytes (pt w) (mem (os_map_dma os mbuf 0x8000 (map_size sz) (os_mlock os mbuf (map_size sz) w1))) 0x8000 (length file mod 2 ^ 32) =
       take (length file mod 2 ^ 32) file)"

context acc_host begin

lemma test_main_passes:
  assumes "serves_pages at ats mem pt" "reads_memory dma mem" "stores_memory dma mem pt" "shares_mapping os mem pt"
    and "hashes_in_pieces ops" "md5_init ops = Some c0" "\<forall>c. length (md5_final ops c) = 16" "maps_file os mem pt file"
    and "\<forall>i. \<exists>k \<ge> i. sched k" "4 \<le> length argv"
    and "open_dev (argv ! 1) (ucast (strtoull10 (argv ! 2))) st = Inr (emb acc_new w0)"
    and "map_mem anon vf 0x8000 (emb acc_new w0) = Inr (m, emb acc_new w)"
  shows "\<exists>st'. test_main open_dev anon (\<lambda>_. vf) sched argv st =
    Some (Inr (Main_returned (replicate 128 0xDDCCBBAA, map (\<lambda>j. 256 * of_nat j) [0..<128],
      digest_text (md5_final ops (md5_update ops c0 (take (length file mod 2 ^ 32) file)))), st'))"
proof -
  have idle: "ac_events acc_new = []" "coherent at (pt w) (ac_atc acc_new)" by (simp_all add: acc_new_def)
  obtain i' s' w' where t: "run_tests vf sched (0, emb acc_new w) = run_bind (test_md5 vf sched (i', emb s' w'))
        (\<lambda>(out, st). Some (Inr (replicate 128 0xDDCCBBAA, map (\<lambda>j. 256 * of_nat j) [0..<128], out, st)))"
    "ac_events s' = []" "coherent at (pt w') (ac_atc s')"
    using vfio_tests_pass [OF assms(1-4,9) idle, of 0] by blast
  obtain sz mbuf w1 where f: "os_file_size os w' = Some sz" "length file = unat sz" "os_mmap os (map_size sz) w' = Some (mbuf, w1)"
    "pt (os_map_dma os mbuf 0x8000 (map_size sz) (os_mlock os mbuf (map_size sz) w1)) = pt w'"
    "page_bytes (pt w') (mem (os_map_dma os mbuf 0x8000 (map_size sz) (os_mlock os mbuf (map_size sz) w1))) 0x8000 (length file mod 2 ^ 32) =
       take (length file mod 2 ^ 32) file"
    using assms(8) unfolding maps_file_def by blast
  have n: "length file mod 2 ^ 32 = unat sz mod 2 ^ 32" by (simp add: f(2))
  obtain j st1 where "run_md5 vf sched (i', emb s' w') = Some (Inr (digest_text (md5_final ops
      (md5_update ops c0 (take (length file mod 2 ^ 32) file))), j, st1))"
    using run_md5_digest [OF assms(1,2,5,6,7) f(1,3) refl f(2) n _ t(2) _ assms(9), of i'] f(4,5) t(3) by auto
  then show ?thesis
    using assms(10-12) t(1) by (simp add: test_main_def test_md5_def SZ_32K_def)
qed

end

text \<open>
  Property C16: on an accelerator in its initial state with idle threads, the test program with three arguments or more returns 0
  under any schedule that gives the device turns again and again, each one step of a thread.  It reports the
  pattern it stored at each of the 128 addresses it has the device read, each address at the address it
  has the device write it to, and prints the digest of the first \<open>size mod 2 ^ 32\<close> bytes of the file, which is the text of \<open>md5sum\<close> exactly when
  no byte below 16 stands elsewhere than at the start of a word.  It needs: an ATS agent that serves the 4 KB pages of \<open>pt\<close>; DMA that reads the memory and
  stores to it and changes no translation; a shared mapping in which program and device see the same bytes; a file that can be mapped and shows the device
  its bytes from 32 KB on; MD5 operations that hash in pieces to 16 bytes; a device that opens; an anonymous mapping that succeeds.
\<close>

theorem test_program_passes:
  assumes "serves_pages at ats mem pt" "reads_memory dma mem" "stores_memory dma mem pt" "shares_mapping os mem pt"
    and "hashes_in_pieces ops" "md5_init ops = Some c0" "\<forall>c. length (md5_final ops c) = 16" "maps_file os mem pt file"
    and "\<forall>i. \<exists>k \<ge> i. sched k" "4 \<le> length argv"
    and "open_dev (argv ! 1) (ucast (strtoull10 (argv ! 2))) st = Inr (acc_new, \<lambda>_. Idle, w0)"
    and "map_mem anon (acc_steps at x0 ats dma ops os) 0x8000 (acc_new, \<lambda>_. Idle, w0) = Inr (m, acc_new, \<lambda>_. Idle, w)"
    and "D = md5_final ops (md5_update ops c0 (take (length file mod 2 ^ 32) file))"
  shows "\<exists>out st'. test_main open_dev anon (\<lambda>_. acc_steps at x0 ats dma ops os) sched argv st =
      Some (Inr (Main_returned (replicate 128 0xDDCCBBAA, map (\<lambda>j. 256 * of_nat j) [0..<128], out), st')) \<and>
    out = digest_text D \<and> (out = md5sum_text D \<longleftrightarrow> short_bytes D = [])"
proof -
  have "length D = 16" using assms(7,13) by simp
  moreover obtain st' where "test_main open_dev anon (\<lambda>_. acc_steps at x0 ats dma ops os) sched argv st =
      Some (Inr (Main_returned (replicate 128 0xDDCCBBAA, map (\<lambda>j. 256 * of_nat j) [0..<128], digest_text D), st'))"
    using stepwise.test_main_passes [OF assms(1-10), where open_dev = open_dev and st = st and anon = anon and m = m, OF assms(11,12)]
    unfolding assms(13) by blast
  ultimately show ?thesis by (metis digest_text_md5sum)
qed

text \<open>The file of three bytes of the witness, which its system stores at 32 KB when it maps it.\<close>

definition ex_file_os :: "bytes_memory vfio_os" where
  "ex_file_os = \<lparr>os_file_size = (\<lambda>_. Some 3), os_mmap = (\<lambda>n m. Some (0x7000, m)), os_mlock = (\<lambda>_ _ m. m), os_munmap = (\<lambda>_ _ m. m),
     os_map_dma = (\<lambda>_ a _ m. mem_write m a [1, 2, 3]), os_unmap_dma = (\<lambda>_ _ m. m),
     os_store = (\<lambda>a bs m. mem_write m (ucast a) bs), os_load = (\<lambda>a n m. mem_read m (ucast a) n)\<rparr>"

theorem test_program_passes_witness:
  "\<exists>st'. test_main (\<lambda>_ _. Inr) (\<lambda>n s. Some (0x9000, s))
      (\<lambda>_. acc_steps ex_at ex_x0 ex_ram_agent ex_ram
        \<lparr>md5_init = Some [], md5_update = (@), md5_final = (\<lambda>c. take 16 (c @ replicate 16 0))\<rparr> ex_file_os)
      even [''prog'', ''dev'', ''1'', ''file''] (acc_new, \<lambda>_. Idle, \<lambda>_. 0) =
    Some (Inr (Main_returned (replicate 128 0xDDCCBBAA, map (\<lambda>j. 256 * of_nat j) [0..<128],
      digest_text [1, 2, 3, 0, 0, 0, 0, 0, 0, 0, 0, 0, 0, 0, 0, 0]), st'))"
proof -
  let ?ops = "\<lparr>md5_init = Some [], md5_update = (@), md5_final = (\<lambda>c. take 16 (c @ replicate 16 0))\<rparr> :: u8 list md5_ops"
  note s = ex_ram_surroundings(1) and r = ex_ram_surroundings(2) and st = ex_ram_surroundings(3)
  have sh: "shares_mapping ex_file_os (\<lambda>m. m) (\<lambda>_ a. a)"
    by (simp add: shares_mapping_def ex_file_os_def ex_page_phys)
  have p: "hashes_in_pieces ?ops" "md5_init ?ops = Some []" "\<forall>c. length (md5_final ?ops c) = 16"
    by (simp_all add: hashes_in_pieces_def min_def)
  have f: "maps_file ex_file_os (\<lambda>m. m) (\<lambda>_ a. a) [1, 2, 3]"
    by (simp add: maps_file_def ex_file_os_def page_bytes_def ex_page_phys upt_conv_Cons mem_write_def)
  have e: "\<forall>i. \<exists>k \<ge> i. even (k :: nat)" by (metis even_Suc le_SucI order_refl)
  have a: "4 \<le> length [''prog'', ''dev'', ''1'', ''file'']" by simp
  define w where "w = mem_write (\<lambda>_. 0) 0 [1, 2, 3 :: u8]"
  have m: "map_mem (\<lambda>n s. Some (0x9000, s)) (acc_steps ex_at ex_x0 ex_ram_agent ex_ram ?ops ex_file_os) 0x8000 (acc_new, \<lambda>_. Idle, \<lambda>_. 0) =
      Inr (0x9000, acc_new, \<lambda>_. Idle, w)"
    by (simp add: map_mem_def ex_file_os_def w_def acc_steps_def)
  let ?D = "[1, 2, 3, 0, 0, 0, 0, 0, 0, 0, 0, 0, 0, 0, 0, 0] :: u8 list"
  have n: "length [1, 2, 3 :: u8] mod 2 ^ 32 = 3" by simp
  have D: "?D = md5_final ?ops (md5_update ?ops [] (take (length [1, 2, 3 :: u8] mod 2 ^ 32) [1, 2, 3]))"
    unfolding n by (simp add: numeral_eq_Suc)
  obtain out st' where "test_main (\<lambda>_ _. Inr) (\<lambda>n s. Some (0x9000, s)) (\<lambda>_. acc_steps ex_at ex_x0 ex_ram_agent ex_ram ?ops ex_file_os)
      even [''prog'', ''dev'', ''1'', ''file''] (acc_new, \<lambda>_. Idle, \<lambda>_. 0) =
    Some (Inr (Main_returned (replicate 128 0xDDCCBBAA, map (\<lambda>j. 256 * of_nat j) [0..<128], out), st'))" "out = digest_text ?D"
    using test_program_passes [OF s r st sh p f e a _ m D, where open_dev = "\<lambda>_ _. Inr"] by blast
  then show ?thesis by blast
qed

section \<open>A log of the memory calls\<close>

text \<open>The same surroundings, with a log of every call that maps memory or takes a mapping away.\<close>

datatype mem_call =
    Mmap_file u64
  | Mmap_anon u64
  | Mlock u64 u64
  | Map_dma u64 u64 u64
  | Unmap_dma u64 u64
  | Munmap u64 u64

type_synonym 's logged = "mem_call list \<times> 's"

definition logged_vfio :: "'s vfio \<Rightarrow> 's logged vfio" where
  "logged_vfio vf =
     \<lparr>os_file_size = (\<lambda>(l, s). os_file_size vf s),
      os_mmap = (\<lambda>n (l, s). map_option (\<lambda>(p, s'). (p, l @ [Mmap_file n], s')) (os_mmap vf n s)),
      os_mlock = (\<lambda>p n (l, s). (l @ [Mlock p n], os_mlock vf p n s)),
      os_munmap = (\<lambda>p n (l, s). (l @ [Munmap p n], os_munmap vf p n s)),
      os_map_dma = (\<lambda>p a n (l, s). (l @ [Map_dma p a n], os_map_dma vf p a n s)),
      os_unmap_dma = (\<lambda>a n (l, s). (l @ [Unmap_dma a n], os_unmap_dma vf a n s)),
      os_store = (\<lambda>a bs (l, s). (l, os_store vf a bs s)),
      os_load = (\<lambda>a n (l, s). os_load vf a n s),
      vf_write = (\<lambda>a bs (l, s). map_sum id (Pair l) (vf_write vf a bs s)),
      vf_read = (\<lambda>a n (l, s). map_sum id (\<lambda>(bs, s'). (bs, l, s')) (vf_read vf a n s)),
      vf_run = (\<lambda>(l, s). map_option (map_sum id (Pair l)) (vf_run vf s))\<rparr>"

definition logged_anon :: "'s anon_mmap \<Rightarrow> 's logged anon_mmap" where
  "logged_anon anon n = (\<lambda>(l, s). map_option (\<lambda>(p, s'). (p, l @ [Mmap_anon n], s')) (anon n s))"

definition logged_open :: "(string \<Rightarrow> u32 \<Rightarrow> 's \<Rightarrow> 's res) \<Rightarrow> string \<Rightarrow> u32 \<Rightarrow> 's logged \<Rightarrow> 's logged res" where
  "logged_open open_dev name grp = (\<lambda>(l, s). map_sum id (Pair l) (open_dev name grp s))"

lemma logged_vfio_fields [simp]:
  "os_file_size (logged_vfio vf) (l, s) = os_file_size vf s"
  "os_mmap (logged_vfio vf) n (l, s) = map_option (\<lambda>(p, s'). (p, l @ [Mmap_file n], s')) (os_mmap vf n s)"
  "os_mlock (logged_vfio vf) p n (l, s) = (l @ [Mlock p n], os_mlock vf p n s)"
  "os_munmap (logged_vfio vf) p n (l, s) = (l @ [Munmap p n], os_munmap vf p n s)"
  "os_map_dma (logged_vfio vf) p a n (l, s) = (l @ [Map_dma p a n], os_map_dma vf p a n s)"
  "os_unmap_dma (logged_vfio vf) a n (l, s) = (l @ [Unmap_dma a n], os_unmap_dma vf a n s)"
  "os_store (logged_vfio vf) b bs (l, s) = (l, os_store vf b bs s)"
  "os_load (logged_vfio vf) b k (l, s) = os_load vf b k s"
  "vf_run (logged_vfio vf) (l, s) = map_option (map_sum id (Pair l)) (vf_run vf s)"
  by (simp_all add: logged_vfio_def)

lemma logged_write32: "write32 (logged_vfio vf) a v (l, s) = map_sum id (Pair l) (write32 vf a v s)"
  by (simp add: write32_def logged_vfio_def)

lemma logged_read32: "read32 (logged_vfio vf) a (l, s) = map_sum id (\<lambda>(v, s'). (v, l, s')) (read32 vf a s)"
  by (cases "vf_read vf (ucast a) 4 s") (auto simp: read32_def logged_vfio_def)

lemma logged_write_all: "write_all (logged_vfio vf) ws (l, s) = map_sum id (Pair l) (write_all vf ws s)"
proof (induction ws arbitrary: s)
  case (Cons x xs)
  then show ?case by (cases "write32 vf (fst x) (snd x) s") (simp_all add: logged_write32)
qed simp

lemma logged_turn:
  "(if b then vf_run (logged_vfio vf) (l, s) else Some (Inr (l, s))) =
     map_option (map_sum id (Pair l)) (if b then vf_run vf s else Some (Inr s))"
  by simp

text \<open>What a call returns with a log is what it returns without one.\<close>

abbreviation with_log :: "mem_call list \<Rightarrow> (nat \<times> 's) res \<Rightarrow> (nat \<times> 's logged) res" where
  "with_log l \<equiv> map_sum id (\<lambda>(i, s). (i, l, s))"

lemma wait_logged_returns:
  assumes "wait_for_done vf sched i s = Some r"
  shows "wait_for_done (logged_vfio vf) sched i (l, s) = Some (with_log l r)"
proof (rule wait_for_done.raw_induct [where P = "\<lambda>vf sched i s r.
      wait_for_done (logged_vfio vf) sched i (l, s) = Some (with_log l r)", OF _ assms])
  fix f vf sched i s r
  assume IH: "\<And>vf sched i s r. f vf sched i s = Some r \<Longrightarrow>
      wait_for_done (logged_vfio vf) sched i (l, s) = Some (with_log l r)"
    and ret: "Option.bind (if sched i then vf_run vf s else Some (Inr s)) (\<lambda>r. case r of Inl e \<Rightarrow> Some (Inl e)
       | Inr s1 \<Rightarrow> (case read32 vf R_STATUS s1 of Inl e \<Rightarrow> Some (Inl e)
            | Inr (v, s2) \<Rightarrow> if v = 0 then f vf sched (Suc i) s2 else Some (Inr (Suc i, s2)))) = Some r"
  obtain x where x: "(if sched i then vf_run vf s else Some (Inr s)) = Some x"
    using ret by (cases "if sched i then vf_run vf s else Some (Inr s)") auto
  note ret' = ret [unfolded x, simplified]
  note step = wait_for_done.simps [of "logged_vfio vf" sched i "(l, s)", unfolded logged_turn x, simplified]
  show "wait_for_done (logged_vfio vf) sched i (l, s) = Some (with_log l r)"
  proof (cases x)
    case (Inl e)
    with ret' show ?thesis unfolding step by auto
  next
    case (Inr s1)
    show ?thesis
    proof (cases "read32 vf R_STATUS s1")
      case (Inl e)
      with \<open>x = Inr s1\<close> ret' show ?thesis unfolding step by (auto simp: logged_read32)
    next
      case r: (Inr vs)
      obtain v s2 where vs: "vs = (v, s2)" by (cases vs)
      show ?thesis
      proof (cases "v = 0")
        case True
        with r vs \<open>x = Inr s1\<close> ret' have "f vf sched (Suc i) s2 = Some r" by simp
        from IH [OF this] True r vs \<open>x = Inr s1\<close> show ?thesis unfolding step by (simp add: logged_read32)
      next
        case False
        with r vs \<open>x = Inr s1\<close> ret' show ?thesis unfolding step by (auto simp: logged_read32)
      qed
    qed
  qed
qed

lemma logged_wait_returns:
  assumes "wait_for_done (logged_vfio vf) sched i (l, s) = Some r"
  shows "\<exists>r'. wait_for_done vf sched i s = Some r'"
proof -
  let ?P = "\<lambda>vf' sched i ls r. vf' = logged_vfio vf \<and> fst ls = l \<longrightarrow> (\<exists>r'. wait_for_done vf sched i (snd ls) = Some r')"
  have "?P (logged_vfio vf) sched i (l, s) r"
  proof (rule wait_for_done.raw_induct [where P = ?P, OF _ assms], intro impI, elim conjE)
    fix f vf' sched i r and ls :: "'a logged"
    assume IH: "\<And>vf' sched i ls r. f vf' sched i ls = Some r \<Longrightarrow> ?P vf' sched i ls r"
      and ret: "Option.bind (if sched i then vf_run vf' ls else Some (Inr ls)) (\<lambda>r. case r of Inl e \<Rightarrow> Some (Inl e)
         | Inr s1 \<Rightarrow> (case read32 vf' R_STATUS s1 of Inl e \<Rightarrow> Some (Inl e)
              | Inr (v, s2) \<Rightarrow> if v = 0 then f vf' sched (Suc i) s2 else Some (Inr (Suc i, s2)))) = Some r"
      and eq: "vf' = logged_vfio vf" "fst ls = l"
    obtain s where ls: "ls = (l, s)" using eq(2) by (cases ls) auto
    have IH': "\<exists>r'. wait_for_done vf sched i s = Some r'" if "f (logged_vfio vf) sched i (l, s) = Some r" for sched i s r
      using IH [OF that] by simp
    obtain x where x: "(if sched i then vf_run vf s else Some (Inr s)) = Some x"
      using ret unfolding ls eq(1) logged_turn by (cases "if sched i then vf_run vf s else Some (Inr s)") auto
    note ret' = ret [unfolded ls eq(1) logged_turn x, simplified]
    note step = wait_for_done.simps [of vf sched i s, unfolded x, simplified]
    show "\<exists>r'. wait_for_done vf sched i (snd ls) = Some r'"
      unfolding ls snd_conv step using ret' IH'
      by (auto simp: logged_read32 split: sum.splits prod.splits if_split_asm)
  qed
  then show ?thesis by simp
qed

lemma logged_wait: "wait_for_done (logged_vfio vf) sched i (l, s) = map_option (with_log l) (wait_for_done vf sched i s)"
proof (cases "wait_for_done vf sched i s")
  case None
  then show ?thesis
    using logged_wait_returns [of vf sched i l s] by (cases "wait_for_done (logged_vfio vf) sched i (l, s)") auto
next
  case (Some r)
  then show ?thesis by (simp add: wait_logged_returns)
qed

abbreviation with_log2 :: "mem_call list \<Rightarrow> ('v \<times> nat \<times> 's) res option \<Rightarrow> ('v \<times> nat \<times> 's logged) res option" where
  "with_log2 l \<equiv> map_option (map_sum id (\<lambda>(v, i, s). (v, i, l, s)))"

lemma logged_command:
  "command (logged_vfio vf) sched ws (i, l, s) = map_option (with_log l) (command vf sched ws (i, s))"
  by (cases "write_all vf ws s") (simp_all add: command_def logged_write_all logged_wait)

lemma logged_bind:
  "run_bind (map_option (with_log l) m) (\<lambda>(i, ls). f i ls) =
     run_bind m (\<lambda>(i, s). f i (l, s))"
  by (cases m) (auto simp: run_bind_def split: sum.splits)

lemma logged_test_read_at:
  "test_read_at (logged_vfio vf) sched a (i, l, s) = with_log2 l (test_read_at vf sched a (i, s))"
proof (cases "command vf sched [(R_ADDR_MSB, 0), (R_ADDR_LSB, a), (R_LENGTH, 4), (R_STATUS, 0), (R_CTRL, R_CTRL_READ)]
    (i, os_store vf a [0xAA, 0xBB, 0xCC, 0xDD] s)")
  case (Some x)
  show ?thesis
  proof (cases x)
    case (Inr y)
    then show ?thesis
      using Some by (cases y; cases "read32 vf R_VAL (snd y)") (auto simp: test_read_at_def logged_command logged_read32)
  qed (use Some in \<open>simp add: test_read_at_def logged_command\<close>)
qed (simp add: test_read_at_def logged_command)

lemma logged_test_write_at:
  "test_write_at (logged_vfio vf) sched a (i, l, s) = with_log2 l (test_write_at vf sched a (i, s))"
proof (cases "command vf sched
    [(R_ADDR_MSB, 0), (R_ADDR_LSB, a), (R_LENGTH, 4), (R_STATUS, 0), (R_VAL, a), (R_CTRL, R_CTRL_WRITE)] (i, s)")
  case (Some x)
  then show ?thesis by (cases x) (auto simp: test_write_at_def logged_command)
qed (simp add: test_write_at_def logged_command)

lemma logged_run_each:
  assumes "\<And>a i s. f' a (i, l, s) = with_log2 l (f a (i, s))"
  shows "run_each f' as (i, l, s) = with_log2 l (run_each f as (i, s))"
proof (induction as arbitrary: i s)
  case (Cons a as)
  show ?case
  proof (cases "f a (i, s)")
    case (Some x)
    show ?thesis
    proof (cases x)
      case (Inr y)
      obtain v j s1 where y: "y = (v, j, s1)" by (cases y)
      show ?thesis
      proof (cases "run_each f as (j, s1)")
        case r: (Some z)
        with Some Inr y Cons.IH [of j s1] show ?thesis by (cases z) (auto simp: assms)
      qed (use Some Inr y Cons.IH [of j s1] in \<open>simp add: assms\<close>)
    qed (use Some in \<open>simp add: assms\<close>)
  qed (simp add: assms)
qed simp

lemma logged_print_results:
  "print_results (logged_vfio vf) a (l, s) = map_sum id (\<lambda>(out, s'). (out, l, s')) (print_results vf a s)"
proof (induction vf a s rule: print_results.induct)
  case (1 vf a s)
  show ?case
  proof (cases "a \<le> R_MD5_RESULT_3")
    case True
    show ?thesis
    proof (cases "read32 vf a s")
      case (Inr x)
      obtain r s1 where x: "x = (r, s1)" by (cases x)
      have "print_results (logged_vfio vf) (a + 4) (l, s1) = map_sum id (\<lambda>(out, s'). (out, l, s')) (print_results vf (a + 4) s1)"
        by (rule "1.IH" [OF True])
      with True Inr x show ?thesis
        by (subst (1 2) print_results.simps, cases "print_results vf (a + 4) s1") (auto simp: logged_read32)
    qed (subst (1 2) print_results.simps, simp add: True logged_read32)
  qed (subst (1 2) print_results.simps, simp)
qed

section \<open>Every mapping is taken away\<close>

text \<open>The calls of the MD5 test, for a file of \<open>sz\<close> bytes mapped at \<open>mbuf\<close>.\<close>

definition md5_calls :: "u64 \<Rightarrow> u64 \<Rightarrow> mem_call list" where
  "md5_calls mbuf sz =
     [Mmap_file (map_size sz), Mlock mbuf (map_size sz), Map_dma mbuf 0x8000 (map_size sz), Unmap_dma 0x8000 (map_size sz), Munmap mbuf sz]"

lemma run_bind_SomeD:
  "run_bind m f = Some (Inr r) \<Longrightarrow> \<exists>x. m = Some (Inr x) \<and> f x = Some (Inr r)"
  by (cases m) (auto simp: run_bind_def split: sum.splits)

lemma logged_run_md5:
  assumes "run_md5 vf sched (i, s) = Some (Inr (out, i', s'))"
  shows "\<exists>mbuf sz. run_md5 (logged_vfio vf) sched (i, l, s) = Some (Inr (out, i', l @ md5_calls mbuf sz, s'))"
proof -
  have k: "(ucast SZ_32K :: u64) = 0x8000" by (simp add: SZ_32K_def)
  obtain sz mbuf s1 where sz: "os_file_size vf s = Some sz" "os_mmap vf (map_size sz) s = Some (mbuf, s1)"
    using assms by (auto simp: run_md5_def split: option.splits)
  define ws where "ws = [(R_ADDR_MSB, 0), (R_ADDR_LSB, SZ_32K), (R_LENGTH, ucast sz), (R_STATUS, 0), (R_CTRL, R_CTRL_MD5SUM)]"
  obtain i2 s2 where c: "command vf sched ws (i, os_map_dma vf mbuf 0x8000 (map_size sz) (os_mlock vf mbuf (map_size sz) s1)) = Some (Inr (i2, s2))"
    and p: "Some (res_bind (print_results vf R_MD5_RESULT_0 s2) (\<lambda>(out, s3).
        Inr (out, i2, os_munmap vf mbuf sz (os_unmap_dma vf 0x8000 (map_size sz) s3)))) = Some (Inr (out, i', s'))"
    using assms by (auto simp: run_md5_def sz k ws_def dest!: run_bind_SomeD)
  obtain s3 where "print_results vf R_MD5_RESULT_0 s2 = Inr (out, s3)" "i' = i2"
    "s' = os_munmap vf mbuf sz (os_unmap_dma vf 0x8000 (map_size sz) s3)"
    using p by (auto simp: res_bind_eq_Inr)
  then have "run_md5 (logged_vfio vf) sched (i, l, s) = Some (Inr (out, i', l @ md5_calls mbuf sz, s'))"
    using c by (simp add: run_md5_def sz k logged_command logged_print_results md5_calls_def flip: ws_def)
  then show ?thesis by blast
qed

lemma logged_run_tests:
  assumes "run_tests vf sched (i, s) = Some (Inr (rs, ws, out, i', s'))"
  shows "\<exists>mbuf sz. run_tests (logged_vfio vf) sched (i, l, s) = Some (Inr (rs, ws, out, i', l @ md5_calls mbuf sz, s'))"
proof -
  obtain i1 s1 i2 s2 i3 s3 where t: "test_ATC_load vf sched (i, s) = Some (Inr (i1, s1))"
    "test_read vf sched (i1, s1) = Some (Inr (rs, i2, s2))" "test_write vf sched (i2, s2) = Some (Inr (ws, i3, s3))"
    "test_md5 vf sched (i3, s3) = Some (Inr (out, i', s'))"
    using assms by (fastforce simp: run_tests_def dest!: run_bind_SomeD)
  have "test_ATC_load (logged_vfio vf) sched (i, l, s) = Some (Inr (i1, l, s1))"
    using t(1) by (simp add: test_ATC_load_def logged_command)
  moreover have "test_read (logged_vfio vf) sched (i1, l, s1) = Some (Inr (rs, i2, l, s2))"
    using t(2) logged_run_each [of "test_read_at (logged_vfio vf) sched" l "test_read_at vf sched", OF logged_test_read_at] by (simp add: test_read_def)
  moreover have "test_write (logged_vfio vf) sched (i2, l, s2) = Some (Inr (ws, i3, l, s3))"
    using t(3) logged_run_each [of "test_write_at (logged_vfio vf) sched" l "test_write_at vf sched", OF logged_test_write_at] by (simp add: test_write_def)
  moreover obtain mbuf sz where "test_md5 (logged_vfio vf) sched (i3, l, s3) = Some (Inr (out, i', l @ md5_calls mbuf sz, s'))"
    using logged_run_md5 [of vf sched i3 s3 out i' s' l] t(4) by (auto simp: test_md5_def)
  ultimately show ?thesis by (auto simp: run_tests_def)
qed

text \<open>
  Property C32: a run of the test program that returns gives the memory it shares with the
  accelerator back.  The device gets two windows of I/O addresses, \<open>[0, 32 KB)\<close> for the shared mapping and the file
  from 32 KB on; each is taken away again with the address and the size it was given,
  the window of the file before the mapping is undone and the shared one by the destructor.  Each of the two mappings is locked before the
  device gets it.  Two calls do not match: the lock of the shared mapping is put on twice its size, the one of the file on its size, and the file is unmapped with its
  own size instead of the one of its mapping.
\<close>

theorem test_program_returns_memory:
  assumes "test_main open_dev anon vf sched argv s = Some (Inr (Main_returned out, s'))"
  shows "\<exists>m mbuf sz. test_main (logged_open open_dev) (logged_anon anon) (\<lambda>f. logged_vfio (vf f)) sched argv ([], s) =
    Some (Inr (Main_returned out,
      [Mmap_anon 0x8000, Mlock m 0x10000, Map_dma m 0 0x8000,
       Mmap_file (map_size sz), Mlock mbuf (map_size sz), Map_dma mbuf 0x8000 (map_size sz), Unmap_dma 0x8000 (map_size sz), Munmap mbuf sz,
       Unmap_dma 0 0x8000, Munmap m 0x8000], s'))"
proof -
  have k: "(ucast SZ_32K :: u64) = 0x8000" by (simp add: SZ_32K_def)
  have n: "\<not> length argv < 4" using assms by (auto simp: test_main_def res_bind_eq_Inr)
  obtain s1 m s2 i s3 rs ws d where o: "open_dev (argv ! 1) (ucast (strtoull10 (argv ! 2))) s = Inr s1"
    and m: "map_mem anon (vf (argv ! 3)) 0x8000 s1 = Inr (m, s2)"
    and r: "run_tests (vf (argv ! 3)) sched (0, s2) = Some (Inr (rs, ws, d, i, s3))"
    and e: "out = (rs, ws, d)" "s' = top_destroy (vf (argv ! 3)) m 0x8000 s3"
    using assms n unfolding test_main_def k by (auto dest!: run_bind_SomeD)
  have "logged_open open_dev (argv ! 1) (ucast (strtoull10 (argv ! 2))) ([], s) = Inr ([], s1)"
    using o by (simp add: logged_open_def)
  moreover have "map_mem (logged_anon anon) (logged_vfio (vf (argv ! 3))) 0x8000 ([], s1) =
      Inr (m, [Mmap_anon 0x8000, Mlock m 0x10000, Map_dma m 0 0x8000], s2)"
    using m by (auto simp: map_mem_def logged_anon_def split: option.splits)
  moreover obtain mbuf sz where "run_tests (logged_vfio (vf (argv ! 3))) sched (0, [Mmap_anon 0x8000, Mlock m 0x10000, Map_dma m 0 0x8000], s2) =
      Some (Inr (rs, ws, d, i, [Mmap_anon 0x8000, Mlock m 0x10000, Map_dma m 0 0x8000] @ md5_calls mbuf sz, s3))"
    using logged_run_tests [OF r] by blast
  ultimately show ?thesis using n e unfolding test_main_def k
    by (intro exI [of _ m] exI [of _ mbuf] exI [of _ sz]) (simp add: top_destroy_def md5_calls_def)
qed

text \<open>Surroundings for the witness: a device that is always done and reads one everywhere.\<close>

definition ex_done :: "unit vfio" where
  "ex_done = \<lparr>os_file_size = (\<lambda>_. Some 3), os_mmap = (\<lambda>n s. Some (0x7000, s)), os_mlock = (\<lambda>_ _ s. s), os_munmap = (\<lambda>_ _ s. s),
     os_map_dma = (\<lambda>_ _ _ s. s), os_unmap_dma = (\<lambda>_ _ s. s), os_store = (\<lambda>_ _ s. s), os_load = (\<lambda>_ n _. [0, 0, 0, 0]),
     vf_write = (\<lambda>_ _ s. Inr s), vf_read = (\<lambda>_ n s. Inr ([1, 0, 0, 0], s)), vf_run = (\<lambda>s. Some (Inr s))\<rparr>"

lemma ex_done_read: "read32 ex_done a s = Inr (1, s)"
  by (simp add: read32_def ex_done_def)

lemma ex_done_writes: "write_all ex_done ws s = Inr s"
  by (induction ws) (simp_all add: write32_def ex_done_def)

lemma ex_done_command: "command ex_done sched ws (i, s) = Some (Inr (Suc i, s))"
  by (subst command_def, simp add: ex_done_writes, subst wait_for_done.simps, simp add: ex_done_read)
    (simp add: ex_done_def)

lemma ex_done_file: "os_file_size ex_done s = Some 3" "os_mmap ex_done n s = Some (0x7000, s)"
  by (simp_all add: ex_done_def)

lemma ex_done_print: "\<exists>out. print_results ex_done a s = Inr (out, s)"
proof (induction ex_done a s rule: print_results.induct)
  case (1 a s)
  then show ?case by (subst print_results.simps) (auto simp: ex_done_read)
qed

theorem test_program_returns_memory_witness:
  "\<exists>out m mbuf sz. test_main (logged_open (\<lambda>_ _. Inr)) (logged_anon (\<lambda>n s. Some (0x9000, s)))
      (\<lambda>f. logged_vfio ex_done) even [''prog'', ''dev'', ''1'', ''file''] ([], ()) =
    Some (Inr (Main_returned out,
      [Mmap_anon 0x8000, Mlock m 0x10000, Map_dma m 0 0x8000,
       Mmap_file (map_size sz), Mlock mbuf (map_size sz), Map_dma mbuf 0x8000 (map_size sz), Unmap_dma 0x8000 (map_size sz), Munmap mbuf sz,
       Unmap_dma 0 0x8000, Munmap m 0x8000], ()))"
proof -
  have r: "\<exists>s'. test_read_at ex_done even a s = Some (Inr (1, s')) \<and> True" for a s
    by (cases s) (simp add: test_read_at_def ex_done_command ex_done_read)
  have w: "\<exists>s'. test_write_at ex_done even a s = Some (Inr (0, s')) \<and> True" for a s
    by (cases s) (simp add: test_write_at_def ex_done_command, simp add: ex_done_def)
  obtain st2 where t2: "test_read ex_done even (1, ()) = Some (Inr (map (\<lambda>_. 1) (test_addrs 0), st2))"
    using run_each_all [where f = "test_read_at ex_done even" and g = "\<lambda>_. 1" and P = "\<lambda>_. True" and as = "test_addrs 0", OF r] unfolding test_read_def by blast
  obtain st3 where t3: "test_write ex_done even st2 = Some (Inr (map (\<lambda>_. 0) (test_addrs 0), st3))"
    using run_each_all [where f = "test_write_at ex_done even" and g = "\<lambda>_. 0" and P = "\<lambda>_. True" and as = "test_addrs 0", OF w] unfolding test_write_def by blast
  obtain d where d: "print_results ex_done R_MD5_RESULT_0 () = Inr (d, ())" using ex_done_print by blast
  obtain i s where st3: "st3 = (i, s)" by (cases st3)
  have t4: "test_md5 ex_done even st3 = Some (Inr (d, Suc i, ()))"
    using d by (simp add: test_md5_def run_md5_def st3 ex_done_command ex_done_file)
  have "run_tests ex_done even (0, ()) = Some (Inr (map (\<lambda>_. 1) (test_addrs 0), map (\<lambda>_. 0) (test_addrs 0), d, Suc i, ()))"
    using t2 t3 t4 by (simp add: run_tests_def test_ATC_load_def ex_done_command)
  then have "test_main (\<lambda>_ _. Inr) (\<lambda>n s. Some (0x9000, s)) (\<lambda>f. ex_done) even [''prog'', ''dev'', ''1'', ''file''] () =
      Some (Inr (Main_returned (map (\<lambda>_. 1) (test_addrs 0), map (\<lambda>_. 0) (test_addrs 0), d), ()))"
    by (simp add: test_main_def map_mem_def)
  from test_program_returns_memory [OF this] show ?thesis by blast
qed

section \<open>The digest on the stream\<close>

text \<open>
  What the loop over the result registers inserts for a register \<open>r\<close>; on any stream it appends the text of
  \<open>print_word\<close>, so \<open>Vfio_Tests\<close> follows the rules of the stream.
\<close>

definition digest_manips :: "u32 \<Rightarrow> manip list" where
  "digest_manips r =
     [hex, right, setw 2, setfill (CHR ''0''), put_num (unat (r AND 0xff)), put_num (unat (drop_bit 8 r AND 0xff)),
      put_num (unat (drop_bit 16 r AND 0xff)), put_num (unat (drop_bit 24 r AND 0xff))]"

lemma byte_digits: "digits 16 (unat (w AND 0xff)) = hex_out (ucast (w :: u32))"
proof -
  have m: "w AND 0xff = take_bit 8 w" by (simp add: take_bit_eq_mask mask_eq_exp_minus_1)
  have u: "unat (w AND 0xff) = unat (ucast w :: u8)" unfolding m by (simp add: unsigned_take_bit_eq unsigned_ucast_eq)
  have "unat (ucast w :: u8) < 256" using unsigned_less [of "ucast w :: u8", where ?'a = nat] by simp
  then have "unat (ucast w :: u8) div 16 < 16" by simp
  then show ?thesis unfolding u
    by (subst digits.simps, subst digits.simps) (simp add: hex_out_def digit_char_def hex_digit_def)
qed

lemma digest_manips_print_word:
  "os_width os = 0 \<Longrightarrow> os_out (emit (digest_manips r) os) = os_out os @ print_word r \<and> os_width (emit (digest_manips r) os) = 0"
  by (simp add: digest_manips_def stream_simps byte_digits print_word_def hex_out_w2_def pad_left_def)

end
