(* ===== verification/Qdma_Demo.thy ===== *)
theory Qdma_Demo
  imports Demo_Maps
begin

text \<open>
  The card side of \<open>pcie/versal/cpm-qdma-demo.cc\<close>: accesses to the BARs handed to the QDMA, its DMA
  requests handed to the host, and its interrupt signals copied to the interrupt outputs of
  the PCIe function, one thread per line.  The QDMA itself is a module of \<open>libsystemctlm-soc\<close>; its
  sockets and the number of its user BAR are arguments.
\<close>

section \<open>Accesses\<close>

text \<open>\<open>SC_REPORT_ERROR\<close> throws, so the response the code sets after it is never set.\<close>

definition qdma_bar_b_transport :: "nat \<Rightarrow> 'w target \<Rightarrow> 'w target \<Rightarrow> nat \<Rightarrow> 'w target" where
  "qdma_bar_b_transport user_bar user cfg bar_nr tr d w =
     (if bar_nr = user_bar then user tr d w
      else if bar_nr = 0 then cfg tr d w
      else Inl Thrown)"

definition fwd_dma_b_transport :: "'w target \<Rightarrow> 'w target" where
  "fwd_dma_b_transport dma tr d w = dma tr d w"

lemma qdma_bar_target:
  assumes "tlm_target user" "tlm_target cfg"
  shows "tlm_target (qdma_bar_b_transport user_bar user cfg bar_nr)"
proof
  fix tr :: gp and d s tr' d' s'
  assume ok: "gp_ok tr" and r: "qdma_bar_b_transport user_bar user cfg bar_nr tr d s = Inr (tr', d', s')"
  then have "user tr d s = Inr (tr', d', s') \<or> cfg tr d s = Inr (tr', d', s')"
    by (auto simp: qdma_bar_b_transport_def split: if_splits)
  then show "gp_frame tr tr'" "gp_cmd tr = TLM_WRITE_COMMAND \<Longrightarrow> gp_data tr' = gp_data tr"
    using tlm_target.bt_frame [OF assms(1) ok] tlm_target.bt_frame [OF assms(2) ok]
      tlm_target.bt_write_data [OF assms(1) ok] tlm_target.bt_write_data [OF assms(2) ok] by blast+
qed

text \<open>The bus behind the card port of the QDMA: one memory.\<close>

definition qdma_card_access ::
  "'w target \<Rightarrow> demo_target iconnect \<Rightarrow> 'w target" where
  "qdma_card_access mem bus = ic_b_transport (\<lambda>_. mem) bus 0"

section \<open>Interrupts\<close>

text \<open>
  The signals of the QDMA, the outputs of the function, and for each line whether its thread has
  been woken by a change and has not run yet.  A thread that has copied the value waits again in
  the same evaluation, so it misses no change.
\<close>

record qdma_irqs =
  qi_signals :: "bool list"
  qi_irq :: "bool list"
  qi_woken :: "bool list"

definition qdma_irqs_new :: "nat \<Rightarrow> qdma_irqs" where
  "qdma_irqs_new n = \<lparr>qi_signals = replicate n False, qi_irq = replicate n False, qi_woken = replicate n False\<rparr>"

inductive qdma_thread_step :: "qdma_irqs \<Rightarrow> qdma_irqs \<Rightarrow> bool" where
  copy: "i < length (qi_signals s) \<Longrightarrow> qi_woken s ! i \<Longrightarrow>
    qdma_thread_step s (s\<lparr>qi_irq := (qi_irq s)[i := qi_signals s ! i], qi_woken := (qi_woken s)[i := False]\<rparr>)"

inductive qdma_irq_step :: "qdma_irqs \<Rightarrow> qdma_irqs \<Rightarrow> bool" where
  signal: "i < length (qi_signals s) \<Longrightarrow>
    qdma_irq_step s (s\<lparr>qi_signals := (qi_signals s)[i := v],
      qi_woken := (qi_woken s)[i := qi_woken s ! i \<or> qi_signals s ! i \<noteq> v]\<rparr>)"
| irq_thread: "qdma_thread_step s s' \<Longrightarrow> qdma_irq_step s s'"

inductive qdma_irq_reachable :: "nat \<Rightarrow> qdma_irqs \<Rightarrow> bool" for n where
  start: "qdma_irq_reachable n (qdma_irqs_new n)"
| step: "qdma_irq_reachable n s \<Longrightarrow> qdma_irq_step s s' \<Longrightarrow> qdma_irq_reachable n s'"

definition qdma_irq_inv :: "nat \<Rightarrow> qdma_irqs \<Rightarrow> bool" where
  "qdma_irq_inv n s \<longleftrightarrow> length (qi_signals s) = n \<and> length (qi_irq s) = n \<and> length (qi_woken s) = n \<and>
     (\<forall>i < n. \<not> qi_woken s ! i \<longrightarrow> qi_irq s ! i = qi_signals s ! i)"

lemma qdma_thread_step_inv: "qdma_thread_step s s' \<Longrightarrow> qdma_irq_inv n s \<Longrightarrow> qdma_irq_inv n s'"
  by (induction rule: qdma_thread_step.induct) (auto simp: qdma_irq_inv_def nth_list_update)

lemma qdma_irq_step_inv: "qdma_irq_step s s' \<Longrightarrow> qdma_irq_inv n s \<Longrightarrow> qdma_irq_inv n s'"
  by (induction rule: qdma_irq_step.induct)
    (auto simp: qdma_irq_inv_def nth_list_update dest: qdma_thread_step_inv [where n = n, unfolded qdma_irq_inv_def])

lemma qdma_irq_reachable_inv: "qdma_irq_reachable n s \<Longrightarrow> qdma_irq_inv n s"
proof (induction rule: qdma_irq_reachable.induct)
  case start
  then show ?case by (simp add: qdma_irq_inv_def qdma_irqs_new_def)
next
  case (step s s')
  then show ?case by (blast intro: qdma_irq_step_inv)
qed

lemma qdma_settle:
  assumes "qdma_irq_inv n s" "m \<le> n"
  shows "\<exists>s'. rtranclp qdma_thread_step s s' \<and> qdma_irq_inv n s' \<and> qi_signals s' = qi_signals s \<and>
    (\<forall>i < m. \<not> qi_woken s' ! i)"
  using assms(2)
proof (induction m)
  case 0
  then show ?case using assms(1) by blast
next
  case (Suc m)
  then obtain s' where s': "rtranclp qdma_thread_step s s'" "qdma_irq_inv n s'" "qi_signals s' = qi_signals s"
    "\<forall>i < m. \<not> qi_woken s' ! i" by auto
  show ?case
  proof (cases "qi_woken s' ! m")
    case False
    with s' show ?thesis by (intro exI [of _ s']) (auto simp: less_Suc_eq)
  next
    case True
    let ?t = "s'\<lparr>qi_irq := (qi_irq s')[m := qi_signals s' ! m], qi_woken := (qi_woken s')[m := False]\<rparr>"
    have len: "m < length (qi_signals s')" "length (qi_woken s') = n" using s'(2) Suc.prems by (simp_all add: qdma_irq_inv_def)
    have st: "qdma_thread_step s' ?t" using len(1) True by (rule qdma_thread_step.copy)
    have "\<forall>i < Suc m. \<not> qi_woken ?t ! i"
      using s'(4) len Suc.prems by (auto simp: nth_list_update less_Suc_eq)
    with s' qdma_thread_step_inv [OF st s'(2)] st show ?thesis
      by (intro exI [of _ ?t]) (auto intro: rtranclp.rtrancl_into_rtrancl)
  qed
qed

text \<open>
  However the QDMA drives its interrupt signals and the threads take turns, an output whose
  thread is not about to run shows the value of its signal, so no change is lost; and from every reachable state the
  threads alone bring all outputs to the values of the signals.
\<close>

theorem qdma_irqs_follow:
  assumes "qdma_irq_reachable n s"
  shows "(\<forall>i < n. \<not> qi_woken s ! i \<longrightarrow> qi_irq s ! i = qi_signals s ! i) \<and>
    (\<exists>s'. rtranclp qdma_thread_step s s' \<and> qi_signals s' = qi_signals s \<and> qi_irq s' = qi_signals s)"
proof -
  have inv: "qdma_irq_inv n s" by (rule qdma_irq_reachable_inv [OF assms])
  obtain s' where s': "rtranclp qdma_thread_step s s'" "qdma_irq_inv n s'" "qi_signals s' = qi_signals s"
    "\<forall>i < n. \<not> qi_woken s' ! i" using qdma_settle [OF inv order_refl] by blast
  then have "qi_irq s' = qi_signals s'" by (auto simp: qdma_irq_inv_def intro: nth_equalityI)
  with s' inv show ?thesis by (auto simp: qdma_irq_inv_def)
qed

theorem qdma_irqs_follow_witness:
  "\<exists>s s'. qdma_irq_reachable 2 s \<and> qi_signals s = [False, True] \<and> rtranclp qdma_thread_step s s' \<and> qi_irq s' = [False, True]"
proof -
  let ?s = "(qdma_irqs_new 2)\<lparr>qi_signals := [False, True], qi_woken := [False, True]\<rparr>"
  have n: "replicate 2 False = [False, False]" by (simp add: numeral_2_eq_2)
  have "qdma_irq_step (qdma_irqs_new 2) ?s"
    using qdma_irq_step.signal [of 1 "qdma_irqs_new 2" True] by (simp add: qdma_irqs_new_def n)
  then have r: "qdma_irq_reachable 2 ?s" by (rule qdma_irq_reachable.step [OF qdma_irq_reachable.start])
  from qdma_irqs_follow [OF r] obtain s' where "rtranclp qdma_thread_step ?s s'" "qi_irq s' = qi_signals ?s" by blast
  with r show ?thesis by (intro exI [of _ ?s] exI [of _ s']) simp
qed

section \<open>Configuration space\<close>

text \<open>
  What \<open>getPhysFuncConfig\<close> asks the PCIe library for: identifiers, the sizes and flags of the base address
  registers, and the capabilities with the values of their registers.  The constants of
  \<open>linux/pci_regs.h\<close> and the number of interrupts of the QDMA are arguments.
\<close>

record pci_regs =
  PCI_BASE_ADDRESS_MEM_TYPE_64 :: u32
  PCI_EXP_DEVCAP_RBER :: u32
  PCI_EXP_LNKCAP_SLS_2_5GB :: u32
  PCI_EXP_LNKCAP_ASPM_L0S :: u32
  PCI_EXP_LNKSTA_CLS_2_5GB :: u32
  PCI_EXP_LNKSTA_NLW_X1 :: u32

datatype pci_capability =
    PMCapability
  | PCIExpressCapability u32 u32 u32    \<comment> \<open>device capabilities, link capabilities, link status\<close>
  | MSIXCapability u32 u32 u32          \<comment> \<open>message control, table offset and BIR, pending bit array\<close>

record phys_func_config =
  pf_vendor :: u32
  pf_device :: u32
  pf_class :: "u32 \<times> u32 \<times> u32"
  pf_bars :: "(nat \<times> u32 \<times> u32) list"
  pf_subsystem :: "u32 \<times> u32"
  pf_rom :: "u32 \<times> u32"
  pf_caps :: "pci_capability list"

definition KiB :: u32 where "KiB = 1024"

definition getPhysFuncConfig :: "pci_regs \<Rightarrow> u32 \<Rightarrow> phys_func_config" where
  "getPhysFuncConfig regs nr_irq =
     (let bar_flags = PCI_BASE_ADDRESS_MEM_TYPE_64 regs;
          msixTableSz = nr_irq;
          tableOffset = 0x100 OR 4;
          pba = 0x140000 OR 4;
          maxLinkWidth = push_bit 4 1
      in \<lparr>pf_vendor = 0x10ee, pf_device = 0x903f, pf_class = (0, 0, 2),
          pf_bars = [(0, 256 * KiB, bar_flags), (2, 256 * KiB, bar_flags), (4, 256 * KiB, bar_flags)],
          pf_subsystem = (0x10ee, 0xa), pf_rom = (0, 0),
          pf_caps = [PMCapability,
            PCIExpressCapability (PCI_EXP_DEVCAP_RBER regs)
              (PCI_EXP_LNKCAP_SLS_2_5GB regs OR maxLinkWidth OR PCI_EXP_LNKCAP_ASPM_L0S regs)
              (PCI_EXP_LNKSTA_CLS_2_5GB regs OR PCI_EXP_LNKSTA_NLW_X1 regs),
            MSIXCapability (msixTableSz - 1) tableOffset pba]\<rparr>)"

text \<open>
  How PCI reads the registers of the MSI-X capability: the low eleven bits of message control are the
  number of entries less one, the low three bits of the other two the number of a base address register, and
  the rest is an offset there.  An entry has 16 bytes.
\<close>

definition msix_entries :: "u32 \<Rightarrow> nat" where
  "msix_entries control = unat (control AND 0x7ff) + 1"

definition msix_bir :: "u32 \<Rightarrow> nat" where
  "msix_bir x = unat (x AND 7)"

definition msix_offset :: "u32 \<Rightarrow> nat" where
  "msix_offset x = unat (x AND NOT 7)"

text \<open>
  For the up to 2048 vectors MSI-X allows, the capability announces as many entries as the QDMA has interrupts, and
  the table lies in base address register 4, from offset 0x100 on (the comment says 0); but
  the pending bits are announced at 0x140000, beyond the 256 KiB of that register.
\<close>

lemma qdma_msix_layout:
  assumes "0 < nr_irq" "nr_irq \<le> 2048"
  shows "\<exists>control table pba bar flags. MSIXCapability control table pba \<in> set (pf_caps (getPhysFuncConfig regs nr_irq)) \<and>
    (4, bar, flags) \<in> set (pf_bars (getPhysFuncConfig regs nr_irq)) \<and>
    msix_entries control = unat nr_irq \<and> msix_bir table = 4 \<and> msix_bir pba = 4 \<and> msix_offset table = 0x100 \<and>
    msix_offset table + 16 * msix_entries control \<le> unat bar \<and> unat bar < msix_offset pba"
proof -
  have le: "unat nr_irq \<le> 2048" using assms(2) by (simp add: word_le_nat_alt)
  have ge: "0 < unat nr_irq" using assms(1) by (simp add: word_less_nat_alt)
  have m: "(0x7ff :: u32) = mask 11" by (simp add: mask_eq_exp_minus_1)
  have "unat (nr_irq - 1) = unat nr_irq - 1" using assms(1) by (simp add: unat_minus_one word_gt_0)
  then have c: "msix_entries (nr_irq - 1) = unat nr_irq"
    using le ge by (simp add: msix_entries_def m unat_mod flip: take_bit_eq_mask) (simp add: take_bit_eq_mod unat_mod)
  show ?thesis
    unfolding getPhysFuncConfig_def Let_def
    by (intro exI [of _ "nr_irq - 1"] exI [of _ "0x104"] exI [of _ "0x140004"] exI [of _ "256 * KiB"]
        exI [of _ "PCI_BASE_ADDRESS_MEM_TYPE_64 regs"])
      (use le in \<open>simp add: c msix_bir_def msix_offset_def KiB_def\<close>)
qed

end
