(* ===== verification/Demo_Sockets.thy ===== *)
theory Demo_Sockets
  imports Demo_Maps
begin

text \<open>
  The sockets and interrupt lines of the demos: which module drives which port of the
  interconnect, and which device drives which interrupt line of the processor system.  Together with the
  maps of \<open>Demo_Maps\<close> this is all a top binds to its bus; the theory shows that no
  port is left open or bound twice, and from where every master sees the devices.
\<close>

section \<open>The bindings\<close>

text \<open>
  A master is a socket of the processor system (or of the QDMA), named as in the code, or the
  initiator socket of a device.  With it stands the port \<open>i\<close> of \<open>bus.t_sk[i]\<close>.  An interrupt is an output of a
  device with the line \<open>i\<close> of \<open>pl2ps_irq[i]\<close>.
\<close>

datatype master = M_ps string nat | M_dev demo_target

type_synonym port_binds = "(master \<times> nat) list"
type_synonym irq_binds = "((demo_target \<times> string) \<times> nat) list"

definition zynq_ports :: port_binds where
  "zynq_ports = [(M_ps ''m_axi_gp'' 0, 0)]"

definition zynq_irqs :: irq_binds where
  "zynq_irqs = [((T_debug, ''irq''), 0)]"

definition zynqmp_ports :: port_binds where
  "zynqmp_ports = (M_ps ''s_axi_hpm_fpd'' 0, 0) # map (\<lambda>i. (M_dev (T_demodma i), 1 + i)) [0..<4]"

definition zynqmp_irqs :: irq_binds where
  "zynqmp_irqs = map (\<lambda>i. ((T_demodma i, ''irq''), 1 + i)) [0..<4] @ [((T_debug, ''irq''), 0)]"

definition versal_ports :: port_binds where
  "versal_ports =
     [(M_ps ''m_axi_fpd'' 0, 0), (M_ps ''m_axi_lpd'' 0, 1), (M_ps ''pmc_noc_axi_0'' 0, 2),
      (M_ps ''fpd_cci_noc_0'' 0, 3), (M_ps ''noc_lpd_axi_0'' 0, 4), (M_dev (T_demodma 0), 5)]"

definition versal_irqs :: irq_binds where
  "versal_irqs = [((T_debug, ''irq''), 0), ((T_demodma 0, ''irq''), 1)]"

definition mrmac_ports :: port_binds where
  "mrmac_ports = [(M_ps ''m_axi_lpd'' 0, 0), (M_ps ''m_axi_fpd'' 0, 1), (M_dev T_mcdma, 2)]"

definition mrmac_irqs :: irq_binds where
  "mrmac_irqs = [((T_mcdma, ''mm2s_irq''), 0), ((T_mcdma, ''s2mm_irq''), 1)]"

definition lmac2_ports :: port_binds where
  "lmac2_ports = [(M_ps ''s_axi_hpm_fpd'' 0, 0), (M_dev T_mm2s, 1), (M_dev T_s2mm, 2)]"

definition lmac2_irqs :: irq_binds where
  "lmac2_irqs = [((T_mm2s, ''irq''), 2), ((T_s2mm, ''irq''), 4)]"

definition lmac3_ports :: port_binds where
  "lmac3_ports = [(M_ps ''s_axi_hpm_fpd'' 0, 0), (M_dev T_mm2s, 1), (M_dev T_s2mm, 2)]"

definition lmac3_irqs :: irq_binds where
  "lmac3_irqs = [((T_mm2s, ''irq''), 2), ((T_s2mm, ''irq''), 4)]"

definition vcs_ports :: port_binds where
  "vcs_ports = [(M_ps ''s_axi_hpm_fpd'' 0, 0), (M_dev (T_demodma 0), 1)]"

definition vcs_irqs :: irq_binds where
  "vcs_irqs = [((T_debug, ''irq''), 0), ((T_demodma 0, ''irq''), 1)]"

text \<open>The masters of the CDX stub and of Bedrock are behind their stream-id devices.\<close>

definition cdx_ports :: port_binds where
  "cdx_ports = [(M_ps ''m_cpm'' 0, 0), (M_dev (T_cdma 0), 1), (M_dev (T_cdma 1), 2)]"

definition cdx_irqs :: irq_binds where
  "cdx_irqs = [((T_debug, ''irq''), 0)]"

definition bedrock_ports :: port_binds where
  "bedrock_ports = [(M_ps ''m_cpm'' 0, 0), (M_dev T_catapult, 1)]"

definition qdma_ports :: port_binds where
  "qdma_ports = [(M_ps ''card_bus'' 0, 0)]"

text \<open>
  Every demo with \<open>NR_MASTERS\<close>, \<open>NR_DEVICES\<close>, its map, its ports and its interrupts.  The LMAC demos come
  with the base address of Zynq and the one of RISC-V.
\<close>

record demo_bind =
  db_masters :: nat
  db_devices :: nat
  db_map :: "demo_target map_row list"
  db_ports :: port_binds
  db_irqs :: irq_binds

definition demo_binds :: "demo_bind list" where
  "demo_binds =
     [\<lparr>db_masters = 1, db_devices = 1, db_map = zynq_map, db_ports = zynq_ports, db_irqs = zynq_irqs\<rparr>,
      \<lparr>db_masters = 1 + 4, db_devices = 6 + 4, db_map = zynqmp_map, db_ports = zynqmp_ports, db_irqs = zynqmp_irqs\<rparr>,
      \<lparr>db_masters = 6, db_devices = 9, db_map = versal_map False, db_ports = versal_ports, db_irqs = versal_irqs\<rparr>,
      \<lparr>db_masters = 6, db_devices = 10, db_map = versal_map True, db_ports = versal_ports, db_irqs = versal_irqs\<rparr>,
      \<lparr>db_masters = 3, db_devices = 8, db_map = mrmac_map, db_ports = mrmac_ports, db_irqs = mrmac_irqs\<rparr>,
      \<lparr>db_masters = 3, db_devices = 4, db_map = lmac_map 0xa0000000, db_ports = lmac2_ports, db_irqs = lmac2_irqs\<rparr>,
      \<lparr>db_masters = 3, db_devices = 4, db_map = lmac_map 0x28000000, db_ports = lmac2_ports, db_irqs = lmac2_irqs\<rparr>,
      \<lparr>db_masters = 3, db_devices = 4, db_map = lmac_map 0xa0000000, db_ports = lmac3_ports, db_irqs = lmac3_irqs\<rparr>,
      \<lparr>db_masters = 3, db_devices = 4, db_map = lmac_map 0x28000000, db_ports = lmac3_ports, db_irqs = lmac3_irqs\<rparr>,
      \<lparr>db_masters = 2, db_devices = 4, db_map = vcs_map, db_ports = vcs_ports, db_irqs = vcs_irqs\<rparr>,
      \<lparr>db_masters = 3, db_devices = 7, db_map = cdx_map, db_ports = cdx_ports, db_irqs = cdx_irqs\<rparr>,
      \<lparr>db_masters = 2, db_devices = 2, db_map = bedrock_map, db_ports = bedrock_ports, db_irqs = []\<rparr>,
      \<lparr>db_masters = 1, db_devices = 1, db_map = qdma_map, db_ports = qdma_ports, db_irqs = []\<rparr>]"

lemmas port_defs = zynq_ports_def zynqmp_ports_def versal_ports_def mrmac_ports_def lmac2_ports_def lmac3_ports_def
  vcs_ports_def cdx_ports_def bedrock_ports_def qdma_ports_def

lemmas irq_defs = zynq_irqs_def zynqmp_irqs_def versal_irqs_def mrmac_irqs_def lmac2_irqs_def lmac3_irqs_def
  vcs_irqs_def cdx_irqs_def

section \<open>Elaboration\<close>

lemma binds_maps: "list_all (\<lambda>d. list_ex ((=) (db_devices d, db_map d)) demo_maps) demo_binds"
  by (simp add: demo_binds_def demo_maps_def)

lemma binds_full: "list_all (\<lambda>d. length (db_map d) = db_devices d) demo_binds"
  by (simp add: demo_binds_def demo_map_defs Let_def)

lemma binds_ports: "list_all (\<lambda>d. sort (map snd (db_ports d)) = [0..<db_masters d] \<and> distinct (map fst (db_ports d))) demo_binds"
  by (simp add: demo_binds_def port_defs upt_conv_Cons)

lemma binds_irqs: "list_all (\<lambda>d. distinct (map snd (db_irqs d)) \<and> distinct (map fst (db_irqs d)) \<and>
    list_all (\<lambda>x. list_ex (\<lambda>r. row_target r = fst (fst x)) (db_map d)) (db_irqs d)) demo_binds"
  by (simp add: demo_binds_def irq_defs demo_map_defs upt_conv_Cons Let_def row_target_def)

text \<open>
  Property C27: every demo binds all its sockets.  Each port of the bus has exactly one master and
  no master two ports; the regions fill the interconnect, so after the set-up, whatever the memory of the map held,
  every initiator socket of the bus leads to a device, the one of its region, and no two
  to the same; and no two interrupts share a line.
\<close>

theorem demo_sockets_bound:
  assumes "d \<in> set demo_binds" "length raw_map = 4 * db_devices d" "raw_offset \<noteq> []"
  shows "\<exists>ic. demo_bus (db_devices d) raw_map raw_offset (db_map d) = Inr ic \<and>
    ic_isk ic = map (Some \<circ> row_target) (db_map d) \<and> distinct (ic_isk ic) \<and> length (ic_isk ic) = db_devices d \<and>
    (\<forall>p < db_masters d. \<exists>!m. (m, p) \<in> set (db_ports d)) \<and> (\<forall>(m, p) \<in> set (db_ports d). p < db_masters d) \<and>
    distinct (map fst (db_ports d)) \<and> distinct (map snd (db_irqs d)) \<and>
    (\<forall>((t, i), _) \<in> set (db_irqs d). Some t \<in> set (ic_isk ic))"
proof -
  have m: "(db_devices d, db_map d) \<in> set demo_maps" and l: "length (db_map d) = db_devices d"
    and s: "sort (map snd (db_ports d)) = [0..<db_masters d]" and dm: "distinct (map fst (db_ports d))"
    and i: "distinct (map snd (db_irqs d))" "\<forall>x \<in> set (db_irqs d). \<exists>r \<in> set (db_map d). row_target r = fst (fst x)"
    using binds_maps binds_full binds_ports binds_irqs assms(1) by (auto simp: list_all_iff list_ex_iff)
  have z: "\<forall>(base, sz, t) \<in> set (db_map d). sz \<noteq> 0" and dt: "distinct (map row_target (db_map d))"
    using demo_maps_checked demo_targets_distinct m by (auto simp: list_all_iff)
  let ?ic = "mapped_bus (db_devices d) raw_map raw_offset (db_map d)"
  have b: "demo_bus (db_devices d) raw_map raw_offset (db_map d) = Inr ?ic"
    using demo_bus_eq [OF assms(2,3) _ z] l by simp
  have isk: "ic_isk ?ic = map (Some \<circ> row_target) (db_map d)" using l by (simp add: mapped_bus_def)
  have dist: "distinct (ic_isk ?ic)" using dt unfolding isk by (simp add: distinct_map inj_on_def)
  have ports: "set (map snd (db_ports d)) = {0..<db_masters d}" "distinct (map snd (db_ports d))"
    using s by (metis set_sort set_upt, metis distinct_sort distinct_upt)
  have one: "\<exists>!m. (m, p) \<in> set (db_ports d)" if "p < db_masters d" for p
  proof -
    have "p \<in> snd ` set (db_ports d)" using ports(1) that by auto
    then obtain m where "(m, p) \<in> set (db_ports d)" by force
    moreover have "m' = m" if "(m', p) \<in> set (db_ports d)" for m'
      using ports(2) that calculation by (metis distinct_map inj_onD prod.inject snd_conv)
    ultimately show ?thesis by blast
  qed
  have "\<forall>(m, p) \<in> set (db_ports d). p < db_masters d" using ports(1) by force
  moreover have "\<forall>((t, i), _) \<in> set (db_irqs d). Some t \<in> set (ic_isk ?ic)" unfolding isk using i(2) by force
  ultimately show ?thesis using b isk dist l one dm i(1) by (intro exI [of _ ?ic]) simp
qed

theorem demo_sockets_bound_witness:
  "\<exists>ic. demo_bus 7 (replicate 28 \<lparr>me_addr = 0, me_size = 5, me_mode = ADDRMODE_ABSOLUTE, me_sk = 3\<rparr>) [9, 9, 9] cdx_map = Inr ic \<and>
     length (ic_isk ic) = 7 \<and> ic_isk ic ! 3 = Some T_counter \<and> (\<exists>!m. (m, 2) \<in> set cdx_ports)"
proof -
  let ?d = "\<lparr>db_masters = 3, db_devices = 7, db_map = cdx_map, db_ports = cdx_ports, db_irqs = cdx_irqs\<rparr>"
  have "?d \<in> set demo_binds" by (simp add: demo_binds_def)
  from demo_sockets_bound [OF this, of "replicate 28 \<lparr>me_addr = 0, me_size = 5, me_mode = ADDRMODE_ABSOLUTE, me_sk = 3\<rparr>" "[9, 9, 9]"]
  show ?thesis by (fastforce simp: cdx_map_def row_target_def)
qed

section \<open>What the masters see\<close>

lemma demo_master_route:
  assumes "d \<in> set demo_binds" "length raw_map = 4 * db_devices d" "length raw_offset = db_masters d"
    and "(m, p) \<in> set (db_ports d)" "(base, sz, t) \<in> set (db_map d)" "t \<noteq> T_ps" "off \<le> sz"
  shows "\<exists>ic nr. demo_bus (db_devices d) raw_map raw_offset (db_map d) = Inr ic \<and>
    route ic p (base + off - (if p = 0 then 0 else raw_offset ! p)) = Inr (nr, t, off, base + off)"
proof -
  have m: "(db_devices d, db_map d) \<in> set demo_maps" and l: "length (db_map d) = db_devices d"
    using binds_maps binds_full assms(1) by (auto simp: list_all_iff list_ex_iff)
  have "sort (map snd (db_ports d)) = [0..<db_masters d]" using binds_ports assms(1) by (simp add: list_all_iff)
  from arg_cong [OF this, of set] have "snd ` set (db_ports d) = {0..<db_masters d}" by simp
  with assms(3,4) have p: "p < length raw_offset" by force
  let ?o = "if p = 0 then 0 else raw_offset ! p"
  have o: "raw_offset[0 := 0] ! p = ?o" using p by (cases p) simp_all
  have z: "\<forall>(base, sz, t) \<in> set (db_map d). sz \<noteq> 0" using demo_maps_checked m by (auto simp: list_all_iff)
  have "rows_decode (db_map d) (base + off - ?o + raw_offset[0 := 0] ! p) = Some (t, off)"
    using demo_device_decode [OF m assms(5-7)] by (simp add: o)
  moreover have "db_devices d < 2 ^ 31" using m by (auto simp: demo_maps_def)
  ultimately show ?thesis using demo_bus_routes [OF assms(2) _ p _ z] l by (fastforce simp: o)
qed

text \<open>
  Property C24: the master on port \<open>p\<close> reaches every device of its demo at every offset of the
  region.  On port 0 the addresses are those of the map.  The constructor sets no other
  offset, so every other master, the DMA devices among them, sees all addresses displaced by the value
  the memory of the interconnect happened to hold for its port.
\<close>

theorem demo_masters_reach_devices:
  assumes "d \<in> set demo_binds" "length raw_map = 4 * db_devices d" "length raw_offset = db_masters d"
    and "(m, p) \<in> set (db_ports d)" "(base, sz, t) \<in> set (db_map d)" "t \<noteq> T_ps" "off \<le> sz"
  shows "\<exists>ic nr. demo_bus (db_devices d) raw_map raw_offset (db_map d) = Inr ic \<and>
    route ic p (base + off - (if p = 0 then 0 else raw_offset ! p)) = Inr (nr, t, off, base + off)"
  using assms by (rule demo_master_route)

theorem demo_masters_reach_devices_witness:
  "\<exists>ic nr. demo_bus 7 (replicate 28 \<lparr>me_addr = 0, me_size = 5, me_mode = ADDRMODE_ABSOLUTE, me_sk = 3\<rparr>) [9, 9, 8] cdx_map = Inr ic \<and>
     route ic 2 (0xe4040000 - 8) = Inr (nr, T_counter, 0, 0xe4040000)"
proof -
  let ?d = "\<lparr>db_masters = 3, db_devices = 7, db_map = cdx_map, db_ports = cdx_ports, db_irqs = cdx_irqs\<rparr>"
  have "?d \<in> set demo_binds" "(M_dev (T_cdma 1), 2) \<in> set (db_ports ?d)" "(0xe4040000, 0x100 - 1, T_counter) \<in> set (db_map ?d)"
    by (simp_all add: demo_binds_def cdx_ports_def cdx_map_def)
  from demo_masters_reach_devices [OF this(1) _ _ this(2,3), of "replicate 28 \<lparr>me_addr = 0, me_size = 5, me_mode = ADDRMODE_ABSOLUTE, me_sk = 3\<rparr>" "[9, 9, 8]" 0]
  show ?thesis by simp
qed

end
