(* ===== verification/Dma_Bus.thy ===== *)
theory Dma_Bus
  imports Demo_Sockets Demo_Dma
begin

text \<open>
  The DMA device (\<open>demo-dma.cc\<close>) on the interconnect (\<open>iconnect.h\<close>) of the demos: what a copy does when the
  initiator socket of the device is bound to its port of the bus and both ranges lie in one device
  that behaves as a memory.
\<close>

section \<open>A copy inside a window\<close>

lemma do_dma_trans_window:
  assumes "memory_window bus mem lo sz" "dd_reg R_BYTE_EN s = 0" "n \<noteq> 0" "unat (a - lo) + n \<le> unat sz + 1"
  shows "do_dma_trans bus TLM_READ_COMMAND buf a n (s, w) =
      Inr (poke n (mem_read (mem w) a n) buf, dd_set R_ERROR_RESP 0 s, w)"
    and "\<exists>w'. do_dma_trans bus TLM_WRITE_COMMAND buf a n (s, w) = Inr (buf, dd_set R_ERROR_RESP 0 s, w') \<and>
      mem w' = mem_write (mem w) a (take n buf)"
proof -
  note m = assms(1) [unfolded memory_window_def, rule_format, of "mk_gp c a buf n" 0 w for c]
  obtain a' where "bus (mk_gp TLM_READ_COMMAND a buf n) 0 w =
      Inr ((mk_gp TLM_READ_COMMAND a buf n)\<lparr>gp_data := poke n (mem_read (mem w) a n) buf, gp_resp := TLM_OK_RESPONSE, gp_addr := a'\<rparr>, 0, w)"
    using m [of TLM_READ_COMMAND] assms(3,4) by auto
  then show "do_dma_trans bus TLM_READ_COMMAND buf a n (s, w) =
      Inr (poke n (mem_read (mem w) a n) buf, dd_set R_ERROR_RESP 0 s, w)"
    using assms(2) by (simp add: do_dma_trans_def Let_def)
  obtain a'' w' where "bus (mk_gp TLM_WRITE_COMMAND a buf n) 0 w =
      Inr ((mk_gp TLM_WRITE_COMMAND a buf n)\<lparr>gp_resp := TLM_OK_RESPONSE, gp_addr := a''\<rparr>, 0, w')"
    "mem w' = mem_write (mem w) a (take n buf)"
    using m [of TLM_WRITE_COMMAND] assms(3,4) by auto
  then show "\<exists>w'. do_dma_trans bus TLM_WRITE_COMMAND buf a n (s, w) = Inr (buf, dd_set R_ERROR_RESP 0 s, w') \<and>
      mem w' = mem_write (mem w) a (take n buf)"
    using assms(2) by (simp add: do_dma_trans_def Let_def)
qed

text \<open>Both ranges of the copy, in the window and below 4 GB.\<close>

definition dma_inside :: "u64 \<Rightarrow> u64 \<Rightarrow> demodma \<Rightarrow> bool" where
  "dma_inside lo sz s \<longleftrightarrow> (let n = unat (dd_reg R_LEN s) in
     unat (ucast (dd_reg R_DST_ADDR s) - lo) + n \<le> unat sz + 1 \<and> unat (dd_reg R_DST_ADDR s) + n < 2 ^ 32 \<and>
     unat (ucast (dd_reg R_SRC_ADDR s) - lo) + n \<le> unat sz + 1 \<and> unat (dd_reg R_SRC_ADDR s) + n < 2 ^ 32)"

lemma dd_burst_window:
  assumes "memory_window bus mem lo sz" "dd_inv s" "dd_reg R_BYTE_EN s = 0" "dma_inside lo sz s"
    and "dd_burst ram (s, mem w) = Inr (s', m')"
  shows "\<exists>w'. dd_burst bus (s, w) = Inr (s', w') \<and> mem w' = m'"
proof (cases "dd_reg R_LEN s > 0 \<and> dd_running s")
  case True
  let ?t = "unat (if dd_reg R_LEN s > 32 then 32 else dd_reg R_LEN s)"
  have t: "?t \<noteq> 0" "?t \<le> unat (dd_reg R_LEN s)" using True by (auto simp: word_less_nat_alt)
  let ?buf = "poke ?t (mem_read (mem w) (ucast (dd_reg R_SRC_ADDR s)) ?t) (dd_buf s)"
  let ?s1 = "(dd_set R_ERROR_RESP 0 s)\<lparr>dd_buf := ?buf\<rparr>"
  have in_s: "unat (ucast (dd_reg R_SRC_ADDR s) - lo) + ?t \<le> unat sz + 1"
    "unat (ucast (dd_reg R_DST_ADDR s) - lo) + ?t \<le> unat sz + 1"
    using assms(4) t(2) by (simp_all add: dma_inside_def Let_def)
  note rd = do_dma_trans_window(1) [OF assms(1,3) t(1) in_s(1), of "dd_buf s" w]
  have r1: "dd_reg R_BYTE_EN ?s1 = 0" "dd_reg R_DST_ADDR (dd_set R_ERROR_RESP 0 s) = dd_reg R_DST_ADDR s"
    using assms(2,3) by simp_all
  obtain w' where wr: "do_dma_trans bus TLM_WRITE_COMMAND ?buf (ucast (dd_reg R_DST_ADDR s)) ?t (?s1, w) =
      Inr (?buf, dd_set R_ERROR_RESP 0 ?s1, w')" "mem w' = mem_write (mem w) (ucast (dd_reg R_DST_ADDR s)) (take ?t ?buf)"
    using do_dma_trans_window(2) [OF assms(1) r1(1) t(1) in_s(2), of ?buf w] by blast
  note rd' = do_dma_trans_memory(1) [OF ram_memory assms(3), of "dd_buf s" "ucast (dd_reg R_SRC_ADDR s)" ?t "mem w"]
  note wr' = do_dma_trans_memory(2) [OF ram_memory r1(1), of ?buf "ucast (dd_reg R_DST_ADDR s)" ?t "mem w"]
  show ?thesis
    using assms(5) True rd wr(1) rd' wr' r1(2) wr(2)
    by (auto simp: dd_burst_def Let_def simp del: of_nat_unat split del: if_split)
next
  case False
  with assms(5) show ?thesis by (auto simp: dd_burst_def)
qed

lemma dd_copy_turn_window:
  assumes "memory_window bus mem lo sz" "dd_inv s" "dd_reg R_BYTE_EN s = 0" "dma_inside lo sz s"
    and "dd_copy_turn ram (s, mem w) = Inr (b, s', m')"
  shows "\<exists>w'. dd_copy_turn bus (s, w) = Inr (b, s', w') \<and> mem w' = m'"
proof -
  obtain s1 m1 where ram: "dd_burst ram (s, mem w) = Inr (s1, m1)"
    using assms(5) by (auto simp: dd_copy_turn_def res_bind_eq_Inr)
  then obtain w1 where "dd_burst bus (s, w) = Inr (s1, w1)" "mem w1 = m1"
    using dd_burst_window [OF assms(1-4)] by blast
  with ram assms(5) show ?thesis by (auto simp: dd_copy_turn_def Let_def split: if_splits)
qed

text \<open>What is left of a copy after a turn lies in the window as well.\<close>

lemma dma_inside_turn:
  assumes "dma_inside lo sz s" "t \<le> unat (dd_reg R_LEN s)"
    and "dd_reg R_DST_ADDR s' = dd_reg R_DST_ADDR s + of_nat t" "dd_reg R_SRC_ADDR s' = dd_reg R_SRC_ADDR s + of_nat t"
    and "dd_reg R_LEN s' = dd_reg R_LEN s - of_nat t"
  shows "dma_inside lo sz s'"
proof -
  let ?n = "unat (dd_reg R_LEN s)"
  have i: "unat (ucast (dd_reg R_DST_ADDR s) - lo) + ?n \<le> unat sz + 1" "unat (dd_reg R_DST_ADDR s) + ?n < 2 ^ 32"
    "unat (ucast (dd_reg R_SRC_ADDR s) - lo) + ?n \<le> unat sz + 1" "unat (dd_reg R_SRC_ADDR s) + ?n < 2 ^ 32"
    using assms(1) by (simp_all add: dma_inside_def Let_def)
  have "t < 2 ^ 32" using assms(2) unsigned_less [of "dd_reg R_LEN s", where ?'a = nat] by simp
  then have ut: "unat (of_nat t :: u32) = t" by (simp add: unat_of_nat)
  have n: "unat (dd_reg R_LEN s') = ?n - t"
    unfolding assms(5) using assms(2) ut by (subst unat_sub) (simp_all add: word_le_nat_alt)
  have step: "unat (ucast (a + of_nat t) - lo) + (?n - t) \<le> unat sz + 1 \<and> unat (a + of_nat t) + (?n - t) < 2 ^ 32"
    if "unat (ucast a - lo) + ?n \<le> unat sz + 1" "unat a + ?n < 2 ^ 32" for a :: u32
  proof -
    have nw: "unat a + t < 2 ^ 32" using that(2) assms(2) by simp
    note u = ucast_add_no_wrap [OF nw]
    have "unat sz < 2 ^ 64" using unsigned_less [of sz, where ?'a = nat] by simp
    then have le: "unat (ucast a - lo + of_nat t) \<le> unat (ucast a - lo) + t"
      by (simp add: unat_word_ariths unat_of_nat)
    have e: "ucast a + of_nat t - lo = ucast a - lo + (of_nat t :: u64)" by (simp add: algebra_simps)
    show ?thesis unfolding u e using le that assms(2) by linarith
  qed
  show ?thesis unfolding dma_inside_def Let_def n assms(3,4) using step i by blast
qed

lemma dd_copy_window:
  assumes "memory_window bus mem lo sz" "dd_inv s" "dd_reg R_BYTE_EN s = 0" "dd_running s" "dma_inside lo sz s"
    and "dd_copy k ram (s, mem w) = Some (Inr (s', m'))"
  shows "\<exists>w'. dd_copy k bus (s, w) = Some (Inr (s', w')) \<and> mem w' = m'"
  using assms(2-6)
proof (induction k arbitrary: s w)
  case (Suc k)
  let ?t = "min (unat (dd_reg R_LEN s)) 32"
  obtain s1 where t: "dd_copy_turn ram (s, mem w) = Inr (dd_reg R_LEN s1 \<noteq> 0, s1,
      mem_write (mem w) (ucast (dd_reg R_DST_ADDR s)) (mem_read (mem w) (ucast (dd_reg R_SRC_ADDR s)) ?t))"
    "dd_inv s1" "dd_reg R_BYTE_EN s1 = 0" "dd_reg R_DST_ADDR s1 = dd_reg R_DST_ADDR s + of_nat ?t"
    "dd_reg R_SRC_ADDR s1 = dd_reg R_SRC_ADDR s + of_nat ?t" "dd_reg R_LEN s1 = dd_reg R_LEN s - of_nat ?t"
    using dd_copy_turn_memory [OF ram_memory Suc.prems(1-3), of "mem w"] by blast
  obtain w1 where w1: "dd_copy_turn bus (s, w) = Inr (dd_reg R_LEN s1 \<noteq> 0, s1, w1)"
    "mem w1 = mem_write (mem w) (ucast (dd_reg R_DST_ADDR s)) (mem_read (mem w) (ucast (dd_reg R_SRC_ADDR s)) ?t)"
    using dd_copy_turn_window [OF assms(1) Suc.prems(1,2,4) t(1)] by blast
  have i: "dma_inside lo sz s1" by (rule dma_inside_turn [OF Suc.prems(4) _ t(4-6)]) simp
  show ?case
  proof (cases "dd_running s1")
    case True
    have "dd_copy k ram (s1, mem w1) = Some (Inr (s', m'))"
      using Suc.prems(5) t(1) True unfolding w1(2) by simp
    from Suc.IH [OF t(2,3) True i this] obtain w' where "dd_copy k bus (s1, w1) = Some (Inr (s', w'))" "mem w' = m'" by blast
    with w1(1) True show ?thesis by simp
  next
    case False
    with Suc.prems(5) t(1) w1 show ?thesis by simp
  qed
qed simp

section \<open>The bus as such a window\<close>

lemma bus_window:
  assumes "memory_window (deliver t) mem 0 sz"
    and "\<And>off. off \<le> sz \<Longrightarrow> \<exists>nr. route ic p (base + off) = Inr (nr, t, off, base + off)"
  shows "memory_window (ic_b_transport deliver ic p) (\<lambda>w a. mem w (a - base)) base sz"
  unfolding memory_window_def
proof (intro allI impI conjI; elim conjE)
  fix tr :: gp and d w
  assume g: "gp_byte_en tr = None" "gp_len tr \<noteq> 0" "unat (gp_addr tr - base) + gp_len tr \<le> unat sz + 1"
  let ?off = "gp_addr tr - base"
  have off: "?off \<le> sz" using g(2,3) by (simp add: word_le_nat_alt)
  from assms(2) [OF this] obtain nr where r: "route ic p (gp_addr tr) = Inr (nr, t, ?off, gp_addr tr)" by auto
  note m = assms(1) [unfolded memory_window_def, rule_format, of "tr\<lparr>gp_addr := ?off\<rparr>" d w]
  show "gp_cmd tr = TLM_READ_COMMAND \<Longrightarrow> \<exists>a. ic_b_transport deliver ic p tr d w =
      Inr (tr\<lparr>gp_data := poke (gp_len tr) (mem_read (\<lambda>a. mem w (a - base)) (gp_addr tr) (gp_len tr)) (gp_data tr),
              gp_resp := TLM_OK_RESPONSE, gp_addr := a\<rparr>, d, w)"
    using m g r by (intro exI [of _ "gp_addr tr"]) (auto simp: ic_b_transport_def mem_read_moved)
  show "gp_cmd tr = TLM_WRITE_COMMAND \<Longrightarrow> \<exists>a w'. ic_b_transport deliver ic p tr d w =
      Inr (tr\<lparr>gp_resp := TLM_OK_RESPONSE, gp_addr := a\<rparr>, d, w') \<and>
      (\<lambda>a. mem w' (a - base)) = mem_write (\<lambda>a. mem w (a - base)) (gp_addr tr) (take (gp_len tr) (gp_data tr))"
    using m g r by (intro exI [of _ "gp_addr tr"]) (auto simp: ic_b_transport_def mem_write_moved)
qed

section \<open>A DMA device of a demo\<close>

lemma copy_moved:
  assumes "(\<lambda>a. m' (a - base)) = mem_write (\<lambda>a. m (a - base)) dst (mem_read (\<lambda>a. m (a - base)) src n)"
  shows "m' = mem_write m (dst - base) (mem_read m (src - base) n)"
proof
  fix x
  from fun_cong [OF assms, of "x + base"]
  show "m' x = mem_write m (dst - base) (mem_read m (src - base) n) x"
    by (simp add: mem_write_moved mem_read_moved)
qed

text \<open>
  Property C12: in every demo with a DMA device, take one whose port of the bus happens to have the offset 0, and a device
  that behaves as a memory over its region.  A copy between two ranges of the region that do not
  overlap, started with the run bit and no byte enables, ends after at most one turn per 32 bytes with
  the interrupt raised; the memory then holds the source range at the
  destination, at the offsets of the addresses in the region, and is otherwise what it was.
\<close>

theorem dma_copies_over_bus:
  assumes "b \<in> set demo_binds" "length raw_map = 4 * db_devices b" "length raw_offset = db_masters b"
    and "(M_dev (T_demodma i), p) \<in> set (db_ports b)" "raw_offset ! p = 0"
    and "(base, sz, t) \<in> set (db_map b)" "t \<noteq> T_ps" "memory_window (deliver t) mem 0 sz"
    and "dd_inv s" "dd_reg R_BYTE_EN s = 0" "dd_running s" "dma_inside base sz s"
    and "n = unat (dd_reg R_LEN s)" "n \<le> 32 * Suc turns" "dst = ucast (dd_reg R_DST_ADDR s)" "src = ucast (dd_reg R_SRC_ADDR s)"
    and "apart dst n src n"
  shows "\<exists>ic s' w'. demo_bus (db_devices b) raw_map raw_offset (db_map b) = Inr ic \<and>
    dd_copy (Suc turns) (ic_b_transport deliver ic p) (s, w) = Some (Inr (s', w')) \<and>
    mem w' = mem_write (mem w) (dst - base) (mem_read (mem w) (src - base) n) \<and>
    \<not> dd_running s' \<and> dd_irq s' \<and> dd_reg R_LEN s' = 0"
proof -
  have o: "(if p = 0 then 0 else raw_offset ! p) = 0" using assms(5) by simp
  have r: "\<exists>ic nr. demo_bus (db_devices b) raw_map raw_offset (db_map b) = Inr ic \<and>
      route ic p (base + off) = Inr (nr, t, off, base + off)" if "off \<le> sz" for off
    using demo_master_route [OF assms(1-4,6,7) that] unfolding o by simp
  then obtain ic where ic: "demo_bus (db_devices b) raw_map raw_offset (db_map b) = Inr ic" by (metis order_refl)
  have win: "memory_window (ic_b_transport deliver ic p) (\<lambda>w a. mem w (a - base)) base sz"
    using r ic by (intro bus_window [where deliver = deliver and t = t and mem = mem, OF assms(8)]) auto
  have nw: "unat (dd_reg R_DST_ADDR s) + n < 2 ^ 32" "unat (dd_reg R_SRC_ADDR s) + n < 2 ^ 32"
    using assms(12,13) by (simp_all add: dma_inside_def Let_def)
  let ?m = "\<lambda>a. mem w (a - base)"
  obtain s' where s': "dd_copy (Suc turns) ram (s, ?m) = Some (Inr (s', chunk_copy 32 ?m dst src n))"
    "\<not> dd_running s'" "dd_irq s'" "dd_reg R_LEN s' = 0"
    using dd_copy_chunks [OF ram_memory assms(9-11), of turns ?m] assms(13-16) nw by blast
  obtain w' where w': "dd_copy (Suc turns) (ic_b_transport deliver ic p) (s, w) = Some (Inr (s', w'))"
    "(\<lambda>a. mem w' (a - base)) = chunk_copy 32 ?m dst src n"
    using dd_copy_window [OF win assms(9-12) s'(1)] by blast
  have "unat dst + n < 2 ^ 64" "unat src + n < 2 ^ 64" using nw assms(15,16) by (simp_all add: unat_ucast32)
  then have "chunk_copy 32 ?m dst src n = mem_write ?m dst (mem_read ?m src n)"
    using assms(17) by (intro chunk_copy_apart) simp_all
  with w'(2) have "mem w' = mem_write (mem w) (dst - base) (mem_read (mem w) (src - base) n)"
    by (intro copy_moved) simp
  with ic w'(1) s'(2-4) show ?thesis by blast
qed

theorem dma_copies_over_bus_witness:
  "\<exists>ic s' m'. demo_bus 10 (replicate 40 \<lparr>me_addr = 0, me_size = 5, me_mode = ADDRMODE_ABSOLUTE, me_sk = 3\<rparr>) [9, 9, 0, 9, 9] zynqmp_map = Inr ic \<and>
     dd_copy 2 (ic_b_transport (\<lambda>_. ram) ic 2)
       (\<lparr>dd_u32 = [0xa0800100, 0xa0800200, 40, 1, 0, 0, 0, 0], dd_irq = False, dd_wake = None, dd_buf = replicate 32 0\<rparr>, \<lambda>a. ucast a) =
       Some (Inr (s', m')) \<and> m' = mem_write (\<lambda>a. ucast a) 0x100 (mem_read (\<lambda>a. ucast a) 0x200 40) \<and> dd_irq s'"
proof -
  let ?b = "\<lparr>db_masters = 1 + 4, db_devices = 6 + 4, db_map = zynqmp_map, db_ports = zynqmp_ports, db_irqs = zynqmp_irqs\<rparr>"
  let ?s = "\<lparr>dd_u32 = [0xa0800100, 0xa0800200, 40, 1, 0, 0, 0, 0], dd_irq = False, dd_wake = None, dd_buf = replicate 32 0\<rparr>"
  have b: "?b \<in> set demo_binds" "(M_dev (T_demodma 1), 2) \<in> set (db_ports ?b)" "(0xa0800000, 64 * 1024 - 1, T_mem) \<in> set (db_map ?b)"
    by (simp_all add: demo_binds_def zynqmp_ports_def zynqmp_map_def upt_conv_Cons)
  have l: "length (replicate 40 \<lparr>me_addr = 0, me_size = 5, me_mode = ADDRMODE_ABSOLUTE, me_sk = 3\<rparr>) = 4 * db_devices ?b"
    "length [9, 9, 0, 9, 9 :: u64] = db_masters ?b" "[9, 9, 0, 9, 9 :: u64] ! 2 = 0" "T_mem \<noteq> T_ps" by simp_all
  have m: "memory_window ram (\<lambda>m. m) 0 (64 * 1024 - 1)" by (rule ram_window)
  have s: "dd_inv ?s" "dd_reg R_BYTE_EN ?s = 0" "dd_running ?s" "dma_inside 0xa0800000 (64 * 1024 - 1) ?s" "40 = unat (dd_reg R_LEN ?s)"
    "(40 :: nat) \<le> 32 * Suc 1" "0xa0800100 = ucast (dd_reg R_DST_ADDR ?s)" "0xa0800200 = ucast (dd_reg R_SRC_ADDR ?s)"
    "apart 0xa0800100 40 0xa0800200 40"
    by (simp_all add: dd_inv_def dd_reg_def dd_running_def DEMODMA_CTRL_RUN_def dma_inside_def apart_def)
  from dma_copies_over_bus [OF b(1) l(1,2) b(2) l(3) b(3) l(4) m s, of "\<lambda>a. ucast a"] show ?thesis
    by (simp only: demo_bind.simps numeral_2_eq_2 One_nat_def) (auto simp: numeral_2_eq_2 simp del: dd_copy.simps)
qed

end
