(* ===== verification/Demo_Wiring.thy ===== *)
theory Demo_Wiring
  imports Demo_Top
begin

text \<open>
  The signals the demo tops declare and the ports of modules they bind to them, with Verilator
  (\<open>HAVE_VERILOG\<close> and \<open>HAVE_VERILOG_VERILATOR\<close>; the VCS demo has its own top): one list of
  declarations, one of SystemC names and lists of bindings per demo, in the order of the code.  Most of the
  modules are those of \<open>libsystemctlm-soc\<close>, whose ports are not declared in the repository, so nothing is said about the direction of
  a port.  The theory shows that no port is bound twice and every binding names a signal of the top, and that tracing records every signal.
\<close>

section \<open>Netlists\<close>

datatype hw_module = H_apb_timer | H_tlm2apb | H_checker | H_axilite_dev | H_axifull_dev | H_tlm2axilite | H_tlm2axi
  | H_tlm2axis | H_axis2tlm | H_lmac | H_phy_tx | H_phy_rx | H_verilog_top

text \<open>A module, the port and the signal bound to it.\<close>

type_synonym wire = "hw_module \<times> string \<times> string"

subsection \<open>\<open>zynqmp_demo.cc\<close>\<close>

definition zynqmp_timer_signals :: "(string \<times> sig_type) list" where
  "zynqmp_timer_signals = [
     (''irq_tmr'', Sig_Bool), (''apbsig_timer_psel'', Sig_Bool), (''apbsig_timer_penable'', Sig_Bool),
     (''apbsig_timer_pwrite'', Sig_Bool), (''apbsig_timer_pready'', Sig_Bool),
     (''apbsig_timer_paddr'', Sig_Bv 16), (''apbsig_timer_pwdata'', Sig_Bv 32),
     (''apbsig_timer_prdata'', Sig_Bv 32)]"

definition zynqmp_al_signals :: "(string \<times> sig_type) list" where
  "zynqmp_al_signals = [
     (''al_awvalid'', Sig_Bool), (''al_awready'', Sig_Bool), (''al_awaddr'', Sig_Bv 4),
     (''al_awprot'', Sig_Bv 3), (''al_wvalid'', Sig_Bool), (''al_wready'', Sig_Bool),
     (''al_wdata'', Sig_Bv 32), (''al_wstrb'', Sig_Bv 4), (''al_bvalid'', Sig_Bool), (''al_bready'', Sig_Bool),
     (''al_bresp'', Sig_Bv 2), (''al_arvalid'', Sig_Bool), (''al_arready'', Sig_Bool),
     (''al_araddr'', Sig_Bv 4), (''al_arprot'', Sig_Bv 3), (''al_rvalid'', Sig_Bool),
     (''al_rready'', Sig_Bool), (''al_rdata'', Sig_Bv 32), (''al_rresp'', Sig_Bv 2)]"

definition zynqmp_af_signals :: "(string \<times> sig_type) list" where
  "zynqmp_af_signals = [
     (''af_awvalid'', Sig_Bool), (''af_awready'', Sig_Bool), (''af_awaddr'', Sig_Bv 10),
     (''af_awprot'', Sig_Bv 3), (''af_awuser'', Sig_Bv 2), (''af_awregion'', Sig_Bv 4),
     (''af_awqos'', Sig_Bv 4), (''af_awcache'', Sig_Bv 4), (''af_awburst'', Sig_Bv 2),
     (''af_awsize'', Sig_Bv 3), (''af_awlen'', Sig_Bv 8), (''af_awid'', Sig_Bv 8), (''af_awlock'', Sig_Bool),
     (''af_wvalid'', Sig_Bool), (''af_wready'', Sig_Bool), (''af_wdata'', Sig_Bv 128),
     (''af_wstrb'', Sig_Bv (128 div 8)), (''af_wuser'', Sig_Bv 2), (''af_wlast'', Sig_Bool),
     (''af_bvalid'', Sig_Bool), (''af_bready'', Sig_Bool), (''af_bresp'', Sig_Bv 2), (''af_buser'', Sig_Bv 2),
     (''af_bid'', Sig_Bv 8), (''af_arvalid'', Sig_Bool), (''af_arready'', Sig_Bool),
     (''af_araddr'', Sig_Bv 10), (''af_arprot'', Sig_Bv 3), (''af_aruser'', Sig_Bv 2),
     (''af_arregion'', Sig_Bv 4), (''af_arqos'', Sig_Bv 4), (''af_arcache'', Sig_Bv 4),
     (''af_arburst'', Sig_Bv 2), (''af_arsize'', Sig_Bv 3), (''af_arlen'', Sig_Bv 8), (''af_arid'', Sig_Bv 8),
     (''af_arlock'', Sig_Bool), (''af_rvalid'', Sig_Bool), (''af_rready'', Sig_Bool),
     (''af_rdata'', Sig_Bv 128), (''af_rresp'', Sig_Bv 2), (''af_ruser'', Sig_Bv 2), (''af_rid'', Sig_Bv 8),
     (''af_rlast'', Sig_Bool)]"

definition zynqmp_timer_names :: "(string \<times> string) list" where
  "zynqmp_timer_names = [
     (''irq_tmr'', ''irq_tmr''), (''apbsig_timer_psel'', ''apbtimer_psel''),
     (''apbsig_timer_penable'', ''apbtimer_penable''), (''apbsig_timer_pwrite'', ''apbtimer_pwrite''),
     (''apbsig_timer_pready'', ''apbtimer_pready''), (''apbsig_timer_paddr'', ''apbtimer_paddr''),
     (''apbsig_timer_pwdata'', ''apbtimer_pwdata''), (''apbsig_timer_prdata'', ''apbtimer_prdata'')]"

definition zynqmp_al_names :: "(string \<times> string) list" where
  "zynqmp_al_names = [
     (''al_awvalid'', ''al_awvalid''), (''al_awready'', ''al_awready''), (''al_awaddr'', ''al_awaddr''),
     (''al_awprot'', ''al_awprot''), (''al_wvalid'', ''al_wvalid''), (''al_wready'', ''al_wready''),
     (''al_wdata'', ''al_wdata''), (''al_wstrb'', ''al_wstrb''), (''al_bvalid'', ''al_bvalid''),
     (''al_bready'', ''al_bready''), (''al_bresp'', ''al_bresp''), (''al_arvalid'', ''al_arvalid''),
     (''al_arready'', ''al_arready''), (''al_araddr'', ''al_araddr''), (''al_arprot'', ''al_arprot''),
     (''al_rvalid'', ''al_rvalid''), (''al_rready'', ''al_rready''), (''al_rdata'', ''al_rdata''),
     (''al_rresp'', ''al_rresp'')]"

definition zynqmp_af_names :: "(string \<times> string) list" where
  "zynqmp_af_names = [
     (''af_awvalid'', ''af_awvalid''), (''af_awready'', ''af_awready''), (''af_awaddr'', ''af_awaddr''),
     (''af_awprot'', ''af_awprot''), (''af_awuser'', ''af_awuser''), (''af_awregion'', ''af_awregion''),
     (''af_awqos'', ''af_awqos''), (''af_awcache'', ''af_awcache''), (''af_awburst'', ''af_awburst''),
     (''af_awsize'', ''af_awsize''), (''af_awlen'', ''af_awlen''), (''af_awid'', ''af_awid''),
     (''af_awlock'', ''af_awlock''), (''af_wvalid'', ''af_wvalid''), (''af_wready'', ''af_wready''),
     (''af_wdata'', ''af_wdata''), (''af_wstrb'', ''af_wstrb''), (''af_wuser'', ''af_wuser''),
     (''af_wlast'', ''af_wlast''), (''af_bvalid'', ''af_bvalid''), (''af_bready'', ''af_bready''),
     (''af_bresp'', ''af_bresp''), (''af_buser'', ''af_buser''), (''af_bid'', ''af_bid''),
     (''af_arvalid'', ''af_arvalid''), (''af_arready'', ''af_arready''), (''af_araddr'', ''af_araddr''),
     (''af_arprot'', ''af_arprot''), (''af_aruser'', ''af_aruser''), (''af_arregion'', ''af_arregion''),
     (''af_arqos'', ''af_arqos''), (''af_arcache'', ''af_arcache''), (''af_arburst'', ''af_arburst''),
     (''af_arsize'', ''af_arsize''), (''af_arlen'', ''af_arlen''), (''af_arid'', ''af_arid''),
     (''af_arlock'', ''af_arlock''), (''af_rvalid'', ''af_rvalid''), (''af_rready'', ''af_rready''),
     (''af_rdata'', ''af_rdata''), (''af_rresp'', ''af_rresp''), (''af_ruser'', ''af_ruser''),
     (''af_rid'', ''af_rid''), (''af_rlast'', ''af_rlast'')]"

definition zynqmp_timer_wires :: "wire list" where
  "zynqmp_timer_wires = [
     (H_apb_timer, ''clk'', ''clk''), (H_apb_timer, ''rst'', ''rst''), (H_apb_timer, ''irq'', ''irq_tmr''),
     (H_apb_timer, ''psel'', ''apbsig_timer_psel''), (H_apb_timer, ''penable'', ''apbsig_timer_penable''),
     (H_apb_timer, ''pwrite'', ''apbsig_timer_pwrite''), (H_apb_timer, ''paddr'', ''apbsig_timer_paddr''),
     (H_apb_timer, ''pwdata'', ''apbsig_timer_pwdata''), (H_apb_timer, ''prdata'', ''apbsig_timer_prdata''),
     (H_apb_timer, ''pready'', ''apbsig_timer_pready''), (H_tlm2apb, ''clk'', ''clk'')]"

definition zynqmp_checker_wires :: "wire list" where
  "zynqmp_checker_wires = [
     (H_checker, ''clk'', ''clk''), (H_checker, ''resetn'', ''rst_n''),
     (H_checker, ''awvalid'', ''al_awvalid''), (H_checker, ''awready'', ''al_awready''),
     (H_checker, ''awaddr'', ''al_awaddr''), (H_checker, ''awprot'', ''al_awprot''),
     (H_checker, ''wvalid'', ''al_wvalid''), (H_checker, ''wready'', ''al_wready''),
     (H_checker, ''wdata'', ''al_wdata''), (H_checker, ''wstrb'', ''al_wstrb''),
     (H_checker, ''bvalid'', ''al_bvalid''), (H_checker, ''bready'', ''al_bready''),
     (H_checker, ''bresp'', ''al_bresp''), (H_checker, ''arvalid'', ''al_arvalid''),
     (H_checker, ''arready'', ''al_arready''), (H_checker, ''araddr'', ''al_araddr''),
     (H_checker, ''arprot'', ''al_arprot''), (H_checker, ''rvalid'', ''al_rvalid''),
     (H_checker, ''rready'', ''al_rready''), (H_checker, ''rdata'', ''al_rdata''),
     (H_checker, ''rresp'', ''al_rresp'')]"

definition zynqmp_al_wires :: "wire list" where
  "zynqmp_al_wires = [
     (H_axilite_dev, ''s00_axi_aclk'', ''clk''), (H_axilite_dev, ''s00_axi_aresetn'', ''rst_n''),
     (H_axilite_dev, ''s00_axi_awvalid'', ''al_awvalid''),
     (H_axilite_dev, ''s00_axi_awready'', ''al_awready''), (H_axilite_dev, ''s00_axi_awaddr'', ''al_awaddr''),
     (H_axilite_dev, ''s00_axi_awprot'', ''al_awprot''), (H_axilite_dev, ''s00_axi_wvalid'', ''al_wvalid''),
     (H_axilite_dev, ''s00_axi_wready'', ''al_wready''), (H_axilite_dev, ''s00_axi_wdata'', ''al_wdata''),
     (H_axilite_dev, ''s00_axi_wstrb'', ''al_wstrb''), (H_axilite_dev, ''s00_axi_bvalid'', ''al_bvalid''),
     (H_axilite_dev, ''s00_axi_bready'', ''al_bready''), (H_axilite_dev, ''s00_axi_bresp'', ''al_bresp''),
     (H_axilite_dev, ''s00_axi_arvalid'', ''al_arvalid''),
     (H_axilite_dev, ''s00_axi_arready'', ''al_arready''), (H_axilite_dev, ''s00_axi_araddr'', ''al_araddr''),
     (H_axilite_dev, ''s00_axi_arprot'', ''al_arprot''), (H_axilite_dev, ''s00_axi_rvalid'', ''al_rvalid''),
     (H_axilite_dev, ''s00_axi_rready'', ''al_rready''), (H_axilite_dev, ''s00_axi_rdata'', ''al_rdata''),
     (H_axilite_dev, ''s00_axi_rresp'', ''al_rresp'')]"

definition zynqmp_af_wires :: "wire list" where
  "zynqmp_af_wires = [
     (H_axifull_dev, ''s00_axi_aclk'', ''clk''), (H_axifull_dev, ''s00_axi_aresetn'', ''rst_n''),
     (H_axifull_dev, ''s00_axi_awvalid'', ''af_awvalid''),
     (H_axifull_dev, ''s00_axi_awready'', ''af_awready''), (H_axifull_dev, ''s00_axi_awaddr'', ''af_awaddr''),
     (H_axifull_dev, ''s00_axi_awprot'', ''af_awprot''), (H_axifull_dev, ''s00_axi_awuser'', ''af_awuser''),
     (H_axifull_dev, ''s00_axi_awregion'', ''af_awregion''), (H_axifull_dev, ''s00_axi_awqos'', ''af_awqos''),
     (H_axifull_dev, ''s00_axi_awcache'', ''af_awcache''),
     (H_axifull_dev, ''s00_axi_awburst'', ''af_awburst''), (H_axifull_dev, ''s00_axi_awsize'', ''af_awsize''),
     (H_axifull_dev, ''s00_axi_awlen'', ''af_awlen''), (H_axifull_dev, ''s00_axi_awid'', ''af_awid''),
     (H_axifull_dev, ''s00_axi_awlock'', ''af_awlock''), (H_axifull_dev, ''s00_axi_wvalid'', ''af_wvalid''),
     (H_axifull_dev, ''s00_axi_wready'', ''af_wready''), (H_axifull_dev, ''s00_axi_wdata'', ''af_wdata''),
     (H_axifull_dev, ''s00_axi_wstrb'', ''af_wstrb''), (H_axifull_dev, ''s00_axi_wuser'', ''af_wuser''),
     (H_axifull_dev, ''s00_axi_wlast'', ''af_wlast''), (H_axifull_dev, ''s00_axi_bvalid'', ''af_bvalid''),
     (H_axifull_dev, ''s00_axi_bready'', ''af_bready''), (H_axifull_dev, ''s00_axi_bresp'', ''af_bresp''),
     (H_axifull_dev, ''s00_axi_buser'', ''af_buser''), (H_axifull_dev, ''s00_axi_bid'', ''af_bid''),
     (H_axifull_dev, ''s00_axi_arvalid'', ''af_arvalid''),
     (H_axifull_dev, ''s00_axi_arready'', ''af_arready''), (H_axifull_dev, ''s00_axi_araddr'', ''af_araddr''),
     (H_axifull_dev, ''s00_axi_arprot'', ''af_arprot''), (H_axifull_dev, ''s00_axi_aruser'', ''af_aruser''),
     (H_axifull_dev, ''s00_axi_arregion'', ''af_arregion''), (H_axifull_dev, ''s00_axi_arqos'', ''af_arqos''),
     (H_axifull_dev, ''s00_axi_arcache'', ''af_arcache''),
     (H_axifull_dev, ''s00_axi_arburst'', ''af_arburst''), (H_axifull_dev, ''s00_axi_arsize'', ''af_arsize''),
     (H_axifull_dev, ''s00_axi_arlen'', ''af_arlen''), (H_axifull_dev, ''s00_axi_arid'', ''af_arid''),
     (H_axifull_dev, ''s00_axi_arlock'', ''af_arlock''), (H_axifull_dev, ''s00_axi_rvalid'', ''af_rvalid''),
     (H_axifull_dev, ''s00_axi_rready'', ''af_rready''), (H_axifull_dev, ''s00_axi_rdata'', ''af_rdata''),
     (H_axifull_dev, ''s00_axi_rresp'', ''af_rresp''), (H_axifull_dev, ''s00_axi_ruser'', ''af_ruser''),
     (H_axifull_dev, ''s00_axi_rid'', ''af_rid''), (H_axifull_dev, ''s00_axi_rlast'', ''af_rlast'')]"

definition zynqmp_clock_wires :: "wire list" where
  "zynqmp_clock_wires = [
     (H_tlm2axilite, ''clk'', ''clk''), (H_tlm2axi, ''clk'', ''clk''), (H_tlm2axilite, ''resetn'', ''rst_n''),
     (H_tlm2axi, ''resetn'', ''rst_n'')]"

definition zynqmp_tlm2axi_al_wires :: "wire list" where
  "zynqmp_tlm2axi_al_wires = [
     (H_tlm2axilite, ''awvalid'', ''al_awvalid''), (H_tlm2axilite, ''awready'', ''al_awready''),
     (H_tlm2axilite, ''awaddr'', ''al_awaddr''), (H_tlm2axilite, ''awprot'', ''al_awprot''),
     (H_tlm2axilite, ''wvalid'', ''al_wvalid''), (H_tlm2axilite, ''wready'', ''al_wready''),
     (H_tlm2axilite, ''wdata'', ''al_wdata''), (H_tlm2axilite, ''wstrb'', ''al_wstrb''),
     (H_tlm2axilite, ''bvalid'', ''al_bvalid''), (H_tlm2axilite, ''bready'', ''al_bready''),
     (H_tlm2axilite, ''bresp'', ''al_bresp''), (H_tlm2axilite, ''arvalid'', ''al_arvalid''),
     (H_tlm2axilite, ''arready'', ''al_arready''), (H_tlm2axilite, ''araddr'', ''al_araddr''),
     (H_tlm2axilite, ''arprot'', ''al_arprot''), (H_tlm2axilite, ''rvalid'', ''al_rvalid''),
     (H_tlm2axilite, ''rready'', ''al_rready''), (H_tlm2axilite, ''rdata'', ''al_rdata''),
     (H_tlm2axilite, ''rresp'', ''al_rresp'')]"

definition zynqmp_tlm2axi_af_wires :: "wire list" where
  "zynqmp_tlm2axi_af_wires = [
     (H_tlm2axi, ''awvalid'', ''af_awvalid''), (H_tlm2axi, ''awready'', ''af_awready''),
     (H_tlm2axi, ''awaddr'', ''af_awaddr''), (H_tlm2axi, ''awprot'', ''af_awprot''),
     (H_tlm2axi, ''awuser'', ''af_awuser''), (H_tlm2axi, ''awregion'', ''af_awregion''),
     (H_tlm2axi, ''awqos'', ''af_awqos''), (H_tlm2axi, ''awcache'', ''af_awcache''),
     (H_tlm2axi, ''awburst'', ''af_awburst''), (H_tlm2axi, ''awsize'', ''af_awsize''),
     (H_tlm2axi, ''awlen'', ''af_awlen''), (H_tlm2axi, ''awid'', ''af_awid''),
     (H_tlm2axi, ''awlock'', ''af_awlock''), (H_tlm2axi, ''wvalid'', ''af_wvalid''),
     (H_tlm2axi, ''wready'', ''af_wready''), (H_tlm2axi, ''wdata'', ''af_wdata''),
     (H_tlm2axi, ''wstrb'', ''af_wstrb''), (H_tlm2axi, ''wuser'', ''af_wuser''),
     (H_tlm2axi, ''wlast'', ''af_wlast''), (H_tlm2axi, ''bvalid'', ''af_bvalid''),
     (H_tlm2axi, ''bready'', ''af_bready''), (H_tlm2axi, ''bresp'', ''af_bresp''),
     (H_tlm2axi, ''bid'', ''af_bid''), (H_tlm2axi, ''buser'', ''af_buser''),
     (H_tlm2axi, ''arvalid'', ''af_arvalid''), (H_tlm2axi, ''arready'', ''af_arready''),
     (H_tlm2axi, ''araddr'', ''af_araddr''), (H_tlm2axi, ''arprot'', ''af_arprot''),
     (H_tlm2axi, ''aruser'', ''af_aruser''), (H_tlm2axi, ''arregion'', ''af_arregion''),
     (H_tlm2axi, ''arqos'', ''af_arqos''), (H_tlm2axi, ''arcache'', ''af_arcache''),
     (H_tlm2axi, ''arburst'', ''af_arburst''), (H_tlm2axi, ''arsize'', ''af_arsize''),
     (H_tlm2axi, ''arlen'', ''af_arlen''), (H_tlm2axi, ''arid'', ''af_arid''),
     (H_tlm2axi, ''arlock'', ''af_arlock''), (H_tlm2axi, ''rvalid'', ''af_rvalid''),
     (H_tlm2axi, ''rready'', ''af_rready''), (H_tlm2axi, ''rdata'', ''af_rdata''),
     (H_tlm2axi, ''rresp'', ''af_rresp''), (H_tlm2axi, ''ruser'', ''af_ruser''),
     (H_tlm2axi, ''rid'', ''af_rid''), (H_tlm2axi, ''rlast'', ''af_rlast'')]"

definition zynqmp_tlm2apb_wires :: "wire list" where
  "zynqmp_tlm2apb_wires = [
     (H_tlm2apb, ''psel'', ''apbsig_timer_psel''), (H_tlm2apb, ''penable'', ''apbsig_timer_penable''),
     (H_tlm2apb, ''pwrite'', ''apbsig_timer_pwrite''), (H_tlm2apb, ''paddr'', ''apbsig_timer_paddr''),
     (H_tlm2apb, ''pwdata'', ''apbsig_timer_pwdata''), (H_tlm2apb, ''prdata'', ''apbsig_timer_prdata''),
     (H_tlm2apb, ''pready'', ''apbsig_timer_pready'')]"

subsection \<open>\<open>versal_demo.cc\<close>\<close>

definition versal_timer_signals :: "(string \<times> sig_type) list" where
  "versal_timer_signals = [
     (''irq_tmr'', Sig_Bool), (''apbsig_timer_psel'', Sig_Bool), (''apbsig_timer_penable'', Sig_Bool),
     (''apbsig_timer_pwrite'', Sig_Bool), (''apbsig_timer_pready'', Sig_Bool),
     (''apbsig_timer_paddr'', Sig_Bv 16), (''apbsig_timer_pwdata'', Sig_Bv 32),
     (''apbsig_timer_prdata'', Sig_Bv 32)]"

definition versal_al_signals :: "(string \<times> sig_type) list" where
  "versal_al_signals = [
     (''al_awvalid'', Sig_Bool), (''al_awready'', Sig_Bool), (''al_awaddr'', Sig_Bv 4),
     (''al_awprot'', Sig_Bv 3), (''al_wvalid'', Sig_Bool), (''al_wready'', Sig_Bool),
     (''al_wdata'', Sig_Bv 32), (''al_wstrb'', Sig_Bv 4), (''al_bvalid'', Sig_Bool), (''al_bready'', Sig_Bool),
     (''al_bresp'', Sig_Bv 2), (''al_arvalid'', Sig_Bool), (''al_arready'', Sig_Bool),
     (''al_araddr'', Sig_Bv 4), (''al_arprot'', Sig_Bv 3), (''al_rvalid'', Sig_Bool),
     (''al_rready'', Sig_Bool), (''al_rdata'', Sig_Bv 32), (''al_rresp'', Sig_Bv 2)]"

definition versal_af_signals :: "(string \<times> sig_type) list" where
  "versal_af_signals = [
     (''af_awvalid'', Sig_Bool), (''af_awready'', Sig_Bool), (''af_awaddr'', Sig_Bv 10),
     (''af_awprot'', Sig_Bv 3), (''af_awuser'', Sig_Bv 2), (''af_awregion'', Sig_Bv 4),
     (''af_awqos'', Sig_Bv 4), (''af_awcache'', Sig_Bv 4), (''af_awburst'', Sig_Bv 2),
     (''af_awsize'', Sig_Bv 3), (''af_awlen'', Sig_Bv 8), (''af_awid'', Sig_Bv 8), (''af_awlock'', Sig_Bool),
     (''af_wvalid'', Sig_Bool), (''af_wready'', Sig_Bool), (''af_wdata'', Sig_Bv 128),
     (''af_wstrb'', Sig_Bv (128 div 8)), (''af_wuser'', Sig_Bv 2), (''af_wlast'', Sig_Bool),
     (''af_bvalid'', Sig_Bool), (''af_bready'', Sig_Bool), (''af_bresp'', Sig_Bv 2), (''af_buser'', Sig_Bv 2),
     (''af_bid'', Sig_Bv 8), (''af_arvalid'', Sig_Bool), (''af_arready'', Sig_Bool),
     (''af_araddr'', Sig_Bv 10), (''af_arprot'', Sig_Bv 3), (''af_aruser'', Sig_Bv 2),
     (''af_arregion'', Sig_Bv 4), (''af_arqos'', Sig_Bv 4), (''af_arcache'', Sig_Bv 4),
     (''af_arburst'', Sig_Bv 2), (''af_arsize'', Sig_Bv 3), (''af_arlen'', Sig_Bv 8), (''af_arid'', Sig_Bv 8),
     (''af_arlock'', Sig_Bool), (''af_rvalid'', Sig_Bool), (''af_rready'', Sig_Bool),
     (''af_rdata'', Sig_Bv 128), (''af_rresp'', Sig_Bv 2), (''af_ruser'', Sig_Bv 2), (''af_rid'', Sig_Bv 8),
     (''af_rlast'', Sig_Bool)]"

definition versal_timer_names :: "(string \<times> string) list" where
  "versal_timer_names = [
     (''irq_tmr'', ''irq_tmr''), (''apbsig_timer_psel'', ''apbtimer_psel''),
     (''apbsig_timer_penable'', ''apbtimer_penable''), (''apbsig_timer_pwrite'', ''apbtimer_pwrite''),
     (''apbsig_timer_pready'', ''apbtimer_pready''), (''apbsig_timer_paddr'', ''apbtimer_paddr''),
     (''apbsig_timer_pwdata'', ''apbtimer_pwdata''), (''apbsig_timer_prdata'', ''apbtimer_prdata'')]"

definition versal_al_names :: "(string \<times> string) list" where
  "versal_al_names = [
     (''al_awvalid'', ''al_awvalid''), (''al_awready'', ''al_awready''), (''al_awaddr'', ''al_awaddr''),
     (''al_awprot'', ''al_awprot''), (''al_wvalid'', ''al_wvalid''), (''al_wready'', ''al_wready''),
     (''al_wdata'', ''al_wdata''), (''al_wstrb'', ''al_wstrb''), (''al_bvalid'', ''al_bvalid''),
     (''al_bready'', ''al_bready''), (''al_bresp'', ''al_bresp''), (''al_arvalid'', ''al_arvalid''),
     (''al_arready'', ''al_arready''), (''al_araddr'', ''al_araddr''), (''al_arprot'', ''al_arprot''),
     (''al_rvalid'', ''al_rvalid''), (''al_rready'', ''al_rready''), (''al_rdata'', ''al_rdata''),
     (''al_rresp'', ''al_rresp'')]"

definition versal_af_names :: "(string \<times> string) list" where
  "versal_af_names = [
     (''af_awvalid'', ''af_awvalid''), (''af_awready'', ''af_awready''), (''af_awaddr'', ''af_awaddr''),
     (''af_awprot'', ''af_awprot''), (''af_awuser'', ''af_awuser''), (''af_awregion'', ''af_awregion''),
     (''af_awqos'', ''af_awqos''), (''af_awcache'', ''af_awcache''), (''af_awburst'', ''af_awburst''),
     (''af_awsize'', ''af_awsize''), (''af_awlen'', ''af_awlen''), (''af_awid'', ''af_awid''),
     (''af_awlock'', ''af_awlock''), (''af_wvalid'', ''af_wvalid''), (''af_wready'', ''af_wready''),
     (''af_wdata'', ''af_wdata''), (''af_wstrb'', ''af_wstrb''), (''af_wuser'', ''af_wuser''),
     (''af_wlast'', ''af_wlast''), (''af_bvalid'', ''af_bvalid''), (''af_bready'', ''af_bready''),
     (''af_bresp'', ''af_bresp''), (''af_buser'', ''af_buser''), (''af_bid'', ''af_bid''),
     (''af_arvalid'', ''af_arvalid''), (''af_arready'', ''af_arready''), (''af_araddr'', ''af_araddr''),
     (''af_arprot'', ''af_arprot''), (''af_aruser'', ''af_aruser''), (''af_arregion'', ''af_arregion''),
     (''af_arqos'', ''af_arqos''), (''af_arcache'', ''af_arcache''), (''af_arburst'', ''af_arburst''),
     (''af_arsize'', ''af_arsize''), (''af_arlen'', ''af_arlen''), (''af_arid'', ''af_arid''),
     (''af_arlock'', ''af_arlock''), (''af_rvalid'', ''af_rvalid''), (''af_rready'', ''af_rready''),
     (''af_rdata'', ''af_rdata''), (''af_rresp'', ''af_rresp''), (''af_ruser'', ''af_ruser''),
     (''af_rid'', ''af_rid''), (''af_rlast'', ''af_rlast'')]"

definition versal_timer_wires :: "wire list" where
  "versal_timer_wires = [
     (H_apb_timer, ''clk'', ''clk''), (H_apb_timer, ''rst'', ''rst''), (H_apb_timer, ''irq'', ''irq_tmr''),
     (H_apb_timer, ''psel'', ''apbsig_timer_psel''), (H_apb_timer, ''penable'', ''apbsig_timer_penable''),
     (H_apb_timer, ''pwrite'', ''apbsig_timer_pwrite''), (H_apb_timer, ''paddr'', ''apbsig_timer_paddr''),
     (H_apb_timer, ''pwdata'', ''apbsig_timer_pwdata''), (H_apb_timer, ''prdata'', ''apbsig_timer_prdata''),
     (H_apb_timer, ''pready'', ''apbsig_timer_pready''), (H_tlm2apb, ''clk'', ''clk'')]"

definition versal_al_wires :: "wire list" where
  "versal_al_wires = [
     (H_axilite_dev, ''s00_axi_aclk'', ''clk''), (H_axilite_dev, ''s00_axi_aresetn'', ''rst_n''),
     (H_axilite_dev, ''s00_axi_awvalid'', ''al_awvalid''),
     (H_axilite_dev, ''s00_axi_awready'', ''al_awready''), (H_axilite_dev, ''s00_axi_awaddr'', ''al_awaddr''),
     (H_axilite_dev, ''s00_axi_awprot'', ''al_awprot''), (H_axilite_dev, ''s00_axi_wvalid'', ''al_wvalid''),
     (H_axilite_dev, ''s00_axi_wready'', ''al_wready''), (H_axilite_dev, ''s00_axi_wdata'', ''al_wdata''),
     (H_axilite_dev, ''s00_axi_wstrb'', ''al_wstrb''), (H_axilite_dev, ''s00_axi_bvalid'', ''al_bvalid''),
     (H_axilite_dev, ''s00_axi_bready'', ''al_bready''), (H_axilite_dev, ''s00_axi_bresp'', ''al_bresp''),
     (H_axilite_dev, ''s00_axi_arvalid'', ''al_arvalid''),
     (H_axilite_dev, ''s00_axi_arready'', ''al_arready''), (H_axilite_dev, ''s00_axi_araddr'', ''al_araddr''),
     (H_axilite_dev, ''s00_axi_arprot'', ''al_arprot''), (H_axilite_dev, ''s00_axi_rvalid'', ''al_rvalid''),
     (H_axilite_dev, ''s00_axi_rready'', ''al_rready''), (H_axilite_dev, ''s00_axi_rdata'', ''al_rdata''),
     (H_axilite_dev, ''s00_axi_rresp'', ''al_rresp'')]"

definition versal_af_wires :: "wire list" where
  "versal_af_wires = [
     (H_axifull_dev, ''s00_axi_aclk'', ''clk''), (H_axifull_dev, ''s00_axi_aresetn'', ''rst_n''),
     (H_axifull_dev, ''s00_axi_awvalid'', ''af_awvalid''),
     (H_axifull_dev, ''s00_axi_awready'', ''af_awready''), (H_axifull_dev, ''s00_axi_awaddr'', ''af_awaddr''),
     (H_axifull_dev, ''s00_axi_awprot'', ''af_awprot''), (H_axifull_dev, ''s00_axi_awuser'', ''af_awuser''),
     (H_axifull_dev, ''s00_axi_awregion'', ''af_awregion''), (H_axifull_dev, ''s00_axi_awqos'', ''af_awqos''),
     (H_axifull_dev, ''s00_axi_awcache'', ''af_awcache''),
     (H_axifull_dev, ''s00_axi_awburst'', ''af_awburst''), (H_axifull_dev, ''s00_axi_awsize'', ''af_awsize''),
     (H_axifull_dev, ''s00_axi_awlen'', ''af_awlen''), (H_axifull_dev, ''s00_axi_awid'', ''af_awid''),
     (H_axifull_dev, ''s00_axi_awlock'', ''af_awlock''), (H_axifull_dev, ''s00_axi_wvalid'', ''af_wvalid''),
     (H_axifull_dev, ''s00_axi_wready'', ''af_wready''), (H_axifull_dev, ''s00_axi_wdata'', ''af_wdata''),
     (H_axifull_dev, ''s00_axi_wstrb'', ''af_wstrb''), (H_axifull_dev, ''s00_axi_wuser'', ''af_wuser''),
     (H_axifull_dev, ''s00_axi_wlast'', ''af_wlast''), (H_axifull_dev, ''s00_axi_bvalid'', ''af_bvalid''),
     (H_axifull_dev, ''s00_axi_bready'', ''af_bready''), (H_axifull_dev, ''s00_axi_bresp'', ''af_bresp''),
     (H_axifull_dev, ''s00_axi_buser'', ''af_buser''), (H_axifull_dev, ''s00_axi_bid'', ''af_bid''),
     (H_axifull_dev, ''s00_axi_arvalid'', ''af_arvalid''),
     (H_axifull_dev, ''s00_axi_arready'', ''af_arready''), (H_axifull_dev, ''s00_axi_araddr'', ''af_araddr''),
     (H_axifull_dev, ''s00_axi_arprot'', ''af_arprot''), (H_axifull_dev, ''s00_axi_aruser'', ''af_aruser''),
     (H_axifull_dev, ''s00_axi_arregion'', ''af_arregion''), (H_axifull_dev, ''s00_axi_arqos'', ''af_arqos''),
     (H_axifull_dev, ''s00_axi_arcache'', ''af_arcache''),
     (H_axifull_dev, ''s00_axi_arburst'', ''af_arburst''), (H_axifull_dev, ''s00_axi_arsize'', ''af_arsize''),
     (H_axifull_dev, ''s00_axi_arlen'', ''af_arlen''), (H_axifull_dev, ''s00_axi_arid'', ''af_arid''),
     (H_axifull_dev, ''s00_axi_arlock'', ''af_arlock''), (H_axifull_dev, ''s00_axi_rvalid'', ''af_rvalid''),
     (H_axifull_dev, ''s00_axi_rready'', ''af_rready''), (H_axifull_dev, ''s00_axi_rdata'', ''af_rdata''),
     (H_axifull_dev, ''s00_axi_rresp'', ''af_rresp''), (H_axifull_dev, ''s00_axi_ruser'', ''af_ruser''),
     (H_axifull_dev, ''s00_axi_rid'', ''af_rid''), (H_axifull_dev, ''s00_axi_rlast'', ''af_rlast'')]"

definition versal_clock_wires :: "wire list" where
  "versal_clock_wires = [
     (H_tlm2axilite, ''clk'', ''clk''), (H_tlm2axi, ''clk'', ''clk''), (H_tlm2axilite, ''resetn'', ''rst_n''),
     (H_tlm2axi, ''resetn'', ''rst_n'')]"

definition versal_tlm2axi_al_wires :: "wire list" where
  "versal_tlm2axi_al_wires = [
     (H_tlm2axilite, ''awvalid'', ''al_awvalid''), (H_tlm2axilite, ''awready'', ''al_awready''),
     (H_tlm2axilite, ''awaddr'', ''al_awaddr''), (H_tlm2axilite, ''awprot'', ''al_awprot''),
     (H_tlm2axilite, ''wvalid'', ''al_wvalid''), (H_tlm2axilite, ''wready'', ''al_wready''),
     (H_tlm2axilite, ''wdata'', ''al_wdata''), (H_tlm2axilite, ''wstrb'', ''al_wstrb''),
     (H_tlm2axilite, ''bvalid'', ''al_bvalid''), (H_tlm2axilite, ''bready'', ''al_bready''),
     (H_tlm2axilite, ''bresp'', ''al_bresp''), (H_tlm2axilite, ''arvalid'', ''al_arvalid''),
     (H_tlm2axilite, ''arready'', ''al_arready''), (H_tlm2axilite, ''araddr'', ''al_araddr''),
     (H_tlm2axilite, ''arprot'', ''al_arprot''), (H_tlm2axilite, ''rvalid'', ''al_rvalid''),
     (H_tlm2axilite, ''rready'', ''al_rready''), (H_tlm2axilite, ''rdata'', ''al_rdata''),
     (H_tlm2axilite, ''rresp'', ''al_rresp'')]"

definition versal_tlm2axi_af_wires :: "wire list" where
  "versal_tlm2axi_af_wires = [
     (H_tlm2axi, ''awvalid'', ''af_awvalid''), (H_tlm2axi, ''awready'', ''af_awready''),
     (H_tlm2axi, ''awaddr'', ''af_awaddr''), (H_tlm2axi, ''awprot'', ''af_awprot''),
     (H_tlm2axi, ''awuser'', ''af_awuser''), (H_tlm2axi, ''awregion'', ''af_awregion''),
     (H_tlm2axi, ''awqos'', ''af_awqos''), (H_tlm2axi, ''awcache'', ''af_awcache''),
     (H_tlm2axi, ''awburst'', ''af_awburst''), (H_tlm2axi, ''awsize'', ''af_awsize''),
     (H_tlm2axi, ''awlen'', ''af_awlen''), (H_tlm2axi, ''awid'', ''af_awid''),
     (H_tlm2axi, ''awlock'', ''af_awlock''), (H_tlm2axi, ''wvalid'', ''af_wvalid''),
     (H_tlm2axi, ''wready'', ''af_wready''), (H_tlm2axi, ''wdata'', ''af_wdata''),
     (H_tlm2axi, ''wstrb'', ''af_wstrb''), (H_tlm2axi, ''wuser'', ''af_wuser''),
     (H_tlm2axi, ''wlast'', ''af_wlast''), (H_tlm2axi, ''bvalid'', ''af_bvalid''),
     (H_tlm2axi, ''bready'', ''af_bready''), (H_tlm2axi, ''bresp'', ''af_bresp''),
     (H_tlm2axi, ''bid'', ''af_bid''), (H_tlm2axi, ''buser'', ''af_buser''),
     (H_tlm2axi, ''arvalid'', ''af_arvalid''), (H_tlm2axi, ''arready'', ''af_arready''),
     (H_tlm2axi, ''araddr'', ''af_araddr''), (H_tlm2axi, ''arprot'', ''af_arprot''),
     (H_tlm2axi, ''aruser'', ''af_aruser''), (H_tlm2axi, ''arregion'', ''af_arregion''),
     (H_tlm2axi, ''arqos'', ''af_arqos''), (H_tlm2axi, ''arcache'', ''af_arcache''),
     (H_tlm2axi, ''arburst'', ''af_arburst''), (H_tlm2axi, ''arsize'', ''af_arsize''),
     (H_tlm2axi, ''arlen'', ''af_arlen''), (H_tlm2axi, ''arid'', ''af_arid''),
     (H_tlm2axi, ''arlock'', ''af_arlock''), (H_tlm2axi, ''rvalid'', ''af_rvalid''),
     (H_tlm2axi, ''rready'', ''af_rready''), (H_tlm2axi, ''rdata'', ''af_rdata''),
     (H_tlm2axi, ''rresp'', ''af_rresp''), (H_tlm2axi, ''ruser'', ''af_ruser''),
     (H_tlm2axi, ''rid'', ''af_rid''), (H_tlm2axi, ''rlast'', ''af_rlast'')]"

definition versal_tlm2apb_wires :: "wire list" where
  "versal_tlm2apb_wires = [
     (H_tlm2apb, ''psel'', ''apbsig_timer_psel''), (H_tlm2apb, ''penable'', ''apbsig_timer_penable''),
     (H_tlm2apb, ''pwrite'', ''apbsig_timer_pwrite''), (H_tlm2apb, ''paddr'', ''apbsig_timer_paddr''),
     (H_tlm2apb, ''pwdata'', ''apbsig_timer_pwdata''), (H_tlm2apb, ''prdata'', ''apbsig_timer_prdata''),
     (H_tlm2apb, ''pready'', ''apbsig_timer_pready'')]"

subsection \<open>The demos of the LMAC cores\<close>

definition lmac2_signals :: "(string \<times> sig_type) list" where
  "lmac2_signals = [
     (''phy_txd'', Sig_Bv 64), (''phy_txc'', Sig_Bv 8), (''phy_rxd'', Sig_Bv 64), (''phy_rxc'', Sig_Bv 8),
     (''tx_axis_mac_tdata'', Sig_Bv 64), (''tx_axis_mac_tstrb'', Sig_Bv 8), (''tx_axis_mac_tvalid'', Sig_Bool),
     (''tx_axis_mac_tlast'', Sig_Bool), (''tx_axis_mac_tuser'', Sig_Bool), (''tx_axis_mac_tready'', Sig_Bool),
     (''rx_axis_mac_tdata'', Sig_Bv 64), (''rx_axis_mac_tstrb'', Sig_Bv 8), (''rx_axis_mac_tvalid'', Sig_Bool),
     (''rx_axis_mac_tlast'', Sig_Bool), (''rx_axis_mac_tuser'', Sig_Bool), (''rx_axis_mac_tready'', Sig_Bool),
     (''apbsig_lmac_psel'', Sig_Bool), (''apbsig_lmac_penable'', Sig_Bool), (''apbsig_lmac_pwrite'', Sig_Bool),
     (''apbsig_lmac_pready'', Sig_Bool), (''apbsig_lmac_paddr'', Sig_Bv 16),
     (''apbsig_lmac_pwdata'', Sig_Bv 32), (''apbsig_lmac_prdata'', Sig_Bv 32),
     (''apbsig_timer_psel'', Sig_Bool), (''apbsig_timer_penable'', Sig_Bool),
     (''apbsig_timer_pwrite'', Sig_Bool), (''apbsig_timer_pready'', Sig_Bool),
     (''apbsig_timer_paddr'', Sig_Bv 16), (''apbsig_timer_pwdata'', Sig_Bv 32),
     (''apbsig_timer_prdata'', Sig_Bv 32)]"

definition lmac_names :: "(string \<times> string) list" where
  "lmac_names = [
     (''phy_txd'', ''phy_txd''), (''phy_txc'', ''phy_txc''), (''phy_rxd'', ''phy_rxd''),
     (''phy_rxc'', ''phy_rxc''), (''tx_axis_mac_tdata'', ''tx_axis_mac_tdata''),
     (''tx_axis_mac_tstrb'', ''tx_axis_mac_tstrb''), (''tx_axis_mac_tvalid'', ''tx_axis_mac_tvalid''),
     (''tx_axis_mac_tlast'', ''tx_axis_mac_tlast''), (''tx_axis_mac_tuser'', ''tx_axis_mac_tuser''),
     (''tx_axis_mac_tready'', ''tx_axis_mac_tready''), (''rx_axis_mac_tdata'', ''rx_axis_mac_tdata''),
     (''rx_axis_mac_tstrb'', ''rx_axis_mac_tstrb''), (''rx_axis_mac_tvalid'', ''rx_axis_mac_tvalid''),
     (''rx_axis_mac_tlast'', ''rx_axis_mac_tlast''), (''rx_axis_mac_tuser'', ''rx_axis_mac_tuser''),
     (''rx_axis_mac_tready'', ''rx_axis_mac_tready''), (''apbsig_lmac_psel'', ''apblmac_psel''),
     (''apbsig_lmac_penable'', ''apblmac_penable''), (''apbsig_lmac_pwrite'', ''apblmac_pwrite''),
     (''apbsig_lmac_pready'', ''apblmac_pready''), (''apbsig_lmac_paddr'', ''apblmac_paddr''),
     (''apbsig_lmac_pwdata'', ''apblmac_pwdata''), (''apbsig_lmac_prdata'', ''apblmac_prdata''),
     (''apbsig_timer_psel'', ''apbtimer_psel''), (''apbsig_timer_penable'', ''apbtimer_penable''),
     (''apbsig_timer_pwrite'', ''apbtimer_pwrite''), (''apbsig_timer_pready'', ''apbtimer_pready''),
     (''apbsig_timer_paddr'', ''apbtimer_paddr''), (''apbsig_timer_pwdata'', ''apbtimer_pwdata''),
     (''apbsig_timer_prdata'', ''apbtimer_prdata'')]"

definition lmac_stream_wires :: "wire list" where
  "lmac_stream_wires = [
     (H_tlm2axis, ''clk'', ''clk''), (H_tlm2axis, ''resetn'', ''rst_n''),
     (H_tlm2axis, ''tvalid'', ''tx_axis_mac_tvalid''), (H_tlm2axis, ''tready'', ''tx_axis_mac_tready''),
     (H_tlm2axis, ''tdata'', ''tx_axis_mac_tdata''), (H_tlm2axis, ''tstrb'', ''tx_axis_mac_tstrb''),
     (H_tlm2axis, ''tuser'', ''tx_axis_mac_tuser''), (H_tlm2axis, ''tlast'', ''tx_axis_mac_tlast''),
     (H_axis2tlm, ''clk'', ''clk''), (H_axis2tlm, ''resetn'', ''rst_n''),
     (H_axis2tlm, ''tvalid'', ''rx_axis_mac_tvalid''), (H_axis2tlm, ''tready'', ''rx_axis_mac_tready''),
     (H_axis2tlm, ''tdata'', ''rx_axis_mac_tdata''), (H_axis2tlm, ''tstrb'', ''rx_axis_mac_tstrb''),
     (H_axis2tlm, ''tuser'', ''rx_axis_mac_tuser''), (H_axis2tlm, ''tlast'', ''rx_axis_mac_tlast'')]"

definition lmac_core_wires :: "wire list" where
  "lmac_core_wires = [
     (H_lmac, ''clk'', ''clk''), (H_lmac, ''rst_n'', ''rst_n''), (H_lmac, ''xgmii_txd'', ''phy_txd''),
     (H_lmac, ''xgmii_txc'', ''phy_txc''), (H_lmac, ''xgmii_rxd'', ''phy_rxd''),
     (H_lmac, ''xgmii_rxc'', ''phy_rxc''), (H_lmac, ''host_addr_reg'', ''apbsig_lmac_paddr''),
     (H_lmac, ''reg_rd_start'', ''apbsig_lmac_psel''), (H_lmac, ''reg_rd_done_out'', ''apbsig_lmac_pready''),
     (H_lmac, ''FMAC_REGDOUT'', ''apbsig_lmac_prdata''),
     (H_lmac, ''tx_axis_mac_tdata'', ''tx_axis_mac_tdata''),
     (H_lmac, ''tx_axis_mac_tvalid'', ''tx_axis_mac_tvalid''),
     (H_lmac, ''tx_axis_mac_tlast'', ''tx_axis_mac_tlast''),
     (H_lmac, ''tx_axis_mac_tuser'', ''tx_axis_mac_tuser''),
     (H_lmac, ''tx_axis_mac_tready'', ''tx_axis_mac_tready''),
     (H_lmac, ''tx_axis_mac_tstrb'', ''tx_axis_mac_tstrb''),
     (H_lmac, ''rx_axis_mac_tdata'', ''rx_axis_mac_tdata''),
     (H_lmac, ''rx_axis_mac_tvalid'', ''rx_axis_mac_tvalid''),
     (H_lmac, ''rx_axis_mac_tlast'', ''rx_axis_mac_tlast''),
     (H_lmac, ''rx_axis_mac_tuser'', ''rx_axis_mac_tuser''),
     (H_lmac, ''rx_axis_mac_tready'', ''rx_axis_mac_tready''),
     (H_lmac, ''rx_axis_mac_tstrb'', ''rx_axis_mac_tstrb'')]"

definition lmac_phy_wires :: "wire list" where
  "lmac_phy_wires = [
     (H_phy_tx, ''clk'', ''clk''), (H_phy_tx, ''xxd'', ''phy_txd''), (H_phy_tx, ''xxc'', ''phy_txc''),
     (H_phy_rx, ''clk'', ''clk''), (H_phy_rx, ''xxd'', ''phy_rxd''), (H_phy_rx, ''xxc'', ''phy_rxc'')]"

definition lmac_tlm2apb_wires :: "wire list" where
  "lmac_tlm2apb_wires = [
     (H_tlm2apb, ''clk'', ''clk''), (H_tlm2apb, ''psel'', ''apbsig_lmac_psel''),
     (H_tlm2apb, ''penable'', ''apbsig_lmac_penable''), (H_tlm2apb, ''pwrite'', ''apbsig_lmac_pwrite''),
     (H_tlm2apb, ''paddr'', ''apbsig_lmac_paddr''), (H_tlm2apb, ''pwdata'', ''apbsig_lmac_pwdata''),
     (H_tlm2apb, ''prdata'', ''apbsig_lmac_prdata''), (H_tlm2apb, ''pready'', ''apbsig_lmac_pready'')]"

definition lmac3_signals :: "(string \<times> sig_type) list" where
  "lmac3_signals = [
     (''phy_txd'', Sig_Bv 64), (''phy_txc'', Sig_Bv 8), (''phy_rxd'', Sig_Bv 64), (''phy_rxc'', Sig_Bv 8),
     (''tx_axis_mac_tdata'', Sig_Bv 256), (''tx_axis_mac_tstrb'', Sig_Bv 32),
     (''tx_axis_mac_tvalid'', Sig_Bool), (''tx_axis_mac_tlast'', Sig_Bool), (''tx_axis_mac_tuser'', Sig_Bool),
     (''tx_axis_mac_tready'', Sig_Bool), (''rx_axis_mac_tdata'', Sig_Bv 256),
     (''rx_axis_mac_tstrb'', Sig_Bv 32), (''rx_axis_mac_tvalid'', Sig_Bool), (''rx_axis_mac_tlast'', Sig_Bool),
     (''rx_axis_mac_tuser'', Sig_Bool), (''rx_axis_mac_tready'', Sig_Bool), (''apbsig_lmac_psel'', Sig_Bool),
     (''apbsig_lmac_penable'', Sig_Bool), (''apbsig_lmac_pwrite'', Sig_Bool),
     (''apbsig_lmac_pready'', Sig_Bool), (''apbsig_lmac_paddr'', Sig_Bv 16),
     (''apbsig_lmac_pwdata'', Sig_Bv 32), (''apbsig_lmac_prdata'', Sig_Bv 32),
     (''apbsig_timer_psel'', Sig_Bool), (''apbsig_timer_penable'', Sig_Bool),
     (''apbsig_timer_pwrite'', Sig_Bool), (''apbsig_timer_pready'', Sig_Bool),
     (''apbsig_timer_paddr'', Sig_Bv 16), (''apbsig_timer_pwdata'', Sig_Bv 32),
     (''apbsig_timer_prdata'', Sig_Bv 32)]"

definition lmac3_names :: "(string \<times> string) list" where
  "lmac3_names = [
     (''phy_txd'', ''phy_txd''), (''phy_txc'', ''phy_txc''), (''phy_rxd'', ''phy_rxd''),
     (''phy_rxc'', ''phy_rxc''), (''tx_axis_mac_tdata'', ''tx_axis_mac_tdata''),
     (''tx_axis_mac_tstrb'', ''tx_axis_mac_tstrb''), (''tx_axis_mac_tvalid'', ''tx_axis_mac_tvalid''),
     (''tx_axis_mac_tlast'', ''tx_axis_mac_tlast''), (''tx_axis_mac_tuser'', ''tx_axis_mac_tuser''),
     (''tx_axis_mac_tready'', ''tx_axis_mac_tready''), (''rx_axis_mac_tdata'', ''rx_axis_mac_tdata''),
     (''rx_axis_mac_tstrb'', ''rx_axis_mac_tstrb''), (''rx_axis_mac_tvalid'', ''rx_axis_mac_tvalid''),
     (''rx_axis_mac_tlast'', ''rx_axis_mac_tlast''), (''rx_axis_mac_tuser'', ''rx_axis_mac_tuser''),
     (''rx_axis_mac_tready'', ''rx_axis_mac_tready''), (''apbsig_lmac_psel'', ''apblmac_psel''),
     (''apbsig_lmac_penable'', ''apblmac_penable''), (''apbsig_lmac_pwrite'', ''apblmac_pwrite''),
     (''apbsig_lmac_pready'', ''apblmac_pready''), (''apbsig_lmac_paddr'', ''apblmac_paddr''),
     (''apbsig_lmac_pwdata'', ''apblmac_pwdata''), (''apbsig_lmac_prdata'', ''apblmac_prdata''),
     (''apbsig_timer_psel'', ''apbtimer_psel''), (''apbsig_timer_penable'', ''apbtimer_penable''),
     (''apbsig_timer_pwrite'', ''apbtimer_pwrite''), (''apbsig_timer_pready'', ''apbtimer_pready''),
     (''apbsig_timer_paddr'', ''apbtimer_paddr''), (''apbsig_timer_pwdata'', ''apbtimer_pwdata''),
     (''apbsig_timer_prdata'', ''apbtimer_prdata'')]"

definition lmac3_stream_wires :: "wire list" where
  "lmac3_stream_wires = [
     (H_tlm2axis, ''clk'', ''clk''), (H_tlm2axis, ''resetn'', ''rst_n''),
     (H_tlm2axis, ''tvalid'', ''tx_axis_mac_tvalid''), (H_tlm2axis, ''tready'', ''tx_axis_mac_tready''),
     (H_tlm2axis, ''tdata'', ''tx_axis_mac_tdata''), (H_tlm2axis, ''tstrb'', ''tx_axis_mac_tstrb''),
     (H_tlm2axis, ''tuser'', ''tx_axis_mac_tuser''), (H_tlm2axis, ''tlast'', ''tx_axis_mac_tlast''),
     (H_axis2tlm, ''clk'', ''clk''), (H_axis2tlm, ''resetn'', ''rst_n''),
     (H_axis2tlm, ''tvalid'', ''rx_axis_mac_tvalid''), (H_axis2tlm, ''tready'', ''rx_axis_mac_tready''),
     (H_axis2tlm, ''tdata'', ''rx_axis_mac_tdata''), (H_axis2tlm, ''tstrb'', ''rx_axis_mac_tstrb''),
     (H_axis2tlm, ''tuser'', ''rx_axis_mac_tuser''), (H_axis2tlm, ''tlast'', ''rx_axis_mac_tlast'')]"

definition lmac3_core_wires :: "wire list" where
  "lmac3_core_wires = [
     (H_lmac, ''clk'', ''clk''), (H_lmac, ''rst_n'', ''rst_n''), (H_lmac, ''xgmii_txd'', ''phy_txd''),
     (H_lmac, ''xgmii_txc'', ''phy_txc''), (H_lmac, ''xgmii_rxd'', ''phy_rxd''),
     (H_lmac, ''xgmii_rxc'', ''phy_rxc''), (H_lmac, ''host_addr_reg'', ''apbsig_lmac_paddr''),
     (H_lmac, ''reg_rd_start'', ''apbsig_lmac_psel''), (H_lmac, ''reg_rd_done_out'', ''apbsig_lmac_pready''),
     (H_lmac, ''FMAC_REGDOUT'', ''apbsig_lmac_prdata''),
     (H_lmac, ''tx_axis_mac_tdata'', ''tx_axis_mac_tdata''),
     (H_lmac, ''tx_axis_mac_tvalid'', ''tx_axis_mac_tvalid''),
     (H_lmac, ''tx_axis_mac_tlast'', ''tx_axis_mac_tlast''),
     (H_lmac, ''tx_axis_mac_tuser'', ''tx_axis_mac_tuser''),
     (H_lmac, ''tx_axis_mac_tready'', ''tx_axis_mac_tready''),
     (H_lmac, ''tx_axis_mac_tstrb'', ''tx_axis_mac_tstrb''),
     (H_lmac, ''rx_axis_mac_tdata'', ''rx_axis_mac_tdata''),
     (H_lmac, ''rx_axis_mac_tvalid'', ''rx_axis_mac_tvalid''),
     (H_lmac, ''rx_axis_mac_tlast'', ''rx_axis_mac_tlast''),
     (H_lmac, ''rx_axis_mac_tuser'', ''rx_axis_mac_tuser''),
     (H_lmac, ''rx_axis_mac_tready'', ''rx_axis_mac_tready''),
     (H_lmac, ''rx_axis_mac_tstrb'', ''rx_axis_mac_tstrb'')]"

definition lmac3_phy_wires :: "wire list" where
  "lmac3_phy_wires = [
     (H_phy_tx, ''clk'', ''clk''), (H_phy_tx, ''xxd'', ''phy_txd''), (H_phy_tx, ''xxc'', ''phy_txc''),
     (H_phy_rx, ''clk'', ''clk''), (H_phy_rx, ''xxd'', ''phy_rxd''), (H_phy_rx, ''xxc'', ''phy_rxc'')]"

definition lmac3_tlm2apb_wires :: "wire list" where
  "lmac3_tlm2apb_wires = [
     (H_tlm2apb, ''clk'', ''clk''), (H_tlm2apb, ''psel'', ''apbsig_lmac_psel''),
     (H_tlm2apb, ''penable'', ''apbsig_lmac_penable''), (H_tlm2apb, ''pwrite'', ''apbsig_lmac_pwrite''),
     (H_tlm2apb, ''paddr'', ''apbsig_lmac_paddr''), (H_tlm2apb, ''pwdata'', ''apbsig_lmac_pwdata''),
     (H_tlm2apb, ''prdata'', ''apbsig_lmac_prdata''), (H_tlm2apb, ''pready'', ''apbsig_lmac_pready'')]"

subsection \<open>\<open>zynqmp_vcs_demo.cc\<close>\<close>

definition vcs_signals :: "(string \<times> sig_type) list" where
  "vcs_signals = [
     (''s_axi_awid'', Sig_Bv 8), (''s_axi_awaddr'', Sig_Bv 8), (''s_axi_awlen'', Sig_Bv 8),
     (''s_axi_awsize'', Sig_Bv 3), (''s_axi_awburst'', Sig_Bv 2), (''s_axi_awlock'', Sig_Bool),
     (''s_axi_awcache'', Sig_Bv 4), (''s_axi_awprot'', Sig_Bv 3), (''s_axi_awvalid'', Sig_Bool),
     (''s_axi_awready'', Sig_Bool), (''s_axi_wdata'', Sig_Bv 32), (''s_axi_wstrb'', Sig_Bv 4),
     (''s_axi_wlast'', Sig_Bool), (''s_axi_wvalid'', Sig_Bool), (''s_axi_wready'', Sig_Bool),
     (''s_axi_bid'', Sig_Bv 8), (''s_axi_bresp'', Sig_Bv 2), (''s_axi_bvalid'', Sig_Bool),
     (''s_axi_bready'', Sig_Bool), (''s_axi_arid'', Sig_Bv 8), (''s_axi_araddr'', Sig_Bv 8),
     (''s_axi_arlen'', Sig_Bv 8), (''s_axi_arsize'', Sig_Bv 3), (''s_axi_arburst'', Sig_Bv 2),
     (''s_axi_arlock'', Sig_Bool), (''s_axi_arcache'', Sig_Bv 4), (''s_axi_arprot'', Sig_Bv 3),
     (''s_axi_arvalid'', Sig_Bool), (''s_axi_arready'', Sig_Bool), (''s_axi_rid'', Sig_Bv 8),
     (''s_axi_rdata'', Sig_Bv 32), (''s_axi_rresp'', Sig_Bv 2), (''s_axi_rlast'', Sig_Bool),
     (''s_axi_rvalid'', Sig_Bool), (''s_axi_rready'', Sig_Bool), (''s_axi_ruser'', Sig_Bv 2),
     (''s_axi_awuser'', Sig_Bv 2), (''s_axi_wuser'', Sig_Bv 2), (''s_axi_aruser'', Sig_Bv 2),
     (''s_axi_buser'', Sig_Bv 2), (''s_axi_arqos'', Sig_Bv 4), (''s_axi_awqos'', Sig_Bv 4),
     (''s_axi_arregion'', Sig_Bv 4), (''s_axi_awregion'', Sig_Bv 4)]"

definition vcs_names :: "(string \<times> string) list" where
  "vcs_names = [
     (''s_axi_awid'', ''cosim_s_axi_awid''), (''s_axi_awaddr'', ''cosim_s_axi_awaddr''),
     (''s_axi_awlen'', ''cosim_s_axi_awlen''), (''s_axi_awsize'', ''cosim_s_axi_awsize''),
     (''s_axi_awburst'', ''cosim_s_axi_awburst''), (''s_axi_awlock'', ''cosim_s_axi_awlock''),
     (''s_axi_awcache'', ''cosim_s_axi_awcache''), (''s_axi_awprot'', ''cosim_s_axi_awprot''),
     (''s_axi_awvalid'', ''cosim_s_axi_awvalid''), (''s_axi_awready'', ''cosim_s_axi_awready''),
     (''s_axi_wdata'', ''cosim_s_axi_wdata''), (''s_axi_wstrb'', ''cosim_s_axi_wstrb''),
     (''s_axi_wlast'', ''cosim_s_axi_wlast''), (''s_axi_wvalid'', ''cosim_s_axi_wvalid''),
     (''s_axi_wready'', ''cosim_s_axi_wready''), (''s_axi_bid'', ''cosim_s_axi_bid''),
     (''s_axi_bresp'', ''cosim_s_axi_bresp''), (''s_axi_bvalid'', ''cosim_s_axi_bvalid''),
     (''s_axi_bready'', ''cosim_s_axi_bready''), (''s_axi_arid'', ''cosim_s_axi_arid''),
     (''s_axi_araddr'', ''cosim_s_axi_araddr''), (''s_axi_arlen'', ''cosim_s_axi_arlen''),
     (''s_axi_arsize'', ''cosim_s_axi_arsize''), (''s_axi_arburst'', ''cosim_s_axi_arburst''),
     (''s_axi_arlock'', ''cosim_s_axi_arlock''), (''s_axi_arcache'', ''cosim_s_axi_arcache''),
     (''s_axi_arprot'', ''cosim_s_axi_arprot''), (''s_axi_arvalid'', ''cosim_s_axi_arvalid''),
     (''s_axi_arready'', ''cosim_s_axi_arready''), (''s_axi_rid'', ''cosim_s_axi_rid''),
     (''s_axi_rdata'', ''cosim_s_axi_rdata''), (''s_axi_rresp'', ''cosim_s_axi_rresp''),
     (''s_axi_rlast'', ''cosim_s_axi_rlast''), (''s_axi_rvalid'', ''cosim_s_axi_rvalid''),
     (''s_axi_rready'', ''cosim_s_axi_rready''), (''s_axi_ruser'', ''cosim_s_axi_ruser''),
     (''s_axi_awuser'', ''cosim_s_axi_awuser''), (''s_axi_wuser'', ''cosim_s_axi_wuser''),
     (''s_axi_aruser'', ''cosim_s_axi_aruser''), (''s_axi_buser'', ''cosim_s_axi_buser''),
     (''s_axi_awqos'', ''cosim_s_axi_awqos''), (''s_axi_arqos'', ''cosim_s_axi_arqos''),
     (''s_axi_arregion'', ''cosim_s_axi_arregion''), (''s_axi_awregion'', ''cosim_s_axi_awregion'')]"

definition vcs_top_wires :: "wire list" where
  "vcs_top_wires = [
     (H_verilog_top, ''clk'', ''clk''), (H_verilog_top, ''rst_n'', ''rst_n''),
     (H_verilog_top, ''s_axi_awid'', ''s_axi_awid''), (H_verilog_top, ''s_axi_awaddr'', ''s_axi_awaddr''),
     (H_verilog_top, ''s_axi_awlen'', ''s_axi_awlen''), (H_verilog_top, ''s_axi_awsize'', ''s_axi_awsize''),
     (H_verilog_top, ''s_axi_awburst'', ''s_axi_awburst''),
     (H_verilog_top, ''s_axi_awlock'', ''s_axi_awlock''),
     (H_verilog_top, ''s_axi_awcache'', ''s_axi_awcache''),
     (H_verilog_top, ''s_axi_awprot'', ''s_axi_awprot''),
     (H_verilog_top, ''s_axi_awvalid'', ''s_axi_awvalid''),
     (H_verilog_top, ''s_axi_awready'', ''s_axi_awready''), (H_verilog_top, ''s_axi_wdata'', ''s_axi_wdata''),
     (H_verilog_top, ''s_axi_wstrb'', ''s_axi_wstrb''), (H_verilog_top, ''s_axi_wlast'', ''s_axi_wlast''),
     (H_verilog_top, ''s_axi_wvalid'', ''s_axi_wvalid''), (H_verilog_top, ''s_axi_wready'', ''s_axi_wready''),
     (H_verilog_top, ''s_axi_bid'', ''s_axi_bid''), (H_verilog_top, ''s_axi_bresp'', ''s_axi_bresp''),
     (H_verilog_top, ''s_axi_bvalid'', ''s_axi_bvalid''), (H_verilog_top, ''s_axi_bready'', ''s_axi_bready''),
     (H_verilog_top, ''s_axi_arid'', ''s_axi_arid''), (H_verilog_top, ''s_axi_araddr'', ''s_axi_araddr''),
     (H_verilog_top, ''s_axi_arlen'', ''s_axi_arlen''), (H_verilog_top, ''s_axi_arsize'', ''s_axi_arsize''),
     (H_verilog_top, ''s_axi_arburst'', ''s_axi_arburst''),
     (H_verilog_top, ''s_axi_arlock'', ''s_axi_arlock''),
     (H_verilog_top, ''s_axi_arcache'', ''s_axi_arcache''),
     (H_verilog_top, ''s_axi_arprot'', ''s_axi_arprot''),
     (H_verilog_top, ''s_axi_arvalid'', ''s_axi_arvalid''),
     (H_verilog_top, ''s_axi_arready'', ''s_axi_arready''), (H_verilog_top, ''s_axi_rid'', ''s_axi_rid''),
     (H_verilog_top, ''s_axi_rdata'', ''s_axi_rdata''), (H_verilog_top, ''s_axi_rresp'', ''s_axi_rresp''),
     (H_verilog_top, ''s_axi_rlast'', ''s_axi_rlast''), (H_verilog_top, ''s_axi_rvalid'', ''s_axi_rvalid''),
     (H_verilog_top, ''s_axi_rready'', ''s_axi_rready'')]"

definition vcs_bridge_wires :: "wire list" where
  "vcs_bridge_wires = [
     (H_tlm2axi, ''clk'', ''clk''), (H_tlm2axi, ''resetn'', ''rst_n''), (H_tlm2axi, ''awid'', ''s_axi_awid''),
     (H_tlm2axi, ''awaddr'', ''s_axi_awaddr''), (H_tlm2axi, ''awlen'', ''s_axi_awlen''),
     (H_tlm2axi, ''awsize'', ''s_axi_awsize''), (H_tlm2axi, ''awburst'', ''s_axi_awburst''),
     (H_tlm2axi, ''awlock'', ''s_axi_awlock''), (H_tlm2axi, ''awcache'', ''s_axi_awcache''),
     (H_tlm2axi, ''awprot'', ''s_axi_awprot''), (H_tlm2axi, ''awvalid'', ''s_axi_awvalid''),
     (H_tlm2axi, ''awready'', ''s_axi_awready''), (H_tlm2axi, ''wdata'', ''s_axi_wdata''),
     (H_tlm2axi, ''wstrb'', ''s_axi_wstrb''), (H_tlm2axi, ''wlast'', ''s_axi_wlast''),
     (H_tlm2axi, ''wvalid'', ''s_axi_wvalid''), (H_tlm2axi, ''wready'', ''s_axi_wready''),
     (H_tlm2axi, ''bid'', ''s_axi_bid''), (H_tlm2axi, ''bresp'', ''s_axi_bresp''),
     (H_tlm2axi, ''bvalid'', ''s_axi_bvalid''), (H_tlm2axi, ''bready'', ''s_axi_bready''),
     (H_tlm2axi, ''arid'', ''s_axi_arid''), (H_tlm2axi, ''araddr'', ''s_axi_araddr''),
     (H_tlm2axi, ''arlen'', ''s_axi_arlen''), (H_tlm2axi, ''arsize'', ''s_axi_arsize''),
     (H_tlm2axi, ''arburst'', ''s_axi_arburst''), (H_tlm2axi, ''arlock'', ''s_axi_arlock''),
     (H_tlm2axi, ''arcache'', ''s_axi_arcache''), (H_tlm2axi, ''arprot'', ''s_axi_arprot''),
     (H_tlm2axi, ''arvalid'', ''s_axi_arvalid''), (H_tlm2axi, ''arready'', ''s_axi_arready''),
     (H_tlm2axi, ''rid'', ''s_axi_rid''), (H_tlm2axi, ''rdata'', ''s_axi_rdata''),
     (H_tlm2axi, ''rresp'', ''s_axi_rresp''), (H_tlm2axi, ''rlast'', ''s_axi_rlast''),
     (H_tlm2axi, ''rvalid'', ''s_axi_rvalid''), (H_tlm2axi, ''rready'', ''s_axi_rready''),
     (H_tlm2axi, ''ruser'', ''s_axi_ruser''), (H_tlm2axi, ''aruser'', ''s_axi_aruser''),
     (H_tlm2axi, ''awuser'', ''s_axi_awuser''), (H_tlm2axi, ''wuser'', ''s_axi_wuser''),
     (H_tlm2axi, ''buser'', ''s_axi_buser''), (H_tlm2axi, ''arqos'', ''s_axi_arqos''),
     (H_tlm2axi, ''awqos'', ''s_axi_awqos''), (H_tlm2axi, ''awregion'', ''s_axi_awregion''),
     (H_tlm2axi, ''arregion'', ''s_axi_arregion'')]"

section \<open>The netlists of the demos\<close>

datatype wired_demo = W_zynqmp | W_versal | W_lmac2 | W_lmac3 | W_vcs

primrec signals :: "wired_demo \<Rightarrow> (string \<times> sig_type) list" where
  "signals W_zynqmp = zynqmp_timer_signals @ zynqmp_al_signals @ zynqmp_af_signals"
| "signals W_versal = versal_timer_signals @ versal_al_signals @ versal_af_signals"
| "signals W_lmac2 = lmac2_signals"
| "signals W_lmac3 = lmac3_signals"
| "signals W_vcs = vcs_signals"

primrec signal_names :: "wired_demo \<Rightarrow> (string \<times> string) list" where
  "signal_names W_zynqmp = zynqmp_timer_names @ zynqmp_al_names @ zynqmp_af_names"
| "signal_names W_versal = versal_timer_names @ versal_al_names @ versal_af_names"
| "signal_names W_lmac2 = lmac_names"
| "signal_names W_lmac3 = lmac3_names"
| "signal_names W_vcs = vcs_names"

definition lmac_wires :: "wire list" where
  "lmac_wires = lmac_stream_wires @ lmac_core_wires @ lmac_phy_wires @ lmac_tlm2apb_wires"

primrec wires :: "wired_demo \<Rightarrow> wire list" where
  "wires W_zynqmp = zynqmp_timer_wires @ zynqmp_checker_wires @ zynqmp_al_wires @ zynqmp_af_wires @ zynqmp_clock_wires
     @ zynqmp_tlm2axi_al_wires @ zynqmp_tlm2axi_af_wires @ zynqmp_tlm2apb_wires"
| "wires W_versal = versal_timer_wires @ versal_al_wires @ versal_af_wires @ versal_clock_wires
     @ versal_tlm2axi_al_wires @ versal_tlm2axi_af_wires @ versal_tlm2apb_wires"
| "wires W_lmac2 = lmac_wires"
| "wires W_lmac3 = lmac3_stream_wires @ lmac3_core_wires @ lmac3_phy_wires @ lmac3_tlm2apb_wires"
| "wires W_vcs = vcs_top_wires @ vcs_bridge_wires"

section \<open>What is bound\<close>

text \<open>
  The Versal demo has the signals of the ZynqMP demo and its bindings but those of the protocol
  checker; the demos of the two LMAC cores have the same bindings.
\<close>

lemma versal_signals: "signals W_versal = signals W_zynqmp"
  by (simp only: signals.simps versal_timer_signals_def versal_al_signals_def versal_af_signals_def
      zynqmp_timer_signals_def zynqmp_al_signals_def zynqmp_af_signals_def)

lemma versal_names: "signal_names W_versal = signal_names W_zynqmp"
  by (simp only: signal_names.simps versal_timer_names_def versal_al_names_def versal_af_names_def
      zynqmp_timer_names_def zynqmp_al_names_def zynqmp_af_names_def)

lemma versal_wires: "wires W_versal = zynqmp_timer_wires @ zynqmp_al_wires @ zynqmp_af_wires @ zynqmp_clock_wires
     @ zynqmp_tlm2axi_al_wires @ zynqmp_tlm2axi_af_wires @ zynqmp_tlm2apb_wires"
  by (simp only: wires.simps versal_timer_wires_def versal_al_wires_def versal_af_wires_def versal_clock_wires_def
      versal_tlm2axi_al_wires_def versal_tlm2axi_af_wires_def versal_tlm2apb_wires_def
      zynqmp_timer_wires_def zynqmp_al_wires_def zynqmp_af_wires_def zynqmp_clock_wires_def
      zynqmp_tlm2axi_al_wires_def zynqmp_tlm2axi_af_wires_def zynqmp_tlm2apb_wires_def)

lemma lmac3_names: "signal_names W_lmac3 = signal_names W_lmac2"
  by (simp only: signal_names.simps lmac_names_def lmac3_names_def)

lemma lmac3_wires: "wires W_lmac3 = lmac_wires"
  by (simp only: wires.simps lmac_wires_def lmac_stream_wires_def lmac_core_wires_def lmac_phy_wires_def lmac_tlm2apb_wires_def
      lmac3_stream_wires_def lmac3_core_wires_def lmac3_phy_wires_def lmac3_tlm2apb_wires_def)

text \<open>The checks by evaluation.\<close>

definition all_in :: "string list \<Rightarrow> string list \<Rightarrow> bool" where
  "all_in xs ys \<longleftrightarrow> list_all (\<lambda>x. list_ex ((=) x) ys) xs"

lemma all_in_iff: "all_in xs ys \<longleftrightarrow> set xs \<subseteq> set ys"
  by (auto simp: all_in_def list_all_iff list_ex_iff)

definition top_signals :: "string list" where
  "top_signals = [''clk'', ''rst'', ''rst_n'']"

lemma zynqmp_ports_once: "distinct (map (\<lambda>(m, p, s). (m, p)) (wires W_zynqmp))"
  by (simp add: zynqmp_timer_wires_def zynqmp_checker_wires_def zynqmp_al_wires_def zynqmp_af_wires_def
      zynqmp_clock_wires_def zynqmp_tlm2axi_al_wires_def zynqmp_tlm2axi_af_wires_def zynqmp_tlm2apb_wires_def)

lemma lmac_ports_once: "distinct (map (\<lambda>(m, p, s). (m, p)) lmac_wires)" by code_simp
lemma vcs_ports_once: "distinct (map (\<lambda>(m, p, s). (m, p)) (wires W_vcs))" by code_simp

lemma lmac3_signals: "map fst (signals W_lmac3) = map fst (signals W_lmac2)"
  by (simp add: lmac2_signals_def lmac3_signals_def)

text \<open>The versal netlist keeps a part of the ports in the same order.\<close>

lemma distinct_drop_middle: "distinct (xs @ ys @ zs) \<Longrightarrow> distinct (xs @ zs)"
  by auto

lemma versal_ports_once: "distinct (map (\<lambda>(m, p, s). (m, p)) (wires W_versal))"
  using zynqmp_ports_once unfolding versal_wires wires.simps map_append by (rule distinct_drop_middle)

text \<open>Every binding names a signal that is declared, or the clock or a reset of the top.\<close>

definition bound :: "wire list \<Rightarrow> string list" where
  "bound ws = map (\<lambda>(m, p, s). s) ws"

lemma bound_append: "bound (ws @ ws') = bound ws @ bound ws'"
  by (simp add: bound_def)

lemma zynqmp_bound: "all_in (bound (wires W_zynqmp)) (top_signals @ map fst (signals W_zynqmp))" by code_simp
lemma lmac_bound: "all_in (bound lmac_wires) (top_signals @ map fst (signals W_lmac2))" by code_simp
lemma vcs_bound: "all_in (bound (wires W_vcs)) (top_signals @ map fst (signals W_vcs))" by code_simp

lemma versal_bound: "set (bound (wires W_versal)) \<subseteq> set (bound (wires W_zynqmp))"
  by (simp only: versal_wires wires.simps bound_append) auto

lemma bindings_declared:
  "distinct (map (\<lambda>(m, p, s). (m, p)) (wires d)) \<and> set (bound (wires d)) \<subseteq> set top_signals \<union> set (map fst (signals d))"
proof (cases d)
  case W_zynqmp
  then show ?thesis using zynqmp_ports_once zynqmp_bound by (simp only: all_in_iff set_append)
next
  case W_versal
  show ?thesis
    unfolding W_versal versal_signals using versal_ports_once versal_bound zynqmp_bound
    by (auto simp only: all_in_iff set_append)
next
  case W_lmac2
  then show ?thesis using lmac_ports_once lmac_bound by (simp only: all_in_iff set_append wires.simps)
next
  case W_lmac3
  show ?thesis unfolding W_lmac3 lmac3_wires lmac3_signals using lmac_ports_once lmac_bound by (simp only: all_in_iff set_append)
next
  case W_vcs
  then show ?thesis using vcs_ports_once vcs_bound by (simp only: all_in_iff set_append)
qed

text \<open>
  The interrupt of the timer ends at its signal: nothing else is bound to it.  The demos of the LMAC cores declare seven signals of an APB
  timer they do not have.
\<close>

lemma irq_tmr_one_port:
  "filter (\<lambda>(m, p, s). s = ''irq_tmr'') (wires W_zynqmp) = [(H_apb_timer, ''irq'', ''irq_tmr'')]"
  "filter (\<lambda>(m, p, s). s = ''irq_tmr'') (wires W_versal) = [(H_apb_timer, ''irq'', ''irq_tmr'')]"
  by code_simp+

lemma lmac_unbound:
  "filter (\<lambda>s. \<not> list_ex ((=) s) (bound lmac_wires)) (map fst (signals W_lmac2)) =
     [''apbsig_timer_psel'', ''apbsig_timer_penable'', ''apbsig_timer_pwrite'', ''apbsig_timer_pready'',
      ''apbsig_timer_paddr'', ''apbsig_timer_pwdata'', ''apbsig_timer_prdata'']"
  by code_simp

section \<open>Tracing the signals\<close>

text \<open>A top as the tracing sees it: its signals, and whatever else is in it.\<close>

definition top_module :: "wired_demo \<Rightarrow> sc_object list \<Rightarrow> sc_object" where
  "top_module d others = Sc_Object Sc_Module ''top''
     (map (\<lambda>(s, t). Sc_Object (Sc_Signal t) (''top.'' @ the (map_of (signal_names d) s)) []) (signals d) @ others)"

primrec trace_knows :: "sig_type \<Rightarrow> bool" where
  "trace_knows Sig_Bool = True"
| "trace_knows (Sig_Bv n) = list_ex ((=) n) trace_widths"

lemma zynqmp_types_known: "list_all (\<lambda>(s, t). trace_knows t) (signals W_zynqmp)" by code_simp
lemma lmac2_types_known: "list_all (\<lambda>(s, t). trace_knows t) (signals W_lmac2)" by code_simp
lemma lmac3_types_known: "list_all (\<lambda>(s, t). trace_knows t) (signals W_lmac3)" by code_simp
lemma vcs_types_known: "list_all (\<lambda>(s, t). trace_knows t) (signals W_vcs)" by code_simp

lemma signal_types_traced: "(s, t) \<in> set (signals d) \<Longrightarrow> t \<in> traced_types"
proof -
  have k: "trace_knows t \<Longrightarrow> t \<in> traced_types" for t by (cases t) (auto simp: list_ex_iff)
  have "list_all (\<lambda>(s, t). trace_knows t) (signals d)"
    using zynqmp_types_known lmac2_types_known lmac3_types_known vcs_types_known versal_signals
    by (cases d) (simp_all only:)
  then show "(s, t) \<in> set (signals d) \<Longrightarrow> t \<in> traced_types" using k by (auto simp: list_all_iff)
qed

text \<open>Every signal is given a name, and no two the same.\<close>

lemma zynqmp_named: "all_in (map fst (signals W_zynqmp)) (map fst (signal_names W_zynqmp))"
  "distinct (map snd (signal_names W_zynqmp))" by code_simp+
lemma lmac2_named: "all_in (map fst (signals W_lmac2)) (map fst (signal_names W_lmac2))"
  "distinct (map snd (signal_names W_lmac2))" by code_simp+
lemma vcs_named: "all_in (map fst (signals W_vcs)) (map fst (signal_names W_vcs))"
  "distinct (map snd (signal_names W_vcs))" by code_simp+

lemma signals_named:
  "set (map fst (signals d)) \<subseteq> set (map fst (signal_names d)) \<and> distinct (map snd (signal_names d))"
  using zynqmp_named lmac2_named vcs_named unfolding all_in_iff
  by (cases d) (simp_all only: versal_signals versal_names lmac3_signals lmac3_names simp_thms)

text \<open>Tracing the top records every signal the demo declares, whatever else it holds.\<close>

lemma top_signals_traced:
  assumes "(s, t) \<in> set (signals d)"
  shows "(Sc_Signal t, ''top.'' @ the (map_of (signal_names d) s)) \<in> set (trace (top_module d others))"
proof -
  let ?o = "Sc_Object (Sc_Signal t) (''top.'' @ the (map_of (signal_names d) s)) []"
  have "?o \<in> set (visited (top_module d others))"
    using assms by (intro children_visited) (force simp: top_module_def)
  with signal_types_traced [OF assms] show ?thesis
    by (force simp: trace_visited)
qed

end
