(* ===== verification/Pcie_Races.thy ===== *)
theory Pcie_Races
  imports Pcie_Schedules
begin

text \<open>
  The threads of the accelerator when translations are invalidated and registers written while a
  command is under way.
\<close>

section \<open>What others may do while a digest is computed\<close>

text \<open>
  The host may do anything but write the control and the status register; the other threads are
  idle then.  With \<open>iv\<close> any range may be invalidated at any time.
\<close>

fun digest_env :: "bool \<Rightarrow> act \<Rightarrow> bool" where
  "digest_env iv (Host n tr) \<longleftrightarrow> gp_cmd tr = TLM_WRITE_COMMAND \<longrightarrow> gp_addr tr \<noteq> 0 \<and> gp_addr tr \<noteq> 0x10"
| "digest_env iv (Inval tr) \<longleftrightarrow> iv"
| "digest_env iv (Thread e) \<longleftrightarrow> True"

text \<open>The result registers hold a digest.\<close>

lemma md5_result_iff:
  "set_md5_result D s = s \<longleftrightarrow> ar_md5_0 (ac_regs s) = le_word (take 4 D) \<and> ar_md5_1 (ac_regs s) = le_word (take 4 (drop 4 D)) \<and>
     ar_md5_2 (ac_regs s) = le_word (take 4 (drop 8 D)) \<and> ar_md5_3 (ac_regs s) = le_word (take 4 (drop 12 D))"
proof -
  obtain r rs es where s: "s = \<lparr>ac_regs = r, ac_atc = rs, ac_events = es\<rparr>" by (cases s)
  show ?thesis unfolding s by (cases r) (auto simp: set_md5_result_def)
qed

lemma bar_cases:
  "bar_b_transport n tr d s = Inr (tr', d', s') \<Longrightarrow>
     s' = s \<or> gp_cmd tr = TLM_WRITE_COMMAND \<and> s' = acc_write (gp_addr tr) (le_word (take (gp_len tr) (gp_data tr))) s"
  by (auto simp: bar_b_transport_def split: if_splits tlm_command.splits)

lemma bar_env:
  assumes "bar_b_transport n tr d s = Inr (tr', d', s')" "digest_env iv (Host n tr)"
  shows "ac_atc s' = ac_atc s \<and> ac_events s' = ac_events s \<and> ar_status (ac_regs s') = ar_status (ac_regs s) \<and>
    (set_md5_result D s = s \<longrightarrow> set_md5_result D s' = s')"
proof -
  show ?thesis using bar_cases [OF assms(1)] assms(2) by (auto simp: md5_result_iff acc_write_def Let_def)
qed

lemma bar_total: "\<exists>tr' d' s'. bar_b_transport n tr d s = Inr (tr', d', s')"
  by (cases "gp_cmd tr") (auto simp: bar_b_transport_def)

lemma coherent_invalidate: "coherent at pt rs \<Longrightarrow> coherent at pt (atc_invalidate v len rs)"
  by (auto simp: coherent_def atc_invalidate_def)

lemma ats_inv_env:
  assumes "b_transport_ats_inv tr d s = Inr (tr', d', s')"
  shows "ac_regs s' = ac_regs s \<and> ac_events s' = ac_events s \<and>
     (coherent at pt (ac_atc s) \<longrightarrow> coherent at pt (ac_atc s')) \<and>
     (set_md5_result D s = s \<longrightarrow> set_md5_result D s' = s')"
proof -
  have "ac_regs s' = ac_regs s \<and> ac_events s' = ac_events s \<and> (coherent at pt (ac_atc s) \<longrightarrow> coherent at pt (ac_atc s'))"
    using assms by (auto simp: b_transport_ats_inv_def coherent_invalidate split: option.splits)
  moreover from this have "set_md5_result D s = s \<longrightarrow> set_md5_result D s' = s'"
    unfolding md5_result_iff by simp
  ultimately show ?thesis by blast
qed

section \<open>A digest under way\<close>

text \<open>
  How far the digest of the \<open>n0\<close> bytes from \<open>v0\<close> on has come, with \<open>p\<close> the page table and \<open>m\<close> the
  memory: \<open>len\<close> bytes from \<open>v\<close> on are left.
\<close>

definition digest_part ::
  "'c md5_ops \<Rightarrow> 'c \<Rightarrow> (u64 \<Rightarrow> u64) \<Rightarrow> bytes_memory \<Rightarrow> u64 \<Rightarrow> nat \<Rightarrow> u64 \<Rightarrow> u64 \<Rightarrow> 'c \<Rightarrow> bool" where
  "digest_part ops c0 p m v0 n0 v len ctx \<longleftrightarrow> unat len \<le> n0 \<and> unat v + unat len = unat v0 + n0 \<and>
     ctx = md5_update ops c0 (page_bytes p m v0 (n0 - unat len)) \<and>
     (unat v mod 4096 = 0 \<or> 4096 \<le> unat len \<or> len = 0)"

definition page_reply :: "ats_attrs \<Rightarrow> (u64 \<Rightarrow> u64) \<Rightarrow> u64 \<Rightarrow> ats_reply \<Rightarrow> bool" where
  "page_reply at p v r \<longleftrightarrow> ar_resp r = TLM_OK_RESPONSE \<and> ar_result_ok r \<and> ar_length r = SZ_4K \<and>
     ar_addr r = p v \<and> unat (ar_addr r) mod 4096 = 0 \<and> ar_attr r AND ATTR_READ at \<noteq> 0 \<and> ar_attr r AND ATTR_WRITE at \<noteq> 0"

definition ats_part ::
  "bool \<Rightarrow> 'c md5_ops \<Rightarrow> 'c \<Rightarrow> (u64 \<Rightarrow> u64) \<Rightarrow> bytes_memory \<Rightarrow> u64 \<Rightarrow> nat \<Rightarrow> region list \<Rightarrow> u64 \<Rightarrow> u64 \<Rightarrow> 'c after_ats \<Rightarrow> bool" where
  "ats_part iv ops c0 p m v0 n0 rs va la k \<longleftrightarrow> la \<noteq> 0 \<and> unat va mod 4096 = 0 \<and> unat va + unat la < 2 ^ 64 - 4096 \<and>
     (\<exists>v len ctx buf. k = Aa_md5 v len ctx buf \<and> len \<noteq> 0 \<and> length buf = 4096 \<and>
        digest_part ops c0 p m v0 n0 v len ctx \<and>
        (\<not> iv \<longrightarrow> atc_contains rs v \<or> va = v AND NOT (mask 12)))"

text \<open>A read of bytes of the operand, all in the page the table gives for their virtual addresses.\<close>

definition digest_read :: "(u64 \<Rightarrow> u64) \<Rightarrow> u64 \<Rightarrow> nat \<Rightarrow> gp \<Rightarrow> bool" where
  "digest_read p v0 n0 tr \<longleftrightarrow> gp_cmd tr = TLM_READ_COMMAND \<and>
     (\<exists>u. unat v0 \<le> unat u \<and> unat u + gp_len tr \<le> unat v0 + n0 \<and> unat u mod 4096 + gp_len tr \<le> 4096 \<and>
        unat (p (u AND NOT (mask 12))) mod 4096 = 0 \<and>
        unat (gp_addr tr) = unat (p (u AND NOT (mask 12))) + unat u mod 4096)"

lemma coherent_phys:
  assumes "coherent at p rs" "atc_contains rs u"
  shows "unat (p (u AND NOT (mask 12))) mod 4096 = 0"
    "unat (atc_virt_to_phys rs u) = unat (p (u AND NOT (mask 12))) + unat u mod 4096"
proof -
  let ?b = "u AND NOT (mask 12)"
  obtain q :: u64 where q: "unat q mod 4096 = 0" "\<forall>b. unat b div 4096 = unat u div 4096 \<longrightarrow>
      unat (atc_virt_to_phys rs b) = unat q + unat b mod 4096"
    using page_translation [OF coherent_pages [OF assms(1)] assms(2)] by (elim exE conjE) (rule that)
  have b: "unat ?b = 4096 * (unat u div 4096)" by (simp add: unat_page_base minus_mod_eq_mult_div)
  then have d: "unat ?b div 4096 = unat u div 4096" "unat ?b mod 4096 = 0" by simp_all
  have "atc_contains rs ?b"
    using assms(2) atc_find_same_page [OF coherent_pages [OF assms(1)] d(1)] by (simp add: atc_contains_def)
  moreover have "?b AND NOT (mask 12) = ?b" by (rule page_base_same) (rule d(2))
  moreover have "?b AND mask 12 = 0" using d(2) by (simp add: word_unat_eq_iff unat_page_offset)
  then have "page_phys p ?b = p ?b" unfolding page_phys_def calculation(2) by simp
  ultimately have "unat (p ?b) = unat q" using coherent_lookup(1) [OF assms(1), of ?b] q(2) [THEN spec, of ?b] d by simp
  then show "unat (p ?b) mod 4096 = 0" "unat (atc_virt_to_phys rs u) = unat (p ?b) + unat u mod 4096"
    using q by simp_all
qed

fun digest_pc ::
  "bool \<Rightarrow> ats_attrs \<Rightarrow> 'c md5_ops \<Rightarrow> 'c \<Rightarrow> (u64 \<Rightarrow> u64) \<Rightarrow> bytes_memory \<Rightarrow> u64 \<Rightarrow> nat \<Rightarrow> region list \<Rightarrow> 'c pc \<Rightarrow> bool" where
  "digest_pc iv at ops c0 p m v0 n0 rs Idle \<longleftrightarrow> True"
| "digest_pc iv at ops c0 p m v0 n0 rs (In_ats va la k) \<longleftrightarrow> ats_part iv ops c0 p m v0 n0 rs va la k"
| "digest_pc iv at ops c0 p m v0 n0 rs (Ats_back r va la k) \<longleftrightarrow>
     ats_part iv ops c0 p m v0 n0 rs va la k \<and> page_reply at p va r"
| "digest_pc iv at ops c0 p m v0 n0 rs (In_dma tr k) \<longleftrightarrow>
     digest_read p v0 n0 tr \<and> gp_cmd tr = TLM_READ_COMMAND \<and> gp_byte_en tr = None \<and> length (gp_data tr) = 4096 \<and>
     (\<exists>v len ctx n. k = Ad_md5 v len ctx n \<and> digest_part ops c0 p m v0 n0 v len ctx \<and> len \<noteq> 0 \<and>
        unat n = min (unat len) 4096 - unat v mod 4096 \<and> gp_len tr = unat n \<and>
        mem_read m (gp_addr tr) (unat n) = page_bytes p m v (unat n))"
| "digest_pc iv at ops c0 p m v0 n0 rs (Dma_back tr k) \<longleftrightarrow>
     gp_resp tr = TLM_OK_RESPONSE \<and> length (gp_data tr) = 4096 \<and>
     (\<exists>v len ctx n. k = Ad_md5 v len ctx n \<and> digest_part ops c0 p m v0 n0 v len ctx \<and> len \<noteq> 0 \<and>
        unat n = min (unat len) 4096 - unat v mod 4096 \<and> take (unat n) (gp_data tr) = page_bytes p m v (unat n))"

text \<open>The registers when the thread is back at its \<open>wait\<close>.\<close>

definition digest_over ::
  "bool \<Rightarrow> 'c md5_ops \<Rightarrow> 'c \<Rightarrow> (u64 \<Rightarrow> u64) \<Rightarrow> bytes_memory \<Rightarrow> u64 \<Rightarrow> nat \<Rightarrow> acc \<Rightarrow> bool" where
  "digest_over iv ops c0 p m v0 n0 s \<longleftrightarrow>
     ar_status (ac_regs s) = R_STATUS_DONE \<and> set_md5_result (md5_final ops (md5_update ops c0 (page_bytes p m v0 n0))) s = s \<or>
     iv \<and> ar_status (ac_regs s) = R_STATUS_ERR OR R_STATUS_DONE"

definition digest_seg ::
  "bool \<Rightarrow> ats_attrs \<Rightarrow> 'c md5_ops \<Rightarrow> 'c \<Rightarrow> (u64 \<Rightarrow> u64) \<Rightarrow> bytes_memory \<Rightarrow> u64 \<Rightarrow> nat \<Rightarrow> 'c seg \<Rightarrow> bool" where
  "digest_seg iv at ops c0 p m v0 n0 g \<longleftrightarrow> (\<exists>s q. g = Inr (s, q) \<and> coherent at p (ac_atc s) \<and>
     digest_pc iv at ops c0 p m v0 n0 (ac_atc s) q \<and> (q = Idle \<longrightarrow> digest_over iv ops c0 p m v0 n0 s))"

lemma set_md5_result_idem [simp]:
  "set_md5_result D (set_md5_result D s) = set_md5_result D s"
  "set_md5_result D (set_status x s) = set_status x (set_md5_result D s)"
  "ar_status (ac_regs (set_status x s)) = x"
  by (simp_all add: set_md5_result_def set_status_def)

lemma length_page_bytes [simp]: "length (page_bytes p m v n) = n"
  by (simp add: page_bytes_def)

text \<open>The segments of the thread.\<close>

lemma digest_md5_read_seg:
  assumes "coherent at p (ac_atc s)" "digest_part ops c0 p m v0 n0 v len ctx" "len \<noteq> 0" "length buf = 4096"
    and "unat v0 + n0 < 2 ^ 64 - 8192" "iv \<or> atc_contains (ac_atc s) v"
  shows "digest_seg iv at ops c0 p m v0 n0 (md5_read_seg at x0 ops v len ctx buf s)"
proof (cases "atc_contains (ac_atc s) v")
  case False
  then have "\<not> atc_test_attr (ac_atc s) v (ATTR_READ at)" using atc_test_attr_contains by blast
  then show ?thesis
    using assms(1,3,6) False
    by (auto simp: md5_read_seg_def digest_seg_def finish_def digest_over_def le_bytes_result)
next
  case True
  let ?n = "md5_chunk len (atc_virt_to_phys (ac_atc s) v)"
  note l = coherent_lookup [OF assms(1) True] and pages = coherent_pages [OF assms(1)]
  have mod: "unat v mod 4096 < 4096" by simp
  have pre: "unat v mod 4096 \<le> min (unat len) 4096"
    using assms(2,3) mod by (auto simp: digest_part_def min_def)
  have "v AND mask 12 \<le> (if len \<le> SZ_4K then len else SZ_4K)"
    by (rule word_le_nat_alt [THEN iffD2]) (simp only: unat_min_page unat_page_offset pre)
  then have n: "unat ?n = min (unat len) 4096 - unat v mod 4096"
    by (simp add: md5_chunk_page [OF pages True] unat_sub unat_min_page unat_page_offset)
  have lt: "unat v + unat ?n < 2 ^ 64" using n assms(2,5) unfolding digest_part_def by linarith
  have fits: "unat v mod 4096 + unat ?n \<le> 4096" using n pre by simp
  have "mem_read m (page_phys p v) (unat ?n) = page_bytes p m v (unat ?n)"
    using page_read [OF pages True fits lt] virt_bytes_page [OF assms(1) True fits lt] l(1) by (simp add: mem_read_def)
  moreover have "unat (ucast ?n :: u32) = unat ?n"
    using n by (simp add: unsigned_ucast_eq take_bit_nat_eq_self_iff)
  moreover have "\<not> 4096 < unat ?n" using n by simp
  moreover have "unat v0 \<le> unat v" "unat v + unat ?n \<le> unat v0 + n0"
    using assms(2) n unfolding digest_part_def by linarith+
  then have "digest_read p v0 n0 (phys_gp at x0 TLM_READ_COMMAND (atc_virt_to_phys (ac_atc s) v) buf (unat ?n))"
    using coherent_phys [OF assms(1) True] fits by (auto simp: digest_read_def phys_gp_def intro!: exI [of _ v])
  ultimately show ?thesis
    using assms n l by (simp add: md5_read_seg_def digest_seg_def Let_def phys_gp_def)
qed

lemma digest_ats_resume:
  assumes "ats_part iv ops c0 p m v0 n0 rs va la k" "coherent at p (ac_atc s)" "unat v0 + n0 < 2 ^ 64 - 8192"
    and "\<And>v len ctx buf. k = Aa_md5 v len ctx buf \<Longrightarrow> iv \<or> atc_contains (ac_atc s) v"
  shows "digest_seg iv at ops c0 p m v0 n0 (ats_resume at x0 ops k s)"
  using assms by (auto simp: ats_part_def intro!: digest_md5_read_seg)

lemma page_base_bounds:
  "unat (v AND NOT (SZ_4K - 1)) mod 4096 = 0"
  "unat (v AND NOT (SZ_4K - 1)) + unat v mod 4096 = unat v"
  by (simp_all add: page_mask unat_page_base minus_mod_eq_mult_div)

lemma digest_md5_head:
  assumes "coherent at p (ac_atc s)" "digest_part ops c0 p m v0 n0 v len ctx" "length buf = 4096"
    and "unat v0 + n0 < 2 ^ 64 - 8192"
  shows "digest_seg iv at ops c0 p m v0 n0 (md5_head at x0 ops v len ctx buf s)"
proof (cases "len = 0")
  case True
  then show ?thesis
    using assms(1,2) by (simp add: md5_head_def digest_seg_def finish_def digest_over_def digest_part_def le_bytes_result)
next
  case False
  show ?thesis
  proof (cases "atc_contains (ac_atc s) v")
    case True
    then show ?thesis using False assms by (simp add: md5_head_def ats_call_def digest_md5_read_seg)
  next
    case notin: False
    let ?va = "v AND NOT (SZ_4K - 1)" and ?la = "len + (v AND (SZ_4K - 1))"
    have b: "unat v + unat len < 2 ^ 64 - 8192" using assms(2,4) by (simp add: digest_part_def)
    have off: "unat (v AND (SZ_4K - 1)) = unat v mod 4096" by (simp add: page_mask unat_page_offset)
    have la: "unat ?la = unat len + unat v mod 4096"
    proof -
      have "unat len + unat v mod 4096 < 2 ^ 64" using b mod_less_eq_dividend [of "unat v" 4096] by linarith
      then show ?thesis by (simp add: unat_word_ariths off)
    qed
    then have "?la \<noteq> 0" using False by (metis add_is_0 unat_0 unat_eq_0)
    moreover have "unat ?va + unat ?la < 2 ^ 64 - 4096" using la page_base_bounds(2) [of v] b by linarith
    ultimately show ?thesis
      using False notin assms page_base_bounds(1) [of v]
      by (simp add: md5_head_def ats_call_def ats_head_def digest_seg_def ats_part_def page_mask)
  qed
qed

lemma digest_ats_return:
  assumes "ats_part iv ops c0 p m v0 n0 (ac_atc s) va la k" "page_reply at p va r" "coherent at p (ac_atc s)"
    and "unat v0 + n0 < 2 ^ 64 - 8192"
  shows "digest_seg iv at ops c0 p m v0 n0 (ats_return at x0 ops r va la k s)"
proof -
  have base: "va AND NOT (SZ_4K - 1) = va" using assms(1) by (simp add: page_mask page_base_same ats_part_def)
  let ?p = "\<lparr>rg_virt = va, rg_phys = ar_addr r, rg_length = SZ_4K, rg_attr = ar_attr r\<rparr>"
  let ?s = "s\<lparr>ac_atc := ac_atc s @ [?p]\<rparr>"
  have b: "unat va + unat la < 2 ^ 64 - 4096" "unat va mod 4096 = 0" using assms(1) by (simp_all add: ats_part_def)
  have pg: "page_region ?p" using b assms(2) by (auto simp: page_region_def page_reply_def)
  then have coh: "coherent at p (ac_atc ?s)"
    using assms(2,3) by (simp add: coherent_def from_table_def page_reply_def)
  have found: "iv \<or> atc_contains (ac_atc ?s) v" if "k = Aa_md5 v len ctx buf" for v len ctx buf
  proof (cases "iv \<or> atc_contains (ac_atc s) v")
    case False
    then have "va = v AND NOT (SZ_4K - 1)" using assms(1) that by (auto simp: ats_part_def page_mask)
    then have "unat v div 4096 = unat va div 4096"
      using same_page [of "unat va" "unat v mod 4096"] b(2) page_base_bounds(2) [of v] by simp
    then have "rg_contains ?p v" by (simp add: page_region_contains [OF pg])
    then show ?thesis by (simp add: atc_contains_iff)
  qed auto
  show ?thesis
  proof (cases "la < SZ_4K")
    case True
    then show ?thesis
      using digest_ats_resume [OF assms(1) coh assms(4) found] assms(2) base
      by (simp add: ats_return_def page_reply_def Let_def)
  next
    case ge: False
    then have l: "4096 \<le> unat la" by (simp add: word_le_nat_alt not_less page_4K)
    then have ul: "unat (la - SZ_4K) = unat la - 4096" using ge by (simp add: unat_sub not_less page_4K)
    have uv: "unat (va + SZ_4K) = unat va + 4096" using b(1) l by (simp add: unat_word_ariths page_4K)
    have r: "ats_return at x0 ops r va la k s = ats_head at x0 ops (va + SZ_4K) (la - SZ_4K) k ?s"
      using assms(2) base ge by (simp add: ats_return_def page_reply_def Let_def)
    show ?thesis
    proof (cases "la - SZ_4K = 0")
      case True
      then show ?thesis unfolding r using digest_ats_resume [OF assms(1) coh assms(4) found] by (simp add: ats_head_def)
    next
      case False
      have "unat (va + SZ_4K) mod 4096 = 0" unfolding uv using b(2) by (metis mod_add_self2)
      then have "ats_part iv ops c0 p m v0 n0 (ac_atc ?s) (va + SZ_4K) (la - SZ_4K) k"
        using assms(1) found False uv ul b l unfolding ats_part_def by (elim conjE exE) (auto simp del: atc_contains_append)
      then show ?thesis unfolding r using False coh by (simp add: ats_head_def digest_seg_def)
    qed
  qed
qed

lemma digest_dma_return:
  assumes "digest_pc iv at ops c0 p m v0 n0 (ac_atc s) (Dma_back tr k)" "coherent at p (ac_atc s)" "hashes_in_pieces ops"
    and "unat v0 + n0 < 2 ^ 64 - 8192"
  shows "digest_seg iv at ops c0 p m v0 n0 (dma_return at x0 ops tr k s)"
proof -
  from assms(1) obtain v len ctx n where k: "k = Ad_md5 v len ctx n" and d: "digest_part ops c0 p m v0 n0 v len ctx" "len \<noteq> 0"
    and n: "unat n = min (unat len) 4096 - unat v mod 4096"
    and bytes: "take (unat n) (gp_data tr) = page_bytes p m v (unat n)"
    and tr: "gp_resp tr = TLM_OK_RESPONSE" "length (gp_data tr) = 4096" by auto
  have mod: "unat v mod 4096 < 4096" by simp
  have pos: "0 < unat len" using d(2) by (simp add: unat_gt_0)
  have le: "unat n \<le> unat len" "unat v mod 4096 \<le> min (unat len) 4096"
    using n d mod by (auto simp: digest_part_def min_def)
  have ul: "unat (len - n) = unat len - unat n" using le by (simp add: unat_sub word_le_nat_alt)
  have lt: "unat v + unat len < 2 ^ 64" using d(1) assms(4) by (simp add: digest_part_def)
  then have uv: "unat (v + n) = unat v + unat n" using le by (simp add: unat_word_ariths)
  have al: "unat (v + n) mod 4096 = 0 \<or> len - n = 0"
  proof (cases "unat len < 4096")
    case True
    then have "unat v mod 4096 = 0" using d by (auto simp: digest_part_def)
    then have "unat n = unat len" using n True by (simp add: min_def)
    then have "n = len" by (simp add: word_unat_eq_iff)
    then show ?thesis by simp
  next
    case ge: False
    have "unat v + (4096 - unat v mod 4096) = 4096 * (unat v div 4096 + 1)"
      using mod by (simp add: minus_mod_eq_mult_div [symmetric])
    then show ?thesis using n ge uv by (simp add: min_def)
  qed
  have v: "v = v0 + of_nat (n0 - unat len)"
  proof -
    have "unat v = unat v0 + (n0 - unat len)" using d(1) by (auto simp: digest_part_def)
    moreover have "unat v0 + (n0 - unat len) < 2 ^ 64" using lt calculation by simp
    ultimately show ?thesis by (simp add: word_unat_eq_iff unat_add_of_nat)
  qed
  have "n0 - unat (len - n) = (n0 - unat len) + unat n" using d(1) ul le by (simp add: digest_part_def)
  then have "page_bytes p m v0 (n0 - unat (len - n)) = page_bytes p m v0 (n0 - unat len) @ page_bytes p m v (unat n)"
    using page_bytes_append [of p m v0 "n0 - unat len" "unat n"] v by simp
  then have "digest_part ops c0 p m v0 n0 (v + n) (len - n) (md5_update ops ctx (page_bytes p m v (unat n)))"
    using d(1) uv ul le al assms(3) by (auto simp: digest_part_def hashes_in_pieces_def)
  from digest_md5_head [OF assms(2) this tr(2) assms(4)] show ?thesis
    by (simp add: dma_return_def tr k bytes)
qed

section \<open>Every interleaving\<close>

text \<open>The state while the digest is computed, and afterwards.\<close>

definition digest_state ::
  "bool \<Rightarrow> ats_attrs \<Rightarrow> 'c md5_ops \<Rightarrow> 'c \<Rightarrow> ('w \<Rightarrow> bytes_memory) \<Rightarrow> ('w \<Rightarrow> u64 \<Rightarrow> u64) \<Rightarrow> (u64 \<Rightarrow> u64) \<Rightarrow> bytes_memory
     \<Rightarrow> u64 \<Rightarrow> nat \<Rightarrow> acc \<times> 'c threads \<times> 'w \<Rightarrow> bool" where
  "digest_state iv at ops c0 mem pt p m v0 n0 = (\<lambda>(s, P, w).
     mem w = m \<and> pt w = p \<and> ac_events s = [] \<and> (\<forall>e. e \<noteq> Md5_req \<longrightarrow> P e = Idle) \<and> coherent at p (ac_atc s) \<and>
     digest_pc iv at ops c0 p m v0 n0 (ac_atc s) (P Md5_req) \<and>
     (if P Md5_req = Idle then digest_over iv ops c0 p m v0 n0 s else ar_status (ac_regs s) = 0))"

lemma ats_part_invalidate:
  "ats_part True ops c0 p m v0 n0 rs va la k \<Longrightarrow> ats_part True ops c0 p m v0 n0 rs' va la k"
  by (auto simp: ats_part_def)

lemma digest_pc_invalidate:
  "digest_pc True at ops c0 p m v0 n0 rs q \<Longrightarrow> digest_pc True at ops c0 p m v0 n0 rs' q"
  by (cases q) (auto intro: ats_part_invalidate)

lemma digest_busy_step:
  assumes "serves_pages at ats mem pt" "reads_memory dma mem" "hashes_in_pieces ops" "unat v0 + n0 < 2 ^ 64 - 8192"
    and "digest_pc iv at ops c0 (pt w) (mem w) v0 n0 (ac_atc s) q" "coherent at (pt w) (ac_atc s)" "q \<noteq> Idle"
  shows "\<exists>s' q' w'. busy_step at x0 ats dma ops q (s, w) = Inr (s', q', w') \<and> mem w' = mem w \<and> pt w' = pt w \<and>
    digest_seg iv at ops c0 (pt w) (mem w) v0 n0 (Inr (s', q'))"
proof (cases q)
  case (In_ats va la k)
  obtain r w' where r: "ats va (ATTR_WRITE at OR ATTR_READ at OR ATTR_EXEC at) w = (r, w')" by force
  have part: "ats_part iv ops c0 (pt w) (mem w) v0 n0 (ac_atc s) va la k" using assms(5) In_ats by simp
  then have "va AND NOT (mask 12) = va" by (simp add: page_base_same ats_part_def)
  then have "page_reply at (pt w) va r" "mem w' = mem w" "pt w' = pt w"
    using assms(1) r unfolding serves_pages_def page_agent_def page_reply_def by (metis fst_conv snd_conv)+
  then show ?thesis using In_ats r part assms(6) by (simp add: digest_seg_def)
next
  case (Ats_back r va la k)
  then have "digest_seg iv at ops c0 (pt w) (mem w) v0 n0 (ats_return at x0 ops r va la k s)"
    using assms(4-6) by (intro digest_ats_return) simp_all
  then show ?thesis using Ats_back by (auto simp: digest_seg_def)
next
  case (In_dma tr k)
  then have tr: "gp_cmd tr = TLM_READ_COMMAND" "gp_byte_en tr = None" "length (gp_data tr) = 4096" using assms(5) by auto
  then have "dma tr 0 w = Inr (tr\<lparr>gp_data := poke (gp_len tr) (mem_read (mem w) (gp_addr tr) (gp_len tr)) (gp_data tr),
                         gp_resp := TLM_OK_RESPONSE\<rparr>, 0, w)"
    using assms(2) by (simp add: reads_memory_def)
  moreover have "gp_len tr \<le> 4096" using assms(5) In_dma by auto
  ultimately show ?thesis using In_dma assms(5,6) tr by (auto simp: digest_seg_def)
next
  case (Dma_back tr k)
  then have "digest_seg iv at ops c0 (pt w) (mem w) v0 n0 (dma_return at x0 ops tr k s)"
    using assms(3-6) by (intro digest_dma_return) simp_all
  then show ?thesis using Dma_back by (auto simp: digest_seg_def)
qed (use assms(7) in simp)

lemma digest_step:
  assumes "serves_pages at ats mem pt" "reads_memory dma mem" "hashes_in_pieces ops" "unat v0 + n0 < 2 ^ 64 - 8192"
    and "digest_state iv at ops c0 mem pt p m v0 n0 st" "digest_env iv a"
  shows "\<exists>st'. sys_step at x0 ats dma ops a st = Inr st' \<and> digest_state iv at ops c0 mem pt p m v0 n0 st'"
proof -
  obtain s P w where st: "st = (s, P, w)" by (cases st)
  note inv = assms(5) [unfolded st digest_state_def prod.case]
  show ?thesis
  proof (cases a)
    case (Host n tr)
    obtain tr' d' s' where b: "bar_b_transport n tr 0 s = Inr (tr', d', s')" using bar_total by blast
    have env: "digest_env iv (Host n tr)" using assms(6) Host by simp
    note e = bar_env [OF b env]
    have "drop_missed P s' = s'" using e inv by (simp add: drop_missed_def)
    then show ?thesis
      using Host b e inv by (auto simp: st digest_state_def digest_over_def)
  next
    case (Inval tr)
    then have iv: "iv" using assms(6) by simp
    obtain tr' d' s' where b: "b_transport_ats_inv tr 0 s = Inr (tr', d', s')" by (auto simp: b_transport_ats_inv_def)
    note e = ats_inv_env [OF b]
    have "digest_pc iv at ops c0 p m v0 n0 (ac_atc s') (P Md5_req)"
      using inv iv digest_pc_invalidate by auto
    then show ?thesis
      using Inval b e inv by (auto simp: st digest_state_def digest_over_def)
  next
    case (Thread e)
    show ?thesis
    proof (cases "e = Md5_req \<and> P e \<noteq> Idle")
      case False
      then have "P e = Idle" using inv by blast
      then show ?thesis using Thread inv assms(5) by (simp add: st)
    next
      case True
      have "digest_pc iv at ops c0 (pt w) (mem w) v0 n0 (ac_atc s) (P e)" "coherent at (pt w) (ac_atc s)" "P e \<noteq> Idle"
        using inv True by auto
      from digest_busy_step [OF assms(1-4) this] obtain s' q w' where
        b: "busy_step at x0 ats dma ops (P e) (s, w) = Inr (s', q, w')" "mem w' = mem w" "pt w' = pt w"
          "digest_seg iv at ops c0 (pt w) (mem w) v0 n0 (Inr (s', q))" by blast
      have k: "ac_events s' = ac_events s" "q \<noteq> Idle \<Longrightarrow> ac_regs s' = ac_regs s"
        using keeps_busy_step [OF b(1)] True by (auto simp: keeps_regs_def)
      have "sys_step at x0 ats dma ops a st = Inr (s', P(e := q), w')" using Thread conjunct2 [OF True] b(1) by (simp add: st)
      moreover have "digest_state iv at ops c0 mem pt p m v0 n0 (s', P(e := q), w')"
        using inv True b(2-4) k by (auto simp: digest_state_def digest_seg_def)
      ultimately show ?thesis by blast
    qed
  qed
qed

lemma digest_reaches:
  assumes "reaches at x0 ats dma ops (digest_env iv) st r"
    and "serves_pages at ats mem pt" "reads_memory dma mem" "hashes_in_pieces ops" "unat v0 + n0 < 2 ^ 64 - 8192"
    and "digest_state iv at ops c0 mem pt p m v0 n0 st"
  shows "\<exists>st'. r = Inr st' \<and> digest_state iv at ops c0 mem pt p m v0 n0 st'"
  by (rule reach_invariant_safe [OF assms(1,6) digest_step [OF assms(2-5)]])

lemma digest_start:
  assumes "coherent at (pt w) (ac_atc s)" "hashes_in_pieces ops" "md5_init ops = Some c0"
    and "v = acc_virt_addr (ac_regs s)" "n = unat (ar_len (ac_regs s))"
    and "unat v + n < 2 ^ 64 - 8192" "unat v mod 4096 = 0 \<or> 4096 \<le> n \<or> n = 0"
    and "ac_events s = [Md5_req]" "ar_status (ac_regs s) = 0"
  shows "\<exists>st. sys_step at x0 ats dma ops (Thread Md5_req) (s, \<lambda>_. Idle, w) = Inr st \<and>
    digest_state iv at ops c0 mem pt (pt w) (mem w) v n st"
proof -
  let ?s = "s\<lparr>ac_events := []\<rparr>" and ?len = "ucast (ar_len (ac_regs s)) :: u64"
  have len: "unat ?len = n" using assms(5) by (simp add: unat_ucast32)
  then have "digest_part ops c0 (pt w) (mem w) v n v ?len c0"
    using assms(2,7) by (auto simp: digest_part_def page_bytes_def hashes_in_pieces_def unat_eq_0)
  then have seg: "digest_seg iv at ops c0 (pt w) (mem w) v n (start_seg at x0 ops Md5_req ?s)"
    using digest_md5_head [of at "pt w" ?s ops c0 "mem w" v n v ?len c0 "replicate 4096 0" iv x0] assms(1,3,4,6) by simp
  then obtain s' q where g: "start_seg at x0 ops Md5_req ?s = Inr (s', q)" "coherent at (pt w) (ac_atc s')"
    "digest_pc iv at ops c0 (pt w) (mem w) v n (ac_atc s') q" "q = Idle \<longrightarrow> digest_over iv ops c0 (pt w) (mem w) v n s'"
    unfolding digest_seg_def by blast
  have "ac_events s' = []" "q \<noteq> Idle \<Longrightarrow> ac_regs s' = ac_regs s"
    using keeps_start_seg [of ?s at x0 ops Md5_req] g(1) by (auto simp: keeps_regs_def)
  then show ?thesis using g assms(8,9) by (auto simp: digest_state_def simp del: start_seg.simps)
qed



section \<open>A translation that is invalidated while the next one is requested\<close>

lemma sys_run_thread:
  "P e \<noteq> Idle \<Longrightarrow> sys_run at x0 ats dma ops (Thread e # as) (s, P, w) =
     res_bind (busy_step at x0 ats dma ops (P e) (s, w)) (\<lambda>(s', q, w'). sys_run at x0 ats dma ops as (s', P(e := q), w'))"
  by (cases "busy_step at x0 ats dma ops (P e) (s, w)") auto

lemma sys_run_inval:
  "sys_run at x0 ats dma ops (Inval tr # as) (s, P, w) = sys_run at x0 ats dma ops as
     ((case gp_atsattr tr of None \<Rightarrow> s | Some x \<Rightarrow> s\<lparr>ac_atc := atc_invalidate (gp_addr tr) (ats_length x) (ac_atc s)\<rparr>), P, w)"
  by (simp add: b_transport_ats_inv_def)

text \<open>A request and its reply.\<close>

lemma two_steps:
  assumes "P e = In_ats va la k" "ats va (ATTR_WRITE at OR ATTR_READ at OR ATTR_EXEC at) w = (r, w')"
  shows "sys_run at x0 ats dma ops (Thread e # Thread e # as) (s, P, w) =
    res_bind (ats_return at x0 ops r va la k s) (\<lambda>(s', q). sys_run at x0 ats dma ops as (s', P(e := q), w'))"
  using assms by (cases "ats_return at x0 ops r va la k s") (auto simp: sys_run_thread simp del: run_acts.simps(2))

lemma serves_reply:
  assumes "serves_pages at ats mem pt" "unat va mod 4096 = 0"
  shows "\<exists>r w'. ats va (ATTR_WRITE at OR ATTR_READ at OR ATTR_EXEC at) w = (r, w') \<and> page_reply at (pt w) va r \<and>
    mem w' = mem w \<and> pt w' = pt w"
proof -
  have "va AND NOT (mask 12) = va" using assms(2) by (rule page_base_same)
  then show ?thesis
    using assms(1) unfolding serves_pages_def page_agent_def page_reply_def by (metis prod.collapse)
qed

lemma invalidated_page:
  assumes "unat va mod 4096 = 0" "unat va + 4096 < 2 ^ 64"
  shows "ac \<in> set (atc_invalidate va SZ_4K (rs @ [\<lparr>rg_virt = va, rg_phys = a, rg_length = l, rg_attr = x\<rparr>])) \<Longrightarrow> ac \<in> set rs"
  using assms by (auto simp: atc_invalidate_def in_range_nat page_4K)

lemma two_page_race:
  assumes "serves_pages at ats mem pt" "P e = In_ats va la k" "unat va mod 4096 = 0"
    and "4096 < unat la" "unat la \<le> 8192" "unat va + 16384 < 2 ^ 64"
    and "\<not> atc_contains (ac_atc s) v" "va = v AND NOT (SZ_4K - 1)"
    and "gp_atsattr tr = Some x" "gp_addr tr = va" "ats_length x = SZ_4K"
  shows "\<exists>s2 w2. sys_run at x0 ats dma ops [Thread e, Thread e, Inval tr, Thread e, Thread e] (s, P, w) =
      res_bind (ats_resume at x0 ops k s2) (\<lambda>(s', q). Inr (s', P(e := q), w2)) \<and>
    ac_regs s2 = ac_regs s \<and> ac_events s2 = ac_events s \<and> \<not> atc_contains (ac_atc s2) v \<and> mem w2 = mem w \<and> pt w2 = pt w"
proof -
  obtain r1 w1 where r1: "ats va (ATTR_WRITE at OR ATTR_READ at OR ATTR_EXEC at) w = (r1, w1)" "page_reply at (pt w) va r1"
    "mem w1 = mem w" "pt w1 = pt w" using serves_reply [OF assms(1,3)] by blast
  let ?va = "va + SZ_4K" and ?la = "la - SZ_4K"
  have base: "va AND NOT (SZ_4K - 1) = va" using assms(3) by (simp add: page_mask page_base_same)
  have uv: "unat ?va = unat va + 4096" using assms(6) by (simp add: unat_word_ariths page_4K)
  then have al: "unat ?va mod 4096 = 0" using assms(3) by simp
  have ul: "unat ?la = unat la - 4096" using assms(4) by (simp add: unat_sub page_4K word_le_nat_alt)
  then have la0: "?la \<noteq> 0" "\<not> la < SZ_4K" using assms(4) by (auto simp: word_less_nat_alt page_4K)
  let ?s1 = "s\<lparr>ac_atc := ac_atc s @ [\<lparr>rg_virt = va, rg_phys = ar_addr r1, rg_length = SZ_4K, rg_attr = ar_attr r1\<rparr>]\<rparr>"
  have ret1: "ats_return at x0 ops r1 va la k s = Inr (?s1, In_ats ?va ?la k)"
    using r1(2) la0 base by (simp add: ats_return_def ats_head_def page_reply_def Let_def)
  let ?s2 = "?s1\<lparr>ac_atc := atc_invalidate va SZ_4K (ac_atc ?s1)\<rparr>"
  obtain r2 w2 where r2: "ats ?va (ATTR_WRITE at OR ATTR_READ at OR ATTR_EXEC at) w1 = (r2, w2)" "page_reply at (pt w1) ?va r2"
    "mem w2 = mem w1" "pt w2 = pt w1" using serves_reply [OF assms(1) al] by blast
  have base2: "?va AND NOT (SZ_4K - 1) = ?va" using al by (simp add: page_mask page_base_same)
  let ?p2 = "\<lparr>rg_virt = ?va, rg_phys = ar_addr r2, rg_length = SZ_4K, rg_attr = ar_attr r2\<rparr>"
  let ?s3 = "?s2\<lparr>ac_atc := ac_atc ?s2 @ [?p2]\<rparr>"
  have "?la = SZ_4K \<or> ?la < SZ_4K" using ul assms(5) by (auto simp: word_less_nat_alt word_unat_eq_iff page_4K)
  then have ret2: "ats_return at x0 ops r2 ?va ?la k ?s2 = ats_resume at x0 ops k ?s3"
    using r2(2) base2 by (auto simp: ats_return_def ats_head_def page_reply_def Let_def)
  have "sys_run at x0 ats dma ops [Thread e, Thread e, Inval tr, Thread e, Thread e] (s, P, w) =
      sys_run at x0 ats dma ops [Thread e, Thread e] (?s2, P(e := In_ats ?va ?la k), w1)"
    by (simp only: two_steps [of P e va la k ats at w r1 w1, OF assms(2) r1(1)] ret1 res_bind_simps prod.case sys_run_inval assms(9-11) option.case)
  also have "\<dots> = res_bind (ats_resume at x0 ops k ?s3) (\<lambda>(s', q). Inr (s', P(e := q), w2))"
    using two_steps [of "P(e := In_ats ?va ?la k)" e ?va ?la k ats at w1 r2 w2 x0 dma ops "[]" ?s2] r2(1)
    by (simp only: ret2 fun_upd_same fun_upd_upd run_acts.simps(1))
  finally have run: "sys_run at x0 ats dma ops [Thread e, Thread e, Inval tr, Thread e, Thread e] (s, P, w) =
    res_bind (ats_resume at x0 ops k ?s3) (\<lambda>(s', q). Inr (s', P(e := q), w2))" .
  have "\<not> rg_contains ?p2 v"
  proof -
    have "unat v < unat va + 4096" using page_base_bounds(2) [of v] assms(8) mod_less_divisor [of 4096 "unat v"] by simp
    then show ?thesis using uv by (simp add: rg_contains_def word_le_nat_alt)
  qed
  then have "\<not> atc_contains (ac_atc ?s3) v"
    using assms(3,6,7) invalidated_page [of va _ "ac_atc s"] by (auto simp: atc_contains_iff)
  then show ?thesis using run r1(3,4) r2(3,4) by (intro exI [of _ ?s3] exI [of _ w2]) simp
qed

text \<open>
  Property C21: a command of one thread on a range that takes two translations, with the first page
  invalidated between the reply for it and the reply for the second: the table still translates
  every address, but the access is left out.  A read or a write is nevertheless reported with
  \<open>R_STATUS_DONE\<close> alone, with the value register and the memory as they were; the MD5 thread
  reports an error.
\<close>

theorem invalidation_between_requests_skips_access:
  assumes "serves_pages at ats mem pt" "e \<noteq> Ats_req" "ac_events s = [e]" "md5_init ops \<noteq> None"
    and "v = acc_virt_addr (ac_regs s)" "n = (if e = Md5_req then unat (ar_len (ac_regs s)) else 4096)"
    and "4096 < n + unat v mod 4096" "n + unat v mod 4096 \<le> 8192" "unat v + 16384 < 2 ^ 64"
    and "\<not> atc_contains (ac_atc s) v"
    and "gp_atsattr tr = Some x" "gp_addr tr = v AND NOT (SZ_4K - 1)" "ats_length x = SZ_4K"
  shows "\<exists>s' w'. sys_run at x0 ats dma ops [Thread e, Thread e, Thread e, Inval tr, Thread e, Thread e] (s, \<lambda>_. Idle, w) =
      Inr (s', \<lambda>_. Idle, w') \<and> mem w' = mem w \<and> pt w' = pt w \<and>
    ac_regs s' = (ac_regs s)\<lparr>ar_status := if e = Md5_req then R_STATUS_ERR OR R_STATUS_DONE else R_STATUS_DONE\<rparr>"
proof -
  let ?s = "s\<lparr>ac_events := []\<rparr>" and ?va = "v AND NOT (SZ_4K - 1)"
  let ?len = "if e = Md5_req then ucast (ar_len (ac_regs s)) else SZ_4K :: u64"
  let ?la = "?len + (v AND (SZ_4K - 1))"
  have off: "unat (v AND (SZ_4K - 1)) = unat v mod 4096" by (simp add: page_mask unat_page_offset)
  have len: "unat ?len = n" using assms(6) by (simp add: unat_ucast32 page_4K)
  then have la: "unat ?la = n + unat v mod 4096" using assms(8) by (simp add: unat_word_ariths off)
  then have "0 < unat ?la" using assms(7) by linarith
  then have la0: "?la \<noteq> 0" by (rule unat_gt_0 [THEN iffD1])
  have len0: "?len \<noteq> 0"
  proof
    assume "?len = 0"
    then have "n = 0" using len by (simp only: unat_0)
    then show False using assms(7) mod_less_divisor [of 4096 "unat v"] by simp
  qed
  obtain k where start: "start_seg at x0 ops e ?s = Inr (?s, In_ats ?va ?la k)"
    and k: "\<And>s2. ac_regs s2 = ac_regs s \<Longrightarrow> \<not> atc_contains (ac_atc s2) v \<Longrightarrow> ats_resume at x0 ops k s2 =
      Inr (finish (if e = Md5_req then R_STATUS_ERR OR R_STATUS_DONE else R_STATUS_DONE) s2)"
  proof (cases e)
    case Md5_req
    obtain c0 where "md5_init ops = Some c0" using assms(4) by blast
    then show ?thesis
      using that [of "Aa_md5 v ?len c0 (replicate 4096 0)"] Md5_req assms(5,10) la0 len0 atc_test_attr_contains
      by (fastforce simp: md5_head_def ats_call_def ats_head_def md5_read_seg_def)
  next
    case Read_req
    then show ?thesis
      using that [of "Aa_read v"] assms(5,10) la0 atc_test_attr_contains by (fastforce simp: ats_call_def ats_head_def)
  next
    case Write_req
    then show ?thesis
      using that [of "Aa_write v"] assms(5,10) la0 atc_test_attr_contains by (fastforce simp: ats_call_def ats_head_def)
  qed (use assms(2) in simp)
  have "unat ?va \<le> unat v" using page_base_bounds(2) [of v] by linarith
  then obtain s2 w2 where run: "sys_run at x0 ats dma ops [Thread e, Thread e, Inval tr, Thread e, Thread e]
      (?s, (\<lambda>_. Idle)(e := In_ats ?va ?la k), w) =
      res_bind (ats_resume at x0 ops k s2) (\<lambda>(s', q). Inr (s', ((\<lambda>_. Idle)(e := In_ats ?va ?la k))(e := q), w2))"
    "ac_regs s2 = ac_regs s" "\<not> atc_contains (ac_atc s2) v" "mem w2 = mem w" "pt w2 = pt w"
    using two_page_race [OF assms(1), of "(\<lambda>_. Idle)(e := In_ats ?va ?la k)" e ?va ?la k ?s v tr x x0 dma ops w]
      page_base_bounds(1) [of v] la assms(7-13) by auto
  have idle: "(\<lambda>_. Idle)(e := Idle) = (\<lambda>_. Idle)" by auto
  have "sys_run at x0 ats dma ops [Thread e, Thread e, Thread e, Inval tr, Thread e, Thread e] (s, \<lambda>_. Idle, w) =
      sys_run at x0 ats dma ops [Thread e, Thread e, Inval tr, Thread e, Thread e] (?s, (\<lambda>_. Idle)(e := In_ats ?va ?la k), w)"
    by (subst run_acts.simps(2)) (simp add: assms(3) start del: run_acts.simps start_seg.simps)
  then show ?thesis
    unfolding run(1) k [OF run(2,3)] using run(2,4,5) idle by (simp add: finish_def set_status_def)
qed

theorem invalidation_between_requests_skips_access_witness:
  "\<exists>s' w'. sys_run ex_at ex_x0 ex_ram_agent ex_ram \<lparr>md5_init = Some [], md5_update = (@), md5_final = (\<lambda>c. c)\<rparr>
      [Thread Write_req, Thread Write_req, Thread Write_req,
       Inval ((mk_gp TLM_IGNORE_COMMAND 0 [] 0)\<lparr>gp_atsattr := Some (ex_x0\<lparr>ats_length := 0x1000\<rparr>)\<rparr>), Thread Write_req, Thread Write_req]
      (acc_new\<lparr>ac_regs := (ac_regs acc_new)\<lparr>ar_addr_lsb := 0x10, ar_value := 9\<rparr>, ac_events := [Write_req]\<rparr>, \<lambda>_. Idle, \<lambda>_. 0) =
    Inr (s', \<lambda>_. Idle, w') \<and> w' = (\<lambda>_. 0) \<and> ar_status (ac_regs s') = R_STATUS_DONE"
proof -
  let ?ops = "\<lparr>md5_init = Some [], md5_update = (@), md5_final = (\<lambda>c. c)\<rparr> :: u8 list md5_ops"
  let ?s = "acc_new\<lparr>ac_regs := (ac_regs acc_new)\<lparr>ar_addr_lsb := 0x10, ar_value := 9\<rparr>, ac_events := [Write_req]\<rparr>"
  let ?tr = "(mk_gp TLM_IGNORE_COMMAND 0 [] 0)\<lparr>gp_atsattr := Some (ex_x0\<lparr>ats_length := 0x1000\<rparr>)\<rparr>"
  have a: "Write_req \<noteq> Ats_req" "ac_events ?s = [Write_req]" "md5_init ?ops \<noteq> None" "0x10 = acc_virt_addr (ac_regs ?s)"
    "4096 = (if Write_req = Md5_req then unat (ar_len (ac_regs ?s)) else 4096)"
    "4096 < 4096 + unat (0x10 :: u64) mod 4096" "4096 + unat (0x10 :: u64) mod 4096 \<le> 8192" "unat (0x10 :: u64) + 16384 < 2 ^ 64"
    "\<not> atc_contains (ac_atc ?s) 0x10" "gp_atsattr ?tr = Some (ex_x0\<lparr>ats_length := 0x1000\<rparr>)"
    "gp_addr ?tr = 0x10 AND NOT (SZ_4K - 1)" "ats_length (ex_x0\<lparr>ats_length := 0x1000\<rparr>) = SZ_4K"
    by (simp_all add: acc_virt_addr_def acc_new_def atc_contains_def SZ_4K_def mk_gp_def)
  from invalidation_between_requests_skips_access [OF ex_ram_surroundings(1) a, of ex_x0 ex_ram "\<lambda>_. 0"]
  show ?thesis by (auto simp del: run_acts.simps)
qed

section \<open>Commands that are lost\<close>

text \<open>Only threads at their \<open>wait\<close> are notified, and each once.\<close>

definition notified_ok :: "acc \<Rightarrow> 'c threads \<Rightarrow> bool" where
  "notified_ok s P \<longleftrightarrow> (\<forall>e \<in> set (ac_events s). P e = Idle) \<and> distinct (ac_events s)"

lemma notified_step:
  assumes "notified_ok s P" "sys_step at x0 ats dma ops a (s, P, w) = Inr (s', P', w')"
  shows "notified_ok s' P'"
proof (cases a)
  case (Host n tr)
  obtain tr' d' s1 where bar: "bar_b_transport n tr 0 s = Inr (tr', d', s1)" using bar_total by blast
  then have s1: "s' = drop_missed P s1" "P' = P" using assms(2) Host by auto
  note b = bar_cases [OF bar]
  have "distinct (ac_events s1)"
    using b assms(1) by (auto simp: acc_write_def Let_def acc_notify_def ctrl_event_def notified_ok_def)
  then show ?thesis unfolding s1 by (simp add: notified_ok_def drop_missed_def)
next
  case (Inval tr)
  then show ?thesis using assms by (auto simp: b_transport_ats_inv_def notified_ok_def split: option.splits)
next
  case (Thread e)
  show ?thesis
  proof (cases "P e = Idle")
    case True
    show ?thesis
    proof (cases "e \<in> set (ac_events s)")
      case notified: True
      let ?s = "s\<lparr>ac_events := removeAll e (ac_events s)\<rparr>"
      obtain q where "start_seg at x0 ops e ?s = Inr (s', q)" "P' = P(e := q)"
        using assms(2) Thread True notified by (auto simp: res_bind_eq_Inr simp del: start_seg.simps)
      moreover have "ac_events s' = removeAll e (ac_events s)"
        using keeps_start_seg [of ?s at x0 ops e] calculation(1) by (simp add: keeps_regs_def)
      ultimately show ?thesis using assms(1) by (simp add: notified_ok_def distinct_removeAll)
    qed (use Thread True assms in simp)
  next
    case False
    then obtain q where b: "busy_step at x0 ats dma ops (P e) (s, w) = Inr (s', q, w')" "P' = P(e := q)"
      using assms(2) Thread by (auto simp: res_bind_eq_Inr)
    have "ac_events s' = ac_events s" using keeps_busy_step [OF b(1) False] by (simp add: keeps_regs_def)
    then show ?thesis using assms(1) False b(2) by (auto simp: notified_ok_def)
  qed
qed

lemma drop_missed_busy:
  "P e \<noteq> Idle \<Longrightarrow> filter (\<lambda>e. P e = Idle) (ac_events s) = ac_events s \<Longrightarrow>
     drop_missed P (s\<lparr>ac_events := ac_events s @ [e]\<rparr>) = s"
  by (cases s) (simp add: drop_missed_def)

lemma notified_reaches:
  assumes "reaches at x0 ats dma ops A st (Inr (s', P', w'))" "notified_ok (fst st) (fst (snd st))"
  shows "notified_ok s' P'"
proof -
  let ?I = "\<lambda>r. case r of Inl e \<Rightarrow> True | Inr (s, P, w) \<Rightarrow> notified_ok s P"
  have "?I (sys_step at x0 ats dma ops a st)" if "?I (Inr st)" for st a
  proof (cases st)
    case (fields s P w)
    then show ?thesis
      using notified_step [of s P at x0 ats dma ops a w] that
      by (cases "sys_step at x0 ats dma ops a st") (auto simp del: sys_step.simps)
  qed
  moreover have "?I (Inr st)" using assms(2) by (auto split: prod.split)
  ultimately show ?thesis using reach_invariant [where I = ?I, OF assms(1)] by simp
qed

text \<open>
  Property C22: in every state the accelerator can reach from reset, whatever the host, the
  invalidation port and the threads have done, a command for a thread that is inside a call is
  answered with \<open>TLM_OK_RESPONSE\<close> and lost: nothing of the accelerator changes, so the thread does
  not run again for it.  A command for a thread that waits is not lost: the thread is notified.
\<close>

theorem command_for_busy_thread_is_lost:
  assumes "reaches at x0 ats dma ops (\<lambda>_. True) (acc_new, \<lambda>_. Idle, w) (Inr (s, P, w'))"
    and "ctrl_event v = [e]" "tr = mk_gp TLM_WRITE_COMMAND 0 (le_bytes 4 v) 4"
  shows "\<exists>s1. bar_b_transport n tr 0 s = Inr (tr\<lparr>gp_resp := TLM_OK_RESPONSE\<rparr>, 0, s1) \<and>
    (if P e \<noteq> Idle then sys_step at x0 ats dma ops (Host n tr) (s, P, w') = Inr (s, P, w')
     else \<exists>s'. sys_step at x0 ats dma ops (Host n tr) (s, P, w') = Inr (s', P, w') \<and> e \<in> set (ac_events s') \<and>
       ac_regs s' = ac_regs s)"
proof -
  have ok: "notified_ok s P"
    by (rule notified_reaches [OF assms(1)]) (simp add: notified_ok_def acc_new_def)
  have b: "bar_b_transport n tr 0 s = Inr (tr\<lparr>gp_resp := TLM_OK_RESPONSE\<rparr>, 0, acc_write 0 v s)"
    by (simp add: assms(3) bar_b_transport_def)
  have w: "acc_write 0 v s = s\<lparr>ac_events := acc_notify (ac_events s) [e]\<rparr>"
    by (simp add: acc_write_def assms(2))
  have idle: "filter (\<lambda>e. P e = Idle) (ac_events s) = ac_events s"
    using ok by (auto simp: notified_ok_def intro: filter_True)
  show ?thesis
  proof (cases "P e = Idle")
    case True
    have "sys_step at x0 ats dma ops (Host n tr) (s, P, w') = Inr (drop_missed P (acc_write 0 v s), P, w')"
      by (simp add: b)
    moreover have "e \<in> set (ac_events (drop_missed P (acc_write 0 v s)))" "ac_regs (drop_missed P (acc_write 0 v s)) = ac_regs s"
      using True by (auto simp: w drop_missed_def acc_notify_def)
    ultimately have "\<exists>s'. sys_step at x0 ats dma ops (Host n tr) (s, P, w') = Inr (s', P, w') \<and> e \<in> set (ac_events s') \<and>
       ac_regs s' = ac_regs s"
      by (intro exI conjI)
    then show ?thesis using b True by (intro exI [of _ "acc_write 0 v s"]) (simp only: if_False not_True_eq_False simp_thms)
  next
    case False
    then have "e \<notin> set (ac_events s)" using ok by (auto simp: notified_ok_def)
    then have "acc_write 0 v s = s\<lparr>ac_events := ac_events s @ [e]\<rparr>" by (simp add: w acc_notify_def)
    then have "drop_missed P (acc_write 0 v s) = s" using drop_missed_busy [OF False idle] by (simp only:)
    then have "sys_step at x0 ats dma ops (Host n tr) (s, P, w') = Inr (s, P, w')"
      by (simp only: sys_step.simps b res_bind_simps prod.case)
    then show ?thesis using b False by simp
  qed
qed

theorem command_for_busy_thread_is_lost_witness:
  "\<exists>s P w'. sys_run ex_at ex_x0 ex_ram_agent ex_ram \<lparr>md5_init = Some [], md5_update = (@), md5_final = (\<lambda>c. c)\<rparr>
      [Host 0 (mk_gp TLM_WRITE_COMMAND 0 [2, 0, 0, 0] 4), Thread Read_req] (acc_new, \<lambda>_. Idle, \<lambda>_. 0) = Inr (s, P, w') \<and>
    P Read_req \<noteq> Idle \<and>
    sys_step ex_at ex_x0 ex_ram_agent ex_ram \<lparr>md5_init = Some [], md5_update = (@), md5_final = (\<lambda>c. c)\<rparr>
      (Host 0 (mk_gp TLM_WRITE_COMMAND 0 (le_bytes 4 (2 :: u32)) 4)) (s, P, w') = Inr (s, P, w')"
proof -
  let ?ops = "\<lparr>md5_init = Some [], md5_update = (@), md5_final = (\<lambda>c. c)\<rparr> :: u8 list md5_ops"
  let ?as = "[Host 0 (mk_gp TLM_WRITE_COMMAND 0 [2, 0, 0, 0] 4), Thread Read_req]"
  have "\<exists>s P w'. sys_run ex_at ex_x0 ex_ram_agent ex_ram ?ops ?as (acc_new, \<lambda>_. Idle, \<lambda>_. 0) = Inr (s, P, w') \<and> P Read_req \<noteq> Idle"
    by (simp add: step_simps host_simps ctrl_event_def acc_notify_def)
  then obtain s P w' where r: "sys_run ex_at ex_x0 ex_ram_agent ex_ram ?ops ?as (acc_new, \<lambda>_. Idle, \<lambda>_. 0) = Inr (s, P, w')"
    "P Read_req \<noteq> Idle" by blast
  have "reaches ex_at ex_x0 ex_ram_agent ex_ram ?ops (\<lambda>_. True) (acc_new, \<lambda>_. Idle, \<lambda>_. 0) (Inr (s, P, w'))"
    unfolding r(1) [symmetric] by (rule run_acts_reach) simp
  moreover have "ctrl_event 2 = [Read_req]" by (simp add: ctrl_event_def)
  ultimately show ?thesis
    using command_for_busy_thread_is_lost [OF _ _ refl, of ex_at ex_x0 ex_ram_agent ex_ram ?ops "\<lambda>_. 0" s P w' 2 Read_req 0] r
    by auto
qed

section \<open>An access after its translation has been invalidated\<close>

text \<open>
  The invalidation is acknowledged at once, also when a thread has already looked the address up:
  the write reaches the old page afterwards.
\<close>

lemma write_after_invalidation:
  assumes "stores_memory dma mem pt" "coherent at (pt w) (ac_atc s)" "atc_contains (ac_atc s) v"
    and "v = acc_virt_addr (ac_regs s)" "ac_events s = [Write_req]"
  shows "\<exists>st w'. sys_run at x0 ats dma ops [Thread Write_req, Inval tr, Thread Write_req] (s, \<lambda>_. Idle, w) = Inr st \<and>
    snd (snd st) = w' \<and> mem w' = mem_write (mem w) (page_phys (pt w) v) (le_bytes 4 (ar_value (ac_regs s)))"
proof -
  note l = coherent_lookup [OF assms(2,3)]
  let ?tr = "phys_gp at x0 TLM_WRITE_COMMAND (page_phys (pt w) v) (le_bytes 4 (ar_value (ac_regs s))) 4"
  have tr: "gp_cmd ?tr = TLM_WRITE_COMMAND" "gp_byte_en ?tr = None" by (simp_all add: phys_gp_def)
  obtain w' where w': "dma ?tr 0 w = Inr (?tr\<lparr>gp_resp := TLM_OK_RESPONSE\<rparr>, 0, w')"
      "mem w' = mem_write (mem w) (gp_addr ?tr) (take (gp_len ?tr) (gp_data ?tr))"
    using assms(1) tr unfolding stores_memory_def by blast
  have "ats_call at x0 ops v SZ_4K (Aa_write v) (s\<lparr>ac_events := []\<rparr>) = Inr (s\<lparr>ac_events := []\<rparr>, In_dma ?tr Ad_write)"
    using l assms(3) by (simp add: ats_call_def)
  then have "sys_run at x0 ats dma ops [Thread Write_req, Inval tr, Thread Write_req] (s, \<lambda>_. Idle, w) =
      sys_run at x0 ats dma ops [Inval tr, Thread Write_req] (s\<lparr>ac_events := []\<rparr>, (\<lambda>_. Idle)(Write_req := In_dma ?tr Ad_write), w)"
    using assms(4,5) by (subst run_acts.simps(2)) (simp del: run_acts.simps)
  then show ?thesis
    using w' by (simp only: sys_run_inval) (simp add: phys_gp_def)
qed

end
