(* ===== verification/Spec2Isabelle.thy ===== *)
theory Spec2Isabelle
  imports Iconnect Catapult_Reset Register_Print Pcie_Threads Dma_Steps Axi_Sink Bedrock Apb_Bridge Vfio_Programs Qdma_Demo
    Dma_Bus Demo_Wiring Pcie_Races
begin

text \<open>
  A model in Isabelle/HOL of the SystemC/TLM co-simulation demos of the repository: the modules
  the demos share, the PCIe accelerator with its drivers, the Catapult shell with its slots engine, and the
  systems some of the demos build out of them.

  \<^bold>\<open>How the code is represented.\<close>  A module is a record of its state, an operation a function
  from the state to a result.  What can stop a run (a failed assertion, a fatal report, an exit,
  an access out of bounds, an uninitialised value that is used, an uncaught exception) is a value
  of \<open>fault\<close>, and \<open>'a res\<close> is \<open>fault + 'a\<close>.  A call that may never return is a partial function into
  an \<open>option\<close>, \<open>None\<close> meaning that it does not return.  Integers have the width of the code, so
  arithmetic wraps where it does.  A blocking transport is a function of the payload, the delay
  and the state of the target (\<open>'s target\<close>); a payload is the record \<open>gp\<close>, with its extensions.
  A thread is modelled twice where its interleaving matters: by what it does between two waits, as one function,
  and step by step, from one place where SystemC gives up control (a \<open>wait\<close>, a blocking call before it has
  reached the other end and before it has returned) to the next.  A step relation, or the step function of a system with
  its host, then puts the steps in any order, and a lemma says that undisturbed steps add up to the function.

  \<^bold>\<open>Shared parts.\<close>  \<open>Prelude\<close>: faults, results, bytes of integers (\<open>le_bytes\<close>, \<open>le_word\<close>, \<open>poke\<close>).
  \<open>Tlm\<close>: payloads, the checks register ports make, and the locale \<open>tlm_target\<close>, the contract
  every blocking target of the development is shown to keep: it changes nothing of the payload
  but response and data, and not the data of a write.  \<open>Memory\<close>: memories behind a socket.
  \<open>Interleaving\<close>: what a system whose processes take turns can reach, the rule for its invariants and the
  rule for progress.
  \<open>Ostream\<close>: the console, a stream with flags, fill and width, for the code whose output depends on what
  was printed before.

  \<^bold>\<open>Interconnect.\<close>  \<open>Iconnect\<close> (\<open>iconnect.h\<close>): the map of address ranges, \<open>memmap\<close>,
  \<open>map_address\<close>, \<open>unmap_offset\<close>, blocking and debug transport, DMI.  Decoding is shown to be the
  first claim of the address in the list of regions, and the locale \<open>bus_targets\<close> shows that a bus
  of well-behaved targets is one.  \<open>Demo_Maps\<close>: the address maps of all the demos and the
  interconnects they build; every device is reachable at every offset of its region, whatever
  the memory of the map held before.  \<open>Demo_Sockets\<close>: which module drives which port and which
  interrupt line; all sockets are bound, and every master reaches every device, up to the offset of its port.  \<open>Cdx_System\<close> (\<open>versal_net_cdx_stub.cc\<close>): counter, stream-id
  device and the path of a DMA access.  \<open>Bedrock\<close> (\<open>bedrock_cdx.cc\<close>): the Catapult device on its
  bus, both directions, and the command line.  \<open>Qdma_Demo\<close> (\<open>pcie/versal/cpm-qdma-demo.cc\<close>): BARs,
  interrupt lines and configuration space of the QDMA.  \<open>Demo_Top\<close> (the \<open>sc_main\<close> of the other demos,
  \<open>trace.cc\<close>): command lines, the reset signals as a step relation of SystemC processes, and the walk that
  traces signals, shown to record exactly the ones of the listed types.  \<open>Demo_Wiring\<close>: the signals of the
  tops and the ports bound to them: no port is bound twice, every binding names a signal of the top, and every signal is traced.  The directions
  of the ports are those of library modules and are not modelled.

  \<^bold>\<open>Devices.\<close>  \<open>Debug_Dev\<close> (\<open>debugdev.cc\<close>).  \<open>Demo_Dma\<close> (\<open>demo-dma.cc\<close>): register port and copy
  thread; a run of the thread copies the memory as one assignment would.  \<open>Dma_Bus\<close>: the same for the device on
  the bus of a demo, between two ranges of a memory of the demo.  \<open>Dma_Steps\<close>: the thread, the calls of the register
  port and the timed event step by step; the thread never sleeps on work, every acknowledgement reaches the interrupt
  line, and a polled copy is right at every moment and ends.  \<open>Axi_Dma\<close> and
  \<open>Axi_Channels\<close> (\<open>xilinx-axidma.cc\<close>): the common registers, a turn of the memory-to-stream thread, a call of the
  stream-to-memory port, and packets.  \<open>Axi_Steps\<close>: the thread step by step with its host; its assertion holds
  whatever the host does, a polled transfer sends its range in marked packets and ends.  \<open>Axi_Sink\<close>: the process in the stream port
  step by step; back-pressure loses nothing, a polled stream is stored, and the two channels together copy
  memory.  \<open>Apb_Bridge\<close>
  (\<open>tlm2apb-bridge.h\<close>, \<open>apb_timer.v\<close>): the bridge as a run of clock edges; the locale \<open>apb_slave\<close>
  holds what it needs of a slave, and the timer is shown to be one.  No file includes this header: the demos use the bridge of the same
  name of \<open>libsystemctlm-soc\<close>, so this theory says nothing about their timer.

  \<^bold>\<open>PCIe accelerator.\<close>  \<open>Pcie_Atc\<close>, \<open>Pcie_Acc\<close>, \<open>Pcie_Threads\<close> (\<open>pcie-ats-demo/pcie-acc.h\<close>): the
  address translation cache, the registers behind BAR 0, the events and the four threads;
  when the threads end, when they cannot, and what they compute from the bytes the cache shows.
  \<open>Pcie_Coherent\<close> adds an agent that serves the pages of one page table: the cache stays in agreement
  with it, and the threads work on the bytes of the table.  \<open>Pcie_Steps\<close>: the four threads as program counters,
  the step function \<open>sys_step\<close> of the accelerator with host, invalidations and surroundings.  \<open>Pcie_Rest\<close>: what is left of a command in
  the middle of it, and that a step does the first part of it.  \<open>Pcie_Schedules\<close>: under every schedule a polled
  command is one atomic run, and it ends.  \<open>Pcie_Races\<close>: what remains true when hosts and invalidations interfere, a digest is right or an
  error is reported and no access leaves the pages of the range, and what is lost: an access whose page is invalidated between its two requests, a command for a busy thread.  \<open>Vfio_Tests\<close>
  (\<open>test-pcie-ats-demo-vfio.cc\<close>, \<open>pcie-acc-md5sum-vfio.cc\<close>): the driver programs, over the locale
  \<open>vfio_device\<close> for what polling needs of a device and the locale \<open>acc_host\<close> for the accelerator behind it, interpreted on
  the atomic accelerator and on the one that takes a thread step per poll: the programs return and print the digest of the right bytes, in a format that
  drops digits of \<open>md5sum\<close> in the cases it says.  \<open>Vfio_Programs\<close>: their \<open>sc_main\<close>, the mapping the test
  program shares with the device, and a log of its memory calls, which shows that it returns what it maps; on the accelerator the whole test program passes.

  \<^bold>\<open>Catapult.\<close>  \<open>Register_Map\<close> (\<open>register_map.hpp\<close>), \<open>Width_Adapter\<close> (\<open>register_adapter.hpp\<close>): 64-bit
  registers over a 32-bit bus, equivalent to single writes, with the invariant of the held half.
  \<open>Slots_Engine\<close>, \<open>Slots_Thread\<close> (\<open>slots_dma.cc\<close>): the register table of the engine, doorbells,
  the round-robin scan, and the thread with its host as the relation \<open>dma_step\<close>; no wake-up is
  lost, the scan is fair, an engine without slots drains.  \<open>Hello_Role\<close> (\<open>hello_world.cc\<close>),
  \<open>Catapult_Address\<close>, \<open>Shell_Registers\<close>, \<open>Catapult_Device\<close> (\<open>catapult_device.cc\<close>): the address
  windows, the shell register table, transactions and DMA; \<open>Catapult_Reset\<close>: what a reset brings back,
  and that the width adapter is not part of it, which the reset thread of Bedrock runs into.  \<open>Manipulators\<close> (\<open>manipulators.hpp\<close>) and
  \<open>Register_Print\<close> (the printing of \<open>register_map.hpp\<close>): hexadecimal output that reads back as the value, the
  columns of a register table, and the settings each leaves on the stream.

  \<^bold>\<open>Parameters.\<close>  Code outside the repository is an argument: memories, translation agents and MD5
  routines (\<open>reads_memory\<close>, \<open>page_agent\<close>, \<open>serves_pages\<close>, \<open>hashes_in_pieces\<close> name what is
  asked of them), the constants of the Catapult shell headers, the operating system under the
  drivers, the attribute bits of the extensions, the clock.  Memory the code does not initialise
  is an argument too (\<open>raw_map\<close>, \<open>raw_offset\<close>), except two stack buffers of the PCIe accelerator, which are zeros (see \<open>Pcie_Acc\<close>).

  \<^bold>\<open>Bounds and fuel.\<close>  No definition is cut off by fuel: loops that end are functions with a
  termination proof, the others partial functions, and the theorems about them say when they
  return.  Where the number of steps matters it is in the theorem: one and three for each started 2 KB of a
  memory-to-stream transfer, three for each packet of a stream, five for each started 32 bytes of the demo DMA.  Ranges are kept a few pages below \<open>2 ^ 64\<close> where the code adds page sizes to addresses.
  Schedules are arbitrary; where progress is claimed they let the device run again and again.

  \<^bold>\<open>Not modelled.\<close>  Console output apart from the register banks, the manipulators and what a
  property is about, the VCD files, the construction of library modules, the tracing options of
  Verilator, the XGMII phy, a pair of library bridges, and the Verilog wrappers, conversions
  through \<open>double\<close> (times in nanoseconds, the quantum as a time), and \<open>set_slot_config\<close>, which the
  repository declares without a body.
\<close>

end
